(* ===== verification/Closed_Fsm.thy ===== *)
theory Closed_Fsm
  imports Sky_Prelude
begin

text \<open>
  The interface of every closed state machine of the program: a table of allowed edges
  that only ever moves forward. The tool tasks, the journal transactions, the protection
  transaction and its per-node write-ahead log all declare such a table; each of them
  interprets this locale on its own table, which gives it the facts proved here: a
  history never returns to a state it has left, a terminal state has no history after
  it, and the number of transitions is bounded.
\<close>

fun fsm_path :: "('s \<Rightarrow> 's \<Rightarrow> bool) \<Rightarrow> 's \<Rightarrow> 's list \<Rightarrow> bool" where
  "fsm_path edge s [] = True"
| "fsm_path edge s (t # ts) = (edge s t \<and> fsm_path edge t ts)"

lemma fsm_path_append:
  "fsm_path edge s (ts @ us) \<longleftrightarrow> fsm_path edge s ts \<and> fsm_path edge (last (s # ts)) us"
  by (induction ts arbitrary: s) auto

locale closed_fsm =
  fixes edge :: "'s \<Rightarrow> 's \<Rightarrow> bool"
    and rank :: "'s \<Rightarrow> nat"
  assumes edge_rank: "edge s t \<Longrightarrow> rank t < rank s"
begin

lemma edge_irrefl: "\<not> edge s s"
  using edge_rank [of s s] by auto

lemma path_rank: "fsm_path edge s ts \<Longrightarrow> t \<in> set ts \<Longrightarrow> rank t < rank s"
  by (induction ts arbitrary: s) (auto dest: edge_rank less_trans)

lemma path_never_returns: "fsm_path edge s ts \<Longrightarrow> s \<notin> set ts"
  using path_rank by blast

lemma path_distinct: "fsm_path edge s ts \<Longrightarrow> distinct (s # ts)"
proof (induction ts arbitrary: s)
  case (Cons t ts)
  from Cons.prems have "s \<notin> set (t # ts)" by (rule path_never_returns)
  moreover have "distinct (t # ts)" using Cons.prems by (intro Cons.IH) simp
  ultimately show ?case by (simp only: distinct.simps simp_thms)
qed simp

lemma path_length: "fsm_path edge s ts \<Longrightarrow> length ts \<le> rank s"
proof (induction ts arbitrary: s)
  case (Cons t ts)
  then have "length ts \<le> rank t" and "rank t < rank s"
    by (auto dest: edge_rank)
  then show ?case by simp
qed simp

lemma terminal_absorbing: "rank s = 0 \<Longrightarrow> fsm_path edge s ts \<longleftrightarrow> ts = []"
  by (cases ts) (auto dest: edge_rank)

lemma terminal_no_edge: "rank s = 0 \<Longrightarrow> \<not> edge s t"
  using edge_rank [of s t] by auto

end

end
