(* ===== verification/Utf8_Text.thy ===== *)
theory Utf8_Text
  imports Sky_Prelude
begin

text \<open>
  Text as the list of its bytes in UTF-8, for the components whose strings are not restricted to
  ASCII: the strict decoder's test \<open>utf8_ok\<close>, the encoder of a code point, and \<open>str.strip\<close>.
  A lone surrogate, which Python's strings may hold and UTF-8 may not, is the three bytes of its
  code point; \<open>utf8_ok\<close> refuses it as \<open>encode\<close> and \<open>decode\<close> do.
\<close>

subsection \<open>The strict decoder\<close>

definition byte_of :: "char \<Rightarrow> nat" where
  "byte_of c = of_char c"

definition utf8_cont :: "char \<Rightarrow> bool" where
  "utf8_cont c \<longleftrightarrow> 128 \<le> byte_of c \<and> byte_of c < 192"

text \<open>One code point off the front, refusing overlong forms, surrogates and values above 0x10FFFF.\<close>

definition utf8_next :: "string \<Rightarrow> string option" where
  "utf8_next s =
    (case s of
       [] \<Rightarrow> None
     | b # bs \<Rightarrow>
         if byte_of b < 128 then Some bs
         else if 194 \<le> byte_of b \<and> byte_of b < 224
           then (case bs of c1 # r \<Rightarrow> if utf8_cont c1 then Some r else None | _ \<Rightarrow> None)
         else if 224 \<le> byte_of b \<and> byte_of b < 240
           then (case bs of
               c1 # c2 # r \<Rightarrow>
                 if utf8_cont c1 \<and> utf8_cont c2 \<and> (byte_of b = 224 \<longrightarrow> 160 \<le> byte_of c1) \<and> (byte_of b = 237 \<longrightarrow> byte_of c1 < 160)
                 then Some r else None
             | _ \<Rightarrow> None)
         else if 240 \<le> byte_of b \<and> byte_of b < 245
           then (case bs of
               c1 # c2 # c3 # r \<Rightarrow>
                 if utf8_cont c1 \<and> utf8_cont c2 \<and> utf8_cont c3 \<and> (byte_of b = 240 \<longrightarrow> 144 \<le> byte_of c1)
                   \<and> (byte_of b = 244 \<longrightarrow> byte_of c1 < 144)
                 then Some r else None
             | _ \<Rightarrow> None)
         else None)"

lemma utf8_next_chunk:
  assumes "utf8_next s = Some r"
  shows "\<exists>p. s = p @ r \<and> p \<noteq> [] \<and> ((\<exists>c. p = [c] \<and> byte_of c < 128) \<or> (\<forall>c \<in> set p. 128 \<le> byte_of c))
    \<and> (\<forall>t. utf8_next (p @ t) = Some t)"
proof -
  obtain b bs where s: "s = b # bs" using assms by (cases s) (simp_all add: utf8_next_def)
  consider "byte_of b < 128" | "\<not> byte_of b < 128" "194 \<le> byte_of b" "byte_of b < 224"
    | "224 \<le> byte_of b" "byte_of b < 240" | "240 \<le> byte_of b" "byte_of b < 245"
    using assms by (auto simp: s utf8_next_def split: if_splits)
  then show ?thesis
  proof cases
    case 1
    with assms show ?thesis by (intro exI [of _ "[b]"]) (simp add: s utf8_next_def)
  next
    case 2
    with assms obtain c1 where "bs = c1 # r" "utf8_cont c1"
      by (auto simp: s utf8_next_def split: list.splits if_splits)
    with 2 show ?thesis by (intro exI [of _ "[b, c1]"]) (simp add: s utf8_next_def utf8_cont_def)
  next
    case 3
    with assms obtain c1 c2 where "bs = c1 # c2 # r" "utf8_cont c1" "utf8_cont c2"
        "byte_of b = 224 \<longrightarrow> 160 \<le> byte_of c1" "byte_of b = 237 \<longrightarrow> byte_of c1 < 160"
      by (auto simp: s utf8_next_def split: list.splits if_splits)
    with 3 show ?thesis by (intro exI [of _ "[b, c1, c2]"]) (simp add: s utf8_next_def utf8_cont_def)
  next
    case 4
    with assms obtain c1 c2 c3 where "bs = c1 # c2 # c3 # r" "utf8_cont c1" "utf8_cont c2" "utf8_cont c3"
        "byte_of b = 240 \<longrightarrow> 144 \<le> byte_of c1" "byte_of b = 244 \<longrightarrow> byte_of c1 < 144"
      by (auto simp: s utf8_next_def split: list.splits if_splits)
    with 4 show ?thesis by (intro exI [of _ "[b, c1, c2, c3]"]) (simp add: s utf8_next_def utf8_cont_def)
  qed
qed

lemma utf8_next_shorter: "utf8_next s = Some r \<Longrightarrow> length r < length s"
  by (drule utf8_next_chunk) auto

function utf8_ok :: "string \<Rightarrow> bool" where
  "utf8_ok s = (s = [] \<or> (case utf8_next s of None \<Rightarrow> False | Some r \<Rightarrow> utf8_ok r))"
  by pat_completeness auto
termination
  by (relation "measure length") (auto dest: utf8_next_shorter)

declare utf8_ok.simps [simp del]

lemma utf8_ok_Nil [simp]: "utf8_ok []"
  by (simp add: utf8_ok.simps)

lemma utf8_ok_Cons_ascii [simp]: "byte_of c < 128 \<Longrightarrow> utf8_ok (c # cs) = utf8_ok cs"
  by (subst utf8_ok.simps) (simp add: utf8_next_def)

lemma utf8_induct [consumes 1, case_names Nil ascii multi]:
  assumes "utf8_ok s" and "P []"
    and "\<And>c r. byte_of c < 128 \<Longrightarrow> utf8_ok r \<Longrightarrow> P r \<Longrightarrow> P (c # r)"
    and "\<And>p r. \<forall>c \<in> set p. 128 \<le> byte_of c \<Longrightarrow> \<forall>t. utf8_ok (p @ t) = utf8_ok t \<Longrightarrow> utf8_ok r \<Longrightarrow> P r \<Longrightarrow> P (p @ r)"
  shows "P s"
  using assms(1)
proof (induction s rule: utf8_ok.induct)
  case (1 s)
  show ?case
  proof (cases "s = []")
    case False
    with "1.prems" obtain r where r: "utf8_next s = Some r" "utf8_ok r"
      by (subst (asm) utf8_ok.simps) (auto split: option.splits)
    with "1.IH" False have "P r" by simp
    from utf8_next_chunk [OF r(1)] obtain p where p: "s = p @ r" "p \<noteq> []"
      "(\<exists>c. p = [c] \<and> byte_of c < 128) \<or> (\<forall>c \<in> set p. 128 \<le> byte_of c)" "\<forall>t. utf8_next (p @ t) = Some t" by blast
    have step: "utf8_ok (p @ t) = utf8_ok t" for t
      using p(2,4) by (subst utf8_ok.simps) simp
    from p(3) show ?thesis
    proof
      assume "\<exists>c. p = [c] \<and> byte_of c < 128"
      with p(1) r(2) \<open>P r\<close> assms(3) show ?thesis by auto
    next
      assume "\<forall>c \<in> set p. 128 \<le> byte_of c"
      with step r(2) \<open>P r\<close> assms(4) show ?thesis unfolding p(1) by blast
    qed
  qed (use assms(2) in simp)
qed

definition utf8_encode :: "nat \<Rightarrow> string" where
  "utf8_encode n =
    (if n < 128 then [char_of n]
     else if n < 2048 then [char_of (192 + n div 64), char_of (128 + n mod 64)]
     else if n < 65536 then [char_of (224 + n div 4096), char_of (128 + n div 64 mod 64), char_of (128 + n mod 64)]
     else [char_of (240 + n div 262144), char_of (128 + n div 4096 mod 64), char_of (128 + n div 64 mod 64),
           char_of (128 + n mod 64)])"

text \<open>The code points of a text. A lone surrogate, which \<open>str\<close> may hold, takes three bytes like its
  neighbours.\<close>

fun points :: "string \<Rightarrow> nat list" where
  "points [] = []"
| "points (a # s) =
    (if byte_of a < 192 then byte_of a # points s
     else case s of
       [] \<Rightarrow> [byte_of a]
     | b # s' \<Rightarrow>
         if byte_of a < 224 then ((byte_of a - 192) * 64 + byte_of b mod 64) # points s'
         else case s' of
           [] \<Rightarrow> [byte_of a]
         | c # s'' \<Rightarrow>
             if byte_of a < 240 then ((byte_of a - 224) * 4096 + byte_of b mod 64 * 64 + byte_of c mod 64) # points s''
             else case s'' of
               [] \<Rightarrow> [byte_of a]
             | d # r \<Rightarrow> ((byte_of a - 240) * 262144 + byte_of b mod 64 * 4096 + byte_of c mod 64 * 64 + byte_of d mod 64) # points r)"

lemma byte_char_of [simp]: "n < 256 \<Longrightarrow> byte_of (char_of n) = n"
  by (simp add: byte_of_def)

lemma byte_of_less [simp]: "byte_of c < 256"
  unfolding byte_of_def by (metis mod_less_divisor of_char_mod_256 zero_less_numeral)

lemma utf8_ok_append: "utf8_ok s \<Longrightarrow> utf8_ok (s @ t) \<longleftrightarrow> utf8_ok t"
  by (induction s rule: utf8_induct) simp_all

lemma utf8_ok_ascii: "(\<And>c. c \<in> set s \<Longrightarrow> byte_of c < 128) \<Longrightarrow> utf8_ok s"
  by (induction s) auto


subsection \<open>\<open>str.strip\<close>\<close>

text \<open>The encodings of the code points for which \<open>str.isspace\<close> holds.\<close>

definition PY_SPACES :: "string list" where
  "PY_SPACES = map utf8_encode ([0x09, 0x0A, 0x0B, 0x0C, 0x0D, 0x1C, 0x1D, 0x1E, 0x1F, 0x20, 0x85, 0xA0, 0x1680]
     @ [0x2000 ..< 0x200B] @ [0x2028, 0x2029, 0x202F, 0x205F, 0x3000])"

function lstrip_by :: "string list \<Rightarrow> string \<Rightarrow> string" where
  "lstrip_by ws s =
    (case find (\<lambda>w. w \<noteq> [] \<and> prefix w s) ws of None \<Rightarrow> s | Some w \<Rightarrow> lstrip_by ws (drop (length w) s))"
  by pat_completeness auto
termination
  by (relation "measure (\<lambda>(ws, s). length s)") (auto simp: find_Some_iff prefix_def)

declare lstrip_by.simps [simp del]

definition rstrip_by :: "string list \<Rightarrow> string \<Rightarrow> string" where
  "rstrip_by ws s = rev (lstrip_by (map rev ws) (rev s))"

definition py_strip :: "string \<Rightarrow> string" where
  "py_strip s = rstrip_by PY_SPACES (lstrip_by PY_SPACES s)"

definition no_space_front :: "string list \<Rightarrow> string \<Rightarrow> bool" where
  "no_space_front ws s \<longleftrightarrow> (\<forall>w \<in> set ws. w \<noteq> [] \<longrightarrow> \<not> prefix w s)"

lemma lstrip_by_front: "no_space_front ws (lstrip_by ws s)"
proof (induction ws s rule: lstrip_by.induct)
  case (1 ws s)
  then show ?case
    by (subst lstrip_by.simps) (auto simp: no_space_front_def find_None_iff split: option.splits)
qed

lemma lstrip_by_id: "no_space_front ws s \<Longrightarrow> lstrip_by ws s = s"
  by (subst lstrip_by.simps) (auto simp: no_space_front_def find_Some_iff split: option.splits)

lemma lstrip_by_suffix: "suffix (lstrip_by ws s) s"
proof (induction ws s rule: lstrip_by.induct)
  case (1 ws s)
  then show ?case
    by (subst lstrip_by.simps) (auto split: option.splits intro: suffix_order.trans suffix_drop)
qed

lemma rstrip_by_prefix: "prefix (rstrip_by ws s) s"
  using lstrip_by_suffix [of "map rev ws" "rev s"] by (simp add: rstrip_by_def suffix_to_prefix)

lemma py_strip_idem [simp]: "py_strip (py_strip s) = py_strip s"
proof -
  let ?t = "lstrip_by PY_SPACES s" and ?ws = "PY_SPACES"
  have "no_space_front ?ws (rstrip_by ?ws ?t)"
    using lstrip_by_front [of ?ws s] rstrip_by_prefix [of ?ws ?t]
    unfolding no_space_front_def by (meson prefix_order.trans)
  then have "lstrip_by ?ws (rstrip_by ?ws ?t) = rstrip_by ?ws ?t" by (rule lstrip_by_id)
  moreover have "rstrip_by ?ws (rstrip_by ?ws ?t) = rstrip_by ?ws ?t"
    by (simp add: rstrip_by_def lstrip_by_id lstrip_by_front)
  ultimately show ?thesis by (simp add: py_strip_def)
qed

text \<open>A text without a space at either end is left alone; ASCII is the case that occurs.\<close>

lemma py_strip_id:
  assumes "no_space_front PY_SPACES s" and "no_space_front (map rev PY_SPACES) (rev s)"
  shows "py_strip s = s"
  using assms by (simp add: py_strip_def rstrip_by_def lstrip_by_id)

text \<open>ASCII text without blanks and control characters is left alone.\<close>

definition graphic :: "char \<Rightarrow> bool" where
  "graphic c \<longleftrightarrow> 32 < (of_char c :: nat) \<and> (of_char c :: nat) < 127"

lemma spaces_not_graphic: "list_all (\<lambda>w. w \<noteq> [] \<and> \<not> graphic (hd w) \<and> \<not> graphic (last w)) PY_SPACES"
  by (simp add: PY_SPACES_def utf8_encode_def graphic_def upt_conv_Cons)

lemma py_strip_graphic:
  assumes "\<And>c. c \<in> set s \<Longrightarrow> graphic c"
  shows "py_strip s = s"
proof (rule py_strip_id)
  have sp: "w \<noteq> [] \<and> \<not> graphic (hd w) \<and> \<not> graphic (last w)" if "w \<in> set PY_SPACES" for w
    using spaces_not_graphic that by (simp add: list_all_iff)
  show "no_space_front PY_SPACES s"
    unfolding no_space_front_def
  proof (intro ballI impI notI)
    fix w assume w: "w \<in> set PY_SPACES" "w \<noteq> []" "prefix w s"
    then have "hd w \<in> set s" by (auto simp: prefix_def)
    with sp [OF w(1)] assms show False by blast
  qed
  show "no_space_front (map rev PY_SPACES) (rev s)"
    unfolding no_space_front_def
  proof (intro ballI impI notI)
    fix v assume "v \<in> set (map rev PY_SPACES)" "v \<noteq> []" "prefix v (rev s)"
    then obtain w where w: "w \<in> set PY_SPACES" "w \<noteq> []" "suffix w s" by (auto simp: suffix_to_prefix)
    then have "last w \<in> set s" by (auto simp: suffix_def)
    with sp [OF w(1)] assms show False by blast
  qed
qed

end
