(* ===== verification/Json_Text.thy ===== *)
theory Json_Text
  imports Utf8_Text
begin

text \<open>
  JSON values as Python's \<open>json\<close> module reads and writes them. An object is the list of its
  pairs in the order written, duplicates included, because the journal's reader rejects a
  duplicate key (\<open>object_pairs_hook\<close>) where \<open>dict\<close> would keep the last. Numbers are
  integers, or the raw lexeme of a float (\<open>JFloat\<close>), which no component computes with.

  \<open>json_text\<close> is \<open>json.dumps\<close> with its \<open>ensure_ascii\<close> flag and the two separators as
  arguments; \<open>sort_keys=True\<close> is \<open>canon\<close> first.
\<close>

datatype json =
    JNull
  | JBool bool
  | JInt int
  | JFloat string
  | JStr string
  | JArr "json list"
  | JObj "(string \<times> json) list"

fun canon :: "json \<Rightarrow> json" where
  "canon (JArr xs) = JArr (map canon xs)"
| "canon (JObj kvs) = JObj (sort_key fst (map (\<lambda>(k, v). (k, canon v)) kvs))"
| "canon j = j"

definition hex_digit :: "nat \<Rightarrow> char" where
  "hex_digit n = (if n < 10 then char_of (48 + n) else char_of (87 + n))"

text \<open>The escapes of one ASCII character; the flag is \<open>ensure_ascii\<close>, which adds the one of DEL.\<close>

definition esc_char :: "bool \<Rightarrow> char \<Rightarrow> string" where
  "esc_char ascii c = (let n = (of_char c :: nat) in
     if n = 34 then [char_of (92 :: nat), CHR 0x22]
     else if n = 92 then [char_of (92 :: nat), char_of (92 :: nat)]
     else if n = 10 then [char_of (92 :: nat), CHR ''n'']
     else if n = 13 then [char_of (92 :: nat), CHR ''r'']
     else if n = 9 then [char_of (92 :: nat), CHR ''t'']
     else if n = 12 then [char_of (92 :: nat), CHR ''f'']
     else if n = 8 then [char_of (92 :: nat), CHR ''b'']
     else if n < 32 \<or> (ascii \<and> n = 127)
       then [char_of (92 :: nat), CHR ''u'', CHR ''0'', CHR ''0'', hex_digit (n div 16), hex_digit (n mod 16)]
     else [c])"

definition esc_unit :: "nat \<Rightarrow> string" where
  "esc_unit n = [char_of (92 :: nat), CHR ''u'', hex_digit (n div 4096), hex_digit (n div 256 mod 16),
     hex_digit (n div 16 mod 16), hex_digit (n mod 16)]"

text \<open>With \<open>ensure_ascii\<close> the other code points are escaped as their UTF-16 units.\<close>

definition esc_point :: "nat \<Rightarrow> string" where
  "esc_point n =
    (if n < 128 then esc_char True (char_of n)
     else if n < 0x10000 then esc_unit n
     else esc_unit (0xD800 + (n - 0x10000) div 1024) @ esc_unit (0xDC00 + (n - 0x10000) mod 1024))"

definition quote_body :: "bool \<Rightarrow> string \<Rightarrow> string" where
  "quote_body ascii s = (if ascii then concat (map esc_point (points s)) else concat (map (esc_char False) s))"

definition quote :: "bool \<Rightarrow> string \<Rightarrow> string" where
  "quote ascii s = CHR 0x22 # quote_body ascii s @ [CHR 0x22]"

fun join :: "string \<Rightarrow> string list \<Rightarrow> string" where
  "join sep [] = []"
| "join sep [x] = x"
| "join sep (x # y # ys) = x @ sep @ join sep (y # ys)"

definition show_int :: "int \<Rightarrow> string" where
  "show_int i = (if i < 0 then CHR ''-'' # show_nat (nat (- i)) else show_nat (nat i))"

fun json_text :: "bool \<Rightarrow> string \<Rightarrow> string \<Rightarrow> json \<Rightarrow> string" where
  "json_text a isep ksep JNull = ''null''"
| "json_text a isep ksep (JBool b) = (if b then ''true'' else ''false'')"
| "json_text a isep ksep (JInt i) = show_int i"
| "json_text a isep ksep (JFloat s) = s"
| "json_text a isep ksep (JStr s) = quote a s"
| "json_text a isep ksep (JArr xs) = ''['' @ join isep (map (json_text a isep ksep) xs) @ '']''"
| "json_text a isep ksep (JObj kvs) =
     ''{'' @ join isep (map (\<lambda>(k, v). quote a k @ ksep @ json_text a isep ksep v) kvs) @ ''}''"

text \<open>Sorting by key forgets the order in which distinct keys were inserted.\<close>

lemma distinct_fst_sort [simp]:
  fixes kvs :: "('k :: linorder \<times> 'v) list"
  shows "distinct (map fst (sort_key fst kvs)) = distinct (map fst kvs)"
  by (induction kvs) (simp_all add: distinct_insort_key)

lemma sort_key_fst_perm:
  fixes kvs kvs' :: "('k :: linorder \<times> 'v) list"
  assumes "distinct (map fst kvs)" and "distinct (map fst kvs')" and "set kvs' = set kvs"
  shows "sort_key fst kvs' = sort_key fst kvs"
proof (rule map_sorted_distinct_set_unique [where f = fst])
  show "inj_on fst (set (sort_key fst kvs') \<union> set (sort_key fst kvs))"
    using assms by (simp add: distinct_map)
qed (use assms in simp_all)

end
