(* ===== verification/Tool_State_Machine.thy ===== *)
theory Tool_State_Machine
  imports Closed_Fsm Json_Text
begin

text \<open>
  \<open>sky_claw/app/orchestrator/tool_state_machine.py\<close>: the life of one execution of a tool
  (\<open>ToolStateMachine\<close>) and the guard against two concurrent executions of the same call
  (\<open>IdempotencyGuard\<close>). States are the strings of the source, so an unknown state is a
  value the operations meet, as it is in the code. SHA-256 is the argument \<open>sha\<close>; each
  reading of the monotonic clock is an argument.
\<close>

subsection \<open>States and tables\<close>

definition VALID_TRANSITIONS :: "(string, string list) dict" where
  "VALID_TRANSITIONS =
    [(''PENDING'', [''RUNNING'', ''AWAITING_APPROVAL'']),
     (''AWAITING_APPROVAL'', [''RUNNING'', ''FAILED'']),
     (''RUNNING'', [''COMPLETED'', ''FAILED'', ''AWAITING_OPERATOR'']),
     (''COMPLETED'', []),
     (''FAILED'', []),
     (''AWAITING_OPERATOR'', [])]"

definition TERMINAL_STATES :: "string list" where
  "TERMINAL_STATES = [''COMPLETED'', ''FAILED'', ''AWAITING_OPERATOR'']"

definition allowed_targets :: "string \<Rightarrow> string list" where
  "allowed_targets s = (case dget VALID_TRANSITIONS s of None \<Rightarrow> [] | Some ts \<Rightarrow> ts)"

definition task_edge :: "string \<Rightarrow> string \<Rightarrow> bool" where
  "task_edge s t \<longleftrightarrow> t \<in> set (allowed_targets s)"

definition task_rank :: "string \<Rightarrow> nat" where
  "task_rank s =
    (if s = ''PENDING'' then 3 else if s = ''AWAITING_APPROVAL'' then 2
     else if s = ''RUNNING'' then 1 else 0)"

record task_record =
  task_id :: string
  tool_name :: string
  task_state :: string
  idempotency_key :: string
  created_at :: int
  updated_at :: int
  error_message :: "string option"
  task_result :: "json option"

datatype tsm_error = KeyError string | InvalidTransitionError "string option" string

subsection \<open>IdempotencyGuard\<close>

record guard =
  active_keys :: "(string, string \<times> int) dict"
  key_ttl_seconds :: int

definition guard_init :: "int \<Rightarrow> guard" where
  "guard_init ttl = \<lparr>active_keys = [], key_ttl_seconds = ttl\<rparr>"

definition make_key :: "(string \<Rightarrow> string) \<Rightarrow> string \<Rightarrow> (string \<times> json) list \<Rightarrow> string" where
  "make_key sha tool payload =
     sha (tool @ '':'' @ json_text True '', '' '': '' (canon (JObj payload)))"

definition is_expired :: "guard \<Rightarrow> int \<Rightarrow> int \<Rightarrow> bool" where
  "is_expired g now ts = (if key_ttl_seconds g \<le> 0 then False else now - ts > key_ttl_seconds g)"

text \<open>\<open>acquire\<close> reads the clock twice: in the expiry check and for the stored time.\<close>

definition guard_acquire :: "guard \<Rightarrow> int \<Rightarrow> int \<Rightarrow> string \<Rightarrow> string \<Rightarrow> bool \<times> guard" where
  "guard_acquire g now now' key tid =
    (case dget (active_keys g) key of
       Some (existing_task, ts) \<Rightarrow>
         if \<not> is_expired g now ts then (False, g)
         else (True, g\<lparr>active_keys := dset key (tid, now') (active_keys g)\<rparr>)
     | None \<Rightarrow> (True, g\<lparr>active_keys := dset key (tid, now') (active_keys g)\<rparr>))"

definition guard_release :: "guard \<Rightarrow> string \<Rightarrow> string option \<Rightarrow> guard" where
  "guard_release g key tid =
    (case tid of
       None \<Rightarrow> g\<lparr>active_keys := ddel key (active_keys g)\<rparr>
     | Some t \<Rightarrow>
         (case dget (active_keys g) key of
            None \<Rightarrow> g
          | Some (owner, ts) \<Rightarrow>
              if owner = t then g\<lparr>active_keys := ddel key (active_keys g)\<rparr> else g))"

definition prune_expired :: "guard \<Rightarrow> int \<Rightarrow> guard" where
  "prune_expired g now =
    (if key_ttl_seconds g \<le> 0 then g
     else let stale = map fst (filter (\<lambda>(key, task, ts). now - ts > key_ttl_seconds g) (active_keys g))
          in g\<lparr>active_keys := fold ddel stale (active_keys g)\<rparr>)"

definition active_count :: "guard \<Rightarrow> int \<Rightarrow> nat \<times> guard" where
  "active_count g now = (let g' = prune_expired g now in (length (active_keys g'), g'))"

definition guard_is_active :: "guard \<Rightarrow> int \<Rightarrow> string \<Rightarrow> bool" where
  "guard_is_active g now key =
    (case dget (active_keys g) key of None \<Rightarrow> False | Some (task, ts) \<Rightarrow> \<not> is_expired g now ts)"

subsection \<open>ToolStateMachine\<close>

record tool_machine =
  tasks :: "(string, task_record) dict"
  tguard :: guard
  task_counter :: nat

definition tsm_init :: tool_machine where
  "tsm_init = \<lparr>tasks = [], tguard = guard_init 3600, task_counter = 0\<rparr>"

definition task_name :: "nat \<Rightarrow> string" where
  "task_name n = ''task_'' @ show_nat n"

definition create_task ::
  "(string \<Rightarrow> string) \<Rightarrow> tool_machine \<Rightarrow> int \<Rightarrow> string \<Rightarrow> (string \<times> json) list \<Rightarrow> string
   \<Rightarrow> tsm_error + (task_record \<times> tool_machine)" where
  "create_task sha m now tool payload initial_state =
    (if initial_state \<notin> set [''PENDING'', ''AWAITING_APPROVAL'']
     then Inl (InvalidTransitionError None initial_state)
     else
       let c = Suc (task_counter m);
           tid = task_name c;
           rec = \<lparr>task_id = tid, tool_name = tool, task_state = initial_state,
                  idempotency_key = make_key sha tool payload, created_at = now, updated_at = now,
                  error_message = None, task_result = None\<rparr>
       in Inr (rec, m\<lparr>tasks := dset tid rec (tasks m), task_counter := c\<rparr>))"

definition transition ::
  "tool_machine \<Rightarrow> int \<Rightarrow> string \<Rightarrow> string \<Rightarrow> json option \<Rightarrow> string option
   \<Rightarrow> tsm_error + (task_record \<times> tool_machine)" where
  "transition m now tid new_state res err =
    (case dget (tasks m) tid of
       None \<Rightarrow> Inl (KeyError tid)
     | Some current \<Rightarrow>
         if new_state \<notin> set (allowed_targets (task_state current))
         then Inl (InvalidTransitionError (Some (task_state current)) new_state)
         else
           let g = (if new_state \<in> set TERMINAL_STATES
                    then guard_release (tguard m) (idempotency_key current) (Some (task_id current))
                    else tguard m);
               updated = \<lparr>task_id = tid, tool_name = tool_name current, task_state = new_state,
                  idempotency_key = idempotency_key current, created_at = created_at current,
                  updated_at = now, error_message = err, task_result = res\<rparr>
           in Inr (updated, m\<lparr>tasks := dset tid updated (tasks m), tguard := g\<rparr>))"

definition get_task :: "tool_machine \<Rightarrow> string \<Rightarrow> task_record option" where
  "get_task m tid = dget (tasks m) tid"

definition active_task_count :: "tool_machine \<Rightarrow> nat" where
  "active_task_count m = length (filter (\<lambda>(tid, t). task_state t \<notin> set TERMINAL_STATES) (tasks m))"

definition acquire_idempotency ::
  "tool_machine \<Rightarrow> int \<Rightarrow> int \<Rightarrow> string \<Rightarrow> tsm_error + (bool \<times> tool_machine)" where
  "acquire_idempotency m now now' tid =
    (case dget (tasks m) tid of
       None \<Rightarrow> Inl (KeyError tid)
     | Some task \<Rightarrow>
         let (ok, g) = guard_acquire (tguard m) now now' (idempotency_key task) tid
         in Inr (ok, m\<lparr>tguard := g\<rparr>))"

definition cleanup_terminal :: "tool_machine \<Rightarrow> int \<Rightarrow> int \<Rightarrow> nat \<times> tool_machine" where
  "cleanup_terminal m now max_age =
    (let to_remove = map fst (filter (\<lambda>(tid, task).
           task_state task \<in> set TERMINAL_STATES \<and> now - updated_at task \<ge> max_age) (tasks m))
     in (length to_remove, m\<lparr>tasks := fold ddel to_remove (tasks m)\<rparr>))"

subsection \<open>The table is a closed state machine\<close>

lemma allowed_targets_cases [fsm_tables]:
  "allowed_targets s =
    (if s = ''PENDING'' then [''RUNNING'', ''AWAITING_APPROVAL'']
     else if s = ''AWAITING_APPROVAL'' then [''RUNNING'', ''FAILED'']
     else if s = ''RUNNING'' then [''COMPLETED'', ''FAILED'', ''AWAITING_OPERATOR'']
     else [])"
  by (simp add: allowed_targets_def VALID_TRANSITIONS_def)

lemma task_edge_rank: "task_edge s t \<Longrightarrow> task_rank t < task_rank s"
  by (auto simp: task_edge_def allowed_targets_cases task_rank_def split: if_splits)

interpretation task_fsm: closed_fsm task_edge task_rank
  by unfold_locales (rule task_edge_rank)

lemma terminal_state_rank: "s \<in> set TERMINAL_STATES \<Longrightarrow> task_rank s = 0"
  by (auto simp: TERMINAL_STATES_def task_rank_def)

lemma terminal_state_no_edge: "s \<in> set TERMINAL_STATES \<Longrightarrow> \<not> task_edge s t"
  by (rule task_fsm.terminal_no_edge) (rule terminal_state_rank)

subsection \<open>The steps of the machine\<close>

text \<open>
  Every public operation of the class that changes its state, and the operations of the
  guard it hands out through its \<open>guard\<close> property.
\<close>

datatype guard_op =
    GAcquire int int string string
  | GRelease string "string option"
  | GPrune int

fun guard_exec :: "guard \<Rightarrow> guard_op \<Rightarrow> bool \<times> guard" where
  "guard_exec g (GAcquire now now' key tid) = guard_acquire g now now' key tid"
| "guard_exec g (GRelease key tid) = (True, guard_release g key tid)"
| "guard_exec g (GPrune now) = (True, snd (active_count g now))"

fun guard_run :: "guard \<Rightarrow> guard_op list \<Rightarrow> bool list \<times> guard" where
  "guard_run g [] = ([], g)"
| "guard_run g (op # ops) =
    (let (ok, g') = guard_exec g op; (oks, g'') = guard_run g' ops in (ok # oks, g''))"

inductive tsm_step :: "(string \<Rightarrow> string) \<Rightarrow> tool_machine \<Rightarrow> tool_machine \<Rightarrow> bool" for sha where
  create: "create_task sha m now tool payload s0 = Inr (r, m') \<Longrightarrow> tsm_step sha m m'"
| trans: "transition m now tid s res err = Inr (r, m') \<Longrightarrow> tsm_step sha m m'"
| idem: "acquire_idempotency m now now' tid = Inr (ok, m') \<Longrightarrow> tsm_step sha m m'"
| clean: "cleanup_terminal m now age = (n, m') \<Longrightarrow> tsm_step sha m m'"
| guard: "guard_exec (tguard m) op = (ok, g) \<Longrightarrow> tsm_step sha m (m\<lparr>tguard := g\<rparr>)"

inductive tsm_reachable :: "(string \<Rightarrow> string) \<Rightarrow> tool_machine \<Rightarrow> bool" for sha where
  start: "tsm_reachable sha tsm_init"
| step: "tsm_reachable sha m \<Longrightarrow> tsm_step sha m m' \<Longrightarrow> tsm_reachable sha m'"

definition task_ok :: "nat \<Rightarrow> string \<Rightarrow> task_record \<Rightarrow> bool" where
  "task_ok c tid r \<longleftrightarrow> task_id r = tid \<and> task_state r \<in> set (map fst VALID_TRANSITIONS)
     \<and> tid \<in> task_name ` {1..c}"

definition tsm_wf :: "tool_machine \<Rightarrow> bool" where
  "tsm_wf m \<longleftrightarrow> dict_wf (tasks m) \<and> dict_wf (active_keys (tguard m))
     \<and> (\<forall>tid r. dget (tasks m) tid = Some r \<longrightarrow> task_ok (task_counter m) tid r)"

lemma task_name_inj [simp]: "task_name m = task_name n \<longleftrightarrow> m = n"
  by (simp add: task_name_def)

lemma guard_exec_wf: "dict_wf (active_keys g) \<Longrightarrow> dict_wf (active_keys (snd (guard_exec g op)))"
  by (cases op) (auto simp: guard_acquire_def guard_release_def active_count_def prune_expired_def Let_def
      split: option.splits)

lemma edge_target_known: "task_edge s t \<Longrightarrow> t \<in> set (map fst VALID_TRANSITIONS)"
  by (auto simp: task_edge_def allowed_targets_cases VALID_TRANSITIONS_def split: if_splits)

lemma tsm_wfD: "tsm_wf m \<Longrightarrow> dget (tasks m) tid = Some r \<Longrightarrow> task_ok (task_counter m) tid r"
  by (simp add: tsm_wf_def)

lemma fresh_task_name: "tsm_wf m \<Longrightarrow> dget (tasks m) (task_name (Suc (task_counter m))) = None"
  by (cases "dget (tasks m) (task_name (Suc (task_counter m)))")
    (auto dest!: tsm_wfD simp: task_ok_def)

lemma task_ok_mono: "task_ok c tid r \<Longrightarrow> c \<le> c' \<Longrightarrow> task_ok c' tid r"
  by (auto simp: task_ok_def)

text \<open>What one step can do to the task with a given id, and to the counter.\<close>

definition task_moves :: "task_record \<Rightarrow> task_record \<Rightarrow> bool" where
  "task_moves r r' \<longleftrightarrow> r' = r
     \<or> (task_edge (task_state r) (task_state r') \<and> task_id r' = task_id r
        \<and> idempotency_key r' = idempotency_key r \<and> tool_name r' = tool_name r \<and> created_at r' = created_at r)"

lemma transition_InrD:
  assumes "transition m now tid s res err = Inr (r', m')"
  obtains r where "dget (tasks m) tid = Some r" and "task_edge (task_state r) s"
    and "r' = r\<lparr>task_id := tid, task_state := s, updated_at := now, error_message := err, task_result := res\<rparr>"
    and "tasks m' = dset tid r' (tasks m)" and "task_counter m' = task_counter m"
    and "tguard m' = (if s \<in> set TERMINAL_STATES
           then guard_release (tguard m) (idempotency_key r) (Some (task_id r)) else tguard m)"
proof -
  from assms obtain r where r: "dget (tasks m) tid = Some r"
    by (auto simp: transition_def split: option.splits)
  with assms have s: "s \<in> set (allowed_targets (task_state r))"
    by (auto simp: transition_def split: if_splits)
  show thesis
    by (rule that [OF r]; use assms r s in \<open>cases r; auto simp: transition_def task_edge_def Let_def\<close>)
qed

lemma create_task_InrD:
  assumes "create_task sha m now tool payload s0 = Inr (r, m')"
  shows "tasks m' = dset (task_name (Suc (task_counter m))) r (tasks m)"
    and "task_counter m' = Suc (task_counter m)" and "tguard m' = tguard m"
    and "task_id r = task_name (Suc (task_counter m))" and "task_state r = s0"
    and "s0 \<in> set [''PENDING'', ''AWAITING_APPROVAL'']"
    and "idempotency_key r = make_key sha tool payload"
  using assms by (auto simp: create_task_def Let_def split: if_splits)

lemma tsm_step_task:
  assumes wf: "tsm_wf m" and st: "tsm_step sha m m'" and t: "dget (tasks m') tid = Some r'"
  shows "(dget (tasks m) tid = None \<and> tid = task_name (Suc (task_counter m)) \<and> task_counter m' = Suc (task_counter m)
            \<and> task_id r' = tid \<and> task_state r' \<in> set [''PENDING'', ''AWAITING_APPROVAL''])
         \<or> (\<exists>r. dget (tasks m) tid = Some r \<and> task_moves r r')"
  using st
proof (cases rule: tsm_step.cases)
  case (create now tool payload s0 r)
  note c = create_task_InrD [OF create]
  with t fresh_task_name [OF wf] show ?thesis
    by (auto simp: task_moves_def split: if_splits)
next
  case (trans now tid' s res err r)
  then obtain q where "dget (tasks m) tid' = Some q" and "task_edge (task_state q) s"
    and "r = q\<lparr>task_id := tid', task_state := s, updated_at := now, error_message := err, task_result := res\<rparr>"
    and "tasks m' = dset tid' r (tasks m)"
    by (rule transition_InrD)
  with t tsm_wfD [OF wf] show ?thesis
    by (auto simp: task_moves_def task_ok_def split: if_splits)
next
  case (idem now now' tid' ok)
  then have "tasks m' = tasks m"
    by (auto simp: acquire_idempotency_def Let_def split: option.splits prod.splits)
  with t show ?thesis by (simp add: task_moves_def)
next
  case (clean now age n)
  then have "tasks m' = fold ddel (map fst (filter (\<lambda>(tid, task).
           task_state task \<in> set TERMINAL_STATES \<and> now - updated_at task \<ge> age) (tasks m))) (tasks m)"
    by (auto simp: cleanup_terminal_def Let_def)
  with t show ?thesis by (auto simp: task_moves_def simp del: set_map split: if_splits)
next
  case (guard op ok g)
  with t show ?thesis by (simp add: task_moves_def)
qed

lemma tsm_step_counter: "tsm_step sha m m' \<Longrightarrow> task_counter m \<le> task_counter m'"
  by (induction rule: tsm_step.induct)
    (auto dest: create_task_InrD(2) elim!: transition_InrD simp: acquire_idempotency_def cleanup_terminal_def Let_def
      split: option.splits prod.splits)

lemma tsm_step_dicts:
  assumes "tsm_wf m" and "tsm_step sha m m'"
  shows "dict_wf (tasks m')" and "dict_wf (active_keys (tguard m'))"
proof -
  from assms(1) have d: "dict_wf (tasks m)" and g: "dict_wf (active_keys (tguard m))"
    by (simp_all add: tsm_wf_def)
  have rel: "dict_wf (active_keys (guard_release (tguard m) k t))" for k t
    using guard_exec_wf [OF g, of "GRelease k t"] by simp
  have acq: "dict_wf (active_keys (snd (guard_acquire (tguard m) n n' k t)))" for n n' k t
    using guard_exec_wf [OF g, of "GAcquire n n' k t"] by simp
  show "dict_wf (tasks m')" using assms(2) d
    by (cases rule: tsm_step.cases)
      (auto dest: create_task_InrD elim!: transition_InrD simp: acquire_idempotency_def cleanup_terminal_def Let_def
        split: option.splits prod.splits)
  show "dict_wf (active_keys (tguard m'))" using assms(2)
  proof (cases rule: tsm_step.cases)
    case (create now tool payload s0 r)
    with g show ?thesis by (simp add: create_task_InrD(3))
  next
    case (trans now tid s res err r)
    with g rel show ?thesis by (auto elim!: transition_InrD split: if_splits)
  next
    case (idem now now' tid ok)
    with acq show ?thesis
      by (auto simp: acquire_idempotency_def Let_def split: option.splits prod.splits) (metis snd_conv)
  next
    case (clean now age n)
    with g show ?thesis by (auto simp: cleanup_terminal_def Let_def)
  next
    case (guard op ok g)
    then show ?thesis using guard_exec_wf [OF g, of op] by simp
  qed
qed

lemma tsm_step_wf:
  assumes "tsm_wf m" and "tsm_step sha m m'"
  shows "tsm_wf m'"
  unfolding tsm_wf_def
proof (intro conjI allI impI)
  fix tid r' assume t: "dget (tasks m') tid = Some r'"
  consider "tid = task_name (Suc (task_counter m))" "task_counter m' = Suc (task_counter m)" "task_id r' = tid"
      "task_state r' \<in> set [''PENDING'', ''AWAITING_APPROVAL'']"
    | r where "dget (tasks m) tid = Some r" "task_moves r r'"
    using tsm_step_task [OF assms t] by blast
  then show "task_ok (task_counter m') tid r'"
  proof cases
    case 1
    then show ?thesis by (auto simp: task_ok_def VALID_TRANSITIONS_def)
  next
    case 2
    then have "task_ok (task_counter m) tid r'"
      using tsm_wfD [OF assms(1)] edge_target_known by (auto simp: task_moves_def task_ok_def)
    then show ?thesis using tsm_step_counter [OF assms(2)] by (rule task_ok_mono)
  qed
qed (use tsm_step_dicts [OF assms] in auto)

lemma tsm_init_wf: "tsm_wf tsm_init"
  by (simp add: tsm_wf_def tsm_init_def guard_init_def)

lemma tsm_reachable_wf: "tsm_reachable sha m \<Longrightarrow> tsm_wf m"
  by (induction rule: tsm_reachable.induct) (auto intro: tsm_init_wf tsm_step_wf)

subsection \<open>Histories\<close>

definition task_history :: "task_record \<Rightarrow> task_record \<Rightarrow> bool" where
  "task_history r r' \<longleftrightarrow> task_id r' = task_id r \<and> tool_name r' = tool_name r
     \<and> idempotency_key r' = idempotency_key r \<and> created_at r' = created_at r
     \<and> (\<exists>ts. fsm_path task_edge (task_state r) ts \<and> task_state r' = last (task_state r # ts)
            \<and> length ts \<le> 3 \<and> (ts = [] \<longrightarrow> r' = r))"

lemma task_history_refl: "task_history r r"
  by (auto simp: task_history_def intro!: exI [of _ "[]"])

lemma task_rank_le: "task_rank s \<le> 3"
  by (simp add: task_rank_def)

lemma task_history_step: "task_history r r' \<Longrightarrow> task_moves r' r'' \<Longrightarrow> task_history r r''"
proof (cases "r'' = r'")
  case False
  assume h: "task_history r r'" and mv: "task_moves r' r''"
  from h obtain ts where ts: "fsm_path task_edge (task_state r) ts" "task_state r' = last (task_state r # ts)"
    by (auto simp: task_history_def)
  from mv False have e: "task_edge (task_state r') (task_state r'')" by (simp add: task_moves_def)
  let ?ts = "ts @ [task_state r'']"
  have p: "fsm_path task_edge (task_state r) ?ts"
    using ts e by (simp add: fsm_path_append)
  then have "length ?ts \<le> 3"
    using task_fsm.path_length [OF p] task_rank_le [of "task_state r"] by linarith
  with p h mv False show ?thesis
    unfolding task_history_def task_moves_def by (intro conjI exI [of _ ?ts]) auto
qed auto

lemma tsm_runs_task:
  assumes "(tsm_step sha)\<^sup>*\<^sup>* m m'" and "tsm_wf m" and "dget (tasks m) tid = Some r"
  shows "tsm_wf m' \<and> task_counter m \<le> task_counter m'
    \<and> (\<forall>r'. dget (tasks m') tid = Some r' \<longrightarrow> task_history r r')"
  using assms(1)
proof (induction rule: rtranclp_induct)
  case base
  with assms show ?case by (simp add: task_history_refl)
next
  case (step y z)
  from tsm_wfD [OF assms(2,3)] obtain n where n: "tid = task_name n" "n \<le> task_counter m"
    by (auto simp: task_ok_def)
  with step.IH have "tid \<noteq> task_name (Suc (task_counter y))" by auto
  then have "task_history r r'" if "dget (tasks z) tid = Some r'" for r'
    using tsm_step_task [OF _ step.hyps(2) that] step.IH task_history_step by blast
  with step show ?case
    using tsm_step_wf tsm_step_counter le_trans by blast
qed

text \<open>C37: from any reachable machine on, whatever operations run and in whatever order, a
  task keeps its identity, tool, idempotency key and creation time, its state moves only
  along declared edges, at most three times, and a record in a terminal state is never
  rewritten (it can only be cleaned up).\<close>

theorem task_lifecycle:
  assumes "tsm_reachable sha m" and "(tsm_step sha)\<^sup>*\<^sup>* m m'"
    and "dget (tasks m) tid = Some r" and "dget (tasks m') tid = Some r'"
  shows "task_history r r' \<and> (task_state r \<in> set TERMINAL_STATES \<longrightarrow> r' = r)"
proof -
  have h: "task_history r r'"
    using tsm_runs_task [OF assms(2) tsm_reachable_wf [OF assms(1)] assms(3)] assms(4) by blast
  moreover have "r' = r" if "task_state r \<in> set TERMINAL_STATES"
    using h task_fsm.terminal_absorbing [OF terminal_state_rank [OF that]]
    by (auto simp: task_history_def)
  ultimately show ?thesis by blast
qed

definition demo_payload :: "(string \<times> json) list" where
  "demo_payload = [(''status'', JStr ''active''), (''page'', JInt 2)]"

definition demo_created :: "task_record \<times> tool_machine" where
  "demo_created = projr (create_task (\<lambda>s. s) tsm_init 10 ''list_mods'' demo_payload ''PENDING'')"

definition demo_running :: "task_record \<times> tool_machine" where
  "demo_running = projr (transition (snd demo_created) 11 ''task_1'' ''RUNNING'' None None)"

lemma demo_task_name: "task_name (Suc 0) = ''task_1''"
  by code_simp

lemma demo_created_eq: "create_task (\<lambda>s. s) tsm_init 10 ''list_mods'' demo_payload ''PENDING'' = Inr demo_created"
  by (simp add: demo_created_def create_task_def Let_def)

lemma demo_created_task: "dget (tasks (snd demo_created)) ''task_1'' = Some (fst demo_created)"
  "task_state (fst demo_created) = ''PENDING''"
  by (simp_all add: demo_created_def create_task_def Let_def tsm_init_def demo_task_name)

lemma demo_running_eq: "transition (snd demo_created) 11 ''task_1'' ''RUNNING'' None None = Inr demo_running"
  by (simp add: demo_running_def transition_def demo_created_task allowed_targets_cases Let_def)

theorem task_lifecycle_witness:
  "task_history (fst demo_created) (fst demo_running)"
proof (rule task_lifecycle [THEN conjunct1])
  show "tsm_reachable (\<lambda>s. s) (snd demo_created)"
    using tsm_reachable.start
    by (rule tsm_reachable.step) (rule tsm_step.create [where r = "fst demo_created"], subst demo_created_eq, simp)
  show "(tsm_step (\<lambda>s. s))\<^sup>*\<^sup>* (snd demo_created) (snd demo_running)"
    by (rule r_into_rtranclp, rule tsm_step.trans [where r = "fst demo_running"]) (subst demo_running_eq, simp)
  show "dget (tasks (snd demo_created)) ''task_1'' = Some (fst demo_created)"
    by (rule demo_created_task)
  show "dget (tasks (snd demo_running)) ''task_1'' = Some (fst demo_running)"
    by (simp add: demo_running_def transition_def demo_created_task allowed_targets_cases Let_def)
qed

subsection \<open>Exclusive execution\<close>

text \<open>The answers to the acquisitions of \<open>key\<close> in a run, in order.\<close>

fun answers_for :: "string \<Rightarrow> guard_op list \<Rightarrow> bool list \<Rightarrow> bool list" where
  "answers_for key (GAcquire n n' k t # ops) (b # bs) =
     (if k = key then b # answers_for key ops bs else answers_for key ops bs)"
| "answers_for key (op # ops) (b # bs) = answers_for key ops bs"
| "answers_for key ops bs = []"

text \<open>An operation that leaves the lease of \<open>key\<close> by \<open>tid\<close> alone: any acquisition or
  pruning whose clock reading is within the time to live, any release of another key, and
  any release of \<open>key\<close> that names another owner.\<close>

fun harmless :: "string \<Rightarrow> string \<Rightarrow> int \<Rightarrow> guard_op \<Rightarrow> bool" where
  "harmless key tid until (GAcquire n n' k t) = (n \<le> until)"
| "harmless key tid until (GRelease k t) = (k = key \<longrightarrow> t \<noteq> None \<and> t \<noteq> Some tid)"
| "harmless key tid until (GPrune n) = (n \<le> until)"

lemma guard_exec_keeps:
  assumes "dict_wf (active_keys g)" and "dget (active_keys g) key = Some (tid, ts)"
    and "harmless key tid (ts + key_ttl_seconds g) op"
  shows "dget (active_keys (snd (guard_exec g op))) key = Some (tid, ts)
    \<and> key_ttl_seconds (snd (guard_exec g op)) = key_ttl_seconds g
    \<and> (\<forall>n n' t. op = GAcquire n n' key t \<longrightarrow> \<not> fst (guard_exec g op))"
proof (cases op)
  case (GPrune now)
  have "now - b \<le> key_ttl_seconds g" if "(key, a, b) \<in> set (active_keys g)" for a b
    using dict_wf_unique [OF assms(1,2) that] assms(3) GPrune by simp
  with GPrune assms(2) show ?thesis
    by (force simp: active_count_def prune_expired_def Let_def simp del: not_less)
qed (use assms in \<open>auto simp: guard_acquire_def guard_release_def is_expired_def split: option.splits\<close>)

text \<open>At most one live execution per call. Once a task holds the key of a call, and as
  long as its lease is within the time to live, any sequence of operations of other tasks
  on the guard leaves it the holder, and every acquisition of that key is refused. In
  particular a stale task, whose key was reclaimed, cannot free the key of its successor.\<close>

theorem guard_exclusive:
  assumes "dict_wf (active_keys g)" and "dget (active_keys g) key = Some (tid, ts)"
    and "list_all (harmless key tid (ts + key_ttl_seconds g)) ops"
    and "guard_run g ops = (oks, g')"
  shows "dget (active_keys g') key = Some (tid, ts) \<and> True \<notin> set (answers_for key ops oks)"
  using assms
proof (induction ops arbitrary: g oks g')
  case (Cons op ops)
  obtain ok g1 where e: "guard_exec g op = (ok, g1)" by fastforce
  obtain oks1 g2 where r: "guard_run g1 ops = (oks1, g2)" by fastforce
  from Cons.prems e r have eq: "oks = ok # oks1" "g' = g2" by simp_all
  from guard_exec_keeps [OF Cons.prems(1,2), of op] Cons.prems(3) e
  have k: "dget (active_keys g1) key = Some (tid, ts)" "key_ttl_seconds g1 = key_ttl_seconds g"
    and no: "\<And>n n' t. op = GAcquire n n' key t \<Longrightarrow> \<not> ok"
    by auto
  have w: "dict_wf (active_keys g1)"
    using guard_exec_wf [OF Cons.prems(1), of op] e by simp
  from Cons.IH [OF w k(1) _ r] Cons.prems(3) k(2)
  have "dget (active_keys g2) key = Some (tid, ts)" "True \<notin> set (answers_for key ops oks1)"
    by auto
  with eq no show ?case by (cases op) auto
qed simp

definition demo_guard :: guard where
  "demo_guard = snd (guard_acquire (guard_init 3600) 5 5 ''k'' ''task_1'')"

definition demo_ops :: "guard_op list" where
  "demo_ops = [GAcquire 20 20 ''k'' ''task_2'', GRelease ''k'' (Some ''task_2''), GPrune 3605]"

theorem guard_exclusive_witness:
  "dget (active_keys (snd (guard_run demo_guard demo_ops))) ''k'' = Some (''task_1'', 5)
    \<and> True \<notin> set (answers_for ''k'' demo_ops (fst (guard_run demo_guard demo_ops)))"
  by (rule guard_exclusive [where g = demo_guard])
    (simp_all add: demo_guard_def demo_ops_def guard_acquire_def guard_init_def)

text \<open>The idempotency key of a call does not depend on the order in which the
  arguments of the call were inserted.\<close>

theorem make_key_order_independent:
  assumes "dict_wf p" and "dict_wf p'" and "set p = set p'"
  shows "make_key sha tool p = make_key sha tool p'"
proof -
  let ?c = "map (\<lambda>(k, v). (k, canon v))"
  have fst_c: "map (fst \<circ> (\<lambda>(k, v). (k, canon v))) q = map fst q" for q :: "(string \<times> json) list"
    by (induction q) auto
  have "sort_key fst (?c p) = sort_key fst (?c p')"
    using assms by (intro sort_key_fst_perm) (simp_all add: fst_c dict_wf_def)
  then show ?thesis by (simp add: make_key_def)
qed

theorem make_key_order_independent_witness:
  "make_key (\<lambda>s. s) ''t'' [(''b'', JInt 1), (''a'', JInt 2)] = make_key (\<lambda>s. s) ''t'' [(''a'', JInt 2), (''b'', JInt 1)]"
  by (rule make_key_order_independent) (auto simp: dict_wf_def)

end
