(* ===== verification/Agent_Guardrails.thy ===== *)
theory Agent_Guardrails
  imports Json_Text
begin

text \<open>
  The two circuit breakers of the agent.

  \<^item> \<open>AgenticLoopGuardrail\<close> (\<open>sky_claw/app/security/loop_guardrail.py\<close>): a sliding window
    over the digests of the agent's actions that trips on a repeated action and on an
    oscillating block of actions.
  \<^item> \<open>TokenCircuitBreaker\<close> (\<open>sky_claw/app/agent/token_circuit_breaker.py\<close>): closed, open
    and half-open states over the token consumption of a window. The clock is read by each
    method; the model gives every reading of one synchronous call the same value.
\<close>

subsection \<open>The loop guardrail\<close>

record loop_guard =
  max_repeats :: nat
  window_size :: nat
  history :: "string list"

datatype trip_reason = Repeats | Cycle nat

datatype trip = Tripped string trip_reason nat

datatype loop_error = ValueError string

definition loop_init :: "int \<Rightarrow> int \<Rightarrow> loop_error + loop_guard" where
  "loop_init mr ws =
    (if mr < 2 then Inl (ValueError ''max_repeats must be >= 2'')
     else if ws < mr then Inl (ValueError ''window_size must be >= max_repeats'')
     else Inr \<lparr>max_repeats = nat mr, window_size = nat ws, history = []\<rparr>)"

definition action_digest :: "(string \<Rightarrow> string) \<Rightarrow> string \<Rightarrow> (string \<times> json) list \<Rightarrow> string" where
  "action_digest sha tool args =
     sha (tool @ ''|'' @ json_text True '', '' '': '' (canon (JObj args)))"

text \<open>\<open>hist[-n:]\<close>, and \<open>append\<close> on a \<open>deque(maxlen=w)\<close>.\<close>

definition last_n :: "nat \<Rightarrow> 'a list \<Rightarrow> 'a list" where
  "last_n n xs = drop (length xs - n) xs"

definition deque_append :: "nat \<Rightarrow> 'a list \<Rightarrow> 'a \<Rightarrow> 'a list" where
  "deque_append w xs x = last_n w (xs @ [x])"

definition identical_tail :: "nat \<Rightarrow> 'a list \<Rightarrow> bool" where
  "identical_tail r hist \<longleftrightarrow> r \<le> length hist \<and> list_all (\<lambda>h. h = last hist) (last_n r hist)"

definition cycle_tail :: "'a list \<Rightarrow> nat \<Rightarrow> bool" where
  "cycle_tail hist p \<longleftrightarrow>
     take p (last_n (2 * p) hist) = last_n p hist \<and> length (remdups (last_n p hist)) > 1"

definition first_cycle :: "'a list \<Rightarrow> nat option" where
  "first_cycle hist = find (cycle_tail hist) [2..<length hist div 2 + 1]"

definition register_and_check ::
  "(string \<Rightarrow> string) \<Rightarrow> loop_guard \<Rightarrow> string \<Rightarrow> (string \<times> json) list \<Rightarrow> trip option \<times> loop_guard" where
  "register_and_check sha g tool args =
    (let hist = deque_append (window_size g) (history g) (action_digest sha tool args);
         cleared = g\<lparr>history := []\<rparr>
     in if identical_tail (max_repeats g) hist
        then (Some (Tripped tool Repeats (max_repeats g)), cleared)
        else (case first_cycle hist of
                Some p \<Rightarrow> (Some (Tripped tool (Cycle p) (2 * p)), cleared)
              | None \<Rightarrow> (None, g\<lparr>history := hist\<rparr>)))"

definition loop_reset :: "loop_guard \<Rightarrow> loop_guard" where
  "loop_reset g = g\<lparr>history := []\<rparr>"

definition loop_snapshot :: "loop_guard \<Rightarrow> string list" where
  "loop_snapshot g = history g"

fun run_actions ::
  "(string \<Rightarrow> string) \<Rightarrow> loop_guard \<Rightarrow> (string \<times> (string \<times> json) list) list \<Rightarrow> trip list \<times> loop_guard" where
  "run_actions sha g [] = ([], g)"
| "run_actions sha g ((tool, args) # as) =
    (let (t, g') = register_and_check sha g tool args; (ts, g'') = run_actions sha g' as
     in ((case t of None \<Rightarrow> ts | Some x \<Rightarrow> x # ts), g''))"

lemma length_last_n [simp]: "length (last_n n xs) = min n (length xs)"
  by (simp add: last_n_def)

lemma length_deque_append [simp]: "length (deque_append w xs x) = min w (Suc (length xs))"
  by (simp add: deque_append_def)

lemma last_n_append [simp]: "length ys = n \<Longrightarrow> last_n n (xs @ ys) = ys"
  by (simp add: last_n_def)

lemma last_n_last_n: "m \<le> n \<Longrightarrow> last_n m (last_n n xs) = last_n m xs"
  by (cases "n \<le> length xs") (simp_all add: last_n_def)

lemma last_n_all: "length xs \<le> n \<Longrightarrow> last_n n xs = xs"
  by (simp add: last_n_def)

lemma last_n_suffix: "last_n n xs = ys \<Longrightarrow> n \<le> length xs \<Longrightarrow> \<exists>zs. xs = zs @ ys \<and> length ys = n"
  unfolding last_n_def by (metis append_take_drop_id diff_diff_cancel length_drop)

lemma length_remdups_gt1: "length (remdups xs) > 1 \<longleftrightarrow> (\<exists>x \<in> set xs. \<exists>y \<in> set xs. x \<noteq> y)"
proof -
  have "length (remdups xs) = card (set xs)" by (simp add: length_remdups_card_conv)
  moreover have "card (set xs) > 1 \<longleftrightarrow> (\<exists>x \<in> set xs. \<exists>y \<in> set xs. x \<noteq> y)"
    by (metis One_nat_def List.finite_set card_le_Suc0_iff_eq not_less)
  ultimately show ?thesis by simp
qed

lemma identical_tail_iff:
  "0 < r \<Longrightarrow> identical_tail r hist \<longleftrightarrow> (\<exists>x zs. hist = zs @ replicate r x)"
proof
  assume "0 < r" "identical_tail r hist"
  then have "last_n r hist = replicate r (last hist)" and "r \<le> length hist"
    unfolding identical_tail_def by (auto simp: list_all_iff intro!: replicate_eqI)
  then show "\<exists>x zs. hist = zs @ replicate r x"
    using last_n_suffix by blast
next
  assume "0 < r" "\<exists>x zs. hist = zs @ replicate r x"
  then show "identical_tail r hist"
    unfolding identical_tail_def by (auto simp: list_all_iff)
qed

lemma cycle_tail_iff:
  assumes "2 * p \<le> length hist"
  shows "cycle_tail hist p \<longleftrightarrow>
    (\<exists>zs b. hist = zs @ b @ b \<and> length b = p \<and> (\<exists>x \<in> set b. \<exists>y \<in> set b. x \<noteq> y))"
proof
  assume c: "cycle_tail hist p"
  obtain zs where zs: "hist = zs @ last_n (2 * p) hist"
    using last_n_suffix [OF refl assms] by blast
  let ?t = "last_n (2 * p) hist"
  have "last_n p hist = last_n p ?t" by (simp add: last_n_last_n)
  also have "\<dots> = drop p ?t" using assms by (simp add: last_n_def)
  finally have d: "last_n p hist = drop p ?t" .
  with c have "take p ?t = drop p ?t" by (simp add: cycle_tail_def)
  then have "?t = drop p ?t @ drop p ?t" by (metis append_take_drop_id)
  with zs d have "hist = zs @ last_n p hist @ last_n p hist" by simp
  moreover have "length (last_n p hist) = p" using assms by simp
  ultimately show "\<exists>zs b. hist = zs @ b @ b \<and> length b = p \<and> (\<exists>x \<in> set b. \<exists>y \<in> set b. x \<noteq> y)"
    using c unfolding cycle_tail_def length_remdups_gt1 by blast
next
  assume "\<exists>zs b. hist = zs @ b @ b \<and> length b = p \<and> (\<exists>x \<in> set b. \<exists>y \<in> set b. x \<noteq> y)"
  then obtain zs b where b: "hist = zs @ b @ b" "length b = p" "\<exists>x \<in> set b. \<exists>y \<in> set b. x \<noteq> y" by blast
  have "last_n (2 * p) hist = b @ b" using b by (simp add: last_n_def)
  moreover have "last_n p hist = b"
    using b last_n_append [of b p "zs @ b"] by simp
  ultimately show "cycle_tail hist p"
    using b unfolding cycle_tail_def length_remdups_gt1 by simp
qed

definition loop_ok :: "loop_guard \<Rightarrow> bool" where
  "loop_ok g \<longleftrightarrow> 2 \<le> max_repeats g \<and> max_repeats g \<le> window_size g \<and> length (history g) \<le> window_size g"

definition repeats_at_end :: "nat \<Rightarrow> 'a list \<Rightarrow> bool" where
  "repeats_at_end r h \<longleftrightarrow> (\<exists>x zs. h = zs @ replicate r x)"

definition oscillates_at_end :: "'a list \<Rightarrow> bool" where
  "oscillates_at_end h \<longleftrightarrow> (\<exists>zs b. h = zs @ b @ b \<and> (\<exists>x \<in> set b. \<exists>y \<in> set b. x \<noteq> y))"

lemma two_elements_length: "x \<in> set b \<Longrightarrow> y \<in> set b \<Longrightarrow> x \<noteq> y \<Longrightarrow> 2 \<le> length b"
  by (cases b; cases "tl b") auto

lemma find_cycle_None:
  "first_cycle h = None \<longleftrightarrow> \<not> oscillates_at_end h"
  unfolding first_cycle_def
proof
  assume none: "find (cycle_tail h) [2..<length h div 2 + 1] = None"
  show "\<not> oscillates_at_end h"
  proof
    assume "oscillates_at_end h"
    then obtain zs b x y where b: "h = zs @ b @ b" "x \<in> set b" "y \<in> set b" "x \<noteq> y"
      unfolding oscillates_at_end_def by blast
    then have "2 \<le> length b" by (rule_tac two_elements_length)
    moreover have le: "2 * length b \<le> length h" using b by simp
    moreover have "cycle_tail h (length b)"
      using b unfolding cycle_tail_iff [OF le] by blast
    ultimately show False using none unfolding find_None_iff by force
  qed
next
  assume quiet: "\<not> oscillates_at_end h"
  have "\<not> cycle_tail h p" if "p \<in> set [2..<length h div 2 + 1]" for p
  proof -
    have "2 * p \<le> length h" using that by auto
    then show ?thesis using quiet cycle_tail_iff unfolding oscillates_at_end_def by metis
  qed
  then show "find (cycle_tail h) [2..<length h div 2 + 1] = None"
    unfolding find_None_iff by blast
qed

lemma register_cases:
  assumes "loop_ok g"
    and h: "h = deque_append (window_size g) (history g) (action_digest sha tool args)"
  shows "fst (register_and_check sha g tool args) = None \<longleftrightarrow>
           \<not> repeats_at_end (max_repeats g) h \<and> \<not> oscillates_at_end h"
    and "history (snd (register_and_check sha g tool args)) =
           (if fst (register_and_check sha g tool args) = None then h else [])"
    and "max_repeats (snd (register_and_check sha g tool args)) = max_repeats g"
    and "window_size (snd (register_and_check sha g tool args)) = window_size g"
  using assms(1) identical_tail_iff [of "max_repeats g" h] find_cycle_None [of h]
  by (auto simp: register_and_check_def Let_def h [symmetric] loop_ok_def repeats_at_end_def
      split: option.splits)

text \<open>The guardrail trips exactly when the window, with the new action, ends in
  \<open>max_repeats\<close> equal actions or in a block of at least two different actions written twice
  in a row; a trip empties the history, and otherwise the action is recorded.\<close>

theorem register_and_check_exact:
  assumes "loop_ok g"
    and "h = deque_append (window_size g) (history g) (action_digest sha tool args)"
    and "register_and_check sha g tool args = (t, g')"
  shows "(t \<noteq> None \<longleftrightarrow> repeats_at_end (max_repeats g) h \<or> oscillates_at_end h)
    \<and> history g' = (if t = None then h else []) \<and> loop_ok g'"
  using register_cases [OF assms(1) refl, of sha tool args] assms
  by (auto simp: loop_ok_def)

definition demo_loop :: loop_guard where
  "demo_loop = \<lparr>max_repeats = 3, window_size = 6, history = [''t|{}'', ''u|{}'', ''t|{}'']\<rparr>"

lemma demo_loop_trips:
  "register_and_check (\<lambda>s. s) demo_loop ''u'' [] = (Some (Tripped ''u'' (Cycle 2) 4), demo_loop\<lparr>history := []\<rparr>)"
  by code_simp

theorem register_and_check_exact_witness:
  "oscillates_at_end [''t|{}'', ''u|{}'', ''t|{}'', ''u|{}'']"
proof -
  have h: "[''t|{}'', ''u|{}'', ''t|{}'', ''u|{}''] =
      deque_append (window_size demo_loop) (history demo_loop) (action_digest (\<lambda>s. s) ''u'' [])"
    by code_simp
  have "loop_ok demo_loop" by (simp add: loop_ok_def demo_loop_def)
  from register_and_check_exact [OF this h demo_loop_trips]
  have "repeats_at_end 3 [''t|{}'', ''u|{}'', ''t|{}'', ''u|{}''] \<or> oscillates_at_end [''t|{}'', ''u|{}'', ''t|{}'', ''u|{}'']"
    by (simp add: demo_loop_def)
  moreover have "\<not> repeats_at_end 3 [''t|{}'', ''u|{}'', ''t|{}'', ''u|{}'']"
    unfolding repeats_at_end_def by (auto simp: numeral_3_eq_3 Cons_eq_append_conv)
  ultimately show ?thesis by blast
qed

lemma deque_append_append: "last_n w (last_n w xs @ ys) = last_n w (xs @ ys)"
proof (cases "length xs \<le> w")
  case False
  have "xs = take (length xs - w) xs @ last_n w xs" by (simp add: last_n_def)
  then have "last_n w (xs @ ys) = last_n w (take (length xs - w) xs @ last_n w xs @ ys)" by (metis append.assoc)
  also have "\<dots> = last_n w (last_n w xs @ ys)"
    using False by (simp add: last_n_def)
  finally show ?thesis by simp
qed (simp add: last_n_all)

definition action_of :: "(string \<Rightarrow> string) \<Rightarrow> string \<times> (string \<times> json) list \<Rightarrow> string" where
  "action_of sha a = action_digest sha (fst a) (snd a)"

lemma run_actions_quiet:
  assumes "loop_ok g" and "fst (run_actions sha g as) = []" and "as \<noteq> []"
  shows "\<not> repeats_at_end (max_repeats g)
             (last_n (window_size g) (history g @ map (action_of sha) as))
    \<and> \<not> oscillates_at_end (last_n (window_size g) (history g @ map (action_of sha) as))"
  using assms
proof (induction as arbitrary: g)
  case (Cons a as)
  obtain tool args where a: "a = (tool, args)" by (cases a)
  obtain t g1 where r: "register_and_check sha g tool args = (t, g1)" by fastforce
  note rc = register_cases [OF Cons.prems(1) refl, of sha tool args, unfolded r, simplified]
  from Cons.prems(2) a r have t: "t = None" and rest: "fst (run_actions sha g1 as) = []"
    by (auto split: prod.splits option.splits)
  with rc have h1: "history g1 = last_n (window_size g) (history g @ [action_digest sha tool args])"
    by (simp add: deque_append_def)
  show ?case
  proof (cases "as = []")
    case True
    with rc(1) t a show ?thesis by (simp add: deque_append_def action_of_def)
  next
    case False
    have "loop_ok g1" using Cons.prems(1) rc h1 by (simp add: loop_ok_def)
    note ih = Cons.IH [OF this rest False]
    have "last_n (window_size g) (history g1 @ map (action_of sha) as)
        = last_n (window_size g) (history g @ map (action_of sha) (a # as))"
      unfolding h1 by (simp add: deque_append_append a action_of_def)
    with ih rc(3,4) show ?thesis by simp
  qed
qed simp

definition looping :: "(string \<Rightarrow> string) \<Rightarrow> loop_guard \<Rightarrow> (string \<times> (string \<times> json) list) list \<Rightarrow> bool" where
  "looping sha g as \<longleftrightarrow>
     (\<exists>a. as = replicate (max_repeats g) a)
   \<or> (\<exists>b. as = b @ b \<and> 2 * length b \<le> window_size g
        \<and> (\<exists>x \<in> set b. \<exists>y \<in> set b. action_of sha x \<noteq> action_of sha y))"

text \<open>No loop that fits the window goes unnoticed: whatever was done before, an agent
  that repeats an action \<open>max_repeats\<close> times, or repeats a block with two different actions,
  trips the guardrail before it is done.\<close>

theorem loop_always_detected:
  assumes "loop_ok g" and "looping sha g as"
  shows "fst (run_actions sha g as) \<noteq> []"
proof
  assume none: "fst (run_actions sha g as) = []"
  let ?d = "action_of sha"
  have ne: "as \<noteq> []" using assms by (auto simp: looping_def loop_ok_def)
  note q = run_actions_quiet [OF assms(1) none ne]
  have split: "\<exists>zs. last_n (window_size g) (history g @ ys) = zs @ ys" if "length ys \<le> window_size g" for ys
  proof -
    have "length (history g) + length ys - window_size g \<le> length (history g)" using that by arith
    then show ?thesis by (auto simp: last_n_def)
  qed
  from assms(2) show False unfolding looping_def
  proof
    assume "\<exists>a. as = replicate (max_repeats g) a"
    then obtain a where "as = replicate (max_repeats g) a" ..
    with q split [of "map ?d as"] assms(1) show False
      by (auto simp: repeats_at_end_def loop_ok_def map_replicate)
  next
    assume "\<exists>b. as = b @ b \<and> 2 * length b \<le> window_size g
        \<and> (\<exists>x \<in> set b. \<exists>y \<in> set b. action_of sha x \<noteq> action_of sha y)"
    then obtain b where b: "as = b @ b" "2 * length b \<le> window_size g"
      and two: "\<exists>x \<in> set b. \<exists>y \<in> set b. action_of sha x \<noteq> action_of sha y" by blast
    from two have "\<exists>x \<in> set (map ?d b). \<exists>y \<in> set (map ?d b). x \<noteq> y" by simp
    moreover obtain zs where "last_n (window_size g) (history g @ map ?d as) = zs @ map ?d b @ map ?d b"
      using split [of "map ?d as"] b by auto
    ultimately show False using q unfolding oscillates_at_end_def by blast
  qed
qed

theorem loop_always_detected_witness:
  "fst (run_actions (\<lambda>s. s) \<lparr>max_repeats = 3, window_size = 6, history = [''z'']\<rparr>
     [(''t'', []), (''u'', []), (''t'', []), (''u'', [])]) \<noteq> []"
proof (rule loop_always_detected)
  show "loop_ok \<lparr>max_repeats = 3, window_size = 6, history = [''z'']\<rparr>" by (simp add: loop_ok_def)
  show "looping (\<lambda>s. s) \<lparr>max_repeats = 3, window_size = 6, history = [''z'']\<rparr>
     [(''t'', []), (''u'', []), (''t'', []), (''u'', [])]"
    unfolding looping_def
    by (intro disjI2 exI [of _ "[(''t'', []), (''u'', [])]"]) (auto simp: action_of_def action_digest_def)
qed

subsection \<open>The token breaker\<close>

record tcb_config =
  spike_threshold_tokens :: int
  window_budget_tokens :: int
  window_duration_seconds :: int
  recovery_timeout_seconds :: int

definition default_tcb_config :: tcb_config where
  "default_tcb_config = \<lparr>spike_threshold_tokens = 50000, window_budget_tokens = 200000,
     window_duration_seconds = 300, recovery_timeout_seconds = 60\<rparr>"

datatype breaker_state = Closed | Open | Half_Open

record breaker =
  bstate :: breaker_state
  opened_at :: int
  window_start :: int
  window_consumed :: int
  half_open_used :: bool

definition breaker_init :: "int \<Rightarrow> breaker" where
  "breaker_init now = \<lparr>bstate = Closed, opened_at = 0, window_start = now, window_consumed = 0,
     half_open_used = False\<rparr>"

definition breaker_trip :: "breaker \<Rightarrow> int \<Rightarrow> breaker" where
  "breaker_trip b now = b\<lparr>bstate := Open, opened_at := now\<rparr>"

text \<open>The \<open>state\<close> property: it moves OPEN to HALF_OPEN when the recovery time is over.\<close>

definition refresh_state :: "tcb_config \<Rightarrow> breaker \<Rightarrow> int \<Rightarrow> breaker" where
  "refresh_state c b now =
    (if bstate b = Open \<and> now - opened_at b \<ge> recovery_timeout_seconds c
     then b\<lparr>bstate := Half_Open, half_open_used := False\<rparr> else b)"

definition maybe_reset_window :: "tcb_config \<Rightarrow> breaker \<Rightarrow> int \<Rightarrow> breaker" where
  "maybe_reset_window c b now =
    (if now - window_start b \<ge> window_duration_seconds c
     then b\<lparr>window_consumed := 0, window_start := now\<rparr> else b)"

definition check_request :: "tcb_config \<Rightarrow> breaker \<Rightarrow> int \<Rightarrow> int \<Rightarrow> bool \<times> breaker" where
  "check_request c b0 now estimated =
    (let b = refresh_state c b0 now in
     case bstate b of
       Closed \<Rightarrow>
         if estimated > spike_threshold_tokens c then (False, breaker_trip b now)
         else let b' = maybe_reset_window c b now in
           if window_consumed b' + estimated > window_budget_tokens c then (False, breaker_trip b' now)
           else (True, b')
     | Half_Open \<Rightarrow> if \<not> half_open_used b then (True, b\<lparr>half_open_used := True\<rparr>) else (False, b)
     | Open \<Rightarrow> (False, b))"

definition record_response :: "tcb_config \<Rightarrow> breaker \<Rightarrow> int \<Rightarrow> int \<Rightarrow> breaker" where
  "record_response c b0 now tokens_used =
    (let b = b0\<lparr>window_consumed := window_consumed b0 + tokens_used\<rparr> in
     if bstate b = Half_Open then
       if tokens_used \<le> spike_threshold_tokens c
       then b\<lparr>bstate := Closed, half_open_used := False\<rparr>
       else breaker_trip b now
     else b)"

definition record_failure :: "breaker \<Rightarrow> int \<Rightarrow> breaker" where
  "record_failure b now = (if bstate b = Half_Open then breaker_trip b now else b)"

definition breaker_reset :: "breaker \<Rightarrow> int \<Rightarrow> breaker" where
  "breaker_reset b now = b\<lparr>bstate := Closed, half_open_used := False, window_consumed := 0, window_start := now\<rparr>"

datatype breaker_op = Check int int | Response int int | Failure int

fun op_time :: "breaker_op \<Rightarrow> int" where
  "op_time (Check now est) = now"
| "op_time (Response now used) = now"
| "op_time (Failure now) = now"

fun breaker_exec :: "tcb_config \<Rightarrow> breaker \<Rightarrow> breaker_op \<Rightarrow> bool list \<times> breaker" where
  "breaker_exec c b (Check now est) = (let (ok, b') = check_request c b now est in ([ok], b'))"
| "breaker_exec c b (Response now used) = ([], record_response c b now used)"
| "breaker_exec c b (Failure now) = ([], record_failure b now)"

fun breaker_run :: "tcb_config \<Rightarrow> breaker \<Rightarrow> breaker_op list \<Rightarrow> bool list \<times> breaker" where
  "breaker_run c b [] = ([], b)"
| "breaker_run c b (x # xs) =
     (let (as, b') = breaker_exec c b x; (bs, b'') = breaker_run c b' xs in (as @ bs, b''))"

lemmas breaker_defs = check_request_def record_response_def record_failure_def refresh_state_def
  maybe_reset_window_def breaker_trip_def

text \<open>An open breaker fails fast. Until the recovery time has passed since the trip, every
  request is rejected, whatever responses and failures are recorded meanwhile.\<close>

theorem open_breaker_rejects:
  assumes "bstate b = Open" and "\<forall>x \<in> set ops. op_time x - opened_at b < recovery_timeout_seconds c"
    and "breaker_run c b ops = (oks, b')"
  shows "True \<notin> set oks \<and> bstate b' = Open \<and> opened_at b' = opened_at b"
  using assms
proof (induction ops arbitrary: b oks)
  case (Cons x ops)
  obtain a b1 where e: "breaker_exec c b x = (a, b1)" by fastforce
  obtain oks1 where r: "breaker_run c b1 ops = (oks1, b')" and oks: "oks = a @ oks1"
    using Cons.prems(3) e by (auto split: prod.splits)
  from Cons.prems(1,2) e have "bstate b1 = Open \<and> opened_at b1 = opened_at b \<and> True \<notin> set a"
    by (cases x) (auto simp: breaker_defs Let_def)
  with Cons.IH [OF _ _ r] Cons.prems(2) oks show ?case by auto
qed simp

theorem open_breaker_rejects_witness:
  "True \<notin> set (fst (breaker_run default_tcb_config (breaker_trip (breaker_init 0) 7)
     [Check 8 10, Response 20 100, Failure 30, Check 66 1]))"
proof -
  let ?b = "breaker_trip (breaker_init 0) 7" and ?ops = "[Check 8 10, Response 20 100, Failure 30, Check 66 1]"
  have "True \<notin> set (fst (breaker_run default_tcb_config ?b ?ops))
      \<and> bstate (snd (breaker_run default_tcb_config ?b ?ops)) = Open
      \<and> opened_at (snd (breaker_run default_tcb_config ?b ?ops)) = opened_at ?b"
    by (rule open_breaker_rejects [OF _ _ prod.collapse [symmetric]])
      (simp_all add: breaker_trip_def default_tcb_config_def)
  then show ?thesis by blast
qed

lemma spent_half_open:
  assumes "bstate b = Half_Open" and "half_open_used b"
  shows "breaker_run c b (map (\<lambda>(now, est). Check now est) rs) = (replicate (length rs) False, b)"
  by (induction rs) (use assms in \<open>auto simp: check_request_def refresh_state_def Let_def\<close>)

text \<open>A half-open breaker lets one probe through and no more: among any number of requests,
  at any times, the first is admitted and every later one is rejected. As long as neither
  \<open>record_response\<close> nor \<open>record_failure\<close> reports how the probe ended, no amount of waiting
  changes that.\<close>

theorem half_open_single_probe:
  assumes "bstate b = Half_Open" and "\<not> half_open_used b"
  shows "breaker_run c b (map (\<lambda>(now, est). Check now est) ((now0, est0) # rs))
    = (True # replicate (length rs) False, b\<lparr>half_open_used := True\<rparr>)"
  using assms spent_half_open [of "b\<lparr>half_open_used := True\<rparr>" c rs]
  by (simp add: check_request_def refresh_state_def Let_def)

theorem half_open_single_probe_witness:
  "fst (breaker_run default_tcb_config (refresh_state default_tcb_config (breaker_trip (breaker_init 0) 7) 67)
     (map (\<lambda>(now, est). Check now est) [(67, 5), (68, 5), (100000, 1)])) = [True, False, False]"
  using half_open_single_probe [of "refresh_state default_tcb_config (breaker_trip (breaker_init 0) 7) 67"
      default_tcb_config 67 5 "[(68, 5), (100000, 1)]"]
  by (simp add: refresh_state_def breaker_trip_def default_tcb_config_def numeral_2_eq_2)

text \<open>A successful probe closes the breaker although the budget of the window is spent:
  when the window has not run out, the next request beyond the remaining budget trips it
  again. (Closing looks at the spike threshold only, never at the window.)\<close>

theorem probe_success_keeps_window:
  assumes "bstate b = Half_Open" and "used \<le> spike_threshold_tokens c"
    and "b1 = record_response c b now1 used"
    and "now2 - window_start b < window_duration_seconds c"
    and "window_consumed b + used + est > window_budget_tokens c"
  shows "bstate b1 = Closed \<and> window_consumed b1 = window_consumed b + used
    \<and> fst (check_request c b1 now2 est) = False \<and> bstate (snd (check_request c b1 now2 est)) = Open"
  using assms by (simp add: breaker_defs Let_def)

definition demo_breaker :: breaker where
  "demo_breaker = \<lparr>bstate = Half_Open, opened_at = 10, window_start = 0, window_consumed = 199000,
     half_open_used = True\<rparr>"

theorem probe_success_keeps_window_witness:
  "bstate (record_response default_tcb_config demo_breaker 80 900) = Closed
    \<and> fst (check_request default_tcb_config (record_response default_tcb_config demo_breaker 80 900) 90 200) = False"
  using probe_success_keeps_window [of demo_breaker 900 default_tcb_config _ 80 90 200, OF _ _ refl]
  by (simp add: demo_breaker_def default_tcb_config_def)

text \<open>What a closed breaker admits fits the limits: an admitted estimate is no spike, and
  the consumption of the window with it stays within the budget.\<close>

theorem admitted_within_limits:
  assumes "bstate b = Closed" and "check_request c b now est = (True, b')"
  shows "est \<le> spike_threshold_tokens c \<and> window_consumed b' + est \<le> window_budget_tokens c
    \<and> bstate b' = Closed \<and> (window_consumed b' = window_consumed b \<or> window_consumed b' = 0)"
  using assms by (auto simp: breaker_defs Let_def split: if_splits)

theorem admitted_within_limits_witness:
  "window_consumed (breaker_init 0) + 5000 \<le> window_budget_tokens default_tcb_config"
  using admitted_within_limits [of "breaker_init 0" default_tcb_config 3 5000 "breaker_init 0"]
  by (simp add: breaker_init_def default_tcb_config_def check_request_def refresh_state_def maybe_reset_window_def Let_def)

end
