(* ===== verification/Fomod_Resolver.thy ===== *)
theory Fomod_Resolver
  imports Sky_Prelude "HOL-Library.Multiset"
begin

text \<open>
  FOMOD installers: the configuration of \<open>sky_claw/local/fomod/models.py\<close> and the resolver
  of \<open>sky_claw/local/fomod/resolver.py\<close>, which turns the user's selections into the list of
  files to install. The result object the Python threads through (files, flags, pending
  decisions) is an explicit state; a Python \<open>set\<close> of plugin names is a finite set. The
  provider of installed-file states is a function, absent when the resolver got none.
\<close>

subsection \<open>The configuration\<close>

datatype group_type =
  SELECT_EXACTLY_ONE | SELECT_AT_MOST_ONE | SELECT_AT_LEAST_ONE | SELECT_ALL | SELECT_ANY

datatype file_state = ACTIVE | INACTIVE | MISSING

datatype plugin_type = REQUIRED | OPTIONAL | RECOMMENDED | COULD_BE_USABLE | NOT_USABLE

datatype dep_operator = And | Or

datatype composite_dependency = Composite
  (operator: dep_operator) (flag_deps: "(string \<times> string) list")
  (file_deps: "(string \<times> file_state) list") (nested: "composite_dependency list")

record file_install =
  source :: string
  destination :: string
  priority :: int

record condition_flag =
  cf_name :: string
  cf_value :: string

record dependency_pattern =
  dp_type :: plugin_type
  dp_conditions :: composite_dependency

record plugin =
  plugin_name :: string
  plugin_description :: string
  plugin_image :: string
  condition_flags :: "condition_flag list"
  plugin_files :: "file_install list"
  type_descriptor :: plugin_type
  dependency :: "composite_dependency option"
  dependency_default_type :: "plugin_type option"
  dependency_patterns :: "dependency_pattern list"

record group =
  group_name :: string
  group_kind :: group_type
  plugins :: "plugin list"

record install_step =
  step_name :: string
  visibility :: "composite_dependency option"
  groups :: "group list"

record conditional_pattern =
  cp_conditions :: composite_dependency
  cp_files :: "file_install list"

record fomod_config =
  fomod_module_name :: string
  required_files :: "file_install list"
  install_steps :: "install_step list"
  conditional_installs :: "conditional_pattern list"

type_synonym flags = "(string, string) dict"

type_synonym provider = "(string \<Rightarrow> file_state) option"

record resolve_result =
  res_files :: "file_install list"
  pending_decisions :: "string list"
  res_flags :: flags

subsection \<open>Conditions and effective types\<close>

fun evaluate_conditions :: "provider \<Rightarrow> composite_dependency \<Rightarrow> flags \<Rightarrow> bool" where
  "evaluate_conditions fs (Composite opr fds files ns) fl =
    (let results =
        map (\<lambda>(flag, value). (case dget fl flag of None \<Rightarrow> [] | Some v \<Rightarrow> v) = value) fds
      @ map (\<lambda>(file, state). (case fs of None \<Rightarrow> False | Some f \<Rightarrow> f file = state)) files
      @ map (\<lambda>n. evaluate_conditions fs n fl) ns
     in if results = [] then True
        else (case opr of And \<Rightarrow> list_all (\<lambda>b. b) results | Or \<Rightarrow> list_ex (\<lambda>b. b) results))"

definition is_step_visible :: "provider \<Rightarrow> install_step \<Rightarrow> flags \<Rightarrow> bool" where
  "is_step_visible fs st fl =
    (case visibility st of None \<Rightarrow> True | Some c \<Rightarrow> evaluate_conditions fs c fl)"

definition normalizar_tipo :: "plugin_type option \<Rightarrow> plugin_type option" where
  "normalizar_tipo t =
    (if t = Some NOT_USABLE then None
     else if t = Some COULD_BE_USABLE then Some OPTIONAL else t)"

fun first_matching :: "provider \<Rightarrow> dependency_pattern list \<Rightarrow> flags \<Rightarrow> dependency_pattern option" where
  "first_matching fs [] fl = None"
| "first_matching fs (p # ps) fl =
     (if evaluate_conditions fs (dp_conditions p) fl then Some p else first_matching fs ps fl)"

definition plugin_type_effective :: "provider \<Rightarrow> plugin \<Rightarrow> flags \<Rightarrow> plugin_type option" where
  "plugin_type_effective fs p fl =
    (if dependency_patterns p \<noteq> [] then
       (case first_matching fs (dependency_patterns p) fl of
          Some pat \<Rightarrow>
            if dp_type pat = NOT_USABLE then None
            else if dp_type pat = COULD_BE_USABLE then Some OPTIONAL
            else Some (dp_type pat)
        | None \<Rightarrow> normalizar_tipo (dependency_default_type p))
     else if (case dependency p of None \<Rightarrow> False | Some d \<Rightarrow> \<not> evaluate_conditions fs d fl)
       then normalizar_tipo (dependency_default_type p)
     else if type_descriptor p = NOT_USABLE then None
     else if type_descriptor p = COULD_BE_USABLE then Some OPTIONAL
     else Some (type_descriptor p))"

subsection \<open>Groups\<close>

definition effective_types :: "provider \<Rightarrow> plugin list \<Rightarrow> flags \<Rightarrow> (string, plugin_type option) dict" where
  "effective_types fs ps fl =
     fold (\<lambda>p d. dset (plugin_name p) (plugin_type_effective fs p fl) d) ps []"

definition pending_msg :: "string \<Rightarrow> string \<Rightarrow> string \<Rightarrow> string" where
  "pending_msg step grp text = step @ ''/'' @ grp @ '': '' @ text"

definition type_in :: "(string, plugin_type option) dict \<Rightarrow> plugin \<Rightarrow> plugin_type option" where
  "type_in types p = (case dget types (plugin_name p) of None \<Rightarrow> None | Some t \<Rightarrow> t)"

definition eligible_plugins :: "provider \<Rightarrow> group \<Rightarrow> flags \<Rightarrow> plugin list" where
  "eligible_plugins fs g fl =
     filter (\<lambda>p. type_in (effective_types fs (plugins g) fl) p \<noteq> None) (plugins g)"

definition names_of_type :: "provider \<Rightarrow> group \<Rightarrow> flags \<Rightarrow> plugin_type \<Rightarrow> string set" where
  "names_of_type fs g fl t =
     set (map plugin_name
       (filter (\<lambda>p. type_in (effective_types fs (plugins g) fl) p = Some t) (eligible_plugins fs g fl)))"

text \<open>The selection of a group before its cardinality is checked: the user's eligible choices,
  the forced \<open>Required\<close> plugins (which replace the user's choice in a single-choice group), and
  the \<open>Recommended\<close> ones when nothing is selected.\<close>

definition group_selection :: "provider \<Rightarrow> group \<Rightarrow> string list \<Rightarrow> flags \<Rightarrow> string set" where
  "group_selection fs g step_selections fl =
    (let plugin_names = set (map plugin_name (eligible_plugins fs g fl));
         user = set (filter (\<lambda>s. s \<in> plugin_names) step_selections);
         required = names_of_type fs g fl REQUIRED;
         selected = (if required \<noteq> {} \<and> group_kind g \<in> {SELECT_EXACTLY_ONE, SELECT_AT_MOST_ONE}
                     then required else user \<union> required)
     in if selected = {} then selected \<union> names_of_type fs g fl RECOMMENDED else selected)"

text \<open>The names a group installs, with the pending decisions it adds.\<close>

definition resolve_group ::
  "provider \<Rightarrow> string \<Rightarrow> group \<Rightarrow> string list \<Rightarrow> flags \<Rightarrow> string set \<times> string list" where
  "resolve_group fs step g step_selections fl =
    (let eligible = eligible_plugins fs g fl;
         selected = group_selection fs g step_selections fl;
         blocked = (plugins g \<noteq> [] \<and> eligible = []);
         no_options = pending_msg step (group_name g) ''no eligible options (unsatisfied dependencies)''
     in case group_kind g of
          SELECT_ALL \<Rightarrow> (set (map plugin_name eligible), [])
        | SELECT_EXACTLY_ONE \<Rightarrow>
            if card selected \<noteq> 1
            then ({}, [if blocked then no_options
                       else pending_msg step (group_name g) ''must select exactly one''])
            else (selected, [])
        | SELECT_AT_MOST_ONE \<Rightarrow>
            if card selected > 1
            then ({}, [pending_msg step (group_name g) ''must select at most one''])
            else (selected, [])
        | SELECT_AT_LEAST_ONE \<Rightarrow>
            (selected, if selected = {}
               then [if blocked then no_options
                     else pending_msg step (group_name g) ''must select at least one'']
               else [])
        | SELECT_ANY \<Rightarrow> (selected, []))"

subsection \<open>The walk over the steps\<close>

definition set_flags :: "condition_flag list \<Rightarrow> flags \<Rightarrow> flags" where
  "set_flags cfs fl = fold (\<lambda>cf. dset (cf_name cf) (cf_value cf)) cfs fl"

fun install_plugins :: "string set \<Rightarrow> plugin list \<Rightarrow> resolve_result \<Rightarrow> resolve_result" where
  "install_plugins sel [] r = r"
| "install_plugins sel (p # ps) r =
     install_plugins sel ps
       (if plugin_name p \<in> sel
        then r\<lparr>res_files := res_files r @ plugin_files p,
               res_flags := set_flags (condition_flags p) (res_flags r)\<rparr>
        else r)"

fun walk_groups :: "provider \<Rightarrow> string \<Rightarrow> group list \<Rightarrow> string list \<Rightarrow> resolve_result \<Rightarrow> resolve_result" where
  "walk_groups fs step [] sels r = r"
| "walk_groups fs step (g # gs) sels r =
     (let (sel, pend) = resolve_group fs step g sels (res_flags r) in
      walk_groups fs step gs sels
        (install_plugins sel (plugins g) (r\<lparr>pending_decisions := pending_decisions r @ pend\<rparr>)))"

fun walk_steps ::
  "provider \<Rightarrow> install_step list \<Rightarrow> (string, string list) dict \<Rightarrow> resolve_result \<Rightarrow> resolve_result" where
  "walk_steps fs [] selections r = r"
| "walk_steps fs (st # sts) selections r =
     (if \<not> is_step_visible fs st (res_flags r) then walk_steps fs sts selections r
      else walk_steps fs sts selections
        (walk_groups fs (step_name st) (groups st)
           (case dget selections (step_name st) of None \<Rightarrow> [] | Some s \<Rightarrow> s) r))"

definition conditional_files :: "provider \<Rightarrow> conditional_pattern list \<Rightarrow> flags \<Rightarrow> file_install list" where
  "conditional_files fs pats fl =
     concat (map cp_files (filter (\<lambda>p. evaluate_conditions fs (cp_conditions p) fl) pats))"

definition resolve :: "provider \<Rightarrow> fomod_config \<Rightarrow> (string, string list) dict \<Rightarrow> resolve_result" where
  "resolve fs cfg selections =
    (let r = walk_steps fs (install_steps cfg) selections
               \<lparr>res_files = required_files cfg, pending_decisions = [], res_flags = []\<rparr>;
         files = res_files r @ conditional_files fs (conditional_installs cfg) (res_flags r)
     in r\<lparr>res_files := sort_key priority files\<rparr>)"

subsection \<open>What a group selects\<close>

definition group_ok :: "group \<Rightarrow> bool" where
  "group_ok g \<longleftrightarrow> distinct (map plugin_name (plugins g))"

lemma effective_types_fold_other:
  "n \<notin> plugin_name ` set ps \<Longrightarrow>
     dget (fold (\<lambda>p d. dset (plugin_name p) (plugin_type_effective fs p fl) d) ps d) n = dget d n"
  by (induction ps arbitrary: d) auto

lemma effective_types_fold:
  "distinct (map plugin_name ps) \<Longrightarrow> p \<in> set ps \<Longrightarrow>
     dget (fold (\<lambda>p d. dset (plugin_name p) (plugin_type_effective fs p fl) d) ps d) (plugin_name p)
       = Some (plugin_type_effective fs p fl)"
  by (induction ps arbitrary: d) (auto simp: effective_types_fold_other)

lemma dget_effective_types:
  "group_ok g \<Longrightarrow> p \<in> set (plugins g) \<Longrightarrow>
     dget (effective_types fs (plugins g) fl) (plugin_name p) = Some (plugin_type_effective fs p fl)"
  by (simp add: effective_types_def group_ok_def effective_types_fold)

lemma group_ok_inj: "group_ok g \<Longrightarrow> inj_on plugin_name (set (plugins g))"
  by (simp add: group_ok_def distinct_map)

text \<open>The eligible and the obligatory names of a group, as the specification reads them.\<close>

definition eligible_names :: "provider \<Rightarrow> group \<Rightarrow> flags \<Rightarrow> string set" where
  "eligible_names fs g fl = {plugin_name p |p. p \<in> set (plugins g) \<and> plugin_type_effective fs p fl \<noteq> None}"

definition required_names :: "provider \<Rightarrow> group \<Rightarrow> flags \<Rightarrow> string set" where
  "required_names fs g fl =
     {plugin_name p |p. p \<in> set (plugins g) \<and> plugin_type_effective fs p fl = Some REQUIRED}"

definition installed :: "group \<Rightarrow> string set \<Rightarrow> plugin list" where
  "installed g sel = filter (\<lambda>p. plugin_name p \<in> sel) (plugins g)"

lemma resolve_group_facts:
  assumes ok: "group_ok g" and r: "resolve_group fs step g sels fl = (sel, pend)"
  shows "sel \<subseteq> eligible_names fs g fl"
    and "pend = [] \<Longrightarrow> required_names fs g fl \<subseteq> sel"
    and "finite sel"
    and "group_kind g = SELECT_EXACTLY_ONE \<Longrightarrow> (if pend = [] then card sel = 1 else sel = {})"
    and "group_kind g = SELECT_AT_MOST_ONE \<Longrightarrow> card sel \<le> 1 \<and> (pend \<noteq> [] \<longrightarrow> sel = {})"
    and "group_kind g = SELECT_AT_LEAST_ONE \<Longrightarrow> pend = [] \<longleftrightarrow> sel \<noteq> {}"
    and "group_kind g = SELECT_ALL \<Longrightarrow> sel = eligible_names fs g fl \<and> pend = []"
proof -
  let ?S = "group_selection fs g sels fl"
  have T: "p \<in> set (plugins g) \<Longrightarrow>
      type_in (effective_types fs (plugins g) fl) p = plugin_type_effective fs p fl" for p
    using dget_effective_types [OF ok] by (simp add: type_in_def)
  have E: "set (map plugin_name (eligible_plugins fs g fl)) = eligible_names fs g fl"
    unfolding eligible_plugins_def eligible_names_def by (auto simp: T)
  have R: "names_of_type fs g fl REQUIRED = required_names fs g fl"
    unfolding names_of_type_def required_names_def eligible_plugins_def by (force simp: T)
  have M: "names_of_type fs g fl t \<subseteq> eligible_names fs g fl" for t
    unfolding E [symmetric] names_of_type_def by auto
  have RS: "required_names fs g fl \<subseteq> ?S" unfolding group_selection_def Let_def R by auto
  have SE: "?S \<subseteq> eligible_names fs g fl"
    unfolding group_selection_def Let_def E using M by auto
  have fin: "finite (eligible_names fs g fl)" unfolding E [symmetric] by simp
  have finS: "finite ?S" using SE fin by (rule finite_subset)
  have shape: "sel = ?S \<or> (sel = {} \<and> pend \<noteq> []) \<or> sel = eligible_names fs g fl"
    using r unfolding resolve_group_def Let_def E by (cases "group_kind g") (auto split: if_splits)
  then show "sel \<subseteq> eligible_names fs g fl" "finite sel" using SE fin finS by auto
  show "required_names fs g fl \<subseteq> sel" if "pend = []"
    using shape that RS SE by blast
  show "if pend = [] then card sel = 1 else sel = {}" if "group_kind g = SELECT_EXACTLY_ONE"
    using r by (auto simp: resolve_group_def Let_def that split: if_splits)
  show "card sel \<le> 1 \<and> (pend \<noteq> [] \<longrightarrow> sel = {})" if "group_kind g = SELECT_AT_MOST_ONE"
    using r by (auto simp: resolve_group_def Let_def that split: if_splits)
  show "pend = [] \<longleftrightarrow> sel \<noteq> {}" if "group_kind g = SELECT_AT_LEAST_ONE"
    using r by (auto simp: resolve_group_def Let_def that split: if_splits)
  show "sel = eligible_names fs g fl \<and> pend = []" if "group_kind g = SELECT_ALL"
    using r E by (simp add: resolve_group_def Let_def that)
qed

lemma installed_card: "group_ok g \<Longrightarrow> finite sel \<Longrightarrow> length (installed g sel) \<le> card sel"
proof -
  assume ok: "group_ok g" and fin: "finite sel"
  have "distinct (map plugin_name (installed g sel))"
    using ok by (simp add: group_ok_def installed_def distinct_map_filter)
  then have "length (installed g sel) = card (plugin_name ` set (installed g sel))"
    by (metis distinct_card length_map list.set_map)
  also have "\<dots> \<le> card sel" by (rule card_mono [OF fin]) (auto simp: installed_def)
  finally show ?thesis .
qed

text \<open>A group never installs mutually exclusive options. In a single-choice group at most
  one plugin is installed, whatever the user selected and whatever the installer's author
  forces or recommends; \<open>SelectExactlyOne\<close> installs exactly one or leaves a pending decision
  and installs nothing of the group.\<close>

theorem single_choice_groups:
  assumes "group_ok g" and "resolve_group fs step g sels fl = (sel, pend)"
    and "group_kind g \<in> {SELECT_EXACTLY_ONE, SELECT_AT_MOST_ONE}"
  shows "length (installed g sel) \<le> 1
    \<and> (group_kind g = SELECT_EXACTLY_ONE \<longrightarrow> (if pend = [] then length (installed g sel) = 1 else installed g sel = []))"
proof -
  note f = resolve_group_facts [OF assms(1,2)]
  have one: "length (installed g sel) = 1" if c: "card sel = 1"
  proof -
    from c obtain n where n: "sel = {n}" by (auto simp: card_1_singleton_iff)
    with f(1) obtain p where "p \<in> set (plugins g)" "plugin_name p = n" by (auto simp: eligible_names_def)
    then have "installed g sel \<noteq> []" using n by (auto simp: installed_def filter_empty_conv)
    moreover have "length (installed g sel) \<le> 1" using installed_card [OF assms(1) f(3)] c by simp
    ultimately show ?thesis by (cases "installed g sel") auto
  qed
  from assms(3) consider "group_kind g = SELECT_EXACTLY_ONE" | "group_kind g = SELECT_AT_MOST_ONE" by auto
  then show ?thesis
  proof cases
    case 1
    from f(4) [OF 1] one show ?thesis by (auto simp: installed_def split: if_splits)
  next
    case 2
    from f(5) [OF 2] installed_card [OF assms(1) f(3)] 2 show ?thesis by simp
  qed
qed

definition demo_plugin :: "string \<Rightarrow> plugin_type \<Rightarrow> plugin" where
  "demo_plugin n t = \<lparr>plugin_name = n, plugin_description = [], plugin_image = [], condition_flags = [], plugin_files = [\<lparr>source = n, destination = [], priority = 0\<rparr>],
     type_descriptor = t, dependency = None, dependency_default_type = None, dependency_patterns = []\<rparr>"

definition demo_group :: group where
  "demo_group = \<lparr>group_name = ''g'', group_kind = SELECT_EXACTLY_ONE,
     plugins = [demo_plugin ''2k'' OPTIONAL, demo_plugin ''4k'' REQUIRED]\<rparr>"

lemma demo_group_resolved: "resolve_group None ''s'' demo_group [''2k''] [] = ({''4k''}, [])"
  by (simp add: resolve_group_def group_selection_def names_of_type_def eligible_plugins_def type_in_def
      demo_group_def demo_plugin_def effective_types_def plugin_type_effective_def Let_def
      del: set_filter)

theorem single_choice_groups_witness: "length (installed demo_group {''4k''}) = 1"
  using single_choice_groups [OF _ demo_group_resolved]
  by (simp add: demo_group_def group_ok_def demo_plugin_def)

text \<open>A plugin whose dependencies are not met is never installed, even when the user
  selects it; an eligible plugin of type Required is installed unless the group is left
  pending.\<close>

theorem group_eligibility:
  assumes "group_ok g" and "resolve_group fs step g sels fl = (sel, pend)" and "p \<in> set (plugins g)"
  shows "(plugin_type_effective fs p fl = None \<longrightarrow> p \<notin> set (installed g sel))
    \<and> (plugin_type_effective fs p fl = Some REQUIRED \<and> pend = [] \<longrightarrow> p \<in> set (installed g sel))"
proof -
  note f = resolve_group_facts [OF assms(1,2)]
  have "p \<notin> set (installed g sel)" if none: "plugin_type_effective fs p fl = None"
  proof
    assume "p \<in> set (installed g sel)"
    then have "plugin_name p \<in> eligible_names fs g fl" using f(1) by (auto simp: installed_def)
    then obtain q where "q \<in> set (plugins g)" "plugin_name q = plugin_name p" "plugin_type_effective fs q fl \<noteq> None"
      by (auto simp: eligible_names_def)
    with assms(3) have "q = p" using inj_onD [OF group_ok_inj [OF assms(1)], of q p] by simp
    with none \<open>plugin_type_effective fs q fl \<noteq> None\<close> show False by simp
  qed
  moreover have "p \<in> set (installed g sel)" if "plugin_type_effective fs p fl = Some REQUIRED" "pend = []"
  proof -
    have "plugin_name p \<in> required_names fs g fl" using that(1) assms(3) unfolding required_names_def by blast
    with f(2) [OF that(2)] assms(3) show ?thesis by (simp add: installed_def subset_iff)
  qed
  ultimately show ?thesis by blast
qed

theorem group_eligibility_witness:
  "demo_plugin ''4k'' REQUIRED \<in> set (installed demo_group {''4k''})"
  using group_eligibility [OF _ demo_group_resolved, of "demo_plugin ''4k'' REQUIRED"]
  by (simp add: demo_group_def group_ok_def demo_plugin_def plugin_type_effective_def)


subsection \<open>Conditions on files fail closed\<close>

lemma evaluate_conditions_fail_closed_aux:
  "evaluate_conditions None c fl \<Longrightarrow> evaluate_conditions (Some f) c fl"
proof (induction c rule: composite_dependency.induct)
  case (Composite opr fds files ns)
  let ?flags = "map (\<lambda>(flag, value). (case dget fl flag of None \<Rightarrow> [] | Some v \<Rightarrow> v) = value) fds"
  show ?case
  proof (cases opr)
    case And
    with Composite.prems have "files = []"
      by (cases files) (auto simp: Let_def split: if_splits)
    with And Composite show ?thesis
      by (auto simp: Let_def list_all_iff split: if_splits)
  next
    case Or
    with Composite show ?thesis
      by (force simp: Let_def list_ex_iff split: if_splits)
  qed
qed

text \<open>Without a view of the installation a condition on a file never holds by default: a
  conditional pattern or a step that is accepted without evidence is accepted under every
  possible state of the installed files, and every file installed by a conditional pattern
  without evidence would be installed with it.\<close>

theorem file_conditions_fail_closed:
  "(evaluate_conditions None c fl \<longrightarrow> evaluate_conditions (Some f) c fl)
    \<and> (is_step_visible None st fl \<longrightarrow> is_step_visible (Some f) st fl)
    \<and> set (conditional_files None pats fl) \<subseteq> set (conditional_files (Some f) pats fl)"
  by (auto simp: is_step_visible_def conditional_files_def evaluate_conditions_fail_closed_aux
      split: option.splits)

theorem file_conditions_fail_closed_witness:
  "evaluate_conditions (Some (\<lambda>_. MISSING)) (Composite Or [(''a'', ''on'')] [(''x.esp'', ACTIVE)] []) [(''a'', ''on'')]"
  using file_conditions_fail_closed
    [of "Composite Or [(''a'', ''on'')] [(''x.esp'', ACTIVE)] []" "[(''a'', ''on'')]" "\<lambda>_. MISSING"]
  by simp

subsection \<open>The list of files to install\<close>

definition group_files :: "group list \<Rightarrow> file_install list" where
  "group_files gs = concat (map (\<lambda>g. concat (map plugin_files (plugins g))) gs)"

definition option_files :: "install_step list \<Rightarrow> file_install list" where
  "option_files sts = concat (map (\<lambda>st. group_files (groups st)) sts)"

lemma install_plugins_files:
  "\<exists>fs'. res_files (install_plugins sel ps r) = res_files r @ fs' \<and> subseq fs' (concat (map plugin_files ps))"
proof (induction ps arbitrary: r)
  case (Cons p ps)
  show ?case
  proof (cases "plugin_name p \<in> sel")
    case True
    let ?r = "r\<lparr>res_files := res_files r @ plugin_files p, res_flags := set_flags (condition_flags p) (res_flags r)\<rparr>"
    from Cons [of ?r] obtain fs' where "res_files (install_plugins sel ps ?r) = res_files ?r @ fs'"
      "subseq fs' (concat (map plugin_files ps))" by blast
    with True show ?thesis by (intro exI [of _ "plugin_files p @ fs'"]) (simp add: list_emb_append_mono)
  next
    case False
    from Cons [of r] obtain fs' where "res_files (install_plugins sel ps r) = res_files r @ fs'"
      "subseq fs' (concat (map plugin_files ps))" by blast
    with False show ?thesis by (intro exI [of _ fs']) (simp add: list_emb_append2)
  qed
qed simp

lemma walk_groups_files:
  "\<exists>fs'. res_files (walk_groups fs step gs sels r) = res_files r @ fs' \<and> subseq fs' (group_files gs)"
proof (induction gs arbitrary: r)
  case (Cons g gs)
  obtain sel pend where r: "resolve_group fs step g sels (res_flags r) = (sel, pend)" by fastforce
  let ?r = "install_plugins sel (plugins g) (r\<lparr>pending_decisions := pending_decisions r @ pend\<rparr>)"
  from install_plugins_files [of sel "plugins g" "r\<lparr>pending_decisions := pending_decisions r @ pend\<rparr>"]
  obtain f1 where f1: "res_files ?r = res_files r @ f1" "subseq f1 (concat (map plugin_files (plugins g)))" by auto
  from Cons [of ?r] obtain f2 where "res_files (walk_groups fs step gs sels ?r) = res_files ?r @ f2"
    "subseq f2 (group_files gs)" by blast
  with f1 r show ?case by (intro exI [of _ "f1 @ f2"]) (simp add: group_files_def list_emb_append_mono)
qed (simp add: group_files_def)

lemma walk_steps_files:
  "\<exists>fs'. res_files (walk_steps fs sts selections r) = res_files r @ fs' \<and> subseq fs' (option_files sts)"
proof (induction sts arbitrary: r)
  case (Cons st sts)
  show ?case
  proof (cases "is_step_visible fs st (res_flags r)")
    case True
    let ?r = "walk_groups fs (step_name st) (groups st)
      (case dget selections (step_name st) of None \<Rightarrow> [] | Some s \<Rightarrow> s) r"
    from walk_groups_files obtain f1 where f1: "res_files ?r = res_files r @ f1" "subseq f1 (group_files (groups st))"
      by blast
    from Cons [of ?r] obtain f2 where "res_files (walk_steps fs sts selections ?r) = res_files ?r @ f2"
      "subseq f2 (option_files sts)" by blast
    with f1 True show ?thesis
      by (intro exI [of _ "f1 @ f2"]) (simp add: option_files_def list_emb_append_mono)
  next
    case False
    from Cons [of r] obtain f2 where "res_files (walk_steps fs sts selections r) = res_files r @ f2"
      "subseq f2 (option_files sts)" by blast
    with False show ?thesis by (intro exI [of _ f2]) (simp add: option_files_def list_emb_append2)
  qed
qed (simp add: option_files_def)

lemma filter_sort_key: "filter (\<lambda>x. f x = k) (sort_key f xs) = filter (\<lambda>x. f x = k) xs"
  by (metis sort_key_stable)

text \<open>The files of a resolution are sorted by priority, and among files of one priority
  (where the last one written wins) the required files come first, then the chosen options in
  the order of the installer, then the conditional files whose conditions hold under the
  final flags. Every required file is present, and no other file appears.\<close>

theorem resolve_files_ordered:
  "\<exists>opts. sorted (map priority (res_files (resolve fs cfg selections)))
    \<and> subseq opts (option_files (install_steps cfg))
    \<and> (\<forall>k. filter (\<lambda>f. priority f = k) (res_files (resolve fs cfg selections))
          = filter (\<lambda>f. priority f = k)
              (required_files cfg @ opts
                @ conditional_files fs (conditional_installs cfg) (res_flags (resolve fs cfg selections))))"
proof -
  let ?init = "\<lparr>res_files = required_files cfg, pending_decisions = [], res_flags = []\<rparr>"
  let ?r = "walk_steps fs (install_steps cfg) selections ?init"
  from walk_steps_files [of fs "install_steps cfg" selections ?init]
  obtain opts where "res_files ?r = required_files cfg @ opts" "subseq opts (option_files (install_steps cfg))"
    by auto
  then show ?thesis
    unfolding resolve_def Let_def
    by (intro exI [of _ opts]) (simp add: filter_sort_key del: filter_append)
qed

end
