(* ===== verification/Mo2_State.thy ===== *)
theory Mo2_State
  imports Fomod_Resolver
begin

text \<open>
  The state of the files of a Mod Organizer 2 instance, as the FOMOD resolver asks for it:
  \<open>sky_claw/local/fomod/plugin_state.py\<close>. \<open>MO2PluginStateProvider\<close> keeps an index that it
  rebuilds only when \<open>modlist.txt\<close> or the modification time of a directory changed. The
  filesystem is a \<open>view\<close>: what the reads of one operation return. The interface
  \<open>FileStateProvider\<close> is the locale \<open>state_provider\<close>; what a client of it may assume is
  proved for the indexed provider by \<open>mo2\<close>, its interpretation.
\<close>

subsection \<open>The filesystem as the provider reads it\<close>

record view =
  v_modlist :: "string option"
  v_root_mtime :: "int option"
  v_mtime :: "string \<Rightarrow> int option"
  v_is_dir :: "string \<Rightarrow> bool"
  v_files :: "string \<Rightarrow> string list"

record provider_state =
  active_files :: "string set"
  inactive_files :: "string set"
  indexed :: bool
  modlist_snapshot :: "string option"
  mods_root_mtime :: "int option"
  mod_paths :: "(string, string set) dict"
  mod_mtimes :: "(string, int option) dict"

definition provider_init :: provider_state where
  "provider_init = \<lparr>active_files = {}, inactive_files = {}, indexed = False, modlist_snapshot = None,
     mods_root_mtime = None, mod_paths = [], mod_mtimes = []\<rparr>"

definition normalize :: "string \<Rightarrow> string" where
  "normalize path =
    (let normalized = casefold (map (\<lambda>c. if c = CHR 0x5C then CHR ''/'' else c) path) in
     if starts_with normalized ''data/'' then drop (length ''data/'') normalized else normalized)"

fun read_lines :: "string list \<Rightarrow> string list \<Rightarrow> string list \<Rightarrow> string list \<times> string list" where
  "read_lines [] enabled disabled = (enabled, disabled)"
| "read_lines (raw # rest) enabled disabled =
    (let line = strip raw in
     if line = [] \<or> starts_with line ''=='' then read_lines rest enabled disabled
     else if hd line \<noteq> CHR ''+'' \<and> hd line \<noteq> CHR ''-'' then read_lines rest enabled disabled
     else let name = strip (tl line) in
       if name = [] then read_lines rest enabled disabled
       else if hd line = CHR ''+'' then read_lines rest (set_add name enabled) disabled
       else read_lines rest enabled (set_add name disabled))"

definition read_modlist :: "view \<Rightarrow> string list \<times> string list" where
  "read_modlist v = (case v_modlist v of None \<Rightarrow> ([], []) | Some text \<Rightarrow> read_lines (splitlines text) [] [])"

definition leer_modlist_crudo :: "view \<Rightarrow> string" where
  "leer_modlist_crudo v = (case v_modlist v of None \<Rightarrow> [] | Some text \<Rightarrow> text)"

definition scan_mod :: "view \<Rightarrow> string \<Rightarrow> string set" where
  "scan_mod v m = (if v_is_dir v m then normalize ` set (v_files v m) else {})"

definition conocidos :: "view \<Rightarrow> string list" where
  "conocidos v = (case read_modlist v of (en, dis) \<Rightarrow> fold set_add dis en)"

subsection \<open>The index\<close>

definition estado_cambio :: "view \<Rightarrow> provider_state \<Rightarrow> bool" where
  "estado_cambio v s =
    (if \<not> indexed s then True
     else if modlist_snapshot s \<noteq> Some (leer_modlist_crudo v) then True
     else if mods_root_mtime s \<noteq> v_root_mtime v then True
     else if set (conocidos v) \<noteq> dkeys (mod_mtimes s) then True
     else list_ex (\<lambda>m. dget (mod_mtimes s) m \<noteq> Some (v_mtime v m)) (conocidos v))"

text \<open>One mod of \<open>_rebuild\<close>: its paths are scanned again only when its directory changed.\<close>

definition refresh_mod :: "view \<Rightarrow> string \<Rightarrow> provider_state \<Rightarrow> provider_state" where
  "refresh_mod v m s =
    (case v_mtime v m of
       None \<Rightarrow> s\<lparr>mod_paths := ddel m (mod_paths s), mod_mtimes := dset m None (mod_mtimes s)\<rparr>
     | Some t \<Rightarrow>
         if dget (mod_mtimes s) m = None \<or> dget (mod_mtimes s) m \<noteq> Some (Some t)
         then s\<lparr>mod_paths := dset m (scan_mod v m) (mod_paths s),
                mod_mtimes := dset m (Some t) (mod_mtimes s)\<rparr>
         else s)"

definition forget_mod :: "string \<Rightarrow> provider_state \<Rightarrow> provider_state" where
  "forget_mod m s = s\<lparr>mod_mtimes := ddel m (mod_mtimes s), mod_paths := ddel m (mod_paths s)\<rparr>"

definition paths_of :: "provider_state \<Rightarrow> string \<Rightarrow> string set" where
  "paths_of s m = (case dget (mod_paths s) m of None \<Rightarrow> {} | Some ps \<Rightarrow> ps)"

text \<open>\<open>_rebuild\<close> reads the modlist twice: once to classify the mods, once for the snapshot the
  next query compares. The two readings are the arguments \<open>v\<close> and \<open>w\<close>; they agree unless
  the file is written in between.\<close>

definition rebuild :: "view \<Rightarrow> view \<Rightarrow> provider_state \<Rightarrow> provider_state" where
  "rebuild v w s =
    (let (enabled, disabled) = read_modlist v;
         known = conocidos v;
         s1 = fold (refresh_mod v) known s;
         s2 = fold forget_mod (filter (\<lambda>n. n \<notin> set known) (map fst (mod_mtimes s1))) s1
     in s2\<lparr>active_files := \<Union> (paths_of s2 ` set enabled),
           inactive_files := \<Union> (paths_of s2 ` set disabled),
           modlist_snapshot := Some (leer_modlist_crudo w),
           mods_root_mtime := v_root_mtime w,
           indexed := True\<rparr>)"

definition lookup_state :: "provider_state \<Rightarrow> string \<Rightarrow> file_state" where
  "lookup_state s path =
    (let key = normalize path in
     if key \<in> active_files s then ACTIVE else if key \<in> inactive_files s then INACTIVE else MISSING)"

definition file_state_query :: "view \<Rightarrow> string \<Rightarrow> provider_state \<Rightarrow> file_state \<times> provider_state" where
  "file_state_query v path s =
    (let s' = (if estado_cambio v s then rebuild v v s else s) in (lookup_state s' path, s'))"

subsection \<open>The specification: the state without a cache\<close>

definition mod_provides :: "view \<Rightarrow> string \<Rightarrow> string \<Rightarrow> bool" where
  "mod_provides v key m \<longleftrightarrow> v_mtime v m \<noteq> None \<and> key \<in> scan_mod v m"

definition reference_state :: "view \<Rightarrow> string \<Rightarrow> file_state" where
  "reference_state v path =
    (case read_modlist v of (enabled, disabled) \<Rightarrow>
      if list_ex (mod_provides v (normalize path)) enabled then ACTIVE
      else if list_ex (mod_provides v (normalize path)) disabled then INACTIVE
      else MISSING)"

text \<open>The documented limit of the cache: an unchanged modification time of a mod's directory
  means unchanged contents, those \<open>content\<close> gives for the mod at that time.\<close>

definition tracks :: "(string \<Rightarrow> int \<Rightarrow> string set) \<Rightarrow> view \<Rightarrow> bool" where
  "tracks content v \<longleftrightarrow> (\<forall>m t. v_mtime v m = Some t \<longrightarrow> scan_mod v m = content m t)"

definition cached_ok :: "(string \<Rightarrow> int \<Rightarrow> string set) \<Rightarrow> provider_state \<Rightarrow> string \<Rightarrow> bool" where
  "cached_ok content s m \<longleftrightarrow>
    (case dget (mod_mtimes s) m of
       None \<Rightarrow> True
     | Some None \<Rightarrow> dget (mod_paths s) m = None
     | Some (Some t) \<Rightarrow> dget (mod_paths s) m = Some (content m t))"

subsection \<open>Rebuilding the index\<close>

lemma set_fold_set_add [simp]: "set (fold set_add xs ys) = set xs \<union> set ys"
  by (induction xs arbitrary: ys) auto

lemma set_conocidos: "read_modlist v = (en, dis) \<Longrightarrow> set (conocidos v) = set en \<union> set dis"
  by (auto simp: conocidos_def)

lemma refresh_mod_other:
  "m' \<noteq> m \<Longrightarrow> dget (mod_mtimes (refresh_mod v m s)) m' = dget (mod_mtimes s) m'
    \<and> dget (mod_paths (refresh_mod v m s)) m' = dget (mod_paths s) m'"
  by (simp add: refresh_mod_def split: option.splits)

lemma refresh_mod_mtime: "dget (mod_mtimes (refresh_mod v m s)) m = Some (v_mtime v m)"
  by (auto simp: refresh_mod_def split: option.splits)

lemma refresh_mod_cached_ok:
  assumes tr: "tracks content v" and ok: "\<And>m'. cached_ok content s m'"
  shows "cached_ok content (refresh_mod v m s) m'"
proof (cases "m' = m")
  case False
  with ok [of m'] show ?thesis by (simp add: cached_ok_def refresh_mod_other split: option.splits)
next
  case True
  show ?thesis
  proof (cases "v_mtime v m")
    case None
    then show ?thesis by (simp add: True cached_ok_def refresh_mod_def)
  next
    case (Some t)
    with tr have "scan_mod v m = content m t" by (simp add: tracks_def)
    with Some ok [of m] show ?thesis by (auto simp: True cached_ok_def refresh_mod_def)
  qed
qed

lemma fold_refresh_mtime:
  "dget (mod_mtimes (fold (refresh_mod v) ms s)) m
     = (if m \<in> set ms then Some (v_mtime v m) else dget (mod_mtimes s) m)"
proof (induction ms arbitrary: s)
  case (Cons x ms)
  then show ?case by (cases "m = x") (auto simp: refresh_mod_mtime refresh_mod_other)
qed simp

lemma fold_refresh_cached_ok:
  "tracks content v \<Longrightarrow> (\<And>m. cached_ok content s m) \<Longrightarrow> cached_ok content (fold (refresh_mod v) ms s) m"
proof (induction ms arbitrary: s)
  case (Cons x ms)
  from Cons.prems have "\<And>m. cached_ok content (refresh_mod v x s) m" by (blast intro: refresh_mod_cached_ok)
  with Cons show ?case by simp
qed simp

lemma fold_forget_dget:
  "dget (mod_mtimes (fold forget_mod ms s)) m = (if m \<in> set ms then None else dget (mod_mtimes s) m)"
  "dget (mod_paths (fold forget_mod ms s)) m = (if m \<in> set ms then None else dget (mod_paths s) m)"
  by (induction ms arbitrary: s) (auto simp: forget_mod_def)

lemma rebuild_facts:
  assumes tr: "tracks content v" and ok: "\<And>m. cached_ok content s m"
  shows "dget (mod_mtimes (rebuild v w s)) m = (if m \<in> set (conocidos v) then Some (v_mtime v m) else None)"
    and "cached_ok content (rebuild v w s) m"
    and "indexed (rebuild v w s)" "modlist_snapshot (rebuild v w s) = Some (leer_modlist_crudo w)"
    and "mods_root_mtime (rebuild v w s) = v_root_mtime w"
    and "active_files (rebuild v w s) = \<Union> (paths_of (rebuild v w s) ` set (fst (read_modlist v)))"
    and "inactive_files (rebuild v w s) = \<Union> (paths_of (rebuild v w s) ` set (snd (read_modlist v)))"
proof -
  let ?s1 = "fold (refresh_mod v) (conocidos v) s"
  let ?gone = "filter (\<lambda>n. n \<notin> set (conocidos v)) (map fst (mod_mtimes ?s1))"
  let ?s2 = "fold forget_mod ?gone ?s1"
  have mt: "mod_mtimes (rebuild v w s) = mod_mtimes ?s2" and mp: "mod_paths (rebuild v w s) = mod_paths ?s2"
    by (simp_all add: rebuild_def Let_def split: prod.split)
  then have po: "paths_of (rebuild v w s) = paths_of ?s2" by (simp add: paths_of_def fun_eq_iff)
  have gone: "dget (mod_mtimes ?s1) m = None" if "m \<notin> set (conocidos v)" "m \<notin> set ?gone" for m
    using that by (auto simp: map_of_eq_None_iff)
  show "dget (mod_mtimes (rebuild v w s)) m = (if m \<in> set (conocidos v) then Some (v_mtime v m) else None)"
    unfolding mt fold_forget_dget using gone [of m] by (auto simp: fold_refresh_mtime)
  show "cached_ok content (rebuild v w s) m"
    using fold_refresh_cached_ok [OF tr ok, of "conocidos v" m]
    by (simp add: cached_ok_def mt mp fold_forget_dget split: option.splits)
  show "indexed (rebuild v w s)" "modlist_snapshot (rebuild v w s) = Some (leer_modlist_crudo w)"
    "mods_root_mtime (rebuild v w s) = v_root_mtime w"
    by (simp_all add: rebuild_def Let_def split: prod.split)
  show "active_files (rebuild v w s) = \<Union> (paths_of (rebuild v w s) ` set (fst (read_modlist v)))"
    "inactive_files (rebuild v w s) = \<Union> (paths_of (rebuild v w s) ` set (snd (read_modlist v)))"
    unfolding po by (simp_all add: rebuild_def Let_def split: prod.split)
qed

subsection \<open>An index that is up to date answers as the specification\<close>

lemma read_modlist_crudo: "read_modlist v = read_lines (splitlines (leer_modlist_crudo v)) [] []"
  by (simp add: read_modlist_def leer_modlist_crudo_def splitlines_def split: option.split)

lemma settled_paths:
  assumes "tracks content v" "cached_ok content s m" "dget (mod_mtimes s) m = Some (v_mtime v m)"
  shows "key \<in> paths_of s m \<longleftrightarrow> mod_provides v key m"
  using assms by (cases "v_mtime v m") (simp_all add: cached_ok_def paths_of_def mod_provides_def tracks_def)

lemma settled_lookup:
  assumes tr: "tracks content v" and ok: "\<And>m. cached_ok content s m"
    and settled: "\<And>m. m \<in> set (conocidos v) \<Longrightarrow> dget (mod_mtimes s) m = Some (v_mtime v m)"
    and act: "active_files s = \<Union> (paths_of s ` set (fst (read_modlist v)))"
    and inact: "inactive_files s = \<Union> (paths_of s ` set (snd (read_modlist v)))"
  shows "lookup_state s path = reference_state v path"
proof -
  obtain en dis where m: "read_modlist v = (en, dis)" by fastforce
  have "\<And>n. n \<in> set en \<union> set dis \<Longrightarrow> (normalize path \<in> paths_of s n) = mod_provides v (normalize path) n"
    using settled_paths [OF tr ok settled] set_conocidos [OF m] by blast
  then show ?thesis
    by (auto simp: lookup_state_def reference_state_def act inact m list_ex_iff)
qed

definition provider_ok :: "(string \<Rightarrow> int \<Rightarrow> string set) \<Rightarrow> provider_state \<Rightarrow> bool" where
  "provider_ok content s \<longleftrightarrow> (\<forall>m. cached_ok content s m)
    \<and> (\<forall>text. indexed s \<and> modlist_snapshot s = Some text \<longrightarrow>
         (let (en, dis) = read_lines (splitlines text) [] [] in
           active_files s = \<Union> (paths_of s ` set en) \<and> inactive_files s = \<Union> (paths_of s ` set dis)))"

lemma provider_ok_init [simp]: "provider_ok content provider_init"
  by (simp add: provider_ok_def provider_init_def cached_ok_def)

lemma rebuild_provider_ok:
  assumes "tracks content v" and "provider_ok content s"
  shows "provider_ok content (rebuild v v s)"
proof -
  note f = rebuild_facts [OF assms(1), of s v]
  from assms(2) have "\<And>m. cached_ok content s m" by (simp add: provider_ok_def)
  from f [OF this] show ?thesis
    by (auto simp: provider_ok_def read_modlist_crudo Let_def split: prod.split)
qed

lemma query_answer:
  assumes tr: "tracks content v" and ok: "provider_ok content s"
  shows "fst (file_state_query v path s) = reference_state v path"
    and "provider_ok content (snd (file_state_query v path s))"
proof -
  have c: "\<And>m. cached_ok content s m" using ok by (simp add: provider_ok_def)
  show "provider_ok content (snd (file_state_query v path s))"
    using ok rebuild_provider_ok [OF tr ok] by (simp add: file_state_query_def Let_def)
  show "fst (file_state_query v path s) = reference_state v path"
  proof (cases "estado_cambio v s")
    case True
    note f = rebuild_facts [OF tr c, where w = v]
    from True settled_lookup [OF tr f(2)] f(1,6,7) show ?thesis
      by (simp add: file_state_query_def Let_def)
  next
    case False
    then have idx: "indexed s" "modlist_snapshot s = Some (leer_modlist_crudo v)"
      and s: "\<And>m. m \<in> set (conocidos v) \<Longrightarrow> dget (mod_mtimes s) m = Some (v_mtime v m)"
      by (auto simp: estado_cambio_def list_ex_iff split: if_splits)
    from idx ok have "active_files s = \<Union> (paths_of s ` set (fst (read_modlist v)))"
      "inactive_files s = \<Union> (paths_of s ` set (snd (read_modlist v)))"
      by (auto simp: provider_ok_def read_modlist_crudo Let_def split: prod.splits)
    from settled_lookup [OF tr c s this] False show ?thesis
      by (simp add: file_state_query_def Let_def)
  qed
qed

subsection \<open>The interface \<open>FileStateProvider\<close>\<close>

text \<open>What the resolver relies on: every query answers as a fixed function of the filesystem at
  that moment, whatever was asked before.\<close>

locale state_provider =
  fixes query :: "'v \<Rightarrow> string \<Rightarrow> 's \<Rightarrow> file_state \<times> 's"
    and ok :: "'s \<Rightarrow> bool"
    and good :: "'v \<Rightarrow> bool"
    and spec :: "'v \<Rightarrow> string \<Rightarrow> file_state"
  assumes query_spec: "ok s \<Longrightarrow> good v \<Longrightarrow> fst (query v p s) = spec v p"
    and query_ok: "ok s \<Longrightarrow> good v \<Longrightarrow> ok (snd (query v p s))"
begin

fun query_all :: "('v \<times> string) list \<Rightarrow> 's \<Rightarrow> file_state list" where
  "query_all [] s = []"
| "query_all ((v, p) # qs) s = (case query v p s of (a, s') \<Rightarrow> a # query_all qs s')"

lemma query_all_spec:
  "ok s \<Longrightarrow> (\<And>v p. (v, p) \<in> set qs \<Longrightarrow> good v) \<Longrightarrow> query_all qs s = map (\<lambda>(v, p). spec v p) qs"
proof (induction qs arbitrary: s)
  case (Cons q qs)
  obtain v p where q: "q = (v, p)" by fastforce
  obtain a s' where r: "query v p s = (a, s')" by fastforce
  from Cons.prems q have g: "good v" by auto
  from query_spec [OF Cons.prems(1) g, of p] query_ok [OF Cons.prems(1) g, of p] r
  have "a = spec v p" "ok s'" by simp_all
  with Cons q r show ?case by auto
qed simp

end

interpretation mo2: state_provider file_state_query "provider_ok content" "tracks content" reference_state
  for content
  by unfold_locales (simp_all add: query_answer)

fun answers :: "(view \<times> string) list \<Rightarrow> provider_state \<Rightarrow> file_state list" where
  "answers [] s = []"
| "answers ((v, p) # qs) s = (case file_state_query v p s of (a, s') \<Rightarrow> a # answers qs s')"

lemma answers_query_all: "answers qs s = mo2.query_all qs s"
  by (induction qs arbitrary: s) auto

text \<open>C35: the cache is invisible. Whatever the sequence of queries and whatever happens to the
  installation between them, each answer is the one a scan of the installation at that
  moment would give, as long as a directory whose modification time is unchanged has
  unchanged contents (the limit the code documents).\<close>

theorem answers_match_installation:
  assumes "\<And>v p. (v, p) \<in> set qs \<Longrightarrow> tracks content v"
  shows "answers qs provider_init = map (\<lambda>(v, p). reference_state v p) qs"
  unfolding answers_query_all
  by (rule mo2.query_all_spec [where content = content]) (auto intro: assms)

definition demo_view :: "string \<Rightarrow> int \<Rightarrow> string list \<Rightarrow> view" where
  "demo_view modlist t files = \<lparr>v_modlist = Some modlist, v_root_mtime = Some 1, v_mtime = (\<lambda>m. if m = ''A'' then Some t else None),
     v_is_dir = (\<lambda>m. True), v_files = (\<lambda>m. files)\<rparr>"

theorem answers_match_installation_witness:
  "answers [(demo_view ''+A'' 5 [''X.esp''], ''Data/x.esp''), (demo_view ''-A'' 5 [''X.esp''], ''x.esp''),
            (demo_view ''-A'' 6 [], ''x.esp'')] provider_init
     = [ACTIVE, INACTIVE, MISSING]"
proof -
  let ?qs = "[(demo_view ''+A'' 5 [''X.esp''], ''Data/x.esp''), (demo_view ''-A'' 5 [''X.esp''], ''x.esp''),
              (demo_view ''-A'' 6 [], ''x.esp'')]"
  have "answers ?qs provider_init = map (\<lambda>(v, p). reference_state v p) ?qs"
    by (rule answers_match_installation [where content = "\<lambda>m t. if t = 5 then {normalize ''X.esp''} else {}"])
       (auto simp: tracks_def demo_view_def scan_mod_def split: if_splits)
  also have "\<dots> = [ACTIVE, INACTIVE, MISSING]"
    by code_simp
  finally show ?thesis .
qed

text \<open>The snapshot that guards the index is not the text the index was built from. If
  \<open>modlist.txt\<close> is rewritten between the two readings of \<open>_rebuild\<close>, with the same mods but
  other activations, the provider holds the old classification, sees no change, and answers
  for the old list.\<close>

theorem rebuild_race_is_stale:
  assumes "tracks content v" and "provider_ok content s"
    and "set (conocidos w) = set (conocidos v)" and "v_root_mtime w = v_root_mtime v"
    and "\<And>m. v_mtime w m = v_mtime v m"
  shows "\<not> estado_cambio w (rebuild v w s)
    \<and> lookup_state (rebuild v w s) path = reference_state v path"
proof
  have c: "\<And>m. cached_ok content s m" using assms(2) by (simp add: provider_ok_def)
  note f = rebuild_facts [OF assms(1) c, where w = w]
  have "dkeys (mod_mtimes (rebuild v w s)) = set (conocidos v)"
    using f(1) by (auto simp: dom_map_of_conv_image_fst [symmetric] dom_def split: if_splits)
  with f assms(3-5) show "\<not> estado_cambio w (rebuild v w s)"
    by (simp add: estado_cambio_def list_ex_iff)
  from settled_lookup [OF assms(1) f(2), where path = path] f(1,6,7)
  show "lookup_state (rebuild v w s) path = reference_state v path" by simp
qed

theorem rebuild_race_is_stale_witness:
  "let v = demo_view ''+A'' 5 [''X.esp'']; w = demo_view ''-A'' 5 [''X.esp'']; s = rebuild v w provider_init in
     \<not> estado_cambio w s \<and> lookup_state s ''x.esp'' = ACTIVE \<and> reference_state w ''x.esp'' = INACTIVE"
proof -
  let ?v = "demo_view ''+A'' 5 [''X.esp'']" and ?w = "demo_view ''-A'' 5 [''X.esp'']"
  have tr: "tracks (\<lambda>m t. {normalize ''X.esp''}) ?v"
    by (simp add: tracks_def demo_view_def scan_mod_def)
  have m: "read_modlist ?v = ([''A''], [])" "read_modlist ?w = ([], [''A''])"
    by code_simp+
  have "\<not> estado_cambio ?w (rebuild ?v ?w provider_init)
      \<and> lookup_state (rebuild ?v ?w provider_init) ''x.esp'' = reference_state ?v ''x.esp''"
    by (rule rebuild_race_is_stale [OF tr provider_ok_init])
       (simp_all only: conocidos_def m prod.case, simp_all add: demo_view_def set_add_def)
  moreover have "reference_state ?v ''x.esp'' = ACTIVE" "reference_state ?w ''x.esp'' = INACTIVE"
    by code_simp+
  ultimately show ?thesis by (simp add: Let_def)
qed

end
