(* ===== verification/Plugin_Header.thy ===== *)
theory Plugin_Header
  imports Sky_Prelude "HOL-Library.Word"
begin

unbundle bit_operations_syntax

text \<open>
  The binary reader of plugin headers, \<open>sky_claw/local/validators/plugin_header.py\<close>: the
  \<open>TES4\<close> record of an \<open>.esp\<close>/\<open>.esm\<close>/\<open>.esl\<close> file with its \<open>MAST\<close> subrecords, and the index
  of the plugin files of several directories.

  A file is the bytes a read returns, absent when reading fails. The parser's offset is
  represented by the bytes that remain. A character of a master's name stands for its
  cp1252 byte; the five bytes without a character all read as the replacement, here 129.
\<close>

type_synonym byte = "8 word"

type_synonym file_bytes = "byte list option"

datatype header_error =
  No_tes4_header | Header_too_large | Header_truncated | Unreadable_file
| Subrecord_truncated | Xxxx_invalid | Xxxx_truncated | Xxxx_dangling

record plugin_header =
  masters :: "string list"
  is_master :: bool
  is_light :: bool
  form_version :: nat

subsection \<open>Little-endian integers and text\<close>

fun from_le :: "byte list \<Rightarrow> nat" where
  "from_le [] = 0"
| "from_le (b # bs) = unat b + 256 * from_le bs"

fun to_le :: "nat \<Rightarrow> nat \<Rightarrow> byte list" where
  "to_le 0 n = []"
| "to_le (Suc k) n = of_nat (n mod 256) # to_le k (n div 256)"

definition ascii :: "string \<Rightarrow> byte list" where
  "ascii s = map (\<lambda>c. of_nat (of_char c)) s"

definition rstrip_nul :: "byte list \<Rightarrow> byte list" where
  "rstrip_nul bs = rev (dropWhile (\<lambda>b. b = 0) (rev bs))"

definition decode_cp1252 :: "byte list \<Rightarrow> string" where
  "decode_cp1252 bs =
     map (\<lambda>b. if b \<in> {0x81, 0x8D, 0x8F, 0x90, 0x9D} then char_of (0x81 :: nat) else char_of (unat b)) bs"

subsection \<open>The subrecords of the header\<close>

definition TES4_HEADER_SIZE :: nat where
  "TES4_HEADER_SIZE = 24"

definition MAX_TES4_DATA_SIZE :: nat where
  "MAX_TES4_DATA_SIZE = 1024 * 1024"

definition FLAG_MASTER :: nat where
  "FLAG_MASTER = 1"

definition FLAG_LIGHT :: nat where
  "FLAG_LIGHT = 512"

function parse_masters_from :: "nat option \<Rightarrow> byte list \<Rightarrow> string list \<Rightarrow> header_error + string list" where
  "parse_masters_from xxxx_size data ms =
    (if data = [] then (if xxxx_size \<noteq> None then Inl Xxxx_dangling else Inr ms)
     else if length data < 6 then Inl Subrecord_truncated
     else
       let sig = take 4 data;
           size = from_le (take 2 (drop 4 data));
           rest = drop 6 data
       in if sig = ascii ''XXXX'' then
            (if size \<noteq> 4 then Inl Xxxx_invalid
             else if length rest < 4 then Inl Xxxx_truncated
             else parse_masters_from (Some (from_le (take 4 rest))) (drop 4 rest) ms)
          else
            let real_size = (case xxxx_size of Some n \<Rightarrow> n | None \<Rightarrow> size)
            in if length rest < real_size then Inl Subrecord_truncated
               else parse_masters_from None (drop real_size rest)
                      (if sig = ascii ''MAST''
                       then ms @ [decode_cp1252 (rstrip_nul (take real_size rest))] else ms))"
  by pat_completeness auto
termination
  by (relation "measure (\<lambda>(_, data, _). length data)") auto

declare parse_masters_from.simps [simp del]

definition parse_masters :: "byte list \<Rightarrow> header_error + string list" where
  "parse_masters data = parse_masters_from None data []"

definition read_plugin_header :: "file_bytes \<Rightarrow> header_error + plugin_header" where
  "read_plugin_header file =
    (case file of
       None \<Rightarrow> Inl Unreadable_file
     | Some bytes \<Rightarrow>
       let head = take TES4_HEADER_SIZE bytes in
       if length head < TES4_HEADER_SIZE \<or> take 4 head \<noteq> ascii ''TES4'' then Inl No_tes4_header
       else
         let data_size = from_le (take 4 (drop 4 head));
             flags = from_le (take 4 (drop 8 head))
         in if data_size > MAX_TES4_DATA_SIZE then Inl Header_too_large
            else
              let data = take data_size (drop TES4_HEADER_SIZE bytes)
              in if length data < data_size then Inl Header_truncated
                 else (case parse_masters data of
                         Inl e \<Rightarrow> Inl e
                       | Inr ms \<Rightarrow> Inr \<lparr>masters = ms, is_master = (flags AND FLAG_MASTER \<noteq> 0),
                                        is_light = (flags AND FLAG_LIGHT \<noteq> 0),
                                        form_version = from_le (take 2 (drop 20 head))\<rparr>))"

subsection \<open>The index of plugin files\<close>

record dir_entry =
  entry_name :: string
  entry_is_file :: "bool option"
  entry_bytes :: file_bytes

type_synonym directory = "dir_entry list option"

definition suffix_of :: "string \<Rightarrow> string" where
  "suffix_of name =
    (let ext = rev (takeWhile (\<lambda>c. c \<noteq> CHR ''.'') (rev name)) in
     if ext = [] \<or> length name \<le> length ext + 1 then [] else CHR ''.'' # ext)"

definition PLUGIN_SUFFIXES :: "string list" where
  "PLUGIN_SUFFIXES = [''.esp'', ''.esm'', ''.esl'']"

definition dsetdefault :: "'k \<Rightarrow> 'v \<Rightarrow> ('k, 'v) dict \<Rightarrow> ('k, 'v) dict" where
  "dsetdefault k v d = (if dget d k = None then dset k v d else d)"

definition index_entry :: "dir_entry \<Rightarrow> (string, dir_entry) dict \<Rightarrow> (string, dir_entry) dict" where
  "index_entry e available =
    (if entry_is_file e = Some True \<and> casefold (suffix_of (entry_name e)) \<in> set PLUGIN_SUFFIXES
     then dsetdefault (casefold (entry_name e)) e available else available)"

definition index_directory :: "directory \<Rightarrow> (string, dir_entry) dict \<Rightarrow> (string, dir_entry) dict" where
  "index_directory d available =
    (case d of None \<Rightarrow> available | Some es \<Rightarrow> fold index_entry (sort_key entry_name es) available)"

definition index_plugin_files :: "directory list \<Rightarrow> (string, dir_entry) dict" where
  "index_plugin_files dirs = fold index_directory dirs []"

lemma dget_dsetdefault: "dget (dsetdefault k v d) k' = (if dget d k' = None \<and> k' = k then Some v else dget d k')"
  by (auto simp: dsetdefault_def)

subsection \<open>Round trips\<close>

lemma length_to_le [simp]: "length (to_le k n) = k"
  by (induction k arbitrary: n) auto

lemma from_le_to_le: "n < 256 ^ k \<Longrightarrow> from_le (to_le k n) = n"
proof (induction k arbitrary: n)
  case (Suc k)
  then have "n div 256 < 256 ^ k" by (simp add: less_mult_imp_div_less mult.commute)
  with Suc.IH have "from_le (to_le k (n div 256)) = n div 256" by blast
  moreover have "unat (of_nat (n mod 256) :: byte) = n mod 256"
    by (simp add: unat_of_nat)
  ultimately show ?case by simp
qed simp

lemma from_le_bound: "from_le bs < 256 ^ length bs"
proof (induction bs)
  case (Cons b bs)
  have "unat b < 256" using unsigned_less [of b] by simp
  with Cons show ?case by simp
qed simp

text \<open>The writer's side of the format: a subrecord whose data does not fit a 16-bit size is
  preceded by an \<open>XXXX\<close> subrecord with the real size.\<close>

definition encode_field :: "byte list \<times> byte list \<Rightarrow> byte list" where
  "encode_field = (\<lambda>(sig, data).
     if length data < 65536 then sig @ to_le 2 (length data) @ data
     else ascii ''XXXX'' @ to_le 2 4 @ to_le 4 (length data) @ sig @ to_le 2 0 @ data)"

definition encode_fields :: "(byte list \<times> byte list) list \<Rightarrow> byte list" where
  "encode_fields fs = concat (map encode_field fs)"

definition field_ok :: "byte list \<times> byte list \<Rightarrow> bool" where
  "field_ok = (\<lambda>(sig, data). length sig = 4 \<and> sig \<noteq> ascii ''XXXX'' \<and> length data < 4294967296)"

definition field_masters :: "(byte list \<times> byte list) list \<Rightarrow> string list" where
  "field_masters fs = map (\<lambda>(sig, data). decode_cp1252 (rstrip_nul data)) (filter (\<lambda>(sig, data). sig = ascii ''MAST'') fs)"

lemma parse_plain_field:
  assumes "length sig = 4" "sig \<noteq> ascii ''XXXX''" "n < 65536"
    and "length data = (case x of Some m \<Rightarrow> m | None \<Rightarrow> n)"
  shows "parse_masters_from x (sig @ to_le 2 n @ data @ rest) ms
    = parse_masters_from None rest (if sig = ascii ''MAST'' then ms @ [decode_cp1252 (rstrip_nul data)] else ms)"
proof -
  have n: "from_le (to_le 2 n) = n" using assms(3) by (simp add: from_le_to_le)
  show ?thesis
    by (subst parse_masters_from.simps) (use assms n in \<open>auto simp: Let_def split: option.splits\<close>)
qed

lemma parse_xxxx_field:
  assumes "m < 4294967296"
  shows "parse_masters_from x (ascii ''XXXX'' @ to_le 2 4 @ to_le 4 m @ rest) ms = parse_masters_from (Some m) rest ms"
proof -
  have l: "length (ascii ''XXXX'') = 4" by (simp add: ascii_def)
  have n: "from_le (to_le 2 4) = 4" "from_le (to_le 4 m) = m" using assms by (simp_all add: from_le_to_le)
  show ?thesis by (subst parse_masters_from.simps) (use l n in \<open>auto simp: Let_def\<close>)
qed

lemma parse_encoded_field:
  assumes "field_ok f"
  shows "parse_masters_from None (encode_field f @ rest) ms = parse_masters_from None rest (ms @ field_masters [f])"
proof -
  obtain sig data where f: "f = (sig, data)" by fastforce
  with assms have ok: "length sig = 4" "sig \<noteq> ascii ''XXXX''" "length data < 4294967296"
    by (simp_all add: field_ok_def)
  show ?thesis
  proof (cases "length data < 65536")
    case True
    with parse_plain_field [OF ok(1,2) True, of data None rest ms] show ?thesis
      by (simp add: f encode_field_def field_masters_def)
  next
    case False
    with parse_xxxx_field [OF ok(3), of None "sig @ to_le 2 0 @ data @ rest" ms]
      parse_plain_field [OF ok(1,2), of 0 data "Some (length data)" rest ms]
    show ?thesis by (simp add: f encode_field_def field_masters_def)
  qed
qed

lemma parse_encoded_fields:
  "list_all field_ok fs \<Longrightarrow> parse_masters_from None (encode_fields fs) ms = Inr (ms @ field_masters fs)"
proof (induction fs arbitrary: ms)
  case Nil
  then show ?case by (simp add: encode_fields_def field_masters_def parse_masters_from.simps)
next
  case (Cons f fs)
  then have "parse_masters_from None (encode_fields (f # fs)) ms
      = parse_masters_from None (encode_fields fs) (ms @ field_masters [f])"
    using parse_encoded_field [of f "encode_fields fs" ms] by (simp add: encode_fields_def)
  also have "\<dots> = Inr (ms @ field_masters (f # fs))" using Cons by (simp add: field_masters_def)
  finally show ?case .
qed

lemma read_encoded_plugin:
  assumes "list_all field_ok fs" and "length (encode_fields fs) \<le> MAX_TES4_DATA_SIZE"
    and "flags < 2 ^ 32" and "version < 2 ^ 16" and "length ids = 8" and "length tail = 2"
  shows "read_plugin_header (Some (ascii ''TES4'' @ to_le 4 (length (encode_fields fs)) @ to_le 4 flags @ ids
             @ to_le 2 version @ tail @ encode_fields fs @ body))
    = Inr \<lparr>masters = field_masters fs, is_master = (flags AND 1 \<noteq> 0), is_light = (flags AND 512 \<noteq> 0),
           form_version = version\<rparr>"
proof -
  have l: "length (ascii ''TES4'') = 4" by (simp add: ascii_def)
  have n: "from_le (to_le 4 (length (encode_fields fs))) = length (encode_fields fs)"
    "from_le (to_le 4 flags) = flags" "from_le (to_le 2 version) = version"
    using assms by (simp_all add: from_le_to_le MAX_TES4_DATA_SIZE_def)
  have p: "parse_masters (encode_fields fs) = Inr (field_masters fs)"
    using parse_encoded_fields [OF assms(1), of "[]"] by (simp add: parse_masters_def)
  show ?thesis
    using assms l n p
    by (simp add: read_plugin_header_def Let_def TES4_HEADER_SIZE_def FLAG_MASTER_def FLAG_LIGHT_def)
qed

definition demo_fields :: "(byte list \<times> byte list) list" where
  "demo_fields = [(ascii ''HEDR'', [1]), (ascii ''MAST'', ascii ''a.esm'' @ [0])]"

lemma demo_fields_ok:
  "list_all field_ok demo_fields" "length (encode_fields demo_fields) \<le> MAX_TES4_DATA_SIZE"
  "field_masters demo_fields = [''a.esm'']"
proof -
  show "list_all field_ok demo_fields"
    by (simp add: demo_fields_def field_ok_def ascii_def)
  show "length (encode_fields demo_fields) \<le> MAX_TES4_DATA_SIZE"
    by (simp add: demo_fields_def encode_fields_def encode_field_def ascii_def MAX_TES4_DATA_SIZE_def)
  show "field_masters demo_fields = [''a.esm'']" by code_simp
qed

text \<open>C34: reading a plugin gives back what its writer put in the header: the masters in order,
  whatever other subrecords stand between them and whichever needed an extended size, the
  two flags, and the version of the format. What follows the header is not read.\<close>

theorem plugin_header_roundtrip:
  assumes "list_all field_ok fs" and "length (encode_fields fs) \<le> MAX_TES4_DATA_SIZE"
    and "flags < 2 ^ 32" and "version < 2 ^ 16" and "length ids = 8" and "length tail = 2"
  shows "read_plugin_header (Some (ascii ''TES4'' @ to_le 4 (length (encode_fields fs)) @ to_le 4 flags @ ids
             @ to_le 2 version @ tail @ encode_fields fs @ body))
    = Inr \<lparr>masters = field_masters fs, is_master = (flags AND 1 \<noteq> 0), is_light = (flags AND 512 \<noteq> 0),
           form_version = version\<rparr>"
  using assms by (rule read_encoded_plugin)

theorem plugin_header_roundtrip_witness:
  "read_plugin_header (Some (ascii ''TES4'' @ to_le 4 (length (encode_fields demo_fields))
       @ to_le 4 513 @ replicate 8 0 @ to_le 2 44 @ [0, 0] @ encode_fields demo_fields @ [7]))
     = Inr \<lparr>masters = [''a.esm''], is_master = True, is_light = True, form_version = 44\<rparr>"
  using plugin_header_roundtrip [of demo_fields 513 44 "replicate 8 0" "[0, 0]" "[7]"] demo_fields_ok
  by simp

lemma parse_masters_size:
  "parse_masters_from x data ms = Inr ms' \<Longrightarrow> length (concat ms') \<le> length (concat ms) + length data"
proof (induction x data ms rule: parse_masters_from.induct)
  case (1 x data ms)
  have drop: "length (rstrip_nul bs) \<le> length bs" for bs
    by (simp add: rstrip_nul_def length_dropWhile_le [of _ "rev bs", simplified])
  have mast: "length (concat (ms @ [decode_cp1252 (rstrip_nul (take r (drop 6 data)))])) + (length data - (6 + r))
      \<le> length (concat ms) + length data"
    if "6 + r \<le> length data" for r
    using drop [of "take r (drop 6 data)"] that by (simp add: decode_cp1252_def)
  let ?r = "case x of None \<Rightarrow> from_le (take 2 (drop 4 data)) | Some n \<Rightarrow> n"
  from "1.prems" show ?case
  proof (subst (asm) parse_masters_from.simps, goal_cases)
    case 1
    consider (nil) "data = []" | (x) "data \<noteq> []" "\<not> length data < 6" "take 4 data = ascii ''XXXX''"
      | (other) "data \<noteq> []" "\<not> length data < 6" "take 4 data \<noteq> ascii ''XXXX''"
      using 1 by (auto split: if_splits)
    then show ?case
    proof cases
      case nil
      with 1 show ?thesis by (simp split: if_splits)
    next
      case x
      with 1 have "parse_masters_from (Some (from_le (take 4 (drop 6 data)))) (drop 4 (drop 6 data)) ms = Inr ms'"
        and "from_le (take 2 (drop 4 data)) = 4" "\<not> length (drop 6 data) < 4"
        by (simp_all add: Let_def split: if_splits)
      with x "1.IH"(1) show ?thesis by fastforce
    next
      case other
      define ms1 where "ms1 = (if take 4 data = ascii ''MAST'' then ms @ [decode_cp1252 (rstrip_nul (take ?r (drop 6 data)))] else ms)"
      from other 1 have r: "\<not> length (drop 6 data) < ?r"
        and p: "parse_masters_from None (drop ?r (drop 6 data)) ms1 = Inr ms'"
        by (simp_all add: Let_def ms1_def split: if_splits)
      from "1.IH"(2) [OF other(1,2) refl refl refl other(3) refl r] p
      have "length (concat ms') \<le> length (concat ms1) + (length data - (6 + ?r))"
        by (simp add: ms1_def)
      also have "\<dots> \<le> length (concat ms) + length data"
        using mast [of ?r] r other(2) by (auto simp: ms1_def)
      finally show ?thesis .
    qed
  qed
qed

text \<open>A hostile size field cannot make the reader return or hold more than it allows.
  For every file, an accepted header declares at most 1 MiB of data, that data is present in
  the file, and the names of the masters together are no longer than it.\<close>

theorem plugin_header_bounded:
  assumes "read_plugin_header (Some bytes) = Inr h"
  shows "\<exists>n. n \<le> MAX_TES4_DATA_SIZE \<and> TES4_HEADER_SIZE + n \<le> length bytes
    \<and> length (concat (masters h)) \<le> n"
proof -
  let ?n = "from_le (take 4 (drop 4 (take TES4_HEADER_SIZE bytes)))"
  from assms have n: "?n \<le> MAX_TES4_DATA_SIZE" and l: "TES4_HEADER_SIZE + ?n \<le> length bytes"
    and p: "parse_masters (take ?n (drop TES4_HEADER_SIZE bytes)) = Inr (masters h)"
    by (auto simp: read_plugin_header_def Let_def split: if_splits sum.splits)
  from parse_masters_size [OF p [unfolded parse_masters_def]]
  have "length (concat (masters h)) \<le> ?n" by simp
  with n l show ?thesis by blast
qed

theorem plugin_header_bounded_witness:
  "\<exists>n. n \<le> MAX_TES4_DATA_SIZE \<and> length (concat [''a.esm'']) \<le> n"
proof -
  have "read_plugin_header (Some (ascii ''TES4'' @ to_le 4 (length (encode_fields demo_fields))
       @ to_le 4 0 @ replicate 8 0 @ to_le 2 44 @ [0, 0] @ encode_fields demo_fields @ []))
     = Inr \<lparr>masters = [''a.esm''], is_master = False, is_light = False, form_version = 44\<rparr>"
    using read_encoded_plugin [of demo_fields 0 44 "replicate 8 0" "[0, 0]" "[]"] demo_fields_ok by simp
  from plugin_header_bounded [OF this] show ?thesis by auto
qed

end
