(* ===== verification/Plugin_Sensors.thy ===== *)
theory Plugin_Sensors
  imports Plugin_Header
begin

text \<open>
  The preflight sensors that read plugin headers, under \<open>sky_claw/local/validators/\<close>:
  \<open>plugin_limits.py\<close> (the two pools of the load order), \<open>missing_masters.py\<close> (every master
  installed and enabled) and \<open>master_order.py\<close> (every master before its dependents, in the
  order the engine really loads). Each ends in a \<open>PreflightCheck\<close> of \<open>preflight.py\<close>; its
  texts for the user are not modelled, its details are the issues they render.
\<close>

subsection \<open>The vocabulary of the preflight\<close>

datatype preflight_status = GREEN | YELLOW | RED

datatype severity = Critical | Warning

definition SEVERITY_RANK :: "preflight_status \<Rightarrow> nat" where
  "SEVERITY_RANK s = (case s of GREEN \<Rightarrow> 0 | YELLOW \<Rightarrow> 1 | RED \<Rightarrow> 2)"

lemma SEVERITY_RANK_simps [simp]: "SEVERITY_RANK GREEN = 0" "SEVERITY_RANK YELLOW = 1" "SEVERITY_RANK RED = 2"
  by (simp_all add: SEVERITY_RANK_def)

text \<open>The colours are ordered by severity.\<close>

instantiation preflight_status :: linorder
begin

definition less_eq_preflight_status :: "preflight_status \<Rightarrow> preflight_status \<Rightarrow> bool" where
  "a \<le> b \<longleftrightarrow> SEVERITY_RANK a \<le> SEVERITY_RANK b"

definition less_preflight_status :: "preflight_status \<Rightarrow> preflight_status \<Rightarrow> bool" where
  "a < b \<longleftrightarrow> SEVERITY_RANK a < SEVERITY_RANK b"

instance
proof
  fix a b :: preflight_status
  show "a \<le> b \<Longrightarrow> b \<le> a \<Longrightarrow> a = b"
    by (cases a; cases b) (simp_all add: less_eq_preflight_status_def)
qed (auto simp: less_eq_preflight_status_def less_preflight_status_def)

end

lemma status_extremes: "(GREEN :: preflight_status) \<le> s" "s \<le> RED"
  by (cases s; simp add: less_eq_preflight_status_def)+

record preflight_check =
  check_name :: string
  check_status :: preflight_status

definition status_of_severities :: "severity list \<Rightarrow> preflight_status" where
  "status_of_severities ss = (if list_ex (\<lambda>s. s = Critical) ss then RED else YELLOW)"

lemma status_red_iff: "status_of_severities (map f xs) = RED \<longleftrightarrow> (\<exists>x \<in> set xs. f x = Critical)"
  by (induction xs) (auto simp: status_of_severities_def)

lemma takeWhile_shorter: "x \<in> set xs \<Longrightarrow> \<not> P x \<Longrightarrow> length (takeWhile P xs) < length xs"
  by (induction xs) auto

subsection \<open>The pools of the load order\<close>

datatype limit_kind = Full_exceeded | Light_exceeded | Full_near | Unreadable_headers

record limit_issue =
  li_kind :: limit_kind
  li_severity :: severity

record load_order_limits =
  full_count :: nat
  light_count :: nat
  unreadable :: nat
  limit_issues :: "limit_issue list"

definition FULL_PLUGIN_LIMIT :: nat where
  "FULL_PLUGIN_LIMIT = 254"

definition LIGHT_PLUGIN_LIMIT :: nat where
  "LIGHT_PLUGIN_LIMIT = 4096"

definition FULL_NEAR_THRESHOLD :: nat where
  "FULL_NEAR_THRESHOLD = FULL_PLUGIN_LIMIT - 4"

definition plugin_is_light :: "string \<Rightarrow> dir_entry \<Rightarrow> bool option" where
  "plugin_is_light name e =
    (case read_plugin_header (entry_bytes e) of
       Inl _ \<Rightarrow> None
     | Inr h \<Rightarrow> Some (ends_with (casefold name) ''.esl'' \<or> is_light h))"

definition build_issues :: "nat \<Rightarrow> nat \<Rightarrow> nat \<Rightarrow> limit_issue list" where
  "build_issues full light unread =
      (if full > FULL_PLUGIN_LIMIT then [\<lparr>li_kind = Full_exceeded, li_severity = Critical\<rparr>]
       else if full \<ge> FULL_NEAR_THRESHOLD then [\<lparr>li_kind = Full_near, li_severity = Warning\<rparr>] else [])
    @ (if light > LIGHT_PLUGIN_LIMIT then [\<lparr>li_kind = Light_exceeded, li_severity = Critical\<rparr>] else [])
    @ (if unread \<noteq> 0 then [\<lparr>li_kind = Unreadable_headers, li_severity = Warning\<rparr>] else [])"

text \<open>The loop of \<open>PluginLimitsChecker.check\<close>: the counters and the names already seen.\<close>

fun count_pools ::
  "(string, dir_entry) dict \<Rightarrow> string list \<Rightarrow> string list \<Rightarrow> nat \<times> nat \<times> nat \<Rightarrow> nat \<times> nat \<times> nat" where
  "count_pools available [] seen counts = counts"
| "count_pools available (plugin # rest) seen (full, light, unread) =
    (let key = casefold plugin in
     if key \<in> set seen then count_pools available rest seen (full, light, unread)
     else (case dget available key of
         None \<Rightarrow> count_pools available rest (key # seen) (full, light, unread)
       | Some e \<Rightarrow>
           (let (l, unread') = (case plugin_is_light plugin e of
                   None \<Rightarrow> (ends_with (casefold plugin) ''.esl'', unread + 1)
                 | Some l \<Rightarrow> (l, unread))
            in count_pools available rest (key # seen)
                 (if l then (full, light + 1, unread') else (full + 1, light, unread')))))"

definition check_limits :: "directory list \<Rightarrow> string list \<Rightarrow> load_order_limits" where
  "check_limits dirs enabled =
    (let (full, light, unread) = count_pools (index_plugin_files dirs) enabled [] (0, 0, 0)
     in \<lparr>full_count = full, light_count = light, unreadable = unread,
         limit_issues = build_issues full light unread\<rparr>)"

definition limits_preflight_check :: "load_order_limits \<Rightarrow> preflight_check" where
  "limits_preflight_check l =
     \<lparr>check_name = ''plugin_limits'',
      check_status = (if limit_issues l = [] then GREEN
                      else status_of_severities (map li_severity (limit_issues l)))\<rparr>"

subsection \<open>Masters: installed and enabled\<close>

datatype master_issue_kind = Missing_master | Disabled_master | Unreadable_header | Plugin_not_found

record master_issue =
  mi_plugin :: string
  mi_master :: "string option"
  mi_kind :: master_issue_kind
  mi_severity :: severity

definition read_masters :: "dir_entry \<Rightarrow> header_error + string list" where
  "read_masters e = (case read_plugin_header (entry_bytes e) of Inl x \<Rightarrow> Inl x | Inr h \<Rightarrow> Inr (masters h))"

definition master_issues_of :: "string set \<Rightarrow> (string, dir_entry) dict \<Rightarrow> string \<Rightarrow> string list \<Rightarrow> master_issue list" where
  "master_issues_of enabled available plugin ms =
     concat (map (\<lambda>m. let key = casefold m in
       if key \<in> enabled \<and> dget available key \<noteq> None then []
       else if dget available key \<noteq> None
         then [\<lparr>mi_plugin = plugin, mi_master = Some m, mi_kind = Disabled_master, mi_severity = Critical\<rparr>]
         else [\<lparr>mi_plugin = plugin, mi_master = Some m, mi_kind = Missing_master, mi_severity = Critical\<rparr>]) ms)"

definition plugin_master_issues :: "string set \<Rightarrow> (string, dir_entry) dict \<Rightarrow> string \<Rightarrow> master_issue list" where
  "plugin_master_issues enabled available plugin =
    (case dget available (casefold plugin) of
       None \<Rightarrow> [\<lparr>mi_plugin = plugin, mi_master = None, mi_kind = Plugin_not_found, mi_severity = Warning\<rparr>]
     | Some e \<Rightarrow>
         (case read_masters e of
            Inl _ \<Rightarrow> [\<lparr>mi_plugin = plugin, mi_master = None, mi_kind = Unreadable_header, mi_severity = Warning\<rparr>]
          | Inr ms \<Rightarrow> master_issues_of enabled available plugin ms))"

definition check_masters :: "directory list \<Rightarrow> string list \<Rightarrow> master_issue list" where
  "check_masters dirs enabled_plugins =
     concat (map (plugin_master_issues (casefold ` set enabled_plugins) (index_plugin_files dirs)) enabled_plugins)"

definition masters_preflight_check :: "master_issue list \<Rightarrow> preflight_check" where
  "masters_preflight_check issues =
     \<lparr>check_name = ''masters'',
      check_status = (if issues = [] then GREEN else status_of_severities (map mi_severity issues))\<rparr>"

subsection \<open>Masters: loaded before their dependents\<close>

record order_issue =
  oi_plugin :: string
  oi_master :: string
  oi_plugin_index :: nat
  oi_master_index :: nat

definition MASTER_BLOCK_SUFFIXES :: "string list" where
  "MASTER_BLOCK_SUFFIXES = [''.esm'', ''.esl'']"

definition effective_load_order :: "string list \<Rightarrow> (string, bool) dict \<Rightarrow> string list" where
  "effective_load_order enabled_plugins in_master_block =
    (let hoisted = (\<lambda>n. case dget in_master_block (casefold n) of None \<Rightarrow> False | Some b \<Rightarrow> b)
     in filter hoisted enabled_plugins @ filter (\<lambda>n. \<not> hoisted n) enabled_plugins)"

fun read_headers :: "string list \<Rightarrow> (string, dir_entry) dict \<Rightarrow> (string, plugin_header) dict \<Rightarrow> (string, plugin_header) dict" where
  "read_headers [] available headers = headers"
| "read_headers (n # ns) available headers =
    (let key = casefold n in
     if dget headers key \<noteq> None then read_headers ns available headers
     else (case dget available key of
         None \<Rightarrow> read_headers ns available headers
       | Some e \<Rightarrow> (case read_plugin_header (entry_bytes e) of
            Inl _ \<Rightarrow> read_headers ns available headers
          | Inr h \<Rightarrow> read_headers ns available (dset key h headers))))"

definition master_block :: "string list \<Rightarrow> (string, plugin_header) dict \<Rightarrow> (string, bool) dict" where
  "master_block enabled_plugins headers =
    (let by_suffix = fold (\<lambda>n d. dset (casefold n) (casefold (suffix_of n) \<in> set MASTER_BLOCK_SUFFIXES) d)
                       enabled_plugins []
     in fold (\<lambda>(k, h) d. dset k ((case dget d k of None \<Rightarrow> False | Some b \<Rightarrow> b) \<or> is_master h) d)
          headers by_suffix)"

fun first_positions :: "nat \<Rightarrow> string list \<Rightarrow> (string, nat) dict \<Rightarrow> (string, nat) dict" where
  "first_positions i [] pos = pos"
| "first_positions i (n # ns) pos = first_positions (Suc i) ns (dsetdefault (casefold n) i pos)"

definition position_of :: "(string, nat) dict \<Rightarrow> string \<Rightarrow> nat" where
  "position_of pos k = (case dget pos k of None \<Rightarrow> 0 | Some i \<Rightarrow> i)"

definition order_issues_of ::
  "(string, plugin_header) dict \<Rightarrow> (string, nat) dict \<Rightarrow> string \<Rightarrow> order_issue list" where
  "order_issues_of headers pos n =
    (case dget headers (casefold n) of
       None \<Rightarrow> []
     | Some h \<Rightarrow>
        (let pi = position_of pos (casefold n) in
         concat (map (\<lambda>m.
           if dget headers (casefold m) = None then []
           else let mi = position_of pos (casefold m) in
             if mi < pi then []
             else [\<lparr>oi_plugin = n, oi_master = m, oi_plugin_index = pi, oi_master_index = mi\<rparr>]) (masters h))))"

definition check_order :: "directory list \<Rightarrow> string list \<Rightarrow> order_issue list" where
  "check_order dirs enabled_plugins =
    (let headers = read_headers enabled_plugins (index_plugin_files dirs) [];
         efectivo = effective_load_order enabled_plugins (master_block enabled_plugins headers);
         pos = first_positions 0 efectivo []
     in concat (map (order_issues_of headers pos) efectivo))"

definition order_preflight_check :: "order_issue list \<Rightarrow> preflight_check" where
  "order_preflight_check issues =
     \<lparr>check_name = ''master_order'', check_status = (if issues = [] then GREEN else RED)\<rparr>"

subsection \<open>The pools are counted exactly\<close>

text \<open>The specification: a plugin occupies one slot, named by its case-insensitive name, when its
  file is indexed; the slot is light by extension or, when the header is readable, by flag.\<close>

definition light_slot :: "string \<Rightarrow> dir_entry \<Rightarrow> bool" where
  "light_slot key e \<longleftrightarrow> ends_with key ''.esl''
     \<or> (case read_plugin_header (entry_bytes e) of Inl _ \<Rightarrow> False | Inr h \<Rightarrow> is_light h)"

definition slots :: "(string, dir_entry) dict \<Rightarrow> bool \<Rightarrow> string set \<Rightarrow> string set" where
  "slots available light keys = {k \<in> keys. \<exists>e. dget available k = Some e \<and> light_slot k e = light}"

lemma slots_insert:
  "slots available l (insert k K) =
     (case dget available k of Some e \<Rightarrow> if light_slot k e = l then insert k (slots available l K) else slots available l K
      | None \<Rightarrow> slots available l K)"
  by (auto simp: slots_def split: option.splits)

lemma slots_diff_insert: "k \<notin> slots available l (K - insert k S)"
  by (simp add: slots_def)

lemma finite_slots [simp]: "finite K \<Longrightarrow> finite (slots available l K)"
  by (simp add: slots_def)

lemma count_pools_exact:
  "count_pools available ps seen (f, l, u) = (f', l', u') \<Longrightarrow>
     f' = f + card (slots available False (casefold ` set ps - set seen))
   \<and> l' = l + card (slots available True (casefold ` set ps - set seen))"
proof (induction ps arbitrary: seen f l u)
  case Nil
  then show ?case by (simp add: slots_def)
next
  case (Cons p ps)
  let ?k = "casefold p" and ?K = "\<lambda>S. casefold ` set ps - S"
  show ?case
  proof (cases "?k \<in> set seen")
    case True
    then have "casefold ` set (p # ps) - set seen = ?K (set seen)" by auto
    with Cons True show ?thesis by simp
  next
    case False
    then have K: "casefold ` set (p # ps) - set seen = insert ?k (?K (set (?k # seen)))" by auto
    have n: "?k \<notin> slots available b (?K (set (?k # seen)))" for b by (simp add: slots_def)
    show ?thesis
    proof (cases "dget available ?k")
      case None
      with Cons.IH [of "?k # seen" f l u] Cons.prems False show ?thesis
        unfolding K slots_insert by simp
    next
      case (Some e)
      define b where "b = light_slot ?k e"
      obtain u2 where "count_pools available ps (?k # seen) (if b then (f, l + 1, u2) else (f + 1, l, u2)) = (f', l', u')"
        using Cons.prems False Some
        by (auto simp: b_def light_slot_def plugin_is_light_def Let_def split: sum.splits if_splits)
      with Cons.IH [of "?k # seen" f "l + 1" u2] Cons.IH [of "?k # seen" "f + 1" l u2] have
        "f' = (if b then f else f + 1) + card (slots available False (?K (set (?k # seen))))
         \<and> l' = (if b then l + 1 else l) + card (slots available True (?K (set (?k # seen))))"
        by (cases b) simp_all
      then show ?thesis unfolding K slots_insert using Some n by (simp add: b_def)
    qed
  qed
qed

text \<open>The two pools are counted exactly: one slot per distinct enabled name that is on disk,
  however often and in whatever case the load order repeats it, light by extension or by the
  flag of its header. The semaphore is red exactly when a pool is over its limit.\<close>

theorem limits_exact:
  "let available = index_plugin_files dirs; keys = casefold ` set enabled; l = check_limits dirs enabled in
     full_count l = card (slots available False keys) \<and> light_count l = card (slots available True keys)
   \<and> (check_status (limits_preflight_check l) = RED
        \<longleftrightarrow> card (slots available False keys) > 254 \<or> card (slots available True keys) > 4096)"
proof -
  obtain f l u where c: "count_pools (index_plugin_files dirs) enabled [] (0, 0, 0) = (f, l, u)"
    by (metis prod_cases3)
  from count_pools_exact [OF c] show ?thesis
    by (auto simp: check_limits_def c Let_def limits_preflight_check_def build_issues_def status_of_severities_def
        FULL_PLUGIN_LIMIT_def LIGHT_PLUGIN_LIMIT_def)
qed

subsection \<open>Masters are present\<close>

definition master_unmet :: "directory list \<Rightarrow> string list \<Rightarrow> bool" where
  "master_unmet dirs enabled \<longleftrightarrow>
    (\<exists>p e ms m. p \<in> set enabled \<and> dget (index_plugin_files dirs) (casefold p) = Some e \<and> read_masters e = Inr ms
       \<and> m \<in> set ms \<and> \<not> (casefold m \<in> casefold ` set enabled \<and> dget (index_plugin_files dirs) (casefold m) \<noteq> None))"

lemma critical_of_master:
  "(\<exists>i \<in> set (master_issues_of E A p ms). mi_severity i = Critical)
     \<longleftrightarrow> (\<exists>m \<in> set ms. \<not> (casefold m \<in> E \<and> dget A (casefold m) \<noteq> None))"
  by (induction ms) (auto simp: master_issues_of_def Let_def split: if_splits)

lemma critical_of_plugin:
  "(\<exists>i \<in> set (plugin_master_issues E A p). mi_severity i = Critical)
     \<longleftrightarrow> (\<exists>e ms m. dget A (casefold p) = Some e \<and> read_masters e = Inr ms \<and> m \<in> set ms
          \<and> \<not> (casefold m \<in> E \<and> dget A (casefold m) \<noteq> None))"
proof (cases "dget A (casefold p)")
  case (Some e)
  with critical_of_master [of E A p] show ?thesis
    by (cases "read_masters e") (auto simp: plugin_master_issues_def)
qed (simp add: plugin_master_issues_def)

lemma master_issue_iff:
  "(\<exists>i \<in> set (check_masters dirs enabled). mi_severity i = Critical) \<longleftrightarrow> master_unmet dirs enabled"
proof -
  have "(\<exists>i \<in> set (check_masters dirs enabled). mi_severity i = Critical)
    \<longleftrightarrow> (\<exists>p \<in> set enabled. \<exists>i \<in> set (plugin_master_issues (casefold ` set enabled) (index_plugin_files dirs) p).
          mi_severity i = Critical)"
    by (auto simp: check_masters_def)
  then show ?thesis unfolding critical_of_plugin master_unmet_def by blast
qed

text \<open>The masters sensor blocks exactly when some enabled plugin, present and readable,
  declares a master that is not both enabled and installed. A plugin it cannot find or read
  only warns, and green means that there is nothing at all to report.\<close>

theorem masters_sensor_exact:
  "check_status (masters_preflight_check (check_masters dirs enabled)) = RED \<longleftrightarrow> master_unmet dirs enabled"
  unfolding master_issue_iff [symmetric]
  by (cases "check_masters dirs enabled = []") (simp_all add: masters_preflight_check_def status_red_iff)

subsection \<open>Masters come first\<close>

lemma lower_char_dot: "lower_char c = CHR ''.'' \<longleftrightarrow> c = CHR ''.''"
proof -
  have "of_char (lower_char c) = (46 :: nat) \<longleftrightarrow> of_char c = (46 :: nat)"
    by (auto simp: lower_char_def of_char_of)
  moreover have "of_char x = (46 :: nat) \<longleftrightarrow> x = CHR ''.''" for x
    using of_char_eq_iff [of x "CHR ''.''"] by simp
  ultimately show ?thesis by simp
qed

lemma casefold_suffix_of: "casefold (suffix_of n) = suffix_of (casefold n)"
proof -
  have "takeWhile (\<lambda>c. c \<noteq> CHR ''.'') (map lower_char xs) = map lower_char (takeWhile (\<lambda>c. c \<noteq> CHR ''.'') xs)" for xs
    by (induction xs) (simp_all add: lower_char_dot)
  moreover have "lower_char CHR ''.'' = CHR ''.''" by (simp add: lower_char_dot)
  ultimately show ?thesis by (simp add: suffix_of_def Let_def casefold_def rev_map)
qed

definition readable_header :: "directory list \<Rightarrow> string \<Rightarrow> plugin_header option" where
  "readable_header dirs key =
    (case dget (index_plugin_files dirs) key of None \<Rightarrow> None
     | Some e \<Rightarrow> (case read_plugin_header (entry_bytes e) of Inl _ \<Rightarrow> None | Inr h \<Rightarrow> Some h))"

lemma dget_read_headers:
  "dget (read_headers ns (index_plugin_files dirs) hs) k =
     (case dget hs k of Some h \<Rightarrow> Some h
      | None \<Rightarrow> if k \<in> casefold ` set ns then readable_header dirs k else None)"
  by (induction ns arbitrary: hs)
     (auto simp: Let_def readable_header_def split: option.splits sum.splits)

lemma dict_wf_read_headers: "dict_wf hs \<Longrightarrow> dict_wf (read_headers ns A hs)"
  by (induction ns arbitrary: hs) (auto simp: Let_def split: option.splits sum.splits)

definition hoisted :: "directory list \<Rightarrow> string \<Rightarrow> bool" where
  "hoisted dirs key \<longleftrightarrow> suffix_of key \<in> set MASTER_BLOCK_SUFFIXES
     \<or> (case readable_header dirs key of None \<Rightarrow> False | Some h \<Rightarrow> is_master h)"

lemma dget_fold_key:
  "dget (fold (\<lambda>n d. dset (casefold n) (f (casefold n)) d) ns d) k
     = (if k \<in> casefold ` set ns then Some (f k) else dget d k)"
  by (induction ns arbitrary: d) auto

lemma dget_fold_headers:
  "dict_wf hs \<Longrightarrow>
   dget (fold (\<lambda>(k, h) d. dset k ((case dget d k of None \<Rightarrow> False | Some b \<Rightarrow> b) \<or> is_master h) d) hs d) k
     = (case dget hs k of None \<Rightarrow> dget d k
        | Some h \<Rightarrow> Some ((case dget d k of None \<Rightarrow> False | Some b \<Rightarrow> b) \<or> is_master h))"
proof (induction hs arbitrary: d)
  case (Cons x hs)
  obtain k' h' where x: "x = (k', h')" by fastforce
  with Cons.prems have "dget hs k' = None" by (auto simp: map_of_eq_None_iff)
  with Cons x show ?case by (auto split: option.splits)
qed simp

lemma dget_master_block:
  assumes "n \<in> set ps"
  shows "dget (master_block ps (read_headers ps (index_plugin_files dirs) [])) (casefold n) = Some (hoisted dirs (casefold n))"
proof -
  have k: "casefold n \<in> casefold ` set ps" using assms by simp
  show ?thesis
    using k
    by (simp add: master_block_def Let_def casefold_suffix_of dict_wf_read_headers
        dget_fold_headers dget_fold_key [of "\<lambda>k. suffix_of k \<in> set MASTER_BLOCK_SUFFIXES"]
        dget_read_headers hoisted_def split: option.splits)
qed

definition engine_order :: "directory list \<Rightarrow> string list \<Rightarrow> string list" where
  "engine_order dirs ps =
     filter (\<lambda>n. hoisted dirs (casefold n)) ps @ filter (\<lambda>n. \<not> hoisted dirs (casefold n)) ps"

lemma effective_is_engine_order:
  "effective_load_order ps (master_block ps (read_headers ps (index_plugin_files dirs) [])) = engine_order dirs ps"
  unfolding effective_load_order_def engine_order_def Let_def
  by (intro arg_cong2 [of _ _ _ _ "(@)"] filter_cong refl) (simp_all add: dget_master_block)

definition first_at :: "string list \<Rightarrow> string \<Rightarrow> nat" where
  "first_at ns k = length (takeWhile (\<lambda>n. casefold n \<noteq> k) ns)"

lemma dget_first_positions:
  "dget (first_positions i ns pos) k =
     (case dget pos k of Some j \<Rightarrow> Some j
      | None \<Rightarrow> if k \<in> casefold ` set ns then Some (i + first_at ns k) else None)"
  by (induction ns arbitrary: i pos) (auto simp: dget_dsetdefault first_at_def split: option.splits)

lemma position_first_at:
  "k \<in> casefold ` set ns \<Longrightarrow> position_of (first_positions 0 ns []) k = first_at ns k"
  by (simp add: position_of_def dget_first_positions)

lemma set_engine_order [simp]: "set (engine_order dirs ps) = set ps"
  by (auto simp: engine_order_def)

lemma first_at_engine_order:
  assumes m: "m \<in> set ps" "hoisted dirs (casefold m)" and n: "\<not> hoisted dirs (casefold n)"
  shows "first_at (engine_order dirs ps) (casefold m) < first_at (engine_order dirs ps) (casefold n)"
proof -
  let ?A = "filter (\<lambda>n. hoisted dirs (casefold n)) ps" and ?B = "filter (\<lambda>n. \<not> hoisted dirs (casefold n)) ps"
  from m have mA: "m \<in> set ?A" by simp
  have "first_at (?A @ ?B) (casefold m) = first_at ?A (casefold m)"
    unfolding first_at_def using mA by (subst takeWhile_append1 [of m]) auto
  also have "\<dots> < length ?A"
    unfolding first_at_def using mA
    by (intro takeWhile_shorter) auto
  also have "\<dots> \<le> first_at (?A @ ?B) (casefold n)"
    unfolding first_at_def using n by (subst takeWhile_append2) auto
  finally show ?thesis by (simp add: engine_order_def)
qed

definition inverted :: "directory list \<Rightarrow> string list \<Rightarrow> string \<Rightarrow> string \<Rightarrow> bool" where
  "inverted dirs ps n m \<longleftrightarrow>
     (\<exists>h. readable_header dirs (casefold n) = Some h \<and> m \<in> set (masters h))
   \<and> casefold m \<in> casefold ` set ps \<and> readable_header dirs (casefold m) \<noteq> None
   \<and> first_at (engine_order dirs ps) (casefold n) \<le> first_at (engine_order dirs ps) (casefold m)"

lemma order_issue_iff:
  "(\<exists>i \<in> set (check_order dirs ps). oi_plugin i = n \<and> oi_master i = m) \<longleftrightarrow> n \<in> set ps \<and> inverted dirs ps n m"
proof -
  let ?hs = "read_headers ps (index_plugin_files dirs) []" and ?pos = "first_positions 0 (engine_order dirs ps) []"
  have "(\<exists>i \<in> set (order_issues_of ?hs ?pos n'). oi_plugin i = n \<and> oi_master i = m) \<longleftrightarrow> n' = n \<and> inverted dirs ps n m"
    if n': "n' \<in> set ps" for n'
  proof (cases "dget ?hs (casefold n')")
    case None
    with n' show ?thesis by (auto simp: order_issues_of_def dget_read_headers inverted_def)
  next
    case (Some h)
    with n' have h: "readable_header dirs (casefold n') = Some h" by (simp add: dget_read_headers)
    have pn: "position_of ?pos (casefold n') = first_at (engine_order dirs ps) (casefold n')"
      using n' by (simp add: position_first_at)
    have pm: "dget ?hs (casefold x) \<noteq> None \<Longrightarrow>
        position_of ?pos (casefold x) = first_at (engine_order dirs ps) (casefold x)" for x
      by (simp add: dget_read_headers position_first_at split: if_splits)
    have "(\<exists>i \<in> set (order_issues_of ?hs ?pos n'). oi_plugin i = n \<and> oi_master i = m)
      \<longleftrightarrow> n' = n \<and> m \<in> set (masters h) \<and> dget ?hs (casefold m) \<noteq> None
          \<and> first_at (engine_order dirs ps) (casefold n') \<le> first_at (engine_order dirs ps) (casefold m)"
      using pm by (auto simp: order_issues_of_def Some pn Let_def not_less)
    then show ?thesis using h by (auto simp: inverted_def dget_read_headers split: if_splits)
  qed
  then show ?thesis
    unfolding check_order_def Let_def effective_is_engine_order by auto
qed

text \<open>The order sensor is exact. It reports a pair exactly when an enabled, readable plugin
  declares a readable enabled master that does not come first in the order the engine loads;
  it is green exactly when there is no such pair. Because that order hoists the block of
  masters, a plain plugin is never reported against a master of the block, wherever the two
  stand in \<open>plugins.txt\<close>.\<close>

theorem order_sensor_exact:
  "((\<exists>i \<in> set (check_order dirs ps). oi_plugin i = n \<and> oi_master i = m) \<longleftrightarrow> n \<in> set ps \<and> inverted dirs ps n m)
   \<and> (check_status (order_preflight_check (check_order dirs ps)) = GREEN \<longleftrightarrow> (\<forall>n \<in> set ps. \<forall>m. \<not> inverted dirs ps n m))
   \<and> (hoisted dirs (casefold m) \<and> \<not> hoisted dirs (casefold n) \<longrightarrow> \<not> inverted dirs ps n m)"
proof (intro conjI)
  show "check_status (order_preflight_check (check_order dirs ps)) = GREEN \<longleftrightarrow> (\<forall>n \<in> set ps. \<forall>m. \<not> inverted dirs ps n m)"
    using order_issue_iff [of dirs ps]
    by (cases "check_order dirs ps") (auto simp: order_preflight_check_def)
  show "hoisted dirs (casefold m) \<and> \<not> hoisted dirs (casefold n) \<longrightarrow> \<not> inverted dirs ps n m"
    using first_at_engine_order [of _ ps dirs n] by (force simp: inverted_def)
qed (rule order_issue_iff)

definition demo_entry :: "string \<Rightarrow> string list \<Rightarrow> dir_entry" where
  "demo_entry n ms = \<lparr>entry_name = n, entry_is_file = Some True,
     entry_bytes = (let fs = map (\<lambda>m. (ascii ''MAST'', ascii m)) ms in
       Some (ascii ''TES4'' @ to_le 4 (length (encode_fields fs)) @ to_le 4 0 @ replicate 8 0 @ to_le 2 44 @ [0, 0]
         @ encode_fields fs @ []))\<rparr>"

definition demo_dirs :: "directory list" where
  "demo_dirs = [Some [demo_entry ''b.esp'' []], None, Some [demo_entry ''A.esp'' [''b.esp'']]]"

lemma demo_entry_simps [simp]: "entry_name (demo_entry n ms) = n" "entry_is_file (demo_entry n ms) = Some True"
  by (simp_all add: demo_entry_def)

lemma demo_readable:
  "readable_header demo_dirs ''a.esp'' = Some \<lparr>masters = [''b.esp''], is_master = False, is_light = False, form_version = 44\<rparr>"
  "readable_header demo_dirs ''b.esp'' = Some \<lparr>masters = [], is_master = False, is_light = False, form_version = 44\<rparr>"
proof -
  have idx: "dget (index_plugin_files demo_dirs) ''a.esp'' = Some (demo_entry ''A.esp'' [''b.esp''])"
    "dget (index_plugin_files demo_dirs) ''b.esp'' = Some (demo_entry ''b.esp'' [])"
  proof -
    have c: "casefold ''A.esp'' = ''a.esp''" "casefold ''b.esp'' = ''b.esp''" "casefold ''.esp'' = ''.esp''"
      by code_simp+
    show "dget (index_plugin_files demo_dirs) ''a.esp'' = Some (demo_entry ''A.esp'' [''b.esp''])"
      "dget (index_plugin_files demo_dirs) ''b.esp'' = Some (demo_entry ''b.esp'' [])"
      by (simp_all add: index_plugin_files_def index_directory_def index_entry_def demo_dirs_def c suffix_of_def
          PLUGIN_SUFFIXES_def dsetdefault_def)
  qed
  have fs: "list_all field_ok [(ascii ''MAST'', ascii ''b.esp'')]"
    "length (encode_fields [(ascii ''MAST'', ascii ''b.esp'')]) \<le> MAX_TES4_DATA_SIZE"
    by (simp_all add: field_ok_def ascii_def encode_fields_def encode_field_def MAX_TES4_DATA_SIZE_def)
  have fm: "field_masters [(ascii ''MAST'', ascii ''b.esp'')] = [''b.esp'']" by code_simp
  show "readable_header demo_dirs ''a.esp'' = Some \<lparr>masters = [''b.esp''], is_master = False, is_light = False, form_version = 44\<rparr>"
    using read_encoded_plugin [OF fs, of 0 44 "replicate 8 0" "[0, 0]" "[]"] idx
    by (simp add: readable_header_def demo_entry_def fm Let_def)
  show "readable_header demo_dirs ''b.esp'' = Some \<lparr>masters = [], is_master = False, is_light = False, form_version = 44\<rparr>"
    using read_encoded_plugin [of "[]" 0 44 "replicate 8 0" "[0, 0]" "[]"] idx
    by (simp add: readable_header_def demo_entry_def field_masters_def encode_fields_def Let_def)
qed

theorem order_sensor_exact_witness:
  "\<exists>i \<in> set (check_order demo_dirs [''A.esp'', ''b.esp'']). oi_plugin i = ''A.esp'' \<and> oi_master i = ''b.esp''"
proof -
  have c: "casefold ''A.esp'' = ''a.esp''" "casefold ''b.esp'' = ''b.esp''" by code_simp+
  have h: "\<not> hoisted demo_dirs ''a.esp''" "\<not> hoisted demo_dirs ''b.esp''"
    by (simp_all add: hoisted_def demo_readable suffix_of_def MASTER_BLOCK_SUFFIXES_def)
  have "inverted demo_dirs [''A.esp'', ''b.esp''] ''A.esp'' ''b.esp''"
    by (simp add: inverted_def c demo_readable engine_order_def h first_at_def)
  with order_sensor_exact [of demo_dirs "[''A.esp'', ''b.esp'']" "''A.esp''" "''b.esp''"] show ?thesis by simp
qed

end
