(* ===== verification/Loot_Outcome.thy ===== *)
theory Loot_Outcome
  imports Json_Text
begin

text \<open>
  The verifiable result of a LOOT sort, under \<open>sky_claw/local/loot/\<close>: the witness planted
  before the run and read after it (\<open>execution_witness.py\<close>), the semantic state of the load
  order and the verdict matrix (\<open>outcome.py\<close>), and the detection of the LOOT version
  (\<open>version.py\<close>). Bytes are characters; the diagnostics of a verdict are not modelled.
\<close>

subsection \<open>The execution witness\<close>

datatype witness_state = FRESH | SENTINEL_INTACT | SENTINEL_ALTERED | EMPTY | ABSENT | UNREADABLE

definition witness_value :: "witness_state \<Rightarrow> string" where
  "witness_value s = (case s of FRESH \<Rightarrow> ''fresh'' | SENTINEL_INTACT \<Rightarrow> ''sentinel_intact''
     | SENTINEL_ALTERED \<Rightarrow> ''sentinel_altered'' | EMPTY \<Rightarrow> ''empty'' | ABSENT \<Rightarrow> ''absent''
     | UNREADABLE \<Rightarrow> ''unreadable'')"

definition witness_states :: "witness_state list" where
  "witness_states = [FRESH, SENTINEL_INTACT, SENTINEL_ALTERED, EMPTY, ABSENT, UNREADABLE]"

definition fresh :: "witness_state \<Rightarrow> bool" where
  "fresh s \<longleftrightarrow> s = FRESH"

definition LOOT_EXECUTION_WITNESS_SCHEMA :: int where
  "LOOT_EXECUTION_WITNESS_SCHEMA = 1"

definition witness_to_payload :: "witness_state \<Rightarrow> json" where
  "witness_to_payload s = JObj [(''schema'', JInt LOOT_EXECUTION_WITNESS_SCHEMA), (''state'', JStr (witness_value s))]"

definition witness_from_payload :: "json \<Rightarrow> witness_state option" where
  "witness_from_payload raw =
    (case raw of
       JObj kvs \<Rightarrow>
         if set (map fst kvs) \<noteq> {''schema'', ''state''} then None
         else (case (dget kvs ''schema'', dget kvs ''state'') of
                 (Some (JInt n), Some (JStr s)) \<Rightarrow>
                   if n = LOOT_EXECUTION_WITNESS_SCHEMA then find (\<lambda>w. witness_value w = s) witness_states
                   else None
               | _ \<Rightarrow> None)
     | _ \<Rightarrow> None)"

text \<open>What reading the log gives: absent, unreadable, or its bytes.\<close>

datatype read_result = Not_found | Os_error | Bytes string

definition sentinel_text :: "string \<Rightarrow> string" where
  "sentinel_text nonce =
     ''# Sky-Claw LOOT execution witness '' @ nonce @ [CHR 0x0A]
   @ ''# LOOT borra y recrea este archivo al inicializar su runtime'' @ [CHR 0x0A]
   @ ''# (loot/loot 0.29.1 src/gui/state/loot_state.cpp:105-106). Si este texto'' @ [CHR 0x0A]
   @ ''# sigue intacto tras una corrida, esa corrida NO alcanzo el runtime de LOOT.'' @ [CHR 0x0A]"

text \<open>Arming replaces the log atomically: the write and the replacement succeed together (the
  flag), or the log is left as it was and the launch is refused.\<close>

definition arm_execution_witness :: "bool \<Rightarrow> string \<Rightarrow> read_result \<Rightarrow> (read_result \<times> string) option" where
  "arm_execution_witness write_ok nonce log =
     (if write_ok then Some (Bytes (sentinel_text nonce), sentinel_text nonce) else None)"

definition observe :: "string \<Rightarrow> read_result \<Rightarrow> witness_state" where
  "observe sentinel log =
    (case log of
       Not_found \<Rightarrow> ABSENT
     | Os_error \<Rightarrow> UNREADABLE
     | Bytes content \<Rightarrow>
         let head = take (length sentinel + 1) content in
         if head = sentinel then SENTINEL_INTACT
         else if starts_with head sentinel then SENTINEL_ALTERED
         else if head = [] then EMPTY
         else FRESH)"

subsection \<open>The semantic state of the load order\<close>

type_synonym load_order_entry = "string \<times> bool"

type_synonym load_order_file = "load_order_entry list option"

type_synonym load_order_state = "(string \<times> load_order_file) list"

definition entry_of_line :: "string \<Rightarrow> load_order_entry list" where
  "entry_of_line line =
     (if line = [] \<or> hd line = CHR ''#'' then []
      else if hd line = CHR ''*'' then [(tl line, True)] else [(line, False)])"

definition drop_cr :: "string \<Rightarrow> string" where
  "drop_cr raw = (if raw \<noteq> [] \<and> last raw = CHR 0x0D then butlast raw else raw)"

text \<open>Every piece but the last was ended by a line feed, and only such a piece loses one CR.\<close>

definition parse_load_order_bytes :: "string \<Rightarrow> load_order_entry list" where
  "parse_load_order_bytes data =
    (let piezas = split_on (CHR 0x0A) data in
     concat (map (\<lambda>raw. entry_of_line (drop_cr raw)) (butlast piezas)) @ entry_of_line (last piezas))"

fun read_load_order_from :: "(string \<times> read_result) list \<Rightarrow> load_order_state \<Rightarrow> string + load_order_state" where
  "read_load_order_from [] state = Inr state"
| "read_load_order_from ((path, r) # rest) state =
    (case r of
       Not_found \<Rightarrow> read_load_order_from rest (state @ [(path, None)])
     | Os_error \<Rightarrow> Inl path
     | Bytes data \<Rightarrow> read_load_order_from rest (state @ [(path, Some (parse_load_order_bytes data))]))"

definition read_load_order_semantics :: "(string \<times> read_result) list \<Rightarrow> string + load_order_state" where
  "read_load_order_semantics paths =
    (case read_load_order_from paths [] of Inl p \<Rightarrow> Inl p | Inr state \<Rightarrow> Inr (sort_key fst state))"

subsection \<open>The verdict\<close>

datatype sort_outcome = CHANGED | NO_CHANGE | FAIL

datatype failure_reason =
  PRECONDITION_FAILED | PROCESS_ERROR | TIMEOUT | EXECUTION_NOT_ATTRIBUTABLE | STATE_UNOBSERVABLE | PROTOCOL_ERROR

record sort_verdict =
  outcome :: sort_outcome
  failure_reason :: "failure_reason option"

text \<open>\<open>LootSortVerdict\<close> checks its invariant when it is built; a violation raises.\<close>

definition make_verdict :: "sort_outcome \<Rightarrow> failure_reason option \<Rightarrow> sort_verdict option" where
  "make_verdict oc reason =
     (if (oc = FAIL) \<noteq> (reason \<noteq> None) then None else Some \<lparr>outcome = oc, failure_reason = reason\<rparr>)"

definition verdict_success :: "sort_verdict \<Rightarrow> bool" where
  "verdict_success v \<longleftrightarrow> outcome v \<noteq> FAIL"

definition classify_loot_sort ::
  "bool \<Rightarrow> witness_state option \<Rightarrow> load_order_state option \<Rightarrow> load_order_state option \<Rightarrow> sort_verdict option" where
  "classify_loot_sort process_success wit before after =
    (if \<not> process_success then make_verdict FAIL (Some PROCESS_ERROR)
     else if before = None \<or> after = None then make_verdict FAIL (Some STATE_UNOBSERVABLE)
     else
       let cambio = (before \<noteq> after) in
       if (case wit of None \<Rightarrow> True | Some w \<Rightarrow> \<not> fresh w)
       then make_verdict FAIL (Some EXECUTION_NOT_ATTRIBUTABLE)
       else if cambio then make_verdict CHANGED None
       else make_verdict NO_CHANGE None)"

subsection \<open>The version of LOOT\<close>

type_synonym version = "nat \<times> nat \<times> nat"

definition LOOT_MIN_SYMLINK_SAFE :: version where
  "LOOT_MIN_SYMLINK_SAFE = (0, 29, 0)"

fun version_le :: "version \<Rightarrow> version \<Rightarrow> bool" where
  "version_le (a, b, c) (x, y, z) \<longleftrightarrow> a < x \<or> a = x \<and> (b < y \<or> b = y \<and> c \<le> z)"

definition digits :: "string \<Rightarrow> string \<times> string" where
  "digits s = (takeWhile is_digit s, dropWhile is_digit s)"

definition match_version :: "string \<Rightarrow> version option" where
  "match_version s =
    (let (d1, r1) = digits s in
     if d1 = [] \<or> r1 = [] \<or> hd r1 \<noteq> CHR ''.'' then None
     else let (d2, r2) = digits (tl r1) in
       if d2 = [] \<or> r2 = [] \<or> hd r2 \<noteq> CHR ''.'' then None
       else let (d3, r3) = digits (tl r2) in
         if d3 = [] then None else Some (read_nat d1, read_nat d2, read_nat d3))"

fun parse_loot_version :: "string \<Rightarrow> version option" where
  "parse_loot_version [] = None"
| "parse_loot_version (c # cs) =
     (case match_version (c # cs) of Some v \<Rightarrow> Some v | None \<Rightarrow> parse_loot_version cs)"

text \<open>The advisory is only whether there is one.\<close>

definition symlink_advisory :: "version option \<Rightarrow> bool" where
  "symlink_advisory v = (case v of None \<Rightarrow> True | Some w \<Rightarrow> \<not> version_le LOOT_MIN_SYMLINK_SAFE w)"

text \<open>One run of \<open>loot --version\<close>: its output and return code, absent when it cannot run.\<close>

definition detect_loot_version :: "(string \<times> string \<times> int) option \<Rightarrow> version option" where
  "detect_loot_version run =
    (case run of
       None \<Rightarrow> None
     | Some (out, err, rc) \<Rightarrow> if rc \<noteq> 0 then None else parse_loot_version (out @ [CHR 0x0A] @ err))"

subsection \<open>The witness: what it proves\<close>

lemma witness_payload_roundtrip: "witness_from_payload (witness_to_payload s) = Some s"
  by (cases s) (simp_all add: witness_from_payload_def witness_to_payload_def witness_states_def witness_value_def)

lemma observe_intact_iff: "observe sentinel log = SENTINEL_INTACT \<longleftrightarrow> log = Bytes sentinel"
proof (cases log)
  case (Bytes content)
  show ?thesis
  proof (cases "length content \<le> length sentinel")
    case True
    then show ?thesis by (simp add: observe_def Bytes Let_def)
  next
    case False
    then have "length (take (length sentinel + 1) content) = length sentinel + 1" by simp
    then have "take (length sentinel + 1) content \<noteq> sentinel" by (metis n_not_Suc_n add.commute plus_1_eq_Suc)
    with False show ?thesis by (auto simp: observe_def Bytes Let_def)
  qed
qed (simp_all add: observe_def)

lemma observe_fresh_iff:
  "observe sentinel log = FRESH \<longleftrightarrow> (\<exists>c. log = Bytes c \<and> c \<noteq> [] \<and> \<not> prefix sentinel c)" if "sentinel \<noteq> []"
proof (cases log)
  case (Bytes content)
  have "prefix sentinel (take (length sentinel + 1) content) \<longleftrightarrow> prefix sentinel content"
    by (metis prefix_def prefix_order.trans take_is_prefix append_eq_conv_conj take_take min.absorb1 le_add1)
  moreover have "take (length sentinel + 1) content = sentinel \<Longrightarrow> prefix sentinel content"
    by (metis take_is_prefix)
  ultimately show ?thesis by (auto simp: observe_def Bytes Let_def starts_with_def)
qed (simp_all add: observe_def)

lemma sentinel_nonempty: "sentinel_text nonce \<noteq> []"
  by (simp add: sentinel_text_def)

lemma classify_total:
  "\<exists>v. classify_loot_sort ps wit before after = Some v \<and> (outcome v = FAIL \<longleftrightarrow> failure_reason v \<noteq> None)"
  by (auto simp: classify_loot_sort_def make_verdict_def Let_def)

text \<open>A sort is reported as a success only with evidence. The verdict is always produced and
  carries a reason exactly when it fails; it is a success exactly when the process
  succeeded, the load order was observed before and after, and the log was recreated during
  the run; and then it is \<open>CHANGED\<close> exactly when the observed states differ.\<close>

theorem verdict_matrix:
  "\<exists>v. classify_loot_sort ok wit before after = Some v
    \<and> (outcome v = FAIL \<longleftrightarrow> failure_reason v \<noteq> None)
    \<and> (verdict_success v \<longleftrightarrow> ok \<and> before \<noteq> None \<and> after \<noteq> None \<and> wit = Some FRESH)
    \<and> (outcome v = CHANGED \<longleftrightarrow> verdict_success v \<and> before \<noteq> after)
    \<and> (failure_reason v = Some PROCESS_ERROR \<longleftrightarrow> \<not> ok)
    \<and> (failure_reason v = Some STATE_UNOBSERVABLE \<longleftrightarrow> ok \<and> (before = None \<or> after = None))"
  by (cases wit) (auto simp: classify_loot_sort_def make_verdict_def Let_def verdict_success_def fresh_def)

text \<open>An instance of LOOT that leaves the data root alone, as the second one of two does, is
  never reported as a sort, whatever its exit code and whatever another writer did to the
  load order meanwhile; one that removes the log and writes a new one is attributed, unless
  it wrote the very nonce of this run.\<close>

theorem unsorted_run_not_attributed:
  assumes "arm_execution_witness True nonce log0 = Some (log, sentinel)"
  shows "(\<exists>v. classify_loot_sort ok (Some (observe sentinel log)) before after = Some v \<and> \<not> verdict_success v)
    \<and> (\<forall>text. text \<noteq> [] \<and> \<not> prefix sentinel text \<longrightarrow> observe sentinel (Bytes text) = FRESH)"
proof -
  from assms have l: "log = Bytes sentinel" "sentinel \<noteq> []"
    by (auto simp: arm_execution_witness_def sentinel_nonempty)
  then have "observe sentinel log = SENTINEL_INTACT" by (simp add: observe_intact_iff)
  moreover have "\<exists>v. classify_loot_sort ok (Some SENTINEL_INTACT) before after = Some v \<and> \<not> verdict_success v"
    by (auto simp: classify_loot_sort_def make_verdict_def verdict_success_def fresh_def Let_def)
  ultimately show ?thesis using observe_fresh_iff [OF l(2)] by auto
qed

theorem unsorted_run_not_attributed_witness:
  "\<exists>v. classify_loot_sort True (Some (observe (sentinel_text ''aa'') (Bytes (sentinel_text ''aa'')))) (Some []) (Some []) = Some v
     \<and> \<not> verdict_success v"
  using unsorted_run_not_attributed [of "''aa''" Not_found "Bytes (sentinel_text ''aa'')" "sentinel_text ''aa''"]
  by (simp add: arm_execution_witness_def)

subsection \<open>The load order as text\<close>

definition render_entry :: "string \<Rightarrow> load_order_entry \<Rightarrow> string" where
  "render_entry eol e = (if snd e then CHR ''*'' # fst e else fst e) @ eol"

definition entry_ok :: "load_order_entry \<Rightarrow> bool" where
  "entry_ok e \<longleftrightarrow> CHR 0x0A \<notin> set (fst e) \<and> (fst e \<noteq> [] \<longrightarrow> last (fst e) \<noteq> CHR 0x0D)
     \<and> (\<not> snd e \<longrightarrow> fst e \<noteq> [] \<and> hd (fst e) \<noteq> CHR ''#'' \<and> hd (fst e) \<noteq> CHR ''*'')"

lemma parse_cons:
  assumes "CHR 0x0A \<notin> set l"
  shows "parse_load_order_bytes (l @ CHR 0x0A # t) = entry_of_line (drop_cr l) @ parse_load_order_bytes t"
  by (simp add: parse_load_order_bytes_def Let_def split_on_append [OF assms])

lemma parse_rendered:
  assumes "eol = [CHR 0x0A] \<or> eol = [CHR 0x0D, CHR 0x0A]" and "list_all entry_ok es"
  shows "parse_load_order_bytes (concat (map (render_entry eol) es)) = es"
  using assms(2)
proof (induction es)
  case Nil
  then show ?case by (simp add: parse_load_order_bytes_def entry_of_line_def)
next
  case (Cons e es)
  obtain n a where e: "e = (n, a)" by fastforce
  from Cons.prems have ok: "entry_ok e" by simp
  define l where "l = (if a then CHR ''*'' # n else n)"
  have r: "render_entry eol e = l @ eol" by (simp add: render_entry_def e l_def)
  have nl: "CHR 0x0A \<notin> set l" "CHR 0x0A \<notin> set (l @ [CHR 0x0D])" and ne: "l \<noteq> []"
    and nr: "last l \<noteq> CHR 0x0D"
    using ok by (auto simp: entry_ok_def e l_def)
  have d: "drop_cr l = l" "drop_cr (l @ [CHR 0x0D]) = l"
    using nr ne by (auto simp: drop_cr_def)
  have el: "entry_of_line l = [e]" using ok by (auto simp: entry_of_line_def entry_ok_def e l_def)
  from assms(1) show ?case
  proof
    assume "eol = [CHR 0x0A]"
    then show ?thesis using Cons parse_cons [OF nl(1)] d el r by simp
  next
    assume "eol = [CHR 0x0D, CHR 0x0A]"
    then show ?thesis using Cons parse_cons [OF nl(2)] d el r by simp
  qed
qed

text \<open>The semantic reading ignores the kind of line end, comments and blank lines, and
  nothing else: what is written is read back with its order and its activation, with either
  line end, and the state of a file is its list of entries.\<close>

theorem load_order_roundtrip:
  assumes "list_all entry_ok es" and "eol = [CHR 0x0A] \<or> eol = [CHR 0x0D, CHR 0x0A]"
  shows "parse_load_order_bytes (concat (map (render_entry eol) es)) = es
    \<and> read_load_order_semantics [(p, Bytes (concat (map (render_entry eol) es)))] = Inr [(p, Some es)]"
  using parse_rendered [OF assms(2,1)] by (simp add: read_load_order_semantics_def)

theorem load_order_roundtrip_witness:
  "parse_load_order_bytes (''*a.esp'' @ [CHR 0x0D, CHR 0x0A] @ ''b.esp'' @ [CHR 0x0D, CHR 0x0A]) = [(''a.esp'', True), (''b.esp'', False)]"
  using load_order_roundtrip [of "[(''a.esp'', True), (''b.esp'', False)]" "[CHR 0x0D, CHR 0x0A]"]
  by (simp add: entry_ok_def render_entry_def)

subsection \<open>The version is found in the output\<close>

lemma digits_show_nat:
  "(s = [] \<or> \<not> is_digit (hd s)) \<Longrightarrow> digits (show_nat n @ s) = (show_nat n, s)"
proof -
  assume s: "s = [] \<or> \<not> is_digit (hd s)"
  have "\<And>c. c \<in> set (show_nat n) \<Longrightarrow> is_digit c" by (rule show_nat_digits)
  with s show ?thesis
    unfolding digits_def by (cases s) (simp_all add: takeWhile_append2 dropWhile_append2)
qed

lemma match_version_show:
  "(s = [] \<or> \<not> is_digit (hd s)) \<Longrightarrow>
    match_version (show_nat a @ ''.'' @ show_nat b @ ''.'' @ show_nat c @ s) = Some (a, b, c)"
proof -
  have dot: "\<not> is_digit (CHR ''.'')" by (simp add: is_digit_def)
  assume "s = [] \<or> \<not> is_digit (hd s)"
  then show ?thesis by (simp add: match_version_def digits_show_nat dot)
qed

lemma match_version_nondigit: "\<not> is_digit c \<Longrightarrow> match_version (c # s) = None"
  by (simp add: match_version_def digits_def)

text \<open>The version that LOOT prints is the version that is detected, whatever text without
  digits precedes it and whatever follows; and the warning about symbolic links is dropped
  only for a detected version of 0.29.0 or later, never for a failed run.\<close>

theorem version_detected:
  assumes "\<And>c. c \<in> set pre \<Longrightarrow> \<not> is_digit c" and "post = [] \<or> \<not> is_digit (hd post)"
  shows "parse_loot_version (pre @ show_nat a @ ''.'' @ show_nat b @ ''.'' @ show_nat c @ post) = Some (a, b, c)
    \<and> (symlink_advisory (Some (a, b, c)) \<longleftrightarrow> a = 0 \<and> b < 29)
    \<and> symlink_advisory (detect_loot_version None)
    \<and> (rc \<noteq> 0 \<longrightarrow> symlink_advisory (detect_loot_version (Some (out, err, rc))))"
proof (intro conjI)
  have "parse_loot_version (show_nat a @ ''.'' @ show_nat b @ ''.'' @ show_nat c @ post) = Some (a, b, c)"
    using match_version_show [OF assms(2), of a b c] show_nat_nonempty [of a]
    by (cases "show_nat a") simp_all
  with assms(1) show "parse_loot_version (pre @ show_nat a @ ''.'' @ show_nat b @ ''.'' @ show_nat c @ post) = Some (a, b, c)"
    by (induction pre) (simp_all add: match_version_nondigit)
qed (auto simp: symlink_advisory_def LOOT_MIN_SYMLINK_SAFE_def detect_loot_version_def)

theorem version_detected_witness:
  "parse_loot_version (''LOOT v'' @ show_nat 0 @ ''.'' @ show_nat 28 @ ''.'' @ show_nat 0 @ '' (x)'') = Some (0, 28, 0)"
  by (rule version_detected [THEN conjunct1]) (auto simp: is_digit_def)

end
