(* ===== verification/Preflight.thy ===== *)
theory Preflight
  imports Plugin_Sensors Loot_Outcome
begin

text \<open>
  The preflight semaphore, \<open>sky_claw/local/validators/preflight.py\<close>, with the sensors it
  composes: links in the infrastructure (\<open>vfs_health.py\<close>), residues in the overwrite
  (\<open>overwrite_health.py\<close>), write permissions (\<open>write_permissions.py\<close>) and the visibility of
  the profile's mods (\<open>vfs_visibility.py\<close>); those on plugin headers are in
  \<open>Plugin_Sensors\<close> and the LOOT version in \<open>Loot_Outcome\<close>. What a sensor probes on disk is
  an argument: the outcome of each probe, as the operating system gave it.
\<close>

subsection \<open>Links in the infrastructure\<close>

record vfs_issue =
  vi_path :: string
  vi_severity :: severity

record vfs_config =
  game_path :: "string list"
  mo2_paths :: "string list"
  mods_entries :: "string list option"
  scan_mods :: bool

text \<open>\<open>game_path\<close> and \<open>mo2_paths\<close> hold a configured path followed by its ancestors, none when it
  is not configured; \<open>mo2_paths\<close> ends with the fixed subdirectories. \<open>mods_entries\<close> is the
  sorted first level of the declared mods directory, absent when that is no directory.
  \<open>is_link\<close> is \<open>link_kind(path) is not None\<close>.\<close>

definition add_issue :: "(string \<Rightarrow> bool) \<Rightarrow> severity \<Rightarrow> string \<Rightarrow> vfs_issue list \<Rightarrow> vfs_issue list" where
  "add_issue is_link sev path issues =
     (if path \<in> set (map vi_path issues) then issues
      else if \<not> is_link path then issues
      else issues @ [\<lparr>vi_path = path, vi_severity = sev\<rparr>])"

definition check_vfs :: "(string \<Rightarrow> bool) \<Rightarrow> vfs_config \<Rightarrow> vfs_issue list" where
  "check_vfs is_link cfg =
    (let i1 = fold (add_issue is_link Critical) (game_path cfg) [];
         i2 = fold (add_issue is_link Warning) (mo2_paths cfg) i1
     in if mo2_paths cfg = [] \<or> \<not> scan_mods cfg then i2
        else (case mods_entries cfg of
                None \<Rightarrow> i2 | Some es \<Rightarrow> fold (add_issue is_link Warning) es i2))"

subsection \<open>Residues in the overwrite\<close>

record overwrite_scan =
  ow_files :: "string list"
  ow_plugins :: "string list"

text \<open>An entry of the recursive listing, with the outcome of \<open>is_link(e) or e.is_file()\<close>: absent
  when the inspection raised. An unreadable directory has no entries.\<close>

definition check_overwrite :: "(string \<times> string \<times> bool option) list option \<Rightarrow> overwrite_scan" where
  "check_overwrite listing =
    (let es = (case listing of None \<Rightarrow> [] | Some es \<Rightarrow> es);
         kept = filter (\<lambda>(rel, name, b). b = Some True) es
     in \<lparr>ow_files = map fst kept,
         ow_plugins = map fst (filter (\<lambda>(rel, name, b). casefold (suffix_of name) \<in> set PLUGIN_SUFFIXES) kept)\<rparr>)"

definition overwrite_preflight_check :: "overwrite_scan \<Rightarrow> preflight_check" where
  "overwrite_preflight_check s =
     \<lparr>check_name = ''overwrite'', check_status = (if ow_files s = [] then GREEN else YELLOW)\<rparr>"

definition MAX_DETAIL_FILES :: nat where
  "MAX_DETAIL_FILES = 10"

definition overwrite_listed :: "overwrite_scan \<Rightarrow> string list \<times> nat" where
  "overwrite_listed s =
    (let ordered = ow_plugins s @ filter (\<lambda>f. f \<notin> set (ow_plugins s)) (ow_files s);
         listed = take MAX_DETAIL_FILES ordered
     in (listed, length ordered - length listed))"

subsection \<open>Write permissions\<close>

datatype os_result = Ok_result | Permission_denied | Os_failure

datatype write_issue_kind = Denied | Write_error | Probe_residue

record write_issue =
  wi_path :: string
  wi_kind :: write_issue_kind
  wi_severity :: severity

record write_report =
  probed :: "string list"
  write_issues :: "write_issue list"

text \<open>A target with the outcome of each call the checker makes on it: the inspection, what it
  found, creating the probe (or opening the file), and deleting the probe.\<close>

datatype target_shape = Is_dir | Is_file | Is_missing

record write_target =
  wt_path :: string
  wt_stat :: os_result
  wt_shape :: target_shape
  wt_create :: os_result
  wt_unlink :: os_result

definition issue_of_result :: "string \<Rightarrow> os_result \<Rightarrow> write_issue list" where
  "issue_of_result path r =
    (case r of
       Ok_result \<Rightarrow> []
     | Permission_denied \<Rightarrow> [\<lparr>wi_path = path, wi_kind = Denied, wi_severity = Critical\<rparr>]
     | Os_failure \<Rightarrow> [\<lparr>wi_path = path, wi_kind = Write_error, wi_severity = Warning\<rparr>])"

definition probe_write :: "write_target \<Rightarrow> write_issue list" where
  "probe_write t =
    (if wt_create t \<noteq> Ok_result then issue_of_result (wt_path t) (wt_create t)
     else if wt_unlink t \<noteq> Ok_result
       then [\<lparr>wi_path = wt_path t, wi_kind = Probe_residue, wi_severity = Warning\<rparr>] else [])"

definition probe_write_file :: "write_target \<Rightarrow> write_issue list" where
  "probe_write_file t = issue_of_result (wt_path t) (wt_create t)"

definition check_target :: "write_target \<Rightarrow> write_report \<Rightarrow> write_report" where
  "check_target t r =
    (let note = (\<lambda>is. r\<lparr>probed := probed r @ [wt_path t], write_issues := write_issues r @ is\<rparr>)
     in if wt_stat t \<noteq> Ok_result then note (issue_of_result (wt_path t) (wt_stat t))
        else (case wt_shape t of
            Is_dir \<Rightarrow> note (probe_write t)
          | Is_file \<Rightarrow> note (probe_write_file t)
          | Is_missing \<Rightarrow> r))"

definition check_permissions :: "write_target list \<Rightarrow> write_report" where
  "check_permissions ts = fold check_target ts \<lparr>probed = [], write_issues = []\<rparr>"

definition permissions_preflight_check :: "write_report \<Rightarrow> preflight_check" where
  "permissions_preflight_check r =
     \<lparr>check_name = ''write_permissions'',
      check_status = (if write_issues r = [] then GREEN
                      else status_of_severities (map wi_severity (write_issues r)))\<rparr>"

subsection \<open>Visibility of the mods\<close>

definition VANILLA_MASTERS :: "string list" where
  "VANILLA_MASTERS = [''skyrim.esm'', ''update.esm'', ''dawnguard.esm'', ''hearthfires.esm'', ''dragonborn.esm'']"

text \<open>A plain file name on both kinds of path: no separator of either, no drive colon in second
  position, and not a dot entry.\<close>

definition es_basename_simple :: "string \<Rightarrow> bool" where
  "es_basename_simple n \<longleftrightarrow> n \<noteq> [] \<and> n \<noteq> ''.'' \<and> n \<noteq> ''..''
     \<and> CHR ''/'' \<notin> set n \<and> CHR 0x5C \<notin> set n \<and> \<not> (length n \<ge> 2 \<and> n ! 1 = CHR '':'')"

definition es_plugin_de_mod :: "string \<Rightarrow> bool" where
  "es_plugin_de_mod n \<longleftrightarrow> casefold n \<notin> set VANILLA_MASTERS \<and> \<not> starts_with (casefold n) ''cc''"

record visibility_scan =
  vs_configured :: bool
  vs_mod_plugins :: "string list"
  vs_visible :: "string list"

text \<open>\<open>data_has\<close> is the \<open>Data\<close> directory, when there is one: whether a name is a file there, absent
  when the look-up raised.\<close>

definition check_visibility :: "(string \<Rightarrow> bool option) option \<Rightarrow> string list \<Rightarrow> visibility_scan" where
  "check_visibility data_has enabled =
    (case data_has of
       None \<Rightarrow> \<lparr>vs_configured = False, vs_mod_plugins = [], vs_visible = []\<rparr>
     | Some f \<Rightarrow>
         (let mod_plugins = filter es_plugin_de_mod (filter es_basename_simple enabled)
          in if mod_plugins = [] then \<lparr>vs_configured = True, vs_mod_plugins = [], vs_visible = []\<rparr>
             else \<lparr>vs_configured = True, vs_mod_plugins = mod_plugins,
                   vs_visible = filter (\<lambda>n. f n = Some True) mod_plugins\<rparr>))"

definition visibility_preflight_check :: "visibility_scan \<Rightarrow> preflight_check" where
  "visibility_preflight_check s =
     \<lparr>check_name = ''vfs_visibility'',
      check_status = (if \<not> vs_configured s then GREEN else if vs_mod_plugins s = [] then GREEN
                      else if vs_visible s \<noteq> [] then GREEN else RED)\<rparr>"

subsection \<open>The service\<close>

record preflight_report =
  report_status :: preflight_status
  report_checks :: "preflight_check list"

definition blocks_mutations :: "preflight_report \<Rightarrow> bool" where
  "blocks_mutations r \<longleftrightarrow> report_status r = RED"

text \<open>What the configured sensors return in a run; a sensor that is not configured is absent. The
  detector is the version that running LOOT would give now.\<close>

record sensors =
  s_vfs :: "vfs_issue list option"
  s_detector :: "version option option"
  s_masters :: "master_issue list option"
  s_limits :: "load_order_limits option"
  s_order :: "order_issue list option"
  s_overwrite :: "overwrite_scan option"
  s_permissions :: "write_report option"
  s_visibility :: "visibility_scan option"
  s_omit_unconfigured :: bool

record service =
  version_cache :: "version option"
  version_checked :: bool

definition service_init :: service where
  "service_init = \<lparr>version_cache = None, version_checked = False\<rparr>"

definition unconfigured :: "string \<Rightarrow> preflight_check" where
  "unconfigured n = \<lparr>check_name = n, check_status = GREEN\<rparr>"

definition vfs_check :: "vfs_issue list \<Rightarrow> bool \<Rightarrow> preflight_check" where
  "vfs_check issues configured =
    (if \<not> configured then unconfigured ''vfs''
     else if issues = [] then \<lparr>check_name = ''vfs'', check_status = GREEN\<rparr>
     else \<lparr>check_name = ''vfs'', check_status = status_of_severities (map vi_severity issues)\<rparr>)"

definition masters_checkpoint :: "master_issue list \<Rightarrow> bool \<Rightarrow> preflight_check" where
  "masters_checkpoint issues configured =
     (if \<not> configured then unconfigured ''masters'' else masters_preflight_check issues)"

definition order_checkpoint :: "order_issue list \<Rightarrow> bool \<Rightarrow> preflight_check" where
  "order_checkpoint issues configured =
     (if \<not> configured then unconfigured ''master_order'' else order_preflight_check issues)"

definition limits_checkpoint :: "load_order_limits option \<Rightarrow> preflight_check" where
  "limits_checkpoint l = (case l of None \<Rightarrow> unconfigured ''plugin_limits'' | Some x \<Rightarrow> limits_preflight_check x)"

definition overwrite_checkpoint :: "overwrite_scan option \<Rightarrow> preflight_check" where
  "overwrite_checkpoint s = (case s of None \<Rightarrow> unconfigured ''overwrite'' | Some x \<Rightarrow> overwrite_preflight_check x)"

definition visibility_checkpoint :: "visibility_scan option \<Rightarrow> preflight_check" where
  "visibility_checkpoint s =
     (case s of None \<Rightarrow> unconfigured ''vfs_visibility'' | Some x \<Rightarrow> visibility_preflight_check x)"

definition permissions_checkpoint :: "write_report option \<Rightarrow> preflight_check" where
  "permissions_checkpoint r =
     (case r of None \<Rightarrow> unconfigured ''write_permissions'' | Some x \<Rightarrow> permissions_preflight_check x)"

definition loot_check :: "version option \<Rightarrow> bool \<Rightarrow> preflight_check" where
  "loot_check v configured =
    (if \<not> configured then unconfigured ''loot_version''
     else if \<not> symlink_advisory v then \<lparr>check_name = ''loot_version'', check_status = GREEN\<rparr>
     else \<lparr>check_name = ''loot_version'', check_status = YELLOW\<rparr>)"

definition composition_check :: "vfs_issue list \<Rightarrow> version option \<Rightarrow> preflight_check list" where
  "composition_check issues v =
    (case v of
       None \<Rightarrow> []
     | Some w \<Rightarrow>
         if issues = [] \<or> version_le LOOT_MIN_SYMLINK_SAFE w then []
         else [\<lparr>check_name = ''composition'', check_status = RED\<rparr>])"

definition keep :: "sensors \<Rightarrow> 'a option \<Rightarrow> bool" where
  "keep ss sensor \<longleftrightarrow> sensor \<noteq> None \<or> \<not> s_omit_unconfigured ss"

definition from_sensor :: "'a list option \<Rightarrow> 'a list" where
  "from_sensor s = (case s of None \<Rightarrow> [] | Some xs \<Rightarrow> xs)"

text \<open>The detector runs once in the life of the service; later runs read the cache.\<close>

definition detect_version :: "sensors \<Rightarrow> service \<Rightarrow> version option \<times> service" where
  "detect_version ss st =
    (case s_detector ss of
       None \<Rightarrow> (None, st)
     | Some v \<Rightarrow>
         (let st' = (if version_checked st then st else \<lparr>version_cache = v, version_checked = True\<rparr>)
          in (version_cache st', st')))"

definition max_status :: "preflight_check list \<Rightarrow> preflight_status" where
  "max_status cs =
     foldl (\<lambda>m c. if SEVERITY_RANK (check_status c) > SEVERITY_RANK m then check_status c else m) GREEN cs"

definition run_preflight :: "sensors \<Rightarrow> service \<Rightarrow> preflight_report \<times> service" where
  "run_preflight ss st =
    (let vfs_issues = from_sensor (s_vfs ss);
         (v, st') = detect_version ss st;
         checks =
             (if keep ss (s_vfs ss) then [vfs_check vfs_issues (s_vfs ss \<noteq> None)] else [])
           @ (if keep ss (s_detector ss) then [loot_check v (s_detector ss \<noteq> None)] else [])
           @ (if keep ss (s_masters ss) then [masters_checkpoint (from_sensor (s_masters ss)) (s_masters ss \<noteq> None)] else [])
           @ (if keep ss (s_limits ss) then [limits_checkpoint (s_limits ss)] else [])
           @ (if keep ss (s_order ss) then [order_checkpoint (from_sensor (s_order ss)) (s_order ss \<noteq> None)] else [])
           @ (if keep ss (s_overwrite ss) then [overwrite_checkpoint (s_overwrite ss)] else [])
           @ (if keep ss (s_permissions ss) then [permissions_checkpoint (s_permissions ss)] else [])
           @ (if keep ss (s_visibility ss) then [visibility_checkpoint (s_visibility ss)] else [])
           @ composition_check vfs_issues v
     in (\<lparr>report_status = max_status checks, report_checks = checks\<rparr>, st'))"

subsection \<open>The colour of the semaphore\<close>

lemma max_status_Max: "max_status cs = Max (insert GREEN (check_status ` set cs))"
proof -
  have "foldl (\<lambda>m c. if SEVERITY_RANK (check_status c) > SEVERITY_RANK m then check_status c else m) m cs
      = fold max (map check_status cs) m" for m
    by (induction cs arbitrary: m) (simp_all add: max_def less_preflight_status_def less_eq_preflight_status_def)
  then have "max_status cs = fold max (map check_status cs) GREEN" by (simp add: max_status_def)
  also have "\<dots> = Max (set (GREEN # map check_status cs))" by (rule Max.set_eq_fold [symmetric])
  finally show ?thesis by simp
qed

lemma max_status_iff:
  "max_status cs = RED \<longleftrightarrow> (\<exists>c \<in> set cs. check_status c = RED)"
  "max_status cs = GREEN \<longleftrightarrow> (\<forall>c \<in> set cs. check_status c = GREEN)"
proof -
  have "max_status cs = RED \<longleftrightarrow> RED \<in> check_status ` set cs"
    by (simp add: max_status_Max Max_eq_iff status_extremes)
  then show "max_status cs = RED \<longleftrightarrow> (\<exists>c \<in> set cs. check_status c = RED)" by (metis image_iff)
  have "max_status cs = GREEN \<longleftrightarrow> (\<forall>c \<in> set cs. check_status c \<le> GREEN)"
    by (simp add: max_status_Max Max_eq_iff)
  then show "max_status cs = GREEN \<longleftrightarrow> (\<forall>c \<in> set cs. check_status c = GREEN)"
    by (simp add: status_extremes eq_iff)
qed

lemma checkpoint_red:
  "check_status (vfs_check is c) = RED \<longleftrightarrow> c \<and> (\<exists>i \<in> set is. vi_severity i = Critical)"
  "check_status (loot_check v c) \<noteq> RED"
  "check_status (masters_checkpoint ms c) = RED \<longleftrightarrow> c \<and> (\<exists>i \<in> set ms. mi_severity i = Critical)"
  "check_status (order_checkpoint os c) = RED \<longleftrightarrow> c \<and> os \<noteq> []"
  "check_status (limits_checkpoint l) = RED \<longleftrightarrow> (\<exists>x. l = Some x \<and> (\<exists>i \<in> set (limit_issues x). li_severity i = Critical))"
  "check_status (overwrite_checkpoint w) \<noteq> RED"
  "check_status (permissions_checkpoint p) = RED \<longleftrightarrow> (\<exists>x. p = Some x \<and> (\<exists>i \<in> set (write_issues x). wi_severity i = Critical))"
  "check_status (visibility_checkpoint s) = RED
     \<longleftrightarrow> (\<exists>x. s = Some x \<and> vs_configured x \<and> vs_mod_plugins x \<noteq> [] \<and> vs_visible x = [])"
  by (auto simp: vfs_check_def loot_check_def masters_checkpoint_def order_checkpoint_def limits_checkpoint_def
      overwrite_checkpoint_def permissions_checkpoint_def visibility_checkpoint_def unconfigured_def
      masters_preflight_check_def order_preflight_check_def limits_preflight_check_def
      overwrite_preflight_check_def permissions_preflight_check_def visibility_preflight_check_def
      status_red_iff split: option.splits)

lemma composition_red:
  "(\<exists>c \<in> set (composition_check is v). check_status c = RED)
     \<longleftrightarrow> is \<noteq> [] \<and> (\<exists>w. v = Some w \<and> \<not> version_le LOOT_MIN_SYMLINK_SAFE w)"
  by (cases v) (simp_all add: composition_check_def)

lemma filter_keep:
  "(s = None \<Longrightarrow> check_status c = GREEN) \<Longrightarrow>
     filter (\<lambda>c. check_status c \<noteq> GREEN) (if keep ss s then [c] else []) = filter (\<lambda>c. check_status c \<noteq> GREEN) [c]"
  by (auto simp: keep_def)

lemma unconfigured_green:
  "check_status (vfs_check vs False) = GREEN" "check_status (loot_check v False) = GREEN"
  "check_status (masters_checkpoint ms False) = GREEN" "check_status (order_checkpoint os False) = GREEN"
  "check_status (limits_checkpoint None) = GREEN" "check_status (overwrite_checkpoint None) = GREEN"
  "check_status (permissions_checkpoint None) = GREEN" "check_status (visibility_checkpoint None) = GREEN"
  by (simp_all add: vfs_check_def loot_check_def masters_checkpoint_def order_checkpoint_def unconfigured_def
      limits_checkpoint_def overwrite_checkpoint_def permissions_checkpoint_def visibility_checkpoint_def)

lemma max_status_cong:
  assumes "filter (\<lambda>c. check_status c \<noteq> GREEN) cs = filter (\<lambda>c. check_status c \<noteq> GREEN) ds"
  shows "max_status cs = max_status ds"
proof -
  have "insert GREEN (check_status ` set cs) = insert GREEN (check_status ` set (filter (\<lambda>c. check_status c \<noteq> GREEN) cs))" for cs
    by auto
  with assms show ?thesis by (metis max_status_Max)
qed

text \<open>The reasons for blocking a ritual, read off the sensors.\<close>

definition blocking_reason :: "sensors \<Rightarrow> version option \<Rightarrow> bool" where
  "blocking_reason ss v \<longleftrightarrow>
      (\<exists>is. s_vfs ss = Some is \<and> (\<exists>i \<in> set is. vi_severity i = Critical))
    \<or> (\<exists>ms. s_masters ss = Some ms \<and> (\<exists>i \<in> set ms. mi_severity i = Critical))
    \<or> (\<exists>l. s_limits ss = Some l \<and> (\<exists>i \<in> set (limit_issues l). li_severity i = Critical))
    \<or> (\<exists>os. s_order ss = Some os \<and> os \<noteq> [])
    \<or> (\<exists>p. s_permissions ss = Some p \<and> (\<exists>i \<in> set (write_issues p). wi_severity i = Critical))
    \<or> (\<exists>s. s_visibility ss = Some s \<and> vs_configured s \<and> vs_mod_plugins s \<noteq> [] \<and> vs_visible s = [])
    \<or> (\<exists>is. s_vfs ss = Some is \<and> is \<noteq> [] \<and> (\<exists>w. v = Some w \<and> \<not> version_le LOOT_MIN_SYMLINK_SAFE w))"

text \<open>C39: mutations are blocked exactly when some configured sensor has a critical finding, or
  when links are present together with a LOOT confirmed older than 0.29.0. Nothing else
  blocks: not a missing sensor, not an unknown version, not a dirty overwrite; and hiding the
  checkpoints of the sensors that are not configured never changes the colour.\<close>

theorem preflight_blocks_exactly:
  "(blocks_mutations (fst (run_preflight ss st)) \<longleftrightarrow> blocking_reason ss (fst (detect_version ss st)))
   \<and> report_status (fst (run_preflight (ss\<lparr>s_omit_unconfigured := True\<rparr>) st))
       = report_status (fst (run_preflight (ss\<lparr>s_omit_unconfigured := False\<rparr>) st))"
proof
  obtain v st' where d: "detect_version ss st = (v, st')" by fastforce
  show "blocks_mutations (fst (run_preflight ss st)) \<longleftrightarrow> blocking_reason ss (fst (detect_version ss st))"
    by (cases "s_omit_unconfigured ss")
       (auto simp: blocks_mutations_def run_preflight_def d Let_def max_status_iff bex_Un checkpoint_red
         composition_red blocking_reason_def keep_def from_sensor_def split: option.splits)
  have d': "detect_version (ss\<lparr>s_omit_unconfigured := b\<rparr>) st = (v, st')" for b
    using d by (simp add: detect_version_def)
  show "report_status (fst (run_preflight (ss\<lparr>s_omit_unconfigured := True\<rparr>) st))
       = report_status (fst (run_preflight (ss\<lparr>s_omit_unconfigured := False\<rparr>) st))"
    unfolding run_preflight_def Let_def d' prod.case fst_conv preflight_report.select_convs
    by (rule max_status_cong, simp only: filter_append filter_keep unconfigured_green simp_thms,
        simp del: filter.simps)
qed

end
