(* ===== verification/Lease_Store.thy ===== *)
theory Lease_Store
  imports Sky_Prelude
begin

text \<open>
  The lock manager of \<open>sky_claw/app/db/locks.py\<close>: leases with a time to live in the table
  \<open>resource_locks\<close>, one row per resource. Each SQL statement is one atomic step, because the
  code runs each in a transaction of its own; the readings of the wall clock are arguments,
  and need not increase. The fencing token of a lease is minted from the clock, or as the next
  tick when the clock did not advance (\<open>math.nextafter\<close>).

  What a client of a store of leases may rely on is the locale \<open>fenced_store\<close>; the table is
  its interpretation \<open>lease_db\<close>.
\<close>

subsection \<open>The table\<close>

record lease_row =
  agent_id :: string
  acquired_at :: int
  expires_at :: int

record lock_db =
  resource_locks :: "(string, lease_row) dict"
  ultimo_token :: "int option"

record lock_info =
  li_resource :: string
  li_agent :: string
  li_acquired :: int
  li_expires :: int
  li_ttl :: "int option"

datatype lock_error = Acquisition_error | Cancelled_error

definition lock_db_init :: lock_db where
  "lock_db_init = \<lparr>resource_locks = [], ultimo_token = None\<rparr>"

definition lease_expired :: "int \<Rightarrow> lock_info \<Rightarrow> bool" where
  "lease_expired now l \<longleftrightarrow> now \<ge> li_expires l"

definition acuniar_token :: "int \<Rightarrow> lock_db \<Rightarrow> int \<times> lock_db" where
  "acuniar_token ahora db =
    (let token = (case ultimo_token db of
                    None \<Rightarrow> ahora
                  | Some ultimo \<Rightarrow> if ahora > ultimo then ahora else ultimo + 1)
     in (token, db\<lparr>ultimo_token := Some token\<rparr>))"

text \<open>\<open>_ACQUIRE_SQL\<close>: insert the row, or take over a row whose lease has expired; the flag is
  \<open>rowcount > 0\<close>.\<close>

definition acquire_sql :: "string \<Rightarrow> string \<Rightarrow> int \<Rightarrow> int \<Rightarrow> int \<Rightarrow> lock_db \<Rightarrow> bool \<times> lock_db" where
  "acquire_sql r a token expires ahora db =
    (let row = \<lparr>agent_id = a, acquired_at = token, expires_at = expires\<rparr>;
         db' = db\<lparr>resource_locks := dset r row (resource_locks db)\<rparr>
     in case dget (resource_locks db) r of
          None \<Rightarrow> (True, db')
        | Some old \<Rightarrow> if expires_at old < ahora then (True, db') else (False, db))"

datatype db_fault = No_fault | Fault_before_token | Fault_in_sql

text \<open>One attempt of \<open>acquire_lock\<close>: the clock inside the transaction, the clock after its commit,
  and whether the transaction failed, before or after the token was minted.\<close>

definition acquire_attempt ::
  "bool \<Rightarrow> string \<Rightarrow> string \<Rightarrow> int \<Rightarrow> int \<Rightarrow> int \<Rightarrow> db_fault \<Rightarrow> lock_db \<Rightarrow> lock_info option \<times> lock_db" where
  "acquire_attempt lifecycle r a ttl ahora after fault db =
    (if fault = Fault_before_token then (None, db)
     else
       let (token, db1) = acuniar_token ahora db in
       if fault = Fault_in_sql then (None, db1)
       else
         let expires = ahora + ttl;
             (changed, db2) = acquire_sql r a token expires ahora db1
         in if changed \<and> \<not> (lifecycle \<and> after \<ge> expires)
            then (Some \<lparr>li_resource = r, li_agent = a, li_acquired = token, li_expires = expires, li_ttl = Some ttl\<rparr>, db2)
            else (None, db2))"

text \<open>The retry loop. Before an attempt other holders act on the table (\<open>at_env\<close>), and the caller
  may have been cancelled before or after it.\<close>

record attempt =
  at_env :: "lock_db \<Rightarrow> lock_db"
  at_now :: int
  at_after :: int
  at_fault :: db_fault
  at_cancelled_before :: bool
  at_cancelled_after :: bool

fun acquire_lock ::
  "bool \<Rightarrow> string \<Rightarrow> string \<Rightarrow> int \<Rightarrow> attempt list \<Rightarrow> lock_db \<Rightarrow> (lock_error + lock_info) \<times> lock_db" where
  "acquire_lock lifecycle r a ttl [] db = (Inl Acquisition_error, db)"
| "acquire_lock lifecycle r a ttl (x # xs) db =
    (let db0 = at_env x db in
     if at_cancelled_before x then (Inl Cancelled_error, db0)
     else (case acquire_attempt lifecycle r a ttl (at_now x) (at_after x) (at_fault x) db0 of
         (Some info, db1) \<Rightarrow> (Inr info, db1)
       | (None, db1) \<Rightarrow>
           if at_cancelled_after x then (Inl Cancelled_error, db1)
           else acquire_lock lifecycle r a ttl xs db1))"

text \<open>A missing token is SQL \<open>NULL\<close>, which equals no \<open>acquired_at\<close>.\<close>

definition release_lock :: "string \<Rightarrow> string \<Rightarrow> int option \<Rightarrow> lock_db \<Rightarrow> bool \<times> lock_db" where
  "release_lock r a token db =
    (case dget (resource_locks db) r of
       Some row \<Rightarrow>
         if agent_id row = a \<and> Some (acquired_at row) = token
         then (True, db\<lparr>resource_locks := ddel r (resource_locks db)\<rparr>) else (False, db)
     | None \<Rightarrow> (False, db))"

definition renew_lock ::
  "bool \<Rightarrow> string \<Rightarrow> string \<Rightarrow> int \<Rightarrow> int option \<Rightarrow> int \<Rightarrow> int \<Rightarrow> bool \<Rightarrow> lock_db \<Rightarrow> bool \<times> lock_db" where
  "renew_lock lifecycle r a ttl token now after db_ok db =
    (if \<not> db_ok then (False, db)
     else (case dget (resource_locks db) r of
         Some row \<Rightarrow>
           if agent_id row = a \<and> Some (acquired_at row) = token \<and> expires_at row > now
           then (\<not> (lifecycle \<and> after \<ge> now + ttl),
                 db\<lparr>resource_locks := dset r (row\<lparr>expires_at := now + ttl\<rparr>) (resource_locks db)\<rparr>)
           else (False, db)
       | None \<Rightarrow> (False, db)))"

definition force_release :: "string \<Rightarrow> lock_db \<Rightarrow> bool \<times> lock_db" where
  "force_release r db =
     (dget (resource_locks db) r \<noteq> None, db\<lparr>resource_locks := ddel r (resource_locks db)\<rparr>)"

definition get_lock_info :: "string \<Rightarrow> lock_db \<Rightarrow> lock_info option" where
  "get_lock_info r db =
    (case dget (resource_locks db) r of
       None \<Rightarrow> None
     | Some row \<Rightarrow> Some \<lparr>li_resource = r, li_agent = agent_id row, li_acquired = acquired_at row,
                       li_expires = expires_at row, li_ttl = None\<rparr>)"

definition cleanup_expired :: "int \<Rightarrow> lock_db \<Rightarrow> nat \<times> lock_db" where
  "cleanup_expired now db =
    (let keep = filter (\<lambda>(r, row). \<not> expires_at row < now) (resource_locks db)
     in (length (resource_locks db) - length keep, db\<lparr>resource_locks := keep\<rparr>))"

subsection \<open>Steps of many holders\<close>

datatype lock_op =
  Try_acquire bool string string int int int db_fault
| Release string string "int option"
| Renew bool string string int "int option" int int bool
| Force_release string
| Cleanup int

fun lock_step :: "lock_op \<Rightarrow> lock_db \<Rightarrow> lock_db" where
  "lock_step (Try_acquire lc r a ttl now after fault) db = snd (acquire_attempt lc r a ttl now after fault db)"
| "lock_step (Release r a token) db = snd (release_lock r a token db)"
| "lock_step (Renew lc r a ttl token now after ok) db = snd (renew_lock lc r a ttl token now after ok db)"
| "lock_step (Force_release r) db = snd (force_release r db)"
| "lock_step (Cleanup now) db = snd (cleanup_expired now db)"

definition lock_db_ok :: "lock_db \<Rightarrow> bool" where
  "lock_db_ok db \<longleftrightarrow> dict_wf (resource_locks db)
    \<and> (\<forall>r row. dget (resource_locks db) r = Some row \<longrightarrow> (\<exists>u. ultimo_token db = Some u \<and> acquired_at row \<le> u))"

definition token_issued :: "lock_db \<Rightarrow> int \<Rightarrow> bool" where
  "token_issued db t \<longleftrightarrow> (\<exists>u. ultimo_token db = Some u \<and> t \<le> u)"

subsection \<open>The interface: a store with fencing tokens\<close>



lemma acuniar_token_fresh:
  "acuniar_token ahora db = (token, db') \<Longrightarrow> \<not> token_issued db token \<and> ultimo_token db' = Some token
     \<and> resource_locks db' = resource_locks db"
  by (auto simp: acuniar_token_def Let_def token_issued_def split: option.splits if_splits)

text \<open>What one attempt does to the table: nothing but a token spent, or a fresh row on a resource
  that had none or an expired one.\<close>

lemma acquire_attempt_cases:
  assumes "acquire_attempt lc r a ttl now after fault db = (res, db')"
  obtains (same) "res = None" "db' = db"
  | (spent) t where "res = None" "\<not> token_issued db t" "db' = db\<lparr>ultimo_token := Some t\<rparr>"
  | (taken) t where "\<not> token_issued db t"
      "db' = db\<lparr>ultimo_token := Some t,
              resource_locks := dset r \<lparr>agent_id = a, acquired_at = t, expires_at = now + ttl\<rparr> (resource_locks db)\<rparr>"
      "dget (resource_locks db) r = None \<or> (\<exists>old. dget (resource_locks db) r = Some old \<and> expires_at old < now)"
      "res = (if lc \<and> after \<ge> now + ttl then None
              else Some \<lparr>li_resource = r, li_agent = a, li_acquired = t, li_expires = now + ttl, li_ttl = Some ttl\<rparr>)"
proof -
  obtain t db1 where t: "acuniar_token now db = (t, db1)" by fastforce
  then have db1: "db1 = db\<lparr>ultimo_token := Some t\<rparr>" by (auto simp: acuniar_token_def Let_def)
  have f: "\<not> token_issued db t" using acuniar_token_fresh [OF t] by simp
  consider (before) "fault = Fault_before_token" | (in_sql) "fault = Fault_in_sql"
    | (busy) old where "fault = No_fault" "dget (resource_locks db) r = Some old" "\<not> expires_at old < now"
    | (free) "fault = No_fault"
        "dget (resource_locks db) r = None \<or> (\<exists>old. dget (resource_locks db) r = Some old \<and> expires_at old < now)"
    by (cases fault; cases "dget (resource_locks db) r") auto
  then show ?thesis
  proof cases
    case before
    with assms show ?thesis by (intro same) (simp_all add: acquire_attempt_def)
  next
    case in_sql
    with assms show ?thesis by (intro spent [OF _ f]) (simp_all add: acquire_attempt_def t db1)
  next
    case busy
    with assms show ?thesis by (intro spent [OF _ f]) (simp_all add: acquire_attempt_def acquire_sql_def t db1)
  next
    case free
    then have "acquire_sql r a t (now + ttl) now db1
      = (True, db1\<lparr>resource_locks := dset r \<lparr>agent_id = a, acquired_at = t, expires_at = now + ttl\<rparr> (resource_locks db)\<rparr>)"
      by (auto simp: acquire_sql_def db1)
    with free assms show ?thesis
      by (intro taken [OF f _ free(2)]) (auto simp: acquire_attempt_def t db1 Let_def split: if_splits)
  qed
qed

lemma held_before_fresh:
  "lock_db_ok db \<Longrightarrow> \<not> token_issued db t \<Longrightarrow> dget (resource_locks db) r = Some row \<Longrightarrow> acquired_at row \<le> t"
  unfolding lock_db_ok_def token_issued_def by (meson linorder_le_cases order_trans)

lemma lock_db_ok_token:
  "lock_db_ok db \<Longrightarrow> \<not> token_issued db t \<Longrightarrow> lock_db_ok (db\<lparr>ultimo_token := Some t\<rparr>)"
  using held_before_fresh [of db t] by (simp add: lock_db_ok_def)

lemma lock_db_ok_taken:
  "lock_db_ok db \<Longrightarrow> \<not> token_issued db t \<Longrightarrow> acquired_at row = t \<Longrightarrow>
     lock_db_ok (db\<lparr>ultimo_token := Some t, resource_locks := dset r row (resource_locks db)\<rparr>)"
  using held_before_fresh [of db t] by (simp add: lock_db_ok_def)


lemma lock_step_ok: "lock_db_ok db \<Longrightarrow> lock_db_ok (lock_step op db)"
proof (induction op)
  case (Try_acquire lc r a ttl now after fault)
  obtain res db' where r: "acquire_attempt lc r a ttl now after fault db = (res, db')" by fastforce
  then show ?case
    by (cases rule: acquire_attempt_cases) (use Try_acquire r in \<open>simp_all add: lock_db_ok_token lock_db_ok_taken\<close>)
qed (auto simp: lock_db_ok_def release_lock_def renew_lock_def force_release_def cleanup_expired_def Let_def
       dget_filter split: option.splits if_splits)






lemma lock_db_ok_init [simp]: "lock_db_ok lock_db_init"
  by (simp add: lock_db_ok_def lock_db_init_def)

subsection \<open>Exclusion and fencing\<close>

lemma acquire_success:
  assumes "acquire_attempt lc r a ttl now after fault db = (Some l, db')"
  shows "li_resource l = r" "li_agent l = a" "li_expires l = now + ttl" "lc \<Longrightarrow> after < li_expires l"
    and "\<not> token_issued db (li_acquired l)" "token_issued db' (li_acquired l)"
    and "dget (resource_locks db) r = None \<or> (\<exists>old. dget (resource_locks db) r = Some old \<and> expires_at old < now)"
    and "dget (resource_locks db') r = Some \<lparr>agent_id = a, acquired_at = li_acquired l, expires_at = li_expires l\<rparr>"
    and "r' \<noteq> r \<Longrightarrow> dget (resource_locks db') r' = dget (resource_locks db) r'"
proof -
  from assms obtain t where t: "\<not> token_issued db t"
    "db' = db\<lparr>ultimo_token := Some t,
       resource_locks := dset r \<lparr>agent_id = a, acquired_at = t, expires_at = now + ttl\<rparr> (resource_locks db)\<rparr>"
    "dget (resource_locks db) r = None \<or> (\<exists>old. dget (resource_locks db) r = Some old \<and> expires_at old < now)"
    "\<not> (lc \<and> after \<ge> now + ttl)"
    "l = \<lparr>li_resource = r, li_agent = a, li_acquired = t, li_expires = now + ttl, li_ttl = Some ttl\<rparr>"
    by (cases rule: acquire_attempt_cases) (auto split: if_splits)
  then show "li_resource l = r" "li_agent l = a" "li_expires l = now + ttl" "lc \<Longrightarrow> after < li_expires l"
    "\<not> token_issued db (li_acquired l)" "token_issued db' (li_acquired l)"
    "dget (resource_locks db) r = None \<or> (\<exists>old. dget (resource_locks db) r = Some old \<and> expires_at old < now)"
    "dget (resource_locks db') r = Some \<lparr>agent_id = a, acquired_at = li_acquired l, expires_at = li_expires l\<rparr>"
    "r' \<noteq> r \<Longrightarrow> dget (resource_locks db') r' = dget (resource_locks db) r'"
    by (simp_all add: token_issued_def)
qed

text \<open>The lease of a resource excludes every other. An attempt succeeds only when the resource
  has no row or its lease expired before the reading of the clock taken inside the
  transaction; it then holds the row under a token never issued before, with the full time to
  live it asked for, and no other resource is touched. An attempt that fails leaves every row
  as it was, unless its own lease was committed already expired.\<close>

theorem acquire_exclusive:
  assumes "lock_db_ok db" and "acquire_attempt lc r a ttl now after fault db = (res, db')"
  shows "(case res of
       Some l \<Rightarrow> \<not> token_issued db (li_acquired l)
         \<and> (dget (resource_locks db) r = None \<or> (\<exists>old. dget (resource_locks db) r = Some old \<and> expires_at old < now))
         \<and> get_lock_info r db' = Some (l\<lparr>li_ttl := None\<rparr>) \<and> li_expires l = now + ttl
     | None \<Rightarrow> resource_locks db' = resource_locks db
         \<or> (lc \<and> (\<exists>row. dget (resource_locks db') r = Some row \<and> expires_at row \<le> after)))
    \<and> (\<forall>r'. r' \<noteq> r \<longrightarrow> get_lock_info r' db' = get_lock_info r' db) \<and> lock_db_ok db'"
proof -
  have ok: "lock_db_ok db'" using lock_step_ok [OF assms(1), of "Try_acquire lc r a ttl now after fault"] assms(2) by simp
  from assms(2) show ?thesis
  proof (cases rule: acquire_attempt_cases)
    case (taken t)
    with ok show ?thesis by (auto simp: get_lock_info_def)
  qed (use ok in \<open>auto simp: get_lock_info_def\<close>)
qed

theorem acquire_exclusive_witness:
  "get_lock_info ''x.esp'' (snd (acquire_attempt True ''x.esp'' ''b'' 10 20 21 No_fault
      \<lparr>resource_locks = [(''x.esp'', \<lparr>agent_id = ''a'', acquired_at = 5, expires_at = 15\<rparr>)], ultimo_token = Some 25\<rparr>))
     = Some \<lparr>li_resource = ''x.esp'', li_agent = ''b'', li_acquired = 26, li_expires = 30, li_ttl = None\<rparr>"
proof -
  let ?db = "\<lparr>resource_locks = [(''x.esp'', \<lparr>agent_id = ''a'', acquired_at = 5, expires_at = 15\<rparr>)], ultimo_token = Some 25\<rparr>"
  obtain l db' where r: "acquire_attempt True ''x.esp'' ''b'' 10 20 21 No_fault ?db = (Some l, db')"
    and l: "l = \<lparr>li_resource = ''x.esp'', li_agent = ''b'', li_acquired = 26, li_expires = 30, li_ttl = Some 10\<rparr>"
    by (simp add: acquire_attempt_def acuniar_token_def acquire_sql_def)
  have "lock_db_ok ?db" by (simp add: lock_db_ok_def)
  from acquire_exclusive [OF this r] show ?thesis by (simp add: r l)
qed



text \<open>An expired lease is never revived. A renewal succeeds only for the token and agent of the
  row, while the row has not expired, and with a transaction manager only when the new lease is
  itself alive at the end of the commit; it moves the expiry and keeps the token. In every
  other case, failures of the database included, it answers \<open>False\<close>.\<close>

theorem renew_no_resurrection:
  assumes "renew_lock lc r a ttl token now after db_ok db = (renewed, db')"
  shows "(renewed \<longrightarrow> (\<exists>row. dget (resource_locks db) r = Some row \<and> agent_id row = a \<and> token = Some (acquired_at row)
             \<and> now < expires_at row \<and> db_ok \<and> (lc \<longrightarrow> after < now + ttl)
             \<and> get_lock_info r db' = Some \<lparr>li_resource = r, li_agent = a, li_acquired = acquired_at row,
                                          li_expires = now + ttl, li_ttl = None\<rparr>))
    \<and> (\<forall>row. dget (resource_locks db) r = Some row \<and> expires_at row \<le> now \<longrightarrow> db' = db \<and> \<not> renewed)
    \<and> (token = None \<longrightarrow> db' = db \<and> \<not> renewed)"
  using assms by (auto simp: renew_lock_def get_lock_info_def split: if_splits option.splits)

theorem renew_no_resurrection_witness:
  "let db = \<lparr>resource_locks = [(''r'', \<lparr>agent_id = ''a'', acquired_at = 5, expires_at = 15\<rparr>)], ultimo_token = Some 5\<rparr>
   in snd (renew_lock True ''r'' ''a'' 10 (Some 5) 15 16 True db) = db"
  using renew_no_resurrection [of True "''r''" "''a''" 10 "Some 5" 15 16 True
      "\<lparr>resource_locks = [(''r'', \<lparr>agent_id = ''a'', acquired_at = 5, expires_at = 15\<rparr>)], ultimo_token = Some 5\<rparr>"]
  by (simp add: Let_def split_def prod_eq_iff)

end
