(* ===== verification/Snapshot_Lock.thy ===== *)
theory Snapshot_Lock
  imports Lease_Store Complex_Main
begin

text \<open>
  The transaction of a mutating tool: \<open>SnapshotTransactionLock\<close> of \<open>sky_claw/app/db/locks.py\<close>,
  which holds a lease, snapshots the target files on entry and restores them on exit; the copies
  of \<open>sky_claw/app/db/snapshot_manager.py\<close>; and the veto of \<open>sky_claw/app/db/rollback_veto.py\<close>.

  A file system maps paths to contents. What an I/O call did is an argument of the step: whether
  it failed, and what a failed copy left in the target. The checksum of a content is \<open>sha\<close>. The
  name of a snapshot, derived in the code from the path and the time, is an argument too.
\<close>

subsection \<open>Snapshots\<close>

record snap_file =
  sf_content :: "string option"
  sf_checksum :: "string option"

record world =
  files :: "(string, string) dict"
  vault :: "(string, snap_file) dict"

record snapshot =
  snapshot_path :: string
  original_path :: string


definition put_file :: "string \<Rightarrow> string option \<Rightarrow> world \<Rightarrow> world" where
  "put_file path c w = w\<lparr>files := (case c of None \<Rightarrow> ddel path (files w) | Some x \<Rightarrow> dset path x (files w))\<rparr>"

text \<open>\<open>restore_snapshot\<close> with \<open>verify_checksum=True\<close>: a content that does not have the recorded
  checksum is undone from the backup, when the target existed.\<close>

definition restore_snapshot ::
  "(string \<Rightarrow> string) \<Rightarrow> string \<Rightarrow> string \<Rightarrow> bool \<Rightarrow> string option \<Rightarrow> world \<Rightarrow> bool \<times> world" where
  "restore_snapshot sha sp target io_ok leftover w =
    (case dget (vault w) sp of
       None \<Rightarrow> (False, w)
     | Some vf \<Rightarrow>
        (case sf_content vf of
           None \<Rightarrow> (False, w)
         | Some c \<Rightarrow>
             if \<not> io_ok then (False, put_file target leftover w)
             else if (case sf_checksum vf of None \<Rightarrow> False | Some e \<Rightarrow> e \<noteq> [] \<and> sha c \<noteq> e)
             then (False, if dget (files w) target = None then put_file target (Some c) w else w)
             else (True, put_file target (Some c) w)))"

subsection \<open>The veto\<close>

record exception =
  terminality_unknown :: bool
  is_vfs_teardown_error :: bool
  teardown_error :: bool
  cause :: "nat option"
  context_exc :: "nat option"

text \<open>A chain of exceptions is a store of them by identity; \<open>curr\<close> walks the explicit cause, or
  the context, at most 32 links and never twice through one exception.\<close>

fun veto_walk :: "(nat \<Rightarrow> exception) \<Rightarrow> nat \<Rightarrow> nat list \<Rightarrow> nat option \<Rightarrow> bool" where
  "veto_walk h depth visited None = False"
| "veto_walk h 0 visited (Some i) = False"
| "veto_walk h (Suc depth) visited (Some i) =
    (if i \<in> set visited then False
     else if terminality_unknown (h i) then True
     else if is_vfs_teardown_error (h i) then True
     else if teardown_error (h i) then True
     else veto_walk h depth (i # visited)
            (case cause (h i) of Some j \<Rightarrow> Some j | None \<Rightarrow> context_exc (h i)))"

definition exception_forbids_rollback :: "(nat \<Rightarrow> exception) \<Rightarrow> nat option \<Rightarrow> bool" where
  "exception_forbids_rollback h exc = veto_walk h 32 [] exc"

subsection \<open>The session\<close>

record session =
  ss_resource :: string
  ss_agent :: string
  ss_force :: bool
  ss_lock :: "lock_info option"
  ss_snapshots :: "snapshot list"
  ss_lease_lost :: bool
  ss_attempted :: bool
  ss_failures :: "string list"
  ss_vetoed :: bool

definition session_init :: "string \<Rightarrow> string \<Rightarrow> bool \<Rightarrow> session" where
  "session_init r a force = \<lparr>ss_resource = r, ss_agent = a, ss_force = force, ss_lock = None, ss_snapshots = [],
     ss_lease_lost = False, ss_attempted = False, ss_failures = [], ss_vetoed = False\<rparr>"

definition rollback_completed :: "session \<Rightarrow> bool" where
  "rollback_completed s \<longleftrightarrow> ss_attempted s \<and> ss_snapshots s \<noteq> [] \<and> ss_failures s = []"

definition safe_release :: "bool \<Rightarrow> session \<Rightarrow> lock_db \<Rightarrow> lock_db" where
  "safe_release db_ok s db =
     (if db_ok then snd (release_lock (ss_resource s) (ss_agent s) (map_option li_acquired (ss_lock s)) db) else db)"



definition heartbeat :: "bool \<Rightarrow> session \<Rightarrow> session" where
  "heartbeat renewed s = (if renewed then s else s\<lparr>ss_lease_lost := True\<rparr>)"

text \<open>\<open>assert_owned\<close>: the flag is whether it returns; otherwise it raised \<open>LockLeaseLostError\<close>.\<close>

definition assert_owned :: "bool \<Rightarrow> int \<Rightarrow> lock_db \<Rightarrow> session \<Rightarrow> bool \<times> session" where
  "assert_owned verify_db now db s =
    (if ss_lease_lost s then (False, s)
     else if \<not> verify_db then (True, s)
     else (case (get_lock_info (ss_resource s) db, ss_lock s) of
         (Some info, Some mine) \<Rightarrow>
           if li_agent info \<noteq> ss_agent s \<or> li_acquired info \<noteq> li_acquired mine \<or> lease_expired now info
           then (False, s\<lparr>ss_lease_lost := True\<rparr>) else (True, s)
       | _ \<Rightarrow> (False, s\<lparr>ss_lease_lost := True\<rparr>)))"

subsection \<open>The exit\<close>

datatype restore_event = Restore bool "string option" | Interrupted "string option option"

text \<open>The loop of \<open>_rollback_snapshots\<close> over the snapshots in reverse; the events say how each
  restore went, an interruption being a cancellation raised in the middle of one, which may have left
  something in the target. The result holds the failures, the restored paths and whether the loop was interrupted.\<close>

fun rollback_loop ::
  "(string \<Rightarrow> string) \<Rightarrow> snapshot list \<Rightarrow> restore_event list \<Rightarrow> string list \<Rightarrow> string list \<Rightarrow> world
     \<Rightarrow> string list \<times> string list \<times> bool \<times> world" where
  "rollback_loop sha [] evs failures restored w = (failures, restored, False, w)"
| "rollback_loop sha (sn # sns) evs failures restored w =
    (case evs of
       Interrupted left # _ \<Rightarrow>
         (failures, restored, True, case left of None \<Rightarrow> w | Some c \<Rightarrow> put_file (original_path sn) c w)
     | Restore io_ok leftover # evs' \<Rightarrow>
         (case restore_snapshot sha (snapshot_path sn) (original_path sn) io_ok leftover w of
            (True, w') \<Rightarrow> rollback_loop sha sns evs' failures (restored @ [original_path sn]) w'
          | (False, w') \<Rightarrow> rollback_loop sha sns evs' (failures @ [original_path sn]) restored w')
     | [] \<Rightarrow>
         (case restore_snapshot sha (snapshot_path sn) (original_path sn) True None w of
            (True, w') \<Rightarrow> rollback_loop sha sns [] failures (restored @ [original_path sn]) w'
          | (False, w') \<Rightarrow> rollback_loop sha sns [] (failures @ [original_path sn]) restored w'))"

definition rollback_snapshots ::
  "(string \<Rightarrow> string) \<Rightarrow> restore_event list \<Rightarrow> session \<Rightarrow> world \<Rightarrow> bool \<times> session \<times> world" where
  "rollback_snapshots sha evs s w =
    (let order = rev (ss_snapshots s);
         (failures, restored, interrupted, w') = rollback_loop sha order evs [] [] w;
         interrumpidos = filter (\<lambda>p. p \<notin> set restored \<and> p \<notin> set failures) (map original_path order)
     in (interrupted, s\<lparr>ss_failures := failures @ interrumpidos\<rparr>, w'))"

datatype body_exception = Lease_lost_exception nat | Other_exception nat

fun exc_ref :: "body_exception \<Rightarrow> nat" where
  "exc_ref (Lease_lost_exception i) = i"
| "exc_ref (Other_exception i) = i"

datatype exit_raise = No_raise | Raise_lease_lost | Raise_rollback_error | Raise_interruption

definition lease_loss :: "body_exception option \<Rightarrow> session \<Rightarrow> bool" where
  "lease_loss exc s \<longleftrightarrow>
     ss_lease_lost s \<or> (case exc of None \<Rightarrow> False | Some e \<Rightarrow> (case e of Lease_lost_exception _ \<Rightarrow> True | Other_exception _ \<Rightarrow> False))"

definition should_rollback :: "(nat \<Rightarrow> exception) \<Rightarrow> body_exception option \<Rightarrow> session \<Rightarrow> bool" where
  "should_rollback h exc s \<longleftrightarrow> \<not> exception_forbids_rollback h (map_option exc_ref exc)
     \<and> (ss_force s \<or> (exc \<noteq> None \<and> \<not> lease_loss exc s))"

definition exit_flags :: "(nat \<Rightarrow> exception) \<Rightarrow> body_exception option \<Rightarrow> session \<Rightarrow> session" where
  "exit_flags h exc s =
    (let s1 = (if exception_forbids_rollback h (map_option exc_ref exc) then s\<lparr>ss_vetoed := True\<rparr> else s)
     in s1\<lparr>ss_attempted := should_rollback h exc s\<rparr>)"

definition exit_session ::
  "(string \<Rightarrow> string) \<Rightarrow> (nat \<Rightarrow> exception) \<Rightarrow> body_exception option \<Rightarrow> restore_event list \<Rightarrow> bool
     \<Rightarrow> session \<Rightarrow> lock_db \<Rightarrow> world \<Rightarrow> exit_raise \<times> session \<times> lock_db \<times> world" where
  "exit_session sha h exc evs db_ok s db w =
    (let s2 = exit_flags h exc s;
         (interrupted, s3, w') = (if ss_attempted s2 then rollback_snapshots sha evs s2 w else (False, s2, w));
         raised = (if interrupted then Raise_interruption
                   else if ss_attempted s3 \<and> ss_failures s3 \<noteq> [] \<and> exc = None then Raise_rollback_error
                   else if exc = None \<and> ss_lease_lost s3 then Raise_lease_lost
                   else No_raise)
     in (raised, s3, safe_release db_ok s3 db, w'))"

subsection \<open>The cadence of the heartbeat\<close>

definition MIN_HEARTBEAT_INTERVAL :: real where
  "MIN_HEARTBEAT_INTERVAL = 1 / 20"

definition MIN_HEARTBEAT_TTL :: real where
  "MIN_HEARTBEAT_TTL = 15 / 100"

definition MIN_RENEW_DIVISOR :: real where
  "MIN_RENEW_DIVISOR = 2"

definition heartbeat_interval :: "real \<Rightarrow> real \<Rightarrow> real" where
  "heartbeat_interval ttl divisor = max (ttl / divisor) MIN_HEARTBEAT_INTERVAL"

definition ttl_del_latido :: "real option \<Rightarrow> real \<Rightarrow> real \<Rightarrow> real" where
  "ttl_del_latido declared expires acquired =
     max (case declared of Some t \<Rightarrow> t | None \<Rightarrow> expires - acquired) MIN_HEARTBEAT_TTL"

subsection \<open>What the veto sees\<close>

definition next_exc :: "(nat \<Rightarrow> exception) \<Rightarrow> nat \<Rightarrow> nat option" where
  "next_exc h i = (case cause (h i) of Some j \<Rightarrow> Some j | None \<Rightarrow> context_exc (h i))"

fun chain :: "(nat \<Rightarrow> exception) \<Rightarrow> nat option \<Rightarrow> nat \<Rightarrow> nat option" where
  "chain h None k = None"
| "chain h (Some i) 0 = Some i"
| "chain h (Some i) (Suc k) = chain h (next_exc h i) k"

definition marked :: "exception \<Rightarrow> bool" where
  "marked e \<longleftrightarrow> terminality_unknown e \<or> is_vfs_teardown_error e \<or> teardown_error e"

lemma chain_in_closed:
  "i \<in> V \<Longrightarrow> (\<And>v. v \<in> V \<Longrightarrow> next_exc h v = None \<or> the (next_exc h v) \<in> V) \<Longrightarrow>
     chain h (Some i) k = Some j \<Longrightarrow> j \<in> V"
proof (induction k arbitrary: i)
  case (Suc k)
  then show ?case by (cases "next_exc h i") fastforce+
qed simp

lemma veto_walk_iff:
  assumes "\<And>v. v \<in> set vis \<Longrightarrow> \<not> marked (h v)"
    and "\<And>v. v \<in> set vis \<Longrightarrow> next_exc h v = cur \<or> (\<exists>u \<in> set vis. next_exc h v = Some u)"
  shows "veto_walk h d vis cur \<longleftrightarrow> (\<exists>k < d. \<exists>j. chain h cur k = Some j \<and> marked (h j))"
  using assms
proof (induction d arbitrary: vis cur)
  case 0
  then show ?case by (cases cur) simp_all
next
  case (Suc d)
  show ?case
  proof (cases cur)
    case (Some i)
    show ?thesis
    proof (cases "i \<in> set vis")
      case True
      have cl: "next_exc h v = None \<or> the (next_exc h v) \<in> set vis" if "v \<in> set vis" for v
        using Suc.prems(2) [OF that] True Some by auto
      have "j \<in> set vis" if "chain h (Some i) k = Some j" for k j
        by (rule chain_in_closed [OF True cl that])
      with Suc.prems(1) True Some show ?thesis by auto
    next
      case False
      show ?thesis
      proof (cases "marked (h i)")
        case True
        then have "veto_walk h (Suc d) vis cur" using False Some by (auto simp: marked_def)
        moreover have "chain h cur 0 = Some i" using Some by simp
        ultimately show ?thesis using True by (metis zero_less_Suc)
      next
        case unm: False
        have w: "veto_walk h (Suc d) vis cur = veto_walk h d (i # vis) (next_exc h i)"
          using False unm Some by (simp add: marked_def next_exc_def)
        also have "\<dots> \<longleftrightarrow> (\<exists>k < d. \<exists>j. chain h (next_exc h i) k = Some j \<and> marked (h j))"
          using Suc.prems unm Some by (intro Suc.IH) auto
        also have "\<dots> \<longleftrightarrow> (\<exists>k < Suc d. \<exists>j. chain h cur k = Some j \<and> marked (h j))"
          using unm Some by (subst Ex_less_Suc2) auto
        finally show ?thesis .
      qed
    qed
  qed simp
qed

text \<open>The veto is exact on the first 32 links of the causal chain: the rollback is forbidden
  exactly when one of them is an exception of unknown terminality, whatever cycles the chain
  has. A mark further down the chain is not seen.\<close>

theorem veto_exact:
  "exception_forbids_rollback h exc \<longleftrightarrow> (\<exists>k < 32. \<exists>j. chain h exc k = Some j \<and> marked (h j))"
  unfolding exception_forbids_rollback_def by (rule veto_walk_iff) auto

subsection \<open>What the exit does\<close>

lemma rollback_loop_vault:
  "rollback_loop sha sns evs fs rs w = (fs', rs', i, w') \<Longrightarrow> vault w' = vault w"
proof (induction sha sns evs fs rs w rule: rollback_loop.induct)
  case (2 sha sn sns evs fs rs w)
  have v: "vault (snd (restore_snapshot sha a b io l w)) = vault w" "vault (put_file p c w) = vault w" for a b io l w p c
    by (auto simp: restore_snapshot_def put_file_def split: option.splits)
  obtain r0 w0 where r0: "restore_snapshot sha (snapshot_path sn) (original_path sn) True None w = (r0, w0)" by fastforce
  with v(1) [of "snapshot_path sn" "original_path sn" True None w] have w0: "vault w0 = vault w" by simp
  show ?case
  proof (cases evs)
    case Nil
    with 2 r0 w0 show ?thesis by (cases r0) auto
  next
    case (Cons e es)
    show ?thesis
    proof (cases e)
      case (Interrupted left)
      with "2.prems" Cons v(2) show ?thesis by (auto split: option.splits)
    next
      case (Restore io l)
      obtain r1 w1 where r1: "restore_snapshot sha (snapshot_path sn) (original_path sn) io l w = (r1, w1)" by fastforce
      with v(1) [of "snapshot_path sn" "original_path sn" io l w] have "vault w1 = vault w" by simp
      with 2 Cons Restore r1 show ?thesis by (cases r1) auto
    qed
  qed
qed simp

text \<open>The state a completed restore leaves: the content of the snapshot, which has the recorded
  checksum.\<close>

definition restored_ok :: "(string \<Rightarrow> string) \<Rightarrow> world \<Rightarrow> snapshot \<Rightarrow> bool" where
  "restored_ok sha w sn \<longleftrightarrow> (\<exists>vf c. dget (vault w) (snapshot_path sn) = Some vf \<and> sf_content vf = Some c
     \<and> dget (files w) (original_path sn) = Some c
     \<and> (\<forall>e. sf_checksum vf = Some e \<and> e \<noteq> [] \<longrightarrow> sha c = e))"

lemma restore_true:
  assumes "restore_snapshot sha (snapshot_path sn) (original_path sn) io l w = (True, w')"
  shows "restored_ok sha w' sn" "vault w' = vault w"
    "p \<noteq> original_path sn \<Longrightarrow> dget (files w') p = dget (files w) p"
  using assms by (auto simp: restore_snapshot_def put_file_def restored_ok_def split: option.splits if_splits)

lemma restored_ok_cong:
  "restored_ok sha w sn \<Longrightarrow> vault w' = vault w \<Longrightarrow>
     dget (files w') (original_path sn) = dget (files w) (original_path sn) \<Longrightarrow> restored_ok sha w' sn"
  by (simp add: restored_ok_def)

lemma rollback_step:
  assumes "rollback_loop sha (sn # sns) evs fs rs w = (fs', rs', i, w')"
  obtains (interrupted) left where "i" "fs' = fs" "rs' = rs"
  | (restored) w1 evs' io l where "restore_snapshot sha (snapshot_path sn) (original_path sn) io l w = (True, w1)"
      "rollback_loop sha sns evs' fs (rs @ [original_path sn]) w1 = (fs', rs', i, w')" "evs = [] \<Longrightarrow> evs' = []"
  | (failed) w1 evs' io l where "restore_snapshot sha (snapshot_path sn) (original_path sn) io l w = (False, w1)"
      "rollback_loop sha sns evs' (fs @ [original_path sn]) rs w1 = (fs', rs', i, w')"
      "evs = [] \<Longrightarrow> io"
proof (cases evs)
  case Nil
  obtain b w1 where r: "restore_snapshot sha (snapshot_path sn) (original_path sn) True None w = (b, w1)" by fastforce
  with Nil assms restored [OF _ _, of True None w1 "[]"] failed [of True None w1 "[]"] show thesis by (cases b) auto
next
  case (Cons e es)
  show thesis
  proof (cases e)
    case (Interrupted left)
    with Cons assms interrupted show thesis by simp
  next
    case (Restore io l)
    obtain b w1 where r: "restore_snapshot sha (snapshot_path sn) (original_path sn) io l w = (b, w1)" by fastforce
    with Cons Restore assms restored [of io l w1 es] failed [of io l w1 es] show thesis by (cases b) auto
  qed
qed

lemma rollback_failures_mono:
  "rollback_loop sha sns evs fs rs w = (fs', rs', i, w') \<Longrightarrow> \<exists>xs. fs' = fs @ xs"
proof (induction sns arbitrary: evs fs rs w)
  case (Cons sn sns)
  from Cons.prems show ?case
  proof (cases rule: rollback_step)
    case (restored w1 evs' io l)
    from Cons.IH [OF restored(2)] show ?thesis by simp
  next
    case (failed w1 evs' io l)
    from Cons.IH [OF failed(2)] show ?thesis by auto
  qed simp
qed simp

lemma rollback_restored_paths:
  "rollback_loop sha sns evs fs rs w = (fs', rs', i, w') \<Longrightarrow> set rs' \<subseteq> set rs \<union> original_path ` set sns"
proof (induction sns arbitrary: evs fs rs w)
  case (Cons sn sns)
  from Cons.prems show ?case
  proof (cases rule: rollback_step)
    case (restored w1 evs' io l)
    from Cons.IH [OF restored(2)] show ?thesis by auto
  next
    case (failed w1 evs' io l)
    from Cons.IH [OF failed(2)] show ?thesis by auto
  qed auto
qed simp

text \<open>A loop that adds no failure and leaves no snapshot behind has restored them all.\<close>

lemma rollback_loop_complete:
  assumes "rollback_loop sha sns evs fs rs w = (fs, rs', i, w')"
    and "distinct (map original_path sns)" and "original_path ` set sns \<inter> set rs = {}"
    and "original_path ` set sns \<subseteq> set rs' \<union> set fs" and "original_path ` set sns \<inter> set fs = {}"
  shows "(\<forall>sn \<in> set sns. restored_ok sha w' sn)
    \<and> (\<forall>p. p \<notin> original_path ` set sns \<longrightarrow> dget (files w') p = dget (files w) p)"
  using assms
proof (induction sns arbitrary: evs rs w)
  case (Cons sn sns)
  from Cons.prems(1) show ?case
  proof (cases rule: rollback_step)
    case (restored w1 evs' io l)
    have "(\<forall>sn \<in> set sns. restored_ok sha w' sn)
      \<and> (\<forall>p. p \<notin> original_path ` set sns \<longrightarrow> dget (files w') p = dget (files w1) p)"
      using Cons.prems(2-) by (intro Cons.IH [OF restored(2)]) auto
    moreover from restore_true [OF restored(1)] have
      "restored_ok sha w1 sn" "\<And>p. p \<noteq> original_path sn \<Longrightarrow> dget (files w1) p = dget (files w) p" by auto
    moreover have "vault w' = vault w1" using rollback_loop_vault [OF restored(2)] .
    ultimately show ?thesis
      using Cons.prems(2) restored_ok_cong [of sha w1 sn w'] by auto
  next
    case (failed w1 evs' io l)
    from rollback_failures_mono [OF failed(2)] show ?thesis by simp
  qed (use Cons.prems in auto)
qed simp

lemma rollback_completed_restores:
  assumes "rollback_snapshots sha evs s w = (i, s', w')" and "ss_failures s' = []"
    and "distinct (map original_path (ss_snapshots s))"
  shows "(\<forall>sn \<in> set (ss_snapshots s). restored_ok sha w' sn)
    \<and> (\<forall>p. p \<notin> original_path ` set (ss_snapshots s) \<longrightarrow> dget (files w') p = dget (files w) p)"
proof -
  obtain fs rs w1 where l: "rollback_loop sha (rev (ss_snapshots s)) evs [] [] w = (fs, rs, i, w1)"
    and fs: "fs = []" and left: "filter (\<lambda>p. p \<notin> set rs \<and> p \<notin> set fs) (map original_path (rev (ss_snapshots s))) = []"
    and w1: "w1 = w'"
    using assms(1,2) by (auto simp: rollback_snapshots_def Let_def split: prod.splits)
  have d: "distinct (map original_path (rev (ss_snapshots s)))"
    using assms(3) by (simp add: rev_map [symmetric])
  have "original_path ` set (rev (ss_snapshots s)) \<subseteq> set rs \<union> set fs"
    using left by (auto simp: filter_empty_conv)
  with rollback_loop_complete [OF l [unfolded fs] d] fs show ?thesis by (simp add: w1)
qed

lemma lease_loss_iff:
  "lease_loss exc s \<longleftrightarrow> ss_lease_lost s \<or> (\<exists>i. exc = Some (Lease_lost_exception i))"
  by (auto simp: lease_loss_def split: option.splits body_exception.splits)

lemma exit_flags_sel:
  "ss_attempted (exit_flags h exc s) = should_rollback h exc s" "ss_snapshots (exit_flags h exc s) = ss_snapshots s"
  "ss_lock (exit_flags h exc s) = ss_lock s" "ss_lease_lost (exit_flags h exc s) = ss_lease_lost s"
  "ss_resource (exit_flags h exc s) = ss_resource s" "ss_agent (exit_flags h exc s) = ss_agent s"
  "ss_failures (exit_flags h exc s) = ss_failures s"
  by (simp_all add: exit_flags_def Let_def)

lemma rollback_snapshots_frame:
  "rollback_snapshots sha evs s w = (i, s', w') \<Longrightarrow> s' = s\<lparr>ss_failures := ss_failures s'\<rparr>"
  by (auto simp: rollback_snapshots_def Let_def split: prod.splits)

text \<open>An exit either does not attempt a rollback, or runs one; then it releases.\<close>

lemma exit_session_cases:
  assumes "exit_session sha h exc evs db_ok s db w = (raised, s', db', w')"
  obtains (idle) "\<not> should_rollback h exc s" "s' = exit_flags h exc s" "w' = w" "db' = safe_release db_ok s db"
      "raised = (if exc = None \<and> ss_lease_lost s then Raise_lease_lost else No_raise)"
  | (rolled) i where "should_rollback h exc s" "rollback_snapshots sha evs (exit_flags h exc s) w = (i, s', w')"
      "s' = (exit_flags h exc s)\<lparr>ss_failures := ss_failures s'\<rparr>" "db' = safe_release db_ok s db"
      "raised = (if i then Raise_interruption
           else if ss_failures s' \<noteq> [] \<and> exc = None then Raise_rollback_error
           else if exc = None \<and> ss_lease_lost s then Raise_lease_lost else No_raise)"
proof (cases "should_rollback h exc s")
  case False
  have "safe_release db_ok (exit_flags h exc s) db = safe_release db_ok s db"
    by (simp add: safe_release_def exit_flags_sel)
  with False assms idle show thesis by (auto simp: exit_session_def exit_flags_sel Let_def)
next
  case True
  obtain i s3 w3 where r: "rollback_snapshots sha evs (exit_flags h exc s) w = (i, s3, w3)" by (metis prod_cases3)
  have f: "s3 = (exit_flags h exc s)\<lparr>ss_failures := ss_failures s3\<rparr>" using rollback_snapshots_frame [OF r] .
  have sel: "ss_attempted s3" "ss_lease_lost s3 = ss_lease_lost s" "safe_release db_ok s3 db = safe_release db_ok s db"
    by (subst f, simp add: exit_flags_sel safe_release_def True)+
  from assms r True sel have "s' = s3" "w' = w3" "db' = safe_release db_ok s db"
    "raised = (if i then Raise_interruption
           else if ss_failures s' \<noteq> [] \<and> exc = None then Raise_rollback_error
           else if exc = None \<and> ss_lease_lost s then Raise_lease_lost else No_raise)"
    by (auto simp: exit_session_def exit_flags_sel Let_def)
  with r f True rolled show thesis by simp
qed

text \<open>The decision to roll back. Files are restored only for a forced (dry-run) session or for
  an exception of the body while the lease is held, and never under the veto; otherwise the
  exit touches no file. A clean exit that raises nothing means that the lease was never lost
  and, in a forced session, that every restore succeeded. A body's exception is never replaced
  by an error of the rollback or of the lease.\<close>

theorem exit_decides:
  assumes "exit_session sha h exc evs db_ok s db w = (raised, s', db', w')"
  shows "(ss_attempted s' \<longleftrightarrow> \<not> exception_forbids_rollback h (map_option exc_ref exc)
            \<and> (ss_force s \<or> (exc \<noteq> None \<and> \<not> ss_lease_lost s \<and> (\<forall>i. exc \<noteq> Some (Lease_lost_exception i)))))
    \<and> (\<not> ss_attempted s' \<longrightarrow> w' = w)
    \<and> (exc = None \<and> raised = No_raise \<longrightarrow> \<not> ss_lease_lost s \<and> (ss_force s \<longrightarrow> ss_failures s' = []))
    \<and> (exc \<noteq> None \<longrightarrow> raised = No_raise \<or> raised = Raise_interruption)
    \<and> db' = safe_release db_ok s db"
proof -
  have sr: "exc = None \<Longrightarrow> ss_force s \<Longrightarrow> should_rollback h exc s"
    by (simp add: should_rollback_def exception_forbids_rollback_def)
  from assms show ?thesis
  proof (cases rule: exit_session_cases)
    case idle
    with sr show ?thesis by (auto simp: exit_flags_sel should_rollback_def lease_loss_iff)
  next
    case (rolled i)
    then have "ss_attempted s'" by (metis exit_flags_sel(1) session.select_convs(7) session.surjective session.update_convs(8))
    with rolled show ?thesis by (auto simp: should_rollback_def lease_loss_iff)
  qed
qed

definition no_exc :: "nat \<Rightarrow> exception" where
  "no_exc = (\<lambda>_. \<lparr>terminality_unknown = False, is_vfs_teardown_error = False, teardown_error = False, cause = None, context_exc = None\<rparr>)"

definition demo_session :: session where
  "demo_session = (session_init ''r'' ''a'' False)\<lparr>
     ss_lock := Some \<lparr>li_resource = ''r'', li_agent = ''a'', li_acquired = 5, li_expires = 15, li_ttl = Some 10\<rparr>,
     ss_snapshots := [\<lparr>snapshot_path = ''s1'', original_path = ''x.esp''\<rparr>]\<rparr>"

definition demo_db :: lock_db where
  "demo_db = \<lparr>resource_locks = [(''r'', \<lparr>agent_id = ''a'', acquired_at = 5, expires_at = 15\<rparr>)], ultimo_token = Some 5\<rparr>"

definition demo_world :: "string \<Rightarrow> world" where
  "demo_world now = \<lparr>files = [(''x.esp'', now)], vault = [(''s1'', \<lparr>sf_content = Some ''old'', sf_checksum = Some ''old''\<rparr>)]\<rparr>"

lemma demo_exit:
  "exit_session id no_exc (Some (Other_exception 0)) [] True demo_session demo_db (demo_world ''new'')
    = (No_raise, demo_session\<lparr>ss_attempted := True\<rparr>, demo_db\<lparr>resource_locks := []\<rparr>, demo_world ''old'')"
  by code_simp

theorem exit_decides_witness: "ss_attempted (demo_session\<lparr>ss_attempted := True\<rparr>)"
  using exit_decides [OF demo_exit]
  by (simp add: demo_session_def session_init_def exception_forbids_rollback_def no_exc_def numeral_eq_Suc)

text \<open>A rollback that is reported as completed was done: every snapshot's file holds the
  content of its copy, which has the checksum recorded when it was taken, and no other file
  was touched. A restore that failed, a corrupt copy, or a cancellation in the middle of the
  loop all make the report negative.\<close>

theorem rollback_completed_truthful:
  assumes "exit_session sha h exc evs db_ok s db w = (raised, s', db', w')"
    and "rollback_completed s'" and "distinct (map original_path (ss_snapshots s))"
  shows "(\<forall>sn \<in> set (ss_snapshots s). restored_ok sha w' sn)
    \<and> (\<forall>p. p \<notin> original_path ` set (ss_snapshots s) \<longrightarrow> dget (files w') p = dget (files w) p)"
proof -
  from assms(2) have a: "ss_attempted s'" "ss_failures s' = []" by (simp_all add: rollback_completed_def)
  from assms(1) show ?thesis
  proof (cases rule: exit_session_cases)
    case idle
    with a show ?thesis by (simp add: exit_flags_sel)
  next
    case (rolled i)
    from rollback_completed_restores [OF rolled(2) a(2)] assms(3) show ?thesis by (simp add: exit_flags_sel)
  qed
qed

theorem rollback_completed_truthful_witness:
  "restored_ok id (demo_world ''old'') \<lparr>snapshot_path = ''s1'', original_path = ''x.esp''\<rparr>"
proof -
  have "ss_snapshots demo_session = [\<lparr>snapshot_path = ''s1'', original_path = ''x.esp''\<rparr>]"
    "rollback_completed (demo_session\<lparr>ss_attempted := True\<rparr>)"
    by (simp_all add: demo_session_def rollback_completed_def session_init_def)
  with rollback_completed_truthful [OF demo_exit] show ?thesis by simp
qed

subsection \<open>A failed run is undone\<close>







text \<open>The heartbeat leaves half of the lease as a margin: with any accepted divisor, the next
  renewal is due no later than half of the time to live the heartbeat renews with, and never
  sooner than the floor that protects the database.\<close>

theorem heartbeat_margin:
  assumes "divisor \<ge> MIN_RENEW_DIVISOR" and "ttl = ttl_del_latido declared expires acquired"
  shows "heartbeat_interval ttl divisor \<le> ttl / 2 \<and> heartbeat_interval ttl divisor \<ge> MIN_HEARTBEAT_INTERVAL
    \<and> (\<forall>t. declared = Some t \<longrightarrow> ttl \<ge> t)"
proof -
  have ttl: "ttl \<ge> 15 / 100" "\<And>t. declared = Some t \<Longrightarrow> ttl \<ge> t"
    using assms(2) by (auto simp: ttl_del_latido_def MIN_HEARTBEAT_TTL_def)
  have "ttl / divisor \<le> ttl / 2"
    using assms(1) ttl(1) by (intro divide_left_mono) (auto simp: MIN_RENEW_DIVISOR_def)
  with ttl show ?thesis by (simp add: heartbeat_interval_def MIN_HEARTBEAT_INTERVAL_def)
qed

theorem heartbeat_margin_witness: "heartbeat_interval 600 3 \<le> 300"
  using heartbeat_margin [of 3 600 "Some 600" 0 0]
  by (simp add: MIN_RENEW_DIVISOR_def ttl_del_latido_def MIN_HEARTBEAT_TTL_def)

end
