(* ===== verification/Journal.thy ===== *)
theory Journal
  imports Snapshot_Lock Json_Text Closed_Fsm
begin

text \<open>
  The operation journal, \<open>sky_claw/app/db/journal.py\<close>: transactions and the operations logged
  in them, and the markers read across services (\<open>journal_contracts.py\<close>).

  A method is one step, because each runs in one transaction of SQLite; \<open>db_ok\<close> says whether
  that transaction succeeded, and a failed one changes no row. \<open>now\<close> is \<open>datetime('now')\<close>. The
  column \<open>metadata\<close> is the JSON it holds, or the reason why it cannot be merged.
\<close>

subsection \<open>Rows\<close>

datatype tx_status = PENDING | COMMITTED | ROLLED_BACK

datatype op_status = STARTED | COMPLETED | FAILED | OP_ROLLED_BACK

datatype op_type =
  MOD_INSTALL | MOD_UNINSTALL | MOD_UPDATE | PLUGIN_CLEAN | FILE_CREATE | FILE_MODIFY | FILE_DELETE | FILE_RENAME

datatype metadata_column = Meta_none | Meta_json json | Meta_invalid | Meta_not_finite | Meta_too_deep

record transaction =
  tx_mod :: "int option"
  tx_description :: string
  tx_state :: tx_status
  tx_created :: int
  tx_committed_at :: "int option"
  tx_rolled_back_at :: "int option"

record journal_entry =
  je_tx :: nat
  je_time :: int
  je_agent :: string
  je_type :: op_type
  je_path :: string
  je_status :: op_status
  je_snapshot :: "string option"
  je_checksum :: "string option"
  je_metadata :: metadata_column
  je_rolled_back :: bool

record journal =
  transactions :: "(nat, transaction) dict"
  journal_entries :: "(nat, journal_entry) dict"
  next_tx :: nat
  next_entry :: nat
  sweep_receipts :: "nat list"
  current_transaction :: "nat option"

datatype journal_error = Transaction_error | Sqlite_error | Value_error

definition journal_init :: journal where
  "journal_init = \<lparr>transactions = [], journal_entries = [], next_tx = 1, next_entry = 1, sweep_receipts = [],
     current_transaction = None\<rparr>"

definition tx_status_of :: "journal \<Rightarrow> nat \<Rightarrow> tx_status option" where
  "tx_status_of j t = map_option tx_state (dget (transactions j) t)"

subsection \<open>Transactions\<close>

definition begin_transaction ::
  "string \<Rightarrow> int option \<Rightarrow> int \<Rightarrow> bool \<Rightarrow> journal \<Rightarrow> (journal_error + nat) \<times> journal" where
  "begin_transaction description mod_id now db_ok j =
    (if \<not> db_ok then (Inl Transaction_error, j)
     else
       let t = next_tx j;
           row = \<lparr>tx_mod = mod_id, tx_description = description, tx_state = PENDING, tx_created = now,
                  tx_committed_at = None, tx_rolled_back_at = None\<rparr>
       in (Inr t, j\<lparr>transactions := dset t row (transactions j), next_tx := t + 1, current_transaction := Some t\<rparr>))"

definition forget_current :: "nat \<Rightarrow> journal \<Rightarrow> journal" where
  "forget_current t j = (if current_transaction j = Some t then j\<lparr>current_transaction := None\<rparr> else j)"

definition commit_transaction :: "nat \<Rightarrow> int \<Rightarrow> bool \<Rightarrow> journal \<Rightarrow> (journal_error + unit) \<times> journal" where
  "commit_transaction t now db_ok j =
    (if \<not> db_ok then (Inl Transaction_error, j)
     else (case dget (transactions j) t of
         Some row \<Rightarrow>
           if tx_state row = PENDING
           then (Inr (), forget_current t
                  (j\<lparr>transactions := dset t (row\<lparr>tx_state := COMMITTED, tx_committed_at := Some now\<rparr>) (transactions j)\<rparr>))
           else (Inl Transaction_error, j)
       | None \<Rightarrow> (Inl Transaction_error, j)))"

definition rollback_transaction :: "nat \<Rightarrow> int \<Rightarrow> bool \<Rightarrow> journal \<Rightarrow> (journal_error + unit) \<times> journal" where
  "rollback_transaction t now db_ok j =
    (if \<not> db_ok then (Inl Transaction_error, j)
     else (case dget (transactions j) t of
         Some row \<Rightarrow>
           if tx_state row = PENDING
           then (Inr (), forget_current t
                  (j\<lparr>transactions := dset t (row\<lparr>tx_state := ROLLED_BACK, tx_rolled_back_at := Some now\<rparr>) (transactions j)\<rparr>))
           else (Inl Transaction_error, j)
       | None \<Rightarrow> (Inl Transaction_error, j)))"

text \<open>Unlike the two above, it neither checks the state nor forgets the current transaction.\<close>

definition mark_transaction_rolled_back :: "nat \<Rightarrow> int \<Rightarrow> bool \<Rightarrow> journal \<Rightarrow> (journal_error + unit) \<times> journal" where
  "mark_transaction_rolled_back t now db_ok j =
    (if \<not> db_ok then (Inl Sqlite_error, j)
     else (Inr (), case dget (transactions j) t of
         None \<Rightarrow> j
       | Some row \<Rightarrow>
           j\<lparr>transactions := dset t (row\<lparr>tx_state := ROLLED_BACK, tx_rolled_back_at := Some now\<rparr>) (transactions j)\<rparr>))"

definition is_stale :: "int \<Rightarrow> int \<Rightarrow> transaction \<Rightarrow> bool" where
  "is_stale now max_age row \<longleftrightarrow> tx_state row = PENDING \<and> tx_created row < now - max_age"

definition sweep_stale_pending :: "int \<Rightarrow> int \<Rightarrow> bool \<Rightarrow> journal \<Rightarrow> (journal_error + nat) \<times> journal" where
  "sweep_stale_pending now max_age db_ok j =
    (if \<not> db_ok then (Inl Transaction_error, j)
     else
       let swept = map fst (filter (\<lambda>(t, row). is_stale now max_age row) (transactions j))
       in (Inr (length swept),
           j\<lparr>transactions := map (\<lambda>(t, row). (t, if is_stale now max_age row
                 then row\<lparr>tx_state := ROLLED_BACK, tx_rolled_back_at := Some now\<rparr> else row)) (transactions j),
             sweep_receipts := sweep_receipts j @ swept\<rparr>))"

subsection \<open>Operations\<close>

text \<open>\<open>json.dumps(metadata) if metadata else None\<close>.\<close>

definition dump_metadata :: "(string \<times> json) list \<Rightarrow> metadata_column" where
  "dump_metadata m = (if m = [] then Meta_none else Meta_json (JObj m))"

definition begin_operation ::
  "string \<Rightarrow> op_type \<Rightarrow> string \<Rightarrow> nat option \<Rightarrow> string option \<Rightarrow> string option \<Rightarrow> (string \<times> json) list
     \<Rightarrow> int \<Rightarrow> bool \<Rightarrow> journal \<Rightarrow> (journal_error + nat) \<times> journal" where
  "begin_operation agent op path transaction_id snap checksum metadata now db_ok j =
    (case (if transaction_id = None \<or> transaction_id = Some 0 then current_transaction j else transaction_id) of
       None \<Rightarrow> (Inl Transaction_error, j)
     | Some t \<Rightarrow>
         if \<not> db_ok \<or> dget (transactions j) t = None then (Inl Transaction_error, j)
         else
           let i = next_entry j;
               row = \<lparr>je_tx = t, je_time = now, je_agent = agent, je_type = op, je_path = path, je_status = STARTED,
                      je_snapshot = snap, je_checksum = checksum, je_metadata = dump_metadata metadata, je_rolled_back = False\<rparr>
           in (Inr i, j\<lparr>journal_entries := dset i row (journal_entries j), next_entry := i + 1\<rparr>))"

definition update_entry :: "nat \<Rightarrow> (journal_entry \<Rightarrow> journal_entry) \<Rightarrow> journal \<Rightarrow> journal" where
  "update_entry i f j =
    (case dget (journal_entries j) i of
       None \<Rightarrow> j | Some row \<Rightarrow> j\<lparr>journal_entries := dset i (f row) (journal_entries j)\<rparr>)"

definition update_status :: "nat \<Rightarrow> op_status \<Rightarrow> bool \<Rightarrow> journal \<Rightarrow> (journal_error + unit) \<times> journal" where
  "update_status i s db_ok j =
    (if \<not> db_ok then (Inl Sqlite_error, j) else (Inr (), update_entry i (\<lambda>row. row\<lparr>je_status := s\<rparr>) j))"

definition complete_operation :: "nat \<Rightarrow> bool \<Rightarrow> journal \<Rightarrow> (journal_error + unit) \<times> journal" where
  "complete_operation i db_ok j = update_status i COMPLETED db_ok j"

definition metadata_previa_fusionable :: "metadata_column \<Rightarrow> (string \<times> json) list" where
  "metadata_previa_fusionable m = (case m of Meta_json (JObj kvs) \<Rightarrow> kvs | _ \<Rightarrow> [])"

definition dict_merge :: "('k, 'v) dict \<Rightarrow> ('k, 'v) dict \<Rightarrow> ('k, 'v) dict" where
  "dict_merge a b = fold (\<lambda>(k, v) d. dset k v d) b a"

text \<open>\<open>fail_operation\<close> composes the evidence, whose key \<open>error\<close> is that of the parameter, and
  writes it with the state in one transaction. The flag \<open>finite\<close> says whether the caller's
  metadata can be serialized; an error there undoes the state too.\<close>

definition fail_evidence :: "string \<Rightarrow> (string \<times> json) list \<Rightarrow> (string \<times> json) list" where
  "fail_evidence error metadata = (if error \<noteq> [] then dset ''error'' (JStr error) metadata else metadata)"

definition escribir_fallo :: "nat \<Rightarrow> (string \<times> json) list \<Rightarrow> journal \<Rightarrow> journal" where
  "escribir_fallo i evidencia j =
    (let j1 = update_entry i (\<lambda>row. row\<lparr>je_status := FAILED\<rparr>) j in
     if evidencia = [] then j1
     else update_entry i (\<lambda>row. row\<lparr>je_metadata :=
            Meta_json (JObj (dict_merge (metadata_previa_fusionable (je_metadata row)) evidencia))\<rparr>) j1)"

definition fail_operation ::
  "nat \<Rightarrow> string \<Rightarrow> (string \<times> json) list \<Rightarrow> bool \<Rightarrow> bool \<Rightarrow> journal \<Rightarrow> (journal_error + unit) \<times> journal" where
  "fail_operation i error metadata finite_meta db_ok j =
    (if \<not> db_ok then (Inl Sqlite_error, j)
     else if \<not> finite_meta \<and> dget (journal_entries j) i \<noteq> None then (Inl Value_error, j)
     else (Inr (), escribir_fallo i (fail_evidence error metadata) j))"

text \<open>\<open>mark_rolled_back\<close> without details, as its callers use it.\<close>

definition mark_rolled_back :: "nat \<Rightarrow> bool \<Rightarrow> journal \<Rightarrow> (journal_error + unit) \<times> journal" where
  "mark_rolled_back i db_ok j =
    (if \<not> db_ok then (Inl Sqlite_error, j)
     else (Inr (), update_entry i (\<lambda>row. row\<lparr>je_status := OP_ROLLED_BACK, je_rolled_back := True\<rparr>) j))"

definition get_operation_by_id :: "nat \<Rightarrow> journal \<Rightarrow> journal_entry option" where
  "get_operation_by_id i j = dget (journal_entries j) i"

subsection \<open>A whole transaction\<close>

text \<open>The context manager \<open>transaction()\<close>: a body that returns is committed, a body that raises
  is rolled back, the errors of the rollback being absorbed.\<close>

datatype 'e body_result = Body_ok | Body_raised 'e

datatype 'e block_result = Block_ok nat | Block_error journal_error | Block_raised 'e

definition transaction_with ::
  "('j \<Rightarrow> (journal_error + nat) \<times> 'j) \<Rightarrow> (nat \<Rightarrow> 'j \<Rightarrow> (journal_error + unit) \<times> 'j)
     \<Rightarrow> (nat \<Rightarrow> 'j \<Rightarrow> (journal_error + unit) \<times> 'j) \<Rightarrow> (nat \<Rightarrow> 'j \<Rightarrow> 'e body_result \<times> 'j) \<Rightarrow> 'j
     \<Rightarrow> 'e block_result \<times> 'j" where
  "transaction_with begin_tx commit_tx rollback_tx body j =
    (case begin_tx j of
       (Inl e, j1) \<Rightarrow> (Block_error e, j1)
     | (Inr t, j1) \<Rightarrow>
         (case body t j1 of
            (Body_raised e, j2) \<Rightarrow> (Block_raised e, snd (rollback_tx t j2))
          | (Body_ok, j2) \<Rightarrow>
              (case commit_tx t j2 of
                 (Inl e, j3) \<Rightarrow> (Block_error e, j3) | (Inr _, j3) \<Rightarrow> (Block_ok t, j3))))"

definition transaction_block ::
  "string \<Rightarrow> int option \<Rightarrow> int \<Rightarrow> bool \<Rightarrow> int \<Rightarrow> bool \<Rightarrow> (nat \<Rightarrow> journal \<Rightarrow> 'e body_result \<times> journal) \<Rightarrow> journal
     \<Rightarrow> 'e block_result \<times> journal" where
  "transaction_block description mod_id now db_ok now_end end_ok body j =
     transaction_with (begin_transaction description mod_id now db_ok)
       (\<lambda>t. commit_transaction t now_end end_ok) (\<lambda>t. rollback_transaction t now_end end_ok) body j"

text \<open>\<open>log_operation\<close>: one operation in a transaction of its own. The flags say which of the four
  steps SQLite accepts, and whether it accepts the marking in the cleanup.\<close>

definition op_type_value :: "op_type \<Rightarrow> string" where
  "op_type_value x = (case x of
     MOD_INSTALL \<Rightarrow> ''mod_install'' | MOD_UNINSTALL \<Rightarrow> ''mod_uninstall'' | MOD_UPDATE \<Rightarrow> ''mod_update''
   | PLUGIN_CLEAN \<Rightarrow> ''plugin_clean'' | FILE_CREATE \<Rightarrow> ''file_create'' | FILE_MODIFY \<Rightarrow> ''file_modify''
   | FILE_DELETE \<Rightarrow> ''file_delete'' | FILE_RENAME \<Rightarrow> ''file_rename'')"

definition op_type_of :: "string \<Rightarrow> op_type" where
  "op_type_of s =
    (case find (\<lambda>x. op_type_value x = s)
        [MOD_INSTALL, MOD_UNINSTALL, MOD_UPDATE, PLUGIN_CLEAN, FILE_CREATE, FILE_MODIFY, FILE_DELETE, FILE_RENAME] of
       Some x \<Rightarrow> x | None \<Rightarrow> FILE_MODIFY)"

definition log_operation ::
  "string \<Rightarrow> string \<Rightarrow> string \<Rightarrow> (string \<times> json) list \<Rightarrow> int \<Rightarrow> bool \<times> bool \<times> bool \<times> bool \<Rightarrow> bool \<Rightarrow> journal
     \<Rightarrow> (journal_error + nat) \<times> journal" where
  "log_operation agent operation_type path details now oks cleanup_ok j =
    (let (ok1, ok2, ok3, ok4) = oks in
     case begin_transaction (''Legacy operation: '' @ operation_type) None now ok1 j of
       (Inl e, j1) \<Rightarrow> (Inl e, j1)
     | (Inr t, j1) \<Rightarrow>
        (let cleanup = (\<lambda>e j'. (Inl e, snd (mark_transaction_rolled_back t now cleanup_ok j')))
         in case begin_operation agent (op_type_of operation_type) path (Some t) None None details now ok2 j1 of
              (Inl e, j2) \<Rightarrow> cleanup e j2
            | (Inr i, j2) \<Rightarrow>
                (case complete_operation i ok3 j2 of
                   (Inl e, j3) \<Rightarrow> cleanup e j3
                 | (Inr _, j3) \<Rightarrow>
                     (case commit_transaction t now ok4 j3 of
                        (Inl e, j4) \<Rightarrow> cleanup e j4
                      | (Inr _, j4) \<Rightarrow> (Inr i, j4)))))"

subsection \<open>Markers read across services\<close>

definition is_flight_report_committed :: "json option \<Rightarrow> bool" where
  "is_flight_report_committed m =
    (case m of
       Some (JObj kvs) \<Rightarrow> dget kvs ''kind'' = Some (JStr ''flight_report'')
          \<and> dget kvs ''transaction_status'' = Some (JStr ''committed'')
     | _ \<Rightarrow> False)"

definition is_teardown_incomplete :: "json option \<Rightarrow> bool" where
  "is_teardown_incomplete m =
    (case m of Some (JObj kvs) \<Rightarrow> dget kvs ''kind'' = Some (JStr ''teardown_incomplete'') | _ \<Rightarrow> False)"

subsection \<open>The life of a transaction\<close>

fun tx_edge :: "tx_status \<Rightarrow> tx_status \<Rightarrow> bool" where
  "tx_edge PENDING COMMITTED = True"
| "tx_edge PENDING ROLLED_BACK = True"
| "tx_edge COMMITTED ROLLED_BACK = True"
| "tx_edge _ _ = False"

definition tx_rank :: "tx_status \<Rightarrow> nat" where
  "tx_rank s = (case s of PENDING \<Rightarrow> 2 | COMMITTED \<Rightarrow> 1 | ROLLED_BACK \<Rightarrow> 0)"

interpretation tx_fsm: closed_fsm tx_edge tx_rank
proof
  show "tx_edge s t \<Longrightarrow> tx_rank t < tx_rank s" for s t
    by (cases s; cases t) (simp_all add: tx_rank_def)
qed

datatype journal_op =
  J_begin string "int option" int bool
| J_commit nat int bool
| J_rollback nat int bool
| J_mark nat int bool
| J_sweep int int bool
| J_begin_op string op_type string "nat option" "string option" "string option" "(string \<times> json) list" int bool
| J_complete nat bool
| J_fail nat string "(string \<times> json) list" bool bool
| J_mark_op nat bool

fun journal_step :: "journal_op \<Rightarrow> journal \<Rightarrow> journal" where
  "journal_step (J_begin d m now ok) j = snd (begin_transaction d m now ok j)"
| "journal_step (J_commit t now ok) j = snd (commit_transaction t now ok j)"
| "journal_step (J_rollback t now ok) j = snd (rollback_transaction t now ok j)"
| "journal_step (J_mark t now ok) j = snd (mark_transaction_rolled_back t now ok j)"
| "journal_step (J_sweep now age ok) j = snd (sweep_stale_pending now age ok j)"
| "journal_step (J_begin_op a op p t s c m now ok) j = snd (begin_operation a op p t s c m now ok j)"
| "journal_step (J_complete i ok) j = snd (complete_operation i ok j)"
| "journal_step (J_fail i e m fin ok) j = snd (fail_operation i e m fin ok j)"
| "journal_step (J_mark_op i ok) j = snd (mark_rolled_back i ok j)"

definition run_journal :: "journal_op list \<Rightarrow> journal \<Rightarrow> journal" where
  "run_journal ops j = fold journal_step ops j"

definition journal_ok :: "journal \<Rightarrow> bool" where
  "journal_ok j \<longleftrightarrow> dict_wf (transactions j) \<and> (\<forall>t. dget (transactions j) t \<noteq> None \<longrightarrow> t < next_tx j)"

lemma journal_ok_init [simp]: "journal_ok journal_init"
  by (simp add: journal_ok_def journal_init_def)

lemma tx_frame [simp]:
  "transactions (forget_current t j) = transactions j" "next_tx (forget_current t j) = next_tx j"
  "transactions (update_entry i f j) = transactions j" "next_tx (update_entry i f j) = next_tx j"
  by (simp_all add: forget_current_def update_entry_def split: option.split)

lemma dkeys_dset [simp]: "dkeys (dset k v d) = insert k (dkeys d)"
  by (induction d) auto

lemma dkeys_iff_dget: "k \<in> dkeys d \<longleftrightarrow> dget d k \<noteq> None"
  by (metis map_of_eq_None_iff)

lemma dget_map_values: "dget (map (\<lambda>(t, row). (t, f row)) d) k = map_option f (dget d k)"
  by (induction d) auto

lemma map_fst_map_values: "map fst (map (\<lambda>(t, row). (t, f row)) d) = map fst d"
  by (induction d) auto

lemma dict_wf_map_values: "dict_wf (map (\<lambda>(t, row). (t, f row)) d) = dict_wf d"
  by (simp only: dict_wf_def map_fst_map_values)

lemma dkeys_map_values: "dkeys (map (\<lambda>(t, row). (t, f row)) d) = dkeys d"
  by (metis list.set_map map_fst_map_values)

lemma journal_step_ok: "journal_ok j \<Longrightarrow> journal_ok (journal_step op j)"
proof (induction op)
  case (J_sweep now age ok)
  then show ?case
    by (simp add: sweep_stale_pending_def Let_def journal_ok_def dict_wf_map_values dget_map_values)
next
  case (J_begin d m now ok)
  then show ?case
    by (auto simp: journal_ok_def begin_transaction_def Let_def dget_dset less_Suc_eq)
qed (simp_all add: journal_ok_def begin_transaction_def commit_transaction_def rollback_transaction_def
      mark_transaction_rolled_back_def begin_operation_def complete_operation_def update_status_def fail_operation_def
      escribir_fallo_def mark_rolled_back_def Let_def dget_dset split: option.split)

text \<open>One step either leaves the state of a transaction, creates it pending under a new
  identifier, or moves it along an edge of the table.\<close>

lemma journal_step_status:
  assumes "journal_ok j"
  shows "tx_status_of (journal_step op j) t = tx_status_of j t
    \<or> (tx_status_of j t = None \<and> tx_status_of (journal_step op j) t = Some PENDING)
    \<or> (\<exists>s s'. tx_status_of j t = Some s \<and> tx_status_of (journal_step op j) t = Some s'
          \<and> tx_edge s s' \<and> (s = COMMITTED \<longrightarrow> (\<exists>now. op = J_mark t now True)))"
proof (cases op)
  case (J_begin d m now ok)
  have "dget (transactions j) (next_tx j) = None"
    using assms by (auto simp: journal_ok_def)
  with J_begin show ?thesis by (auto simp: tx_status_of_def begin_transaction_def Let_def)
next
  case (J_sweep now age ok)
  then show ?thesis
    by (cases "dget (transactions j) t")
       (auto simp: tx_status_of_def sweep_stale_pending_def Let_def dget_map_values is_stale_def)
next
  case (J_mark t' now ok)
  then show ?thesis
    by (cases "dget (transactions j) t"; cases "tx_state (the (dget (transactions j) t))")
       (auto simp: tx_status_of_def mark_transaction_rolled_back_def split: option.splits)
qed (auto simp: tx_status_of_def commit_transaction_def rollback_transaction_def begin_operation_def
      complete_operation_def update_status_def fail_operation_def escribir_fallo_def mark_rolled_back_def Let_def
      split: option.splits if_splits)

lemma run_journal_path:
  assumes "journal_ok j" and "tx_status_of j t = Some s"
  shows "\<exists>ss. fsm_path tx_edge s ss \<and> tx_status_of (run_journal ops j) t = Some (last (s # ss))
    \<and> (COMMITTED \<in> set (butlast (s # ss)) \<longrightarrow> (\<exists>now. J_mark t now True \<in> set ops))"
  using assms
proof (induction ops arbitrary: j s)
  case Nil
  then show ?case by (intro exI [of _ "[]"]) (simp add: run_journal_def)
next
  case (Cons op ops)
  have ok: "journal_ok (journal_step op j)" using Cons.prems(1) by (rule journal_step_ok)
  have run: "run_journal (op # ops) j = run_journal ops (journal_step op j)" by (simp add: run_journal_def)
  from journal_step_status [OF Cons.prems(1), of op t] Cons.prems(2)
  consider (same) "tx_status_of (journal_step op j) t = Some s"
    | (moved) s' where "tx_status_of (journal_step op j) t = Some s'" "tx_edge s s'"
        "s = COMMITTED \<longrightarrow> (\<exists>now. op = J_mark t now True)" by auto
  then show ?case
  proof cases
    case same
    from Cons.IH [OF ok same] obtain ss where ss: "fsm_path tx_edge s ss"
      "tx_status_of (run_journal ops (journal_step op j)) t = Some (last (s # ss))"
      "COMMITTED \<in> set (butlast (s # ss)) \<longrightarrow> (\<exists>now. J_mark t now True \<in> set ops)" by blast
    have "COMMITTED \<in> set (butlast (s # ss)) \<longrightarrow> (\<exists>now. J_mark t now True \<in> set (op # ops))"
      using ss(3) by (meson list.set_intros(2))
    with ss(1,2) show ?thesis unfolding run by blast
  next
    case (moved s')
    from Cons.IH [OF ok moved(1)] obtain ss where ss: "fsm_path tx_edge s' ss"
      "tx_status_of (run_journal ops (journal_step op j)) t = Some (last (s' # ss))"
      "COMMITTED \<in> set (butlast (s' # ss)) \<longrightarrow> (\<exists>now. J_mark t now True \<in> set ops)" by blast
    have "\<exists>now. J_mark t now True \<in> set (op # ops)" if "COMMITTED \<in> set (butlast (s # s' # ss))"
    proof (cases "s = COMMITTED")
      case True
      with moved(3) show ?thesis by auto
    next
      case False
      with that ss(3) show ?thesis by auto
    qed
    with moved(2) ss(1,2) show ?thesis unfolding run by (intro exI [of _ "s' # ss"]) simp
  qed
qed

text \<open>A transaction moves only forward. Whatever the sequence of calls, its state changes at
  most twice, never returns to one it left, \<open>ROLLED_BACK\<close> is final, and a committed transaction
  is only ever revoked by \<open>mark_transaction_rolled_back\<close> on that very transaction.\<close>

theorem journal_transaction_life:
  assumes "journal_ok j" and "tx_status_of j t = Some s"
  shows "\<exists>ss. fsm_path tx_edge s ss \<and> tx_status_of (run_journal ops j) t = Some (last (s # ss))
    \<and> distinct (s # ss) \<and> length ss \<le> 2
    \<and> (s = ROLLED_BACK \<longrightarrow> tx_status_of (run_journal ops j) t = Some ROLLED_BACK)
    \<and> (s = COMMITTED \<and> (\<forall>now. J_mark t now True \<notin> set ops) \<longrightarrow> tx_status_of (run_journal ops j) t = Some COMMITTED)"
proof -
  from run_journal_path [OF assms, of ops] obtain ss where ss: "fsm_path tx_edge s ss"
    "tx_status_of (run_journal ops j) t = Some (last (s # ss))"
    "COMMITTED \<in> set (butlast (s # ss)) \<longrightarrow> (\<exists>now. J_mark t now True \<in> set ops)" by blast
  have "length ss \<le> 2" using tx_fsm.path_length [OF ss(1)] by (cases s) (simp_all add: tx_rank_def)
  moreover have "s = ROLLED_BACK \<Longrightarrow> ss = []"
    using tx_fsm.terminal_absorbing [of s ss] ss(1) by (simp add: tx_rank_def)
  moreover have "s = COMMITTED \<Longrightarrow> \<forall>now. J_mark t now True \<notin> set ops \<Longrightarrow> ss = []"
    using ss(3) by (cases ss) auto
  ultimately show ?thesis using ss(1,2) tx_fsm.path_distinct [OF ss(1)] by auto
qed

theorem journal_transaction_life_witness:
  "tx_status_of (run_journal [J_commit 1 5 True, J_rollback 1 6 True, J_sweep 9 0 True]
      (run_journal [J_begin ''d'' None 0 True] journal_init)) 1 = Some COMMITTED"
proof -
  let ?j = "run_journal [J_begin ''d'' None 0 True, J_commit 1 5 True] journal_init"
  have ok: "journal_ok ?j" unfolding run_journal_def by (simp only: fold.simps o_apply id_apply journal_step_ok journal_ok_init)
  have s: "tx_status_of ?j 1 = Some COMMITTED"
    by (simp add: run_journal_def journal_init_def begin_transaction_def commit_transaction_def tx_status_of_def forget_current_def)
  from journal_transaction_life [OF ok s, of "[J_rollback 1 6 True, J_sweep 9 0 True]"]
  have "tx_status_of (run_journal [J_rollback 1 6 True, J_sweep 9 0 True] ?j) 1 = Some COMMITTED" by auto
  then show ?thesis by (simp add: run_journal_def)
qed

subsection \<open>Blocks\<close>

text \<open>What the context manager relies on: the contract that the journal and its deferred double
  both offer. \<open>status\<close> is what the provider promises of a transaction.\<close>

locale tx_journal =
  fixes begin_tx :: "'j \<Rightarrow> (journal_error + nat) \<times> 'j"
    and commit_tx :: "nat \<Rightarrow> 'j \<Rightarrow> (journal_error + unit) \<times> 'j"
    and rollback_tx :: "nat \<Rightarrow> 'j \<Rightarrow> (journal_error + unit) \<times> 'j"
    and status :: "'j \<Rightarrow> nat \<Rightarrow> tx_status option"
    and end_ok :: bool
  assumes begin_pending: "begin_tx j = (Inr t, j') \<Longrightarrow> status j' t = Some PENDING"
    and commit_law: "status j t = Some PENDING \<Longrightarrow> commit_tx t j = (r, j') \<Longrightarrow>
        (r = Inr () \<and> status j' t = Some COMMITTED) \<or> (\<exists>e. r = Inl e \<and> status j' t = Some PENDING \<and> \<not> end_ok)"
    and rollback_law: "status j t = Some PENDING \<Longrightarrow> rollback_tx t j = (r, j') \<Longrightarrow>
        (r = Inr () \<and> status j' t = Some ROLLED_BACK) \<or> (\<exists>e. r = Inl e \<and> status j' t = Some PENDING \<and> \<not> end_ok)"
begin

lemma block_settles:
  assumes body: "\<And>t j. status j t = Some PENDING \<Longrightarrow> status (snd (body t j)) t = Some PENDING"
    and run: "transaction_with begin_tx commit_tx rollback_tx body j = (r, j')"
  shows "case r of
      Block_ok t \<Rightarrow> fst (begin_tx j) = Inr t \<and> status j' t = Some COMMITTED
    | Block_raised e \<Rightarrow> (\<exists>t. fst (begin_tx j) = Inr t \<and> (status j' t = Some ROLLED_BACK \<or> \<not> end_ok \<and> status j' t = Some PENDING))
    | Block_error e \<Rightarrow> begin_tx j = (Inl e, j') \<or> \<not> end_ok"
proof (cases "begin_tx j")
  case (Pair rb j1)
  show ?thesis
  proof (cases rb)
    case (Inl e)
    with run Pair show ?thesis by (auto simp: transaction_with_def)
  next
    case (Inr t)
    obtain b j2 where b: "body t j1 = (b, j2)" by force
    have pending: "status j2 t = Some PENDING"
      using body [of j1 t] begin_pending [of j t j1] Pair Inr b by simp
    obtain rr jr where rr: "rollback_tx t j2 = (rr, jr)" by force
    obtain rc jc where rc: "commit_tx t j2 = (rc, jc)" by force
    from commit_law [OF pending rc] rollback_law [OF pending rr] run Pair Inr b rr rc
    show ?thesis by (cases b) (auto simp: transaction_with_def)
  qed
qed

end

interpretation real_tx: tx_journal "begin_transaction d m now ok"
    "\<lambda>t. commit_transaction t now_end end_ok" "\<lambda>t. rollback_transaction t now_end end_ok" tx_status_of end_ok
  for d m now ok now_end end_ok
  by unfold_locales
     (auto simp: begin_transaction_def commit_transaction_def rollback_transaction_def tx_status_of_def Let_def
        split: if_splits option.splits)

lemma sweep_dget:
  "dget (transactions (snd (sweep_stale_pending now age True j))) t =
    map_option (\<lambda>row. if is_stale now age row then row\<lparr>tx_state := ROLLED_BACK, tx_rolled_back_at := Some now\<rparr> else row)
      (dget (transactions j) t)"
  by (simp add: sweep_stale_pending_def Let_def dget_map_values)

lemma sweep_status:
  "tx_status_of j t = Some PENDING \<Longrightarrow> tx_created (the (dget (transactions j) t)) < now - age \<Longrightarrow>
    tx_status_of (snd (sweep_stale_pending now age True j)) t = Some ROLLED_BACK"
  by (cases "dget (transactions j) t") (simp_all add: tx_status_of_def sweep_dget is_stale_def)

text \<open>A transaction opened by \<open>transaction()\<close> is settled when the block ends: committed when
  the body returned, rolled back when it raised, whatever the body did to the rest of the journal.
  Only if SQLite refuses the last write can it stay pending, and then the next sweep whose
  threshold it has passed settles it.\<close>

theorem transaction_block_settles:
  assumes "\<And>t j. tx_status_of j t = Some PENDING \<Longrightarrow> tx_status_of (snd (body t j)) t = Some PENDING"
    and "transaction_block d m now ok now_end end_ok body j = (r, j')"
  shows "case r of
      Block_ok t \<Rightarrow> tx_status_of j' t = Some COMMITTED
    | Block_error e \<Rightarrow> \<not> ok \<and> j' = j \<or> \<not> end_ok
    | Block_raised e \<Rightarrow> (\<exists>t. fst (begin_transaction d m now ok j) = Inr t \<and>
        (tx_status_of j' t = Some ROLLED_BACK \<or> \<not> end_ok \<and> tx_status_of j' t = Some PENDING
          \<and> (\<forall>now' age. tx_created (the (dget (transactions j') t)) < now' - age \<longrightarrow>
                tx_status_of (snd (sweep_stale_pending now' age True j')) t = Some ROLLED_BACK)))"
proof -
  have begun: "fst (begin_transaction d m now ok j) = Inl e \<Longrightarrow> \<not> ok \<and> snd (begin_transaction d m now ok j) = j" for e
    by (simp add: begin_transaction_def Let_def split: if_splits)
  from real_tx.block_settles [OF assms(1) assms(2) [unfolded transaction_block_def]] show ?thesis
    by (cases r) (auto dest!: begun intro: sweep_status simp: begin_transaction_def Let_def split: if_splits)
qed

theorem transaction_block_settles_witness:
  "tx_status_of (snd (transaction_block ''d'' None 0 True 3 True (\<lambda>t j. (Body_raised (), snd (complete_operation 1 True j))) journal_init)) 1
     = Some ROLLED_BACK"
proof -
  let ?body = "\<lambda>(t :: nat) j. (Body_raised (), snd (complete_operation 1 True j)) :: unit body_result \<times> journal"
  obtain r j' where run: "transaction_block ''d'' None 0 True 3 True ?body journal_init = (r, j')" by force
  have r: "r = Block_raised ()"
    using run by (auto simp: transaction_block_def transaction_with_def begin_transaction_def Let_def)
  have "tx_status_of j t = Some PENDING \<Longrightarrow> tx_status_of (snd (?body t j)) t = Some PENDING" for t j
    by (simp add: tx_status_of_def complete_operation_def update_status_def)
  from transaction_block_settles [OF this run] r
  have "tx_status_of j' 1 = Some ROLLED_BACK" by (simp add: begin_transaction_def journal_init_def Let_def)
  then show ?thesis by (simp only: run snd_conv)
qed

subsection \<open>Evidence\<close>

lemma dget_dict_merge:
  "dict_wf b \<Longrightarrow> dget (dict_merge a b) k = (case dget b k of Some v \<Rightarrow> Some v | None \<Rightarrow> dget a k)"
  unfolding dict_merge_def
proof (induction b arbitrary: a)
  case (Cons kv b)
  obtain x v where kv: "kv = (x, v)" by force
  with Cons.prems have "dict_wf b" and x: "dget b x = None" by (auto simp: map_of_eq_None_iff)
  with Cons.IH [of "dset x v a"] kv show ?case by (auto split: option.split)
qed simp

lemma dget_update_entry:
  "dget (journal_entries (update_entry i f j)) k = (if k = i then map_option f (dget (journal_entries j) i) else dget (journal_entries j) k)"
  by (simp add: update_entry_def split: option.split)

lemma fail_outcome:
  assumes "dget (journal_entries j) i = Some row" and "dict_wf metadata"
    and "fail_operation i error metadata finite_meta db_ok j = (r, j')"
  shows "r \<noteq> Inr () \<Longrightarrow> j' = j \<and> \<not> (db_ok \<and> finite_meta)"
    and "r = Inr () \<Longrightarrow> db_ok \<and> finite_meta \<and> transactions j' = transactions j
      \<and> (\<forall>k. k \<noteq> i \<longrightarrow> dget (journal_entries j') k = dget (journal_entries j) k)
      \<and> (\<exists>row'. dget (journal_entries j') i = Some row' \<and> je_status row' = FAILED
          \<and> (if error = [] \<and> metadata = [] then je_metadata row' = je_metadata row
             else \<exists>kvs. je_metadata row' = Meta_json (JObj kvs)
               \<and> (\<forall>k. dget kvs k = (if k = ''error'' \<and> error \<noteq> [] then Some (JStr error)
                    else case dget metadata k of Some v \<Rightarrow> Some v
                      | None \<Rightarrow> dget (metadata_previa_fusionable (je_metadata row)) k))))"
proof -
  show "r \<noteq> Inr () \<Longrightarrow> j' = j \<and> \<not> (db_ok \<and> finite_meta)"
    using assms(3) by (auto simp: fail_operation_def split: if_splits)
  assume "r = Inr ()"
  then have ok: "db_ok" "finite_meta" and j': "j' = escribir_fallo i (fail_evidence error metadata) j"
    using assms(1,3) by (auto simp: fail_operation_def split: if_splits)
  have ev: "fail_evidence error metadata = [] \<longleftrightarrow> error = [] \<and> metadata = []"
    by (cases metadata) (auto simp: fail_evidence_def)
  have wf: "dict_wf (fail_evidence error metadata)" using assms(2) by (simp add: fail_evidence_def)
  have frame: "transactions j' = transactions j" "k \<noteq> i \<Longrightarrow> dget (journal_entries j') k = dget (journal_entries j) k" for k
    by (simp_all add: j' escribir_fallo_def Let_def dget_update_entry)
  have merged: "dget (dict_merge a (fail_evidence error metadata)) k =
      (if k = ''error'' \<and> error \<noteq> [] then Some (JStr error)
       else case dget metadata k of Some v \<Rightarrow> Some v | None \<Rightarrow> dget a k)" for a k
    by (simp add: dget_dict_merge [OF wf]) (simp add: fail_evidence_def)
  show "db_ok \<and> finite_meta \<and> transactions j' = transactions j
      \<and> (\<forall>k. k \<noteq> i \<longrightarrow> dget (journal_entries j') k = dget (journal_entries j) k)
      \<and> (\<exists>row'. dget (journal_entries j') i = Some row' \<and> je_status row' = FAILED
          \<and> (if error = [] \<and> metadata = [] then je_metadata row' = je_metadata row
             else \<exists>kvs. je_metadata row' = Meta_json (JObj kvs)
               \<and> (\<forall>k. dget kvs k = (if k = ''error'' \<and> error \<noteq> [] then Some (JStr error)
                    else case dget metadata k of Some v \<Rightarrow> Some v
                      | None \<Rightarrow> dget (metadata_previa_fusionable (je_metadata row)) k))))"
  proof (cases "error = [] \<and> metadata = []")
    case True
    with ev have "fail_evidence error metadata = []" by simp
    with True ok frame assms(1) show ?thesis
      by (simp add: j' escribir_fallo_def dget_update_entry)
  next
    case False
    with ev have "fail_evidence error metadata \<noteq> []" by simp
    with ok frame assms(1) show ?thesis
      by (simp add: if_not_P [OF False] j' escribir_fallo_def dget_update_entry merged)
  qed
qed

definition demo_row :: journal_entry where
  "demo_row = \<lparr>je_tx = 1, je_time = 0, je_agent = ''a'', je_type = FILE_MODIFY, je_path = ''p'', je_status = COMPLETED,
     je_snapshot = Some ''s'', je_checksum = None, je_metadata = Meta_json (JObj [(''k'', JNull), (''error'', JNull)]), je_rolled_back = False\<rparr>"

definition demo_journal :: journal where
  "demo_journal = journal_init\<lparr>journal_entries := [(1, demo_row)], next_entry := 2\<rparr>"

text \<open>\<open>fail_operation\<close> keeps the evidence. The state and the evidence are written together
  or not at all; every key written before survives unless the failure names it again; the key
  \<open>error\<close> is the one of the parameter, even against the caller's own metadata; and no other entry,
  and no transaction, is touched.\<close>

theorem fail_keeps_evidence:
  assumes "dget (journal_entries j) i = Some row" and "dict_wf metadata"
    and "fail_operation i error metadata finite_meta db_ok j = (r, j')"
  shows "if r = Inr () then db_ok \<and> finite_meta \<and> transactions j' = transactions j
      \<and> (\<forall>k. k \<noteq> i \<longrightarrow> dget (journal_entries j') k = dget (journal_entries j) k)
      \<and> (\<exists>row'. dget (journal_entries j') i = Some row' \<and> je_status row' = FAILED
          \<and> (if error = [] \<and> metadata = [] then je_metadata row' = je_metadata row
             else \<exists>kvs. je_metadata row' = Meta_json (JObj kvs)
               \<and> (\<forall>k. dget kvs k = (if k = ''error'' \<and> error \<noteq> [] then Some (JStr error)
                    else case dget metadata k of Some v \<Rightarrow> Some v
                      | None \<Rightarrow> dget (metadata_previa_fusionable (je_metadata row)) k))))
    else j' = j \<and> \<not> (db_ok \<and> finite_meta)"
  using fail_outcome [OF assms] by (simp only: if_bool_eq_conj) blast

theorem fail_keeps_evidence_witness:
  "\<exists>row' kvs. dget (journal_entries (snd (fail_operation 1 ''e'' [(''error'', JBool True)] True True demo_journal))) 1 = Some row'
    \<and> je_metadata row' = Meta_json (JObj kvs) \<and> dget kvs ''k'' = Some JNull \<and> dget kvs ''error'' = Some (JStr ''e'')"
proof -
  let ?m = "[(''error'', JBool True)]"
  have row: "dget (journal_entries demo_journal) 1 = Some demo_row" by (simp add: demo_journal_def)
  obtain r j' where run: "fail_operation 1 ''e'' ?m True True demo_journal = (r, j')" by force
  have "r = Inr ()" using run by (simp add: fail_operation_def)
  from fail_keeps_evidence [OF row _ run] this obtain row' kvs
    where "dget (journal_entries j') 1 = Some row'" "je_metadata row' = Meta_json (JObj kvs)"
      "\<forall>k. dget kvs k = (if k = ''error'' then Some (JStr ''e'') else case dget ?m k of Some v \<Rightarrow> Some v
          | None \<Rightarrow> dget (metadata_previa_fusionable (je_metadata demo_row)) k)" by auto
  then show ?thesis unfolding run by (simp add: demo_row_def metadata_previa_fusionable_def)
qed

lemma begin_operation_refused:
  "begin_operation ag op path tx snap cs md n False j = (Inl Transaction_error, j)"
  by (simp add: begin_operation_def split: option.split)

lemma log_operation_refused:
  "log_operation ag ot p d n (True, False, ok3, ok4) True j =
    (Inl Transaction_error, snd (mark_transaction_rolled_back (next_tx j) n True
      (snd (begin_transaction (''Legacy operation: '' @ ot) None n True j))))"
  by (simp add: log_operation_def begin_operation_refused begin_transaction_def Let_def)

lemma current_outcome:
  assumes "current_transaction (run_journal ops journal_init) = Some t"
  shows "tx_status_of (run_journal ops journal_init) t = Some PENDING
      \<or> (\<exists>now. J_mark t now True \<in> set ops) \<or> (\<exists>now age. J_sweep now age True \<in> set ops)"
    and "\<And>j r j' ot p d n ag. log_operation ag ot p d n (True, False, ok3, ok4) True j = (r, j') \<Longrightarrow>
      r = Inl Transaction_error \<and> (\<exists>u. current_transaction j' = Some u \<and> tx_status_of j' u = Some ROLLED_BACK
        \<and> (\<exists>i j2 row. begin_operation ag op path None snap cs md n True j' = (Inr i, j2)
              \<and> dget (journal_entries j2) i = Some row \<and> je_tx row = u))"
proof -
  have "current_transaction (fold journal_step ops j) = Some t \<longrightarrow> tx_status_of (fold journal_step ops j) t = Some PENDING"
    if "current_transaction j = Some t \<longrightarrow> tx_status_of j t = Some PENDING"
      "\<forall>now. J_mark t now True \<notin> set ops" "\<forall>now age. J_sweep now age True \<notin> set ops" for j
    using that
  proof (induction ops arbitrary: j)
    case (Cons op ops)
    have "op \<noteq> J_mark t now True" "op \<noteq> J_sweep now age True" for now age using Cons.prems(2,3) by auto
    then have "current_transaction (journal_step op j) = Some t \<longrightarrow> tx_status_of (journal_step op j) t = Some PENDING"
      using Cons.prems(1)
      by (cases op)
         (auto simp: tx_status_of_def begin_transaction_def commit_transaction_def rollback_transaction_def
            mark_transaction_rolled_back_def begin_operation_def complete_operation_def update_status_def fail_operation_def
            escribir_fallo_def mark_rolled_back_def sweep_stale_pending_def forget_current_def update_entry_def Let_def
            split: option.splits if_splits)
    then have "current_transaction (fold journal_step ops (journal_step op j)) = Some t \<longrightarrow>
        tx_status_of (fold journal_step ops (journal_step op j)) t = Some PENDING"
      using Cons.prems(2,3) by (intro Cons.IH) auto
    then show ?case by simp
  qed simp
  from this [of journal_init] assms show "tx_status_of (run_journal ops journal_init) t = Some PENDING
      \<or> (\<exists>now. J_mark t now True \<in> set ops) \<or> (\<exists>now age. J_sweep now age True \<in> set ops)"
    unfolding run_journal_def by (fastforce simp: journal_init_def)
  fix j r j' ot p d n ag
  assume "log_operation ag ot p d n (True, False, ok3, ok4) True j = (r, j')"
  then have r: "r = Inl Transaction_error" and j': "j' = snd (mark_transaction_rolled_back (next_tx j) n True
      (snd (begin_transaction (''Legacy operation: '' @ ot) None n True j)))"
    by (simp_all add: log_operation_refused)
  have cur: "current_transaction j' = Some (next_tx j)" "tx_status_of j' (next_tx j) = Some ROLLED_BACK"
    by (simp_all add: j' begin_transaction_def mark_transaction_rolled_back_def tx_status_of_def Let_def)
  then have "dget (transactions j') (next_tx j) \<noteq> None" by (auto simp: tx_status_of_def)
  with cur(1) have "\<exists>i j2 row. begin_operation ag op path None snap cs md n True j' = (Inr i, j2)
      \<and> dget (journal_entries j2) i = Some row \<and> je_tx row = next_tx j"
    by (simp add: begin_operation_def Let_def)
  with r cur show "r = Inl Transaction_error \<and> (\<exists>u. current_transaction j' = Some u \<and> tx_status_of j' u = Some ROLLED_BACK
        \<and> (\<exists>i j2 row. begin_operation ag op path None snap cs md n True j' = (Inr i, j2)
              \<and> dget (journal_entries j2) i = Some row \<and> je_tx row = u))" by blast
qed

text \<open>An operation logged without a transaction goes to the current one. That one is pending
  as long as no transaction was marked or swept; but a \<open>log_operation\<close> that fails after opening its
  transaction leaves it current although its cleanup has rolled it back, and the next operation
  logged without a transaction is accepted into it.\<close>

theorem unnumbered_operation_target:
  assumes "current_transaction (run_journal ops journal_init) = Some t"
    and "log_operation ag ot p d n (True, False, ok3, ok4) True j = (r, j')"
  shows "(tx_status_of (run_journal ops journal_init) t = Some PENDING
      \<or> (\<exists>now. J_mark t now True \<in> set ops) \<or> (\<exists>now age. J_sweep now age True \<in> set ops))
    \<and> r = Inl Transaction_error
    \<and> (\<exists>u. current_transaction j' = Some u \<and> tx_status_of j' u = Some ROLLED_BACK
        \<and> (\<exists>i j2 row. begin_operation ag op path None snap cs md n True j' = (Inr i, j2)
              \<and> dget (journal_entries j2) i = Some row \<and> je_tx row = u))"
  using current_outcome(1) [OF assms(1)] current_outcome(2) [OF assms] by blast

theorem unnumbered_operation_target_witness:
  "\<exists>i j2 row. begin_operation ''a'' FILE_MODIFY ''q'' None None None [] 5 True
      (snd (log_operation ''a'' ''mod_install'' ''p'' [] 5 (True, False, True, True) True journal_init)) = (Inr i, j2)
    \<and> dget (journal_entries j2) i = Some row \<and> tx_status_of (snd (log_operation ''a'' ''mod_install'' ''p'' []
      5 (True, False, True, True) True journal_init)) (je_tx row) = Some ROLLED_BACK"
proof -
  have cur: "current_transaction (run_journal [J_begin ''d'' None 0 True] journal_init) = Some 1"
    by (simp add: run_journal_def begin_transaction_def journal_init_def Let_def)
  obtain r j' where run: "log_operation ''a'' ''mod_install'' ''p'' [] 5 (True, False, True, True) True journal_init = (r, j')"
    by force
  from unnumbered_operation_target [OF cur run, of FILE_MODIFY "''q''" None None "[]"]
  show ?thesis unfolding run snd_conv by blast
qed

end
