(* ===== verification/Staging_Journal.thy ===== *)
theory Staging_Journal
  imports Journal
begin

text \<open>
  The journal of the sandbox, \<open>StagingJournal\<close> of \<open>sky_claw/app/db/journal.py\<close>: a double that
  holds back the commit of the transaction opened through it until the ritual that runs in the
  sandbox is promoted, and the decision itself, in
  \<open>sky_claw/app/orchestrator/tool_strategies/execute_synthesis.py\<close>. The double offers the same
  contract as the journal: it interprets \<open>tx_journal\<close>.
\<close>

subsection \<open>The deferred journal of the sandbox\<close>

record staging =
  real_journal :: journal
  staged_tx :: "nat option"
  staged_commit :: bool

definition staging_begin ::
  "string \<Rightarrow> int option \<Rightarrow> int \<Rightarrow> bool \<Rightarrow> staging \<Rightarrow> (journal_error + nat) \<times> staging" where
  "staging_begin description mod_id now db_ok s =
    (case begin_transaction description mod_id now db_ok (real_journal s) of
       (Inl e, j) \<Rightarrow> (Inl e, s\<lparr>real_journal := j\<rparr>)
     | (Inr t, j) \<Rightarrow> (Inr t, s\<lparr>real_journal := j, staged_tx := Some t, staged_commit := False\<rparr>))"

definition staging_commit :: "nat \<Rightarrow> int \<Rightarrow> bool \<Rightarrow> staging \<Rightarrow> (journal_error + unit) \<times> staging" where
  "staging_commit t now db_ok s =
    (if Some t = staged_tx s then (Inr (), s\<lparr>staged_commit := True\<rparr>)
     else (case commit_transaction t now db_ok (real_journal s) of (r, j) \<Rightarrow> (r, s\<lparr>real_journal := j\<rparr>)))"

definition staging_rollback :: "nat \<Rightarrow> int \<Rightarrow> bool \<Rightarrow> staging \<Rightarrow> (journal_error + unit) \<times> staging" where
  "staging_rollback t now db_ok s =
    (case rollback_transaction t now db_ok (real_journal s) of (r, j) \<Rightarrow> (r, s\<lparr>real_journal := j\<rparr>))"




text \<open>The double promises \<open>COMMITTED\<close> for the transaction whose commit it holds back.\<close>

definition promised_status :: "staging \<Rightarrow> nat \<Rightarrow> tx_status option" where
  "promised_status s t =
    (let real = tx_status_of (real_journal s) t in
     if staged_tx s = Some t \<and> staged_commit s \<and> real = Some PENDING then Some COMMITTED else real)"

interpretation staging_tx: tx_journal "staging_begin d m now ok"
    "\<lambda>t. staging_commit t now_end end_ok" "\<lambda>t. staging_rollback t now_end end_ok" promised_status end_ok
  for d m now ok now_end end_ok
proof
  show "promised_status s' t = Some PENDING" if "staging_begin d m now ok s = (Inr t, s')" for s s' t
    using that real_tx.begin_pending [of d m now ok "real_journal s" t "real_journal s'"]
    by (auto simp: staging_begin_def promised_status_def Let_def split: prod.splits sum.splits)
  show "(r = Inr () \<and> promised_status s' t = Some COMMITTED)
      \<or> (\<exists>e. r = Inl e \<and> promised_status s' t = Some PENDING \<and> \<not> end_ok)"
    if "promised_status s t = Some PENDING" "staging_commit t now_end end_ok s = (r, s')" for s s' t r
    using that real_tx.commit_law [of "real_journal s" t now_end end_ok r "real_journal s'"]
    by (auto simp: staging_commit_def promised_status_def Let_def split: prod.splits if_splits)
  show "(r = Inr () \<and> promised_status s' t = Some ROLLED_BACK)
      \<or> (\<exists>e. r = Inl e \<and> promised_status s' t = Some PENDING \<and> \<not> end_ok)"
    if "promised_status s t = Some PENDING" "staging_rollback t now_end end_ok s = (r, s')" for s s' t r
    using that real_tx.rollback_law [of "real_journal s" t now_end end_ok r "real_journal s'"]
    by (auto simp: staging_rollback_def promised_status_def Let_def split: prod.splits if_splits)
qed

subsection \<open>The sandbox\<close>














end
