(* ===== verification/Undo.thy ===== *)
theory Undo
  imports Journal
begin

text \<open>
  The undo of journal operations, \<open>RollbackManager\<close> of \<open>sky_claw/app/db/rollback_manager.py\<close>:
  by identifier and by agent, restoring the snapshot of the operation.
\<close>

subsection \<open>Undoing an operation\<close>







subsection \<open>Undo\<close>






lemma journal_entries_wf_update: "dict_wf (journal_entries j) \<Longrightarrow> dict_wf (journal_entries (update_entry i f j))"
  by (simp add: update_entry_def split: option.split)








end
