(* ===== verification/Json_Parse.thy ===== *)
theory Json_Parse
  imports Json_Text Utf8_Text
begin

text \<open>
  The reader \<open>json.loads\<close> that Python's \<open>json\<close> module applies to the lines of a journal, with the
  hook that rejects duplicate keys, and its round trip with the writer of \<open>Json_Text\<close>.

  An escape of a code point is read into its bytes, and an
  escaped lone surrogate into the three bytes of its code point, so that different Python strings
  stay different. \<open>int\<close> refuses a numeral of more than 4300 digits with a \<open>ValueError\<close> that is not a
  \<open>JSONDecodeError\<close>.
\<close>

datatype json_error = Decode_error | Duplicate_key | Int_too_long

subsection \<open>Tokens\<close>

definition is_ws :: "char \<Rightarrow> bool" where
  "is_ws c \<longleftrightarrow> byte_of c \<in> {9, 10, 13, 32}"

definition skip_ws :: "string \<Rightarrow> string" where
  "skip_ws s = dropWhile is_ws s"

definition hex_val :: "char \<Rightarrow> nat option" where
  "hex_val c = (let n = byte_of c in
     if 48 \<le> n \<and> n \<le> 57 then Some (n - 48)
     else if 97 \<le> n \<and> n \<le> 102 then Some (n - 87)
     else if 65 \<le> n \<and> n \<le> 70 then Some (n - 55) else None)"

definition hex4 :: "string \<Rightarrow> nat option" where
  "hex4 s = (case map hex_val (take 4 s) of
     [Some a, Some b, Some c, Some d] \<Rightarrow> Some (((a * 16 + b) * 16 + c) * 16 + d) | _ \<Rightarrow> None)"

definition simple_escape :: "char \<Rightarrow> char option" where
  "simple_escape c = (let n = byte_of c in
     if n \<in> {34, 92, 47} then Some c
     else if n = 98 then Some (char_of (8 :: nat)) else if n = 102 then Some (char_of (12 :: nat))
     else if n = 110 then Some (char_of (10 :: nat)) else if n = 114 then Some (char_of (13 :: nat))
     else if n = 116 then Some (char_of (9 :: nat)) else None)"

definition is_high :: "nat \<Rightarrow> bool" where "is_high n \<longleftrightarrow> 0xD800 \<le> n \<and> n \<le> 0xDBFF"

definition is_low :: "nat \<Rightarrow> bool" where "is_low n \<longleftrightarrow> 0xDC00 \<le> n \<and> n \<le> 0xDFFF"

text \<open>A \<open>\u\<close> escape, with the rest of the input: a high surrogate joins the low one that follows.\<close>

definition unicode_escape :: "string \<Rightarrow> (string \<times> string) option" where
  "unicode_escape r =
    (case hex4 r of
       None \<Rightarrow> None
     | Some n \<Rightarrow>
         let r1 = drop 4 r in
         if is_high n \<and> map byte_of (take 2 r1) = [92, 117] \<and> (\<exists>m \<in> set_option (hex4 (drop 2 r1)). is_low m)
         then Some (utf8_encode (0x10000 + (n - 0xD800) * 1024 + (the (hex4 (drop 2 r1)) - 0xDC00)), drop 6 r1)
         else Some (utf8_encode n, r1))"

definition push :: "string \<Rightarrow> json_error + string \<times> string \<Rightarrow> json_error + string \<times> string" where
  "push s res = map_sum id (\<lambda>(t, r). (s @ t, r)) res"

lemma unicode_escape_shorter: "unicode_escape r = Some (s, r') \<Longrightarrow> length r' \<le> length r"
  by (auto simp: unicode_escape_def Let_def split: option.splits if_splits)

text \<open>\<open>scanstring\<close>, after the opening quote.\<close>

function scan_string :: "string \<Rightarrow> json_error + string \<times> string" where
  "scan_string s =
    (case s of
       [] \<Rightarrow> Inl Decode_error
     | c # cs \<Rightarrow>
         if byte_of c = 34 then Inr ([], cs)
         else if byte_of c < 32 then Inl Decode_error
         else if byte_of c \<noteq> 92 then push [c] (scan_string cs)
         else (case cs of
             [] \<Rightarrow> Inl Decode_error
           | e # r \<Rightarrow>
               if byte_of e = 117
               then (case unicode_escape r of
                   None \<Rightarrow> Inl Decode_error | Some (t, r') \<Rightarrow> push t (scan_string r'))
               else (case simple_escape e of
                   None \<Rightarrow> Inl Decode_error | Some x \<Rightarrow> push [x] (scan_string r))))"
  by pat_completeness auto
termination
  by (relation "measure length") (auto dest: unicode_escape_shorter)

declare scan_string.simps [simp del]

lemma push_Inr: "push s res = Inr (t, r) \<longleftrightarrow> (\<exists>t'. res = Inr (t', r) \<and> t = s @ t')"
  by (cases res) (auto simp: push_def)

lemma scan_string_shorter: "scan_string s = Inr (t, r) \<Longrightarrow> length r < length s"
proof (induction s arbitrary: t rule: scan_string.induct)
  case (1 s)
  then show ?case
    by (subst (asm) (4) scan_string.simps)
       (fastforce simp: push_Inr split: list.splits if_splits option.splits dest: unicode_escape_shorter)
qed

text \<open>A number: an integer, or a float kept as its lexeme.\<close>

definition take_digits :: "string \<Rightarrow> string \<times> string" where
  "take_digits s = (takeWhile is_digit s, dropWhile is_digit s)"

definition scan_frac :: "string \<Rightarrow> string \<times> string" where
  "scan_frac s =
    (case s of
       p # d # r \<Rightarrow> if byte_of p = 46 \<and> is_digit d then (p # takeWhile is_digit (d # r), dropWhile is_digit (d # r)) else ([], s)
     | _ \<Rightarrow> ([], s))"

definition scan_exp :: "string \<Rightarrow> string \<times> string" where
  "scan_exp s =
    (case s of
       [] \<Rightarrow> ([], s)
     | e # r \<Rightarrow>
         let (sign, r1) = (case r of [] \<Rightarrow> ([], r) | c # r' \<Rightarrow> if byte_of c \<in> {43, 45} then ([c], r') else ([], r));
             (ds, r2) = take_digits r1
         in if byte_of e \<in> {101, 69} \<and> ds \<noteq> [] then (e # sign @ ds, r2) else ([], s))"

definition scan_int_part :: "string \<Rightarrow> (string \<times> string) option" where
  "scan_int_part s =
    (case s of
       [] \<Rightarrow> None
     | c # r \<Rightarrow> if byte_of c = 48 then Some ([c], r) else if is_digit c then Some (take_digits s) else None)"

definition scan_unsigned :: "string \<Rightarrow> (string \<times> string \<times> string \<times> string) option" where
  "scan_unsigned s =
    (case scan_int_part s of
       None \<Rightarrow> None
     | Some (i, r) \<Rightarrow> let (f, r1) = scan_frac r; (x, r2) = scan_exp r1 in Some (i, f, x, r2))"

definition MAX_INT_DIGITS :: nat where "MAX_INT_DIGITS = 4300"

definition number_value :: "bool \<Rightarrow> string \<Rightarrow> string \<Rightarrow> string \<Rightarrow> json_error + json" where
  "number_value neg i f x =
    (if f \<noteq> [] \<or> x \<noteq> [] then Inr (JFloat ((if neg then ''-'' else []) @ i @ f @ x))
     else if length i > MAX_INT_DIGITS then Inl Int_too_long
     else Inr (JInt (if neg then - int (read_nat i) else int (read_nat i))))"

definition scan_number :: "string \<Rightarrow> json_error + json \<times> string" where
  "scan_number s =
    (let neg = (s \<noteq> [] \<and> byte_of (hd s) = 45); r = (if neg then tl s else s) in
     case scan_unsigned r of
       None \<Rightarrow> Inl Decode_error
     | Some (i, f, x, r2) \<Rightarrow> (case number_value neg i f x of Inl e \<Rightarrow> Inl e | Inr v \<Rightarrow> Inr (v, r2)))"

definition scan_constant :: "string \<Rightarrow> (json \<times> string) option" where
  "scan_constant s =
    (case find (\<lambda>(p, v). prefix p s)
        [(''null'', JNull), (''true'', JBool True), (''false'', JBool False), (''NaN'', JFloat ''NaN''),
         (''Infinity'', JFloat ''Infinity''), (''-Infinity'', JFloat ''-Infinity'')] of
       Some (p, v) \<Rightarrow> Some (v, drop (length p) s)
     | None \<Rightarrow> None)"

lemma scan_constant_shorter: "scan_constant s = Some (v, r) \<Longrightarrow> length r < length s"
  by (auto simp: scan_constant_def prefix_def split: option.splits if_splits)

lemma take_digits_length: "take_digits s = (ds, r) \<Longrightarrow> length s = length ds + length r"
  by (auto simp: take_digits_def) (metis length_append takeWhile_dropWhile_id)

lemma scan_frac_shorter: "scan_frac s = (f, r) \<Longrightarrow> length r \<le> length s"
  by (auto simp: scan_frac_def split: list.splits if_splits intro: le_SucI length_dropWhile_le)

lemma scan_exp_shorter: "scan_exp s = (x, r) \<Longrightarrow> length r \<le> length s"
  by (auto simp: scan_exp_def Let_def split: list.splits if_splits prod.splits dest!: take_digits_length)

lemma scan_int_part_shorter: "scan_int_part s = Some (i, r) \<Longrightarrow> length r < length s"
  by (auto simp: scan_int_part_def take_digits_def le_imp_less_Suc length_dropWhile_le split: list.splits if_splits)

lemma scan_number_shorter:
  assumes "scan_number s = Inr (v, r)"
  shows "length r < length s"
proof -
  let ?r = "if s \<noteq> [] \<and> byte_of (hd s) = 45 then tl s else s"
  from assms obtain i f x where "scan_unsigned ?r = Some (i, f, x, r)"
    by (auto simp: scan_number_def Let_def split: option.splits if_splits sum.splits)
  then obtain r0 r1 where "scan_int_part ?r = Some (i, r0)" "scan_frac r0 = (f, r1)" "scan_exp r1 = (x, r)"
    by (auto simp: scan_unsigned_def Let_def split: option.splits prod.splits)
  then have "length r < length ?r"
    using scan_int_part_shorter scan_frac_shorter scan_exp_shorter by fastforce
  then show ?thesis by (auto split: if_splits)
qed


subsection \<open>Values\<close>

lemma length_skip_ws: "length (skip_ws s) \<le> length s"
  by (simp add: skip_ws_def length_dropWhile_le)

lemma skip_ws_Cons_length: "skip_ws s = c # r \<Longrightarrow> length r < length s"
  using length_skip_ws [of s] by simp

text \<open>The tests on the lengths always hold (\<open>parse_value_shorter\<close>); they are what makes the
  recursion visibly end.\<close>

function parse_value :: "bool \<Rightarrow> string \<Rightarrow> json_error + json \<times> string"
  and parse_elems :: "bool \<Rightarrow> json list \<Rightarrow> string \<Rightarrow> json_error + json \<times> string"
  and parse_members :: "bool \<Rightarrow> (string \<times> json) list \<Rightarrow> string \<Rightarrow> json_error + json \<times> string" where
  "parse_value h s =
    (case s of
       [] \<Rightarrow> Inl Decode_error
     | c # cs \<Rightarrow>
         if byte_of c = 34
         then (case scan_string cs of Inl e \<Rightarrow> Inl e | Inr (t, r) \<Rightarrow> Inr (JStr t, r))
         else if byte_of c = 123
         then (case skip_ws cs of
             [] \<Rightarrow> Inl Decode_error
           | d # r \<Rightarrow> if byte_of d = 125 then Inr (JObj [], r) else parse_members h [] (skip_ws cs))
         else if byte_of c = 91
         then (case skip_ws cs of
             [] \<Rightarrow> Inl Decode_error
           | d # r \<Rightarrow> if byte_of d = 93 then Inr (JArr [], r) else parse_elems h [] (skip_ws cs))
         else (case scan_constant s of Some vr \<Rightarrow> Inr vr | None \<Rightarrow> scan_number s))"
| "parse_elems h acc s =
    (case parse_value h s of
       Inl e \<Rightarrow> Inl e
     | Inr (v, r) \<Rightarrow>
         if \<not> length r < length s then Inl Decode_error
         else (case skip_ws r of
             [] \<Rightarrow> Inl Decode_error
           | c # r' \<Rightarrow>
               if byte_of c = 93 then Inr (JArr (acc @ [v]), r')
               else if byte_of c = 44 then parse_elems h (acc @ [v]) (skip_ws r')
               else Inl Decode_error))"
| "parse_members h acc s =
    (case s of
       [] \<Rightarrow> Inl Decode_error
     | c # cs \<Rightarrow>
         if byte_of c \<noteq> 34 then Inl Decode_error
         else (case scan_string cs of
             Inl e \<Rightarrow> Inl e
           | Inr (k, r) \<Rightarrow>
               (case skip_ws r of
                  [] \<Rightarrow> Inl Decode_error
                | d # r1 \<Rightarrow>
                    if byte_of d \<noteq> 58 then Inl Decode_error
                    else (case parse_value h (skip_ws r1) of
                        Inl e \<Rightarrow> Inl e
                      | Inr (v, r2) \<Rightarrow>
                          if \<not> length r2 < length s then Inl Decode_error
                          else (case skip_ws r2 of
                              [] \<Rightarrow> Inl Decode_error
                            | x # r3 \<Rightarrow>
                                if byte_of x = 125
                                then (if distinct (map fst (acc @ [(k, v)])) then Inr (JObj (acc @ [(k, v)]), r3)
                                      else if h then Inl Duplicate_key
                                      else Inr (JObj (foldl (\<lambda>d (k, v). dset k v d) [] (acc @ [(k, v)])), r3))
                                else if byte_of x = 44 then parse_members h (acc @ [(k, v)]) (skip_ws r3)
                                else Inl Decode_error)))))"
  by pat_completeness auto

termination
proof (relation "measure (\<lambda>x. case x of Inl (h, s) \<Rightarrow> 2 * length s
    | Inr (Inl (h, acc, s)) \<Rightarrow> 2 * length s + 1 | Inr (Inr (h, acc, s)) \<Rightarrow> 2 * length s + 1)", goal_cases)
qed (use length_skip_ws in \<open>auto dest!: scan_string_shorter skip_ws_Cons_length simp: le_imp_less_Suc
       dest: le_less_trans [OF length_skip_ws]\<close>)


declare parse_value.simps [simp del] parse_elems.simps [simp del] parse_members.simps [simp del]

lemma parse_shorter:
  "parse_value h s = Inr (v, r) \<Longrightarrow> length r < length s"
  "parse_elems h acc s = Inr (v, r) \<Longrightarrow> length r < length s"
  "parse_members h ms s = Inr (v, r) \<Longrightarrow> length r < length s"
proof (induction h s and h acc s and h ms s arbitrary: v r and v r and v r
    rule: parse_value_parse_elems_parse_members.induct)
  case (1 h s)
  show ?case
  proof (cases s)
    case (Cons c cs)
    show ?thesis
    proof (cases "skip_ws cs")
      case Nil
      with "1.prems" [unfolded parse_value.simps [of h s]] Cons show ?thesis
        by (auto split: if_splits sum.splits option.splits
             dest!: scan_string_shorter scan_constant_shorter scan_number_shorter)
    next
      case sk: (Cons d r')
      have len: "length (d # r') \<le> length cs" using length_skip_ws [of cs] sk by simp
      have m: "length r < length (d # r')" if "byte_of c = 123" "byte_of d \<noteq> 125" "parse_members h [] (d # r') = Inr (v, r)"
        using "1.IH"(1) [OF Cons _ _ sk] that sk by simp
      have e: "length r < length (d # r')" if "byte_of c = 91" "byte_of d \<noteq> 93" "parse_elems h [] (d # r') = Inr (v, r)"
        using "1.IH"(2) [OF Cons _ _ _ sk] that sk by simp
      from "1.prems" [unfolded parse_value.simps [of h s]] Cons sk len show ?thesis
        by (auto split: if_splits sum.splits option.splits
             dest!: scan_string_shorter scan_constant_shorter scan_number_shorter m e)
    qed
  qed (use "1.prems" in \<open>simp add: parse_value.simps\<close>)
next
  case (2 h acc s)
  have rec: "length r < length s" if "parse_value h s = Inr (a, b)" "length b < length s" "skip_ws b = x # r'"
      "byte_of x = 44" "parse_elems h (acc @ [a]) (skip_ws r') = Inr (v, r)" for a b x r'
    using "2.IH"(2) [of "(a, b)" a b x r'] that skip_ws_Cons_length [OF that(3)] length_skip_ws [of r'] by fastforce
  have fin: "length r < length s" if "length b < length s" "skip_ws b = x # r" for b x
    using that skip_ws_Cons_length [OF that(2)] by simp
  from "2.prems" [unfolded parse_elems.simps [of h acc s]] show ?case
    by (auto split: list.splits if_splits sum.splits intro: rec fin)
next
  case (3 h ms s)
  have rec: "length r < Suc (length cs)" if "s = c # cs" "byte_of c = 34" "scan_string cs = Inr (k, a)" "skip_ws a = d # r1"
      "byte_of d = 58" "parse_value h (skip_ws r1) = Inr (w, b)" "length b < Suc (length cs)" "skip_ws b = x # r'" "byte_of x = 44"
      "parse_members h (ms @ [(k, w)]) (skip_ws r') = Inr (v, r)" for c cs k a d r1 w b x r'
    using "3.IH"(2) [of c cs "(k, a)" k a d r1 "(w, b)" w b x r'] that skip_ws_Cons_length [OF that(8)] length_skip_ws [of r']
    by fastforce
  have fin: "length r < Suc n" if "length b < Suc n" "skip_ws b = x # r" for b x n
    using that skip_ws_Cons_length [OF that(2)] by simp
  from "3.prems" [unfolded parse_members.simps [of h ms s]] show ?case
    by (auto split: list.splits if_splits sum.splits) (rule fin rec; assumption)+
qed

text \<open>\<open>json.loads\<close>. The flag says that the caller passes an \<open>object_pairs_hook\<close> that refuses a duplicate
  key; without one a \<open>dict\<close> keeps the last value at the first position.\<close>

definition loads_with :: "bool \<Rightarrow> string \<Rightarrow> json_error + json" where
  "loads_with h s =
    (if \<not> utf8_ok s then Inl Decode_error
     else (case parse_value h (skip_ws s) of
         Inl e \<Rightarrow> Inl e
       | Inr (v, r) \<Rightarrow> if skip_ws r = [] then Inr v else Inl Decode_error))"

abbreviation loads :: "string \<Rightarrow> json_error + json" where
  "loads \<equiv> loads_with True"

subsection \<open>The round trip\<close>

text \<open>What the code writes: integers that \<open>int\<close> can read back, texts that the writer can write (in
  UTF-8, for the writer that escapes no more than it must), objects without duplicate keys, no floats.\<close>

fun json_ok_with :: "(string \<Rightarrow> bool) \<Rightarrow> json \<Rightarrow> bool" where
  "json_ok_with ok (JInt i) = (length (show_nat (nat \<bar>i\<bar>)) \<le> MAX_INT_DIGITS)"
| "json_ok_with ok (JFloat s) = False"
| "json_ok_with ok (JStr s) = ok s"
| "json_ok_with ok (JArr xs) = (\<forall>x \<in> set xs. json_ok_with ok x)"
| "json_ok_with ok (JObj kvs) = (distinct (map fst kvs) \<and> (\<forall>(k, v) \<in> set kvs. ok k \<and> json_ok_with ok v))"
| "json_ok_with ok _ = True"

abbreviation json_ok :: "json \<Rightarrow> bool" where
  "json_ok \<equiv> json_ok_with utf8_ok"

lemma scan_plain: "byte_of c \<noteq> 34 \<Longrightarrow> byte_of c \<ge> 32 \<Longrightarrow> byte_of c \<noteq> 92 \<Longrightarrow>
    scan_string (c # cs) = push [c] (scan_string cs)"
  by (subst scan_string.simps) simp

lemma scan_simple_escape: "byte_of e \<noteq> 117 \<Longrightarrow> simple_escape e = Some x \<Longrightarrow>
    scan_string (char_of (92 :: nat) # e # cs) = push [x] (scan_string cs)"
  by (subst scan_string.simps) simp

lemma hex_val_digit: "n < 16 \<Longrightarrow> hex_val (hex_digit n) = Some n"
  by (simp add: hex_val_def hex_digit_def Let_def)

lemma scan_control_escape:
  assumes "n < 32"
  shows "scan_string ([char_of (92 :: nat), CHR ''u'', CHR ''0'', CHR ''0'', hex_digit (n div 16), hex_digit (n mod 16)] @ cs)
    = push [char_of n] (scan_string cs)"
proof -
  have z: "hex_val (CHR ''0'') = Some 0" by (simp add: hex_val_def byte_of_def Let_def)
  have "hex4 ([CHR ''0'', CHR ''0'', hex_digit (n div 16), hex_digit (n mod 16)] @ cs) = Some n"
    using assms by (simp add: hex4_def z hex_val_digit)
  then have "unicode_escape ([CHR ''0'', CHR ''0'', hex_digit (n div 16), hex_digit (n mod 16)] @ cs) = Some ([char_of n], cs)"
    using assms by (simp add: unicode_escape_def is_high_def utf8_encode_def Let_def)
  moreover have "byte_of (CHR ''u'') = 117" by (simp add: byte_of_def)
  ultimately show ?thesis by (subst scan_string.simps) simp
qed

lemma scan_esc_char: "scan_string (esc_char False c @ cs) = push [c] (scan_string cs)"
proof -
  have c: "char_of (of_char c :: nat) = c" by simp
  have q: "CHR 0x22 = char_of (34 :: nat)" by (rule sym, subst char_of_eq_iff) simp
  have u: "byte_of (CHR ''n'') = 110" "byte_of (CHR ''r'') = 114" "byte_of (CHR ''t'') = 116" "byte_of (CHR ''f'') = 102"
    "byte_of (CHR ''b'') = 98" "byte_of (CHR 0x22) = 34" by (simp_all add: byte_of_def)
  consider "(of_char c :: nat) \<in> {34, 92, 10, 13, 9, 12, 8}" | "(of_char c :: nat) \<notin> {34, 92, 10, 13, 9, 12, 8}" "(of_char c :: nat) < 32"
    | "(of_char c :: nat) \<notin> {34, 92, 10, 13, 9, 12, 8}" "\<not> (of_char c :: nat) < 32" by blast
  then show ?thesis
  proof cases
    case 1
    then obtain n :: nat where n: "c = char_of n" "n \<in> {34, 92, 10, 13, 9, 12, 8}" by (metis c)
    then show ?thesis
      by (auto simp: esc_char_def Let_def scan_simple_escape simple_escape_def u q)
  next
    case 2
    then show ?thesis
      using scan_control_escape [of "of_char c" cs] by (simp add: esc_char_def Let_def)
  next
    case 3
    then show ?thesis by (simp add: esc_char_def Let_def scan_plain byte_of_def)
  qed
qed

lemma scan_quoted: "scan_string (quote_body False s @ CHR 0x22 # rest) = Inr (s, rest)"
  unfolding quote_body_def
proof (induction s)
  case Nil
  show ?case by (subst scan_string.simps) (simp add: byte_of_def)
qed (simp add: scan_esc_char push_def)


lemma is_digit_byte: "is_digit c \<longleftrightarrow> 48 \<le> byte_of c \<and> byte_of c \<le> 57"
  by (simp add: is_digit_def byte_of_def)

text \<open>What may follow a value in the output of the writer.\<close>

definition stops :: "string \<Rightarrow> bool" where
  "stops r \<longleftrightarrow> r = [] \<or> byte_of (hd r) \<in> {44, 93, 125}"

lemma stops_Cons [simp]: "stops (c # r) \<longleftrightarrow> byte_of c \<in> {44, 93, 125}"
  by (simp add: stops_def)

lemma take_digits_all:
  assumes "\<And>c. c \<in> set ds \<Longrightarrow> is_digit c" and "stops r"
  shows "take_digits (ds @ r) = (ds, r)"
proof -
  have "takeWhile is_digit r = []" "dropWhile is_digit r = r"
    using assms(2) by (cases r; auto simp: is_digit_byte)+
  with assms(1) show ?thesis by (simp add: take_digits_def takeWhile_append2 dropWhile_append2)
qed

lemma show_nat_zero: "show_nat 0 = [char_of (48 :: nat)]"
  by (subst show_nat.simps) (simp add: digit_char_def)

lemma show_nat_hd: "n > 0 \<Longrightarrow> byte_of (hd (show_nat n)) \<noteq> 48"
proof (induction n rule: show_nat.induct)
  case (1 n)
  show ?case
  proof (cases "n < 10")
    case True
    with "1.prems" show ?thesis by (simp add: show_nat.simps [of n] digit_char_def)
  next
    case False
    with 1 show ?thesis by (simp add: show_nat.simps [of n])
  qed
qed

lemma scan_int_part_show: "stops r \<Longrightarrow> scan_int_part (show_nat n @ r) = Some (show_nat n, r)"
proof (cases "n = 0")
  case True
  then show ?thesis by (simp add: show_nat_zero scan_int_part_def byte_of_def)
next
  case False
  assume r: "stops r"
  obtain c cs where c: "show_nat n = c # cs" by (cases "show_nat n") auto
  with False show_nat_hd [of n] have "byte_of c \<noteq> 48" by simp
  moreover have "is_digit c" using show_nat_digits [of c n] c by simp
  moreover have "take_digits (show_nat n @ r) = (show_nat n, r)"
    using show_nat_digits r by (intro take_digits_all) auto
  ultimately show ?thesis by (simp add: scan_int_part_def c)
qed

lemma scan_unsigned_show: "stops r \<Longrightarrow> scan_unsigned (show_nat n @ r) = Some (show_nat n, [], [], r)"
proof -
  assume r: "stops r"
  then have "scan_frac r = ([], r)" "scan_exp r = ([], r)"
    by (cases r; auto simp: scan_frac_def scan_exp_def split: list.split prod.split)+
  with r show ?thesis by (simp add: scan_unsigned_def scan_int_part_show)
qed

lemma scan_number_show:
  assumes "length (show_nat (nat \<bar>i\<bar>)) \<le> MAX_INT_DIGITS" and "stops r"
  shows "scan_number (show_int i @ r) = Inr (JInt i, r)"
proof (cases "i < 0")
  case True
  then have "show_int i = CHR ''-'' # show_nat (nat \<bar>i\<bar>)" by (simp add: show_int_def)
  with True assms show ?thesis
    by (simp add: scan_number_def scan_unsigned_show number_value_def byte_of_def Let_def)
next
  case False
  then have s: "show_int i = show_nat (nat \<bar>i\<bar>)" by (simp add: show_int_def)
  obtain c cs where c: "show_nat (nat \<bar>i\<bar>) = c # cs" by (cases "show_nat (nat \<bar>i\<bar>)") auto
  then have "byte_of c \<noteq> 45" using show_nat_digits [of c "nat \<bar>i\<bar>"] by (auto simp: is_digit_byte)
  then have "\<not> (show_int i @ r \<noteq> [] \<and> byte_of (hd (show_int i @ r)) = 45)" by (simp add: s c)
  with False assms scan_unsigned_show [OF assms(2), of "nat \<bar>i\<bar>"] show ?thesis
    by (simp add: scan_number_def number_value_def s Let_def)
qed

lemma skip_ws_stops: "stops r \<Longrightarrow> skip_ws r = r"
  by (cases r) (auto simp: skip_ws_def is_ws_def)

lemma join_Cons: "xs \<noteq> [] \<Longrightarrow> join sep (x # xs) = x @ sep @ join sep xs"
  by (cases xs) simp_all

lemma scan_constant_number:
  "is_digit c \<Longrightarrow> scan_constant (c # cs) = None"
  "is_digit c \<Longrightarrow> scan_constant (CHR ''-'' # c # cs) = None"
proof -
  assume "is_digit c"
  then have "CHR ''n'' \<noteq> c" "CHR ''t'' \<noteq> c" "CHR ''f'' \<noteq> c" "CHR ''N'' \<noteq> c" "CHR ''I'' \<noteq> c" "CHR ''-'' \<noteq> c"
    by (auto simp: is_digit_def)
  then show "scan_constant (c # cs) = None" "scan_constant (CHR ''-'' # c # cs) = None"
    by (simp_all add: scan_constant_def)
qed

lemma parse_int:
  assumes "length (show_nat (nat \<bar>i\<bar>)) \<le> MAX_INT_DIGITS" and "stops r"
  shows "parse_value h (show_int i @ r) = Inr (JInt i, r)"
proof -
  obtain c cs where c: "show_nat (nat \<bar>i\<bar>) = c # cs" by (cases "show_nat (nat \<bar>i\<bar>)") auto
  then have d: "is_digit c" using show_nat_digits [of c "nat \<bar>i\<bar>"] by simp
  have n: "scan_number (show_int i @ r) = Inr (JInt i, r)" using assms by (simp add: scan_number_show)
  have s: "show_int i = (if i < 0 then CHR ''-'' # c # cs else c # cs)" using c by (auto simp: show_int_def abs_if split: if_splits)
  show ?thesis
  proof (cases "i < 0")
    case True
    with n s d show ?thesis
      by (subst parse_value.simps) (simp add: scan_constant_number byte_of_def)
  next
    case False
    moreover have "byte_of c \<noteq> 34" "byte_of c \<noteq> 123" "byte_of c \<noteq> 91" using d by (auto simp: is_digit_byte)
    ultimately show ?thesis using n s d
      by (subst parse_value.simps) (simp add: scan_constant_number)
  qed
qed

text \<open>What a writer of texts owes the reader, and the round trip that follows from it: its quoted texts
  are scanned back.\<close>

locale json_writer =
  fixes ascii :: bool and text_ok :: "string \<Rightarrow> bool"
  assumes scan_back: "text_ok s \<Longrightarrow> scan_string (quote_body ascii s @ CHR 0x22 # rest) = Inr (s, rest)"
begin

abbreviation text_of :: "json \<Rightarrow> string" where
  "text_of \<equiv> json_text ascii '','' '':''"

definition pair_of :: "string \<times> json \<Rightarrow> string" where
  "pair_of = (\<lambda>(k, v). quote ascii k @ '':'' @ text_of v)"

lemma writer_start: "json_ok_with text_ok v \<Longrightarrow> \<exists>c cs. text_of v = c # cs \<and> \<not> is_ws c \<and> byte_of c \<notin> {93, 125}"
proof (cases v)
  case (JInt i)
  obtain c cs where c: "show_nat (nat \<bar>i\<bar>) = c # cs" by (cases "show_nat (nat \<bar>i\<bar>)") auto
  then have "is_digit c" using show_nat_digits [of c "nat \<bar>i\<bar>"] by simp
  with c JInt show ?thesis by (auto simp: show_int_def is_ws_def is_digit_byte byte_of_def)
qed (auto simp: quote_def is_ws_def byte_of_def)

lemma skip_ws_writer: "json_ok_with text_ok v \<Longrightarrow> skip_ws (text_of v @ r) = text_of v @ r"
  using writer_start [of v] by (auto simp: skip_ws_def)

lemma parse_elems_writer:
  assumes "xs \<noteq> []" and "\<And>x. x \<in> set xs \<Longrightarrow> json_ok_with text_ok x"
    and "\<And>x r. x \<in> set xs \<Longrightarrow> stops r \<Longrightarrow> parse_value h (text_of x @ r) = Inr (x, r)"
  shows "parse_elems h acc (join '','' (map text_of xs) @ '']'' @ r) = Inr (JArr (acc @ xs), r)"
  using assms
proof (induction xs arbitrary: acc)
  case (Cons x xs)
  have x: "parse_value h (text_of x @ t) = Inr (x, t)" if "stops t" for t using Cons.prems(3) that by simp
  obtain c cs where "text_of x = c # cs" using writer_start [of x] Cons.prems(2) by auto
  then have len: "length t < length (text_of x @ t)" for t by simp
  show ?case
  proof (cases "xs = []")
    case True
    have "stops ('']'' @ r)" by (simp add: byte_of_def)
    from x [OF this] skip_ws_stops [OF this] True len [of "'']'' @ r"] show ?thesis
      by (subst parse_elems.simps) (simp add: byte_of_def)
  next
    case False
    let ?t = "'','' @ join '','' (map text_of xs) @ '']'' @ r"
    have "stops ?t" by (simp add: byte_of_def)
    moreover have "skip_ws (join '','' (map text_of xs) @ '']'' @ r) = join '','' (map text_of xs) @ '']'' @ r"
      using False Cons.prems(2) skip_ws_writer [of "hd xs"]
      by (cases xs; cases "tl xs") simp_all
    moreover have "parse_elems h (acc @ [x]) (join '','' (map text_of xs) @ '']'' @ r) = Inr (JArr ((acc @ [x]) @ xs), r)"
      using False Cons.prems by (intro Cons.IH) auto
    ultimately show ?thesis using x [of ?t] skip_ws_stops [of ?t] False len [of ?t]
      by (subst parse_elems.simps) (simp add: join_Cons byte_of_def)
  qed
qed simp

lemma parse_members_writer:
  assumes "kvs \<noteq> []" and "distinct (map fst (acc @ kvs))" and "\<And>k v. (k, v) \<in> set kvs \<Longrightarrow> text_ok k \<and> json_ok_with text_ok v"
    and "\<And>k v r. (k, v) \<in> set kvs \<Longrightarrow> stops r \<Longrightarrow> parse_value h (text_of v @ r) = Inr (v, r)"
  shows "parse_members h acc (join '','' (map pair_of kvs) @ ''}'' @ r) = Inr (JObj (acc @ kvs), r)"
  using assms
proof (induction kvs arbitrary: acc)
  case (Cons kv kvs)
  obtain k v where kv: "kv = (k, v)" by force
  have v: "parse_value h (text_of v @ t) = Inr (v, t)" if "stops t" for t using Cons.prems(4) [of k v t] kv that by simp
  have okk: "text_ok k" and ok: "json_ok_with text_ok v" using Cons.prems(3) [of k v] kv by simp_all
  have key: "scan_string (quote_body ascii k @ CHR 0x22 # '':'' @ text_of v @ t) = Inr (k, '':'' @ text_of v @ t)" for t
    by (rule scan_back [OF okk])
  have colon: "skip_ws ('':'' @ text_of v @ t) = CHR '':'' # text_of v @ t" "byte_of (CHR '':'') = 58" "byte_of (CHR 0x22) = 34" for t
    by (simp_all add: skip_ws_def is_ws_def byte_of_def)
  show ?case
  proof (cases "kvs = []")
    case True
    have st: "stops (''}'' @ r)" by (simp add: byte_of_def)
    from v [OF st] skip_ws_stops [OF st] True Cons.prems(2) key [of "''}'' @ r"] colon ok show ?thesis
      by (subst parse_members.simps) (simp add: kv pair_of_def quote_def skip_ws_writer byte_of_def)
  next
    case False
    let ?t = "'','' @ join '','' (map pair_of kvs) @ ''}'' @ r"
    have st: "stops ?t" by (simp add: byte_of_def)
    have sk: "skip_ws (join '','' (map pair_of kvs) @ ''}'' @ r) = join '','' (map pair_of kvs) @ ''}'' @ r"
      using False by (cases kvs; cases "tl kvs") (auto simp: pair_of_def quote_def skip_ws_def is_ws_def byte_of_def split: prod.splits)
    have "parse_members h (acc @ [(k, v)]) (join '','' (map pair_of kvs) @ ''}'' @ r) = Inr (JObj ((acc @ [(k, v)]) @ kvs), r)"
    proof (rule Cons.IH [OF False])
      show "distinct (map fst ((acc @ [(k, v)]) @ kvs))" using Cons.prems(2) kv by simp
      show "text_ok k' \<and> json_ok_with text_ok w" if "(k', w) \<in> set kvs" for k' w using that by (intro Cons.prems(3)) simp
      show "parse_value h (text_of w @ u) = Inr (w, u)" if "(k', w) \<in> set kvs" "stops u" for k' w u
        using that by (intro Cons.prems(4) [of k']) simp_all
    qed
    then show ?thesis using v [OF st] skip_ws_stops [OF st] False key [of ?t] colon ok sk
      by (subst parse_members.simps) (simp add: kv pair_of_def quote_def join_Cons skip_ws_writer byte_of_def)
  qed
qed simp


lemma json_text_pairs: "(\<lambda>(k, v). quote ascii k @ '':'' @ text_of v) = pair_of"
  by (simp add: pair_of_def)

lemma parse_writer: "json_ok_with text_ok v \<Longrightarrow> stops r \<Longrightarrow> parse_value h (text_of v @ r) = Inr (v, r)"
proof (induction v arbitrary: r)
  case JNull
  show ?case by (subst parse_value.simps) (simp add: byte_of_def scan_constant_def)
next
  case (JBool b)
  show ?case by (subst parse_value.simps) (cases b; simp add: byte_of_def scan_constant_def)
next
  case (JInt i)
  then show ?case by (simp add: parse_int)
next
  case (JStr s)
  then show ?case
    using scan_back [of s r] by (subst parse_value.simps) (simp add: quote_def byte_of_def)
next
  case (JArr xs)
  show ?case
  proof (cases "xs = []")
    case True
    then show ?thesis by (subst parse_value.simps) (simp add: byte_of_def skip_ws_def is_ws_def)
  next
    case False
    let ?b = "join '','' (map text_of xs) @ '']'' @ r"
    have x: "json_ok_with text_ok (hd xs)" using False JArr.prems by simp
    obtain t where t: "?b = text_of (hd xs) @ t" using False by (cases xs; cases "tl xs") simp_all
    obtain c cs where c: "text_of (hd xs) = c # cs" "byte_of c \<noteq> 93" using writer_start [OF x] by auto
    have "parse_elems h [] ?b = Inr (JArr ([] @ xs), r)"
      using False JArr by (intro parse_elems_writer) auto
    moreover have "skip_ws ?b = ?b" unfolding t by (rule skip_ws_writer [OF x])
    ultimately show ?thesis using t c
      by (subst parse_value.simps) (simp add: byte_of_def)
  qed
next
  case (JObj kvs)
  show ?case
  proof (cases "kvs = []")
    case True
    then show ?thesis by (subst parse_value.simps) (simp add: byte_of_def skip_ws_def is_ws_def)
  next
    case False
    let ?b = "join '','' (map pair_of kvs) @ ''}'' @ r"
    obtain t where t: "?b = CHR 0x22 # t"
      using False by (cases kvs; cases "tl kvs") (auto simp: pair_of_def quote_def split: prod.splits)
    have "parse_members h [] ?b = Inr (JObj ([] @ kvs), r)"
    proof (rule parse_members_writer [OF False])
      show "distinct (map fst ([] @ kvs))" using JObj.prems by simp
      show "text_ok k \<and> json_ok_with text_ok v" if "(k, v) \<in> set kvs" for k v using JObj.prems that by auto
      show "parse_value h (text_of v @ u) = Inr (v, u)" if "(k, v) \<in> set kvs" "stops u" for k v u
        using JObj.prems that by (intro JObj.IH [of "(k, v)"]) auto
    qed
    moreover have "skip_ws ?b = ?b" unfolding t by (simp add: skip_ws_def is_ws_def byte_of_def)
    moreover have "text_of (JObj kvs) @ r = CHR ''{'' # ?b" by (simp only: json_text.simps json_text_pairs) simp
    ultimately show ?thesis using t
      by (subst parse_value.simps) (simp add: byte_of_def del: json_text.simps)
  qed
qed simp

end

abbreviation dumps :: "json \<Rightarrow> string" where
  "dumps \<equiv> json_text False '','' '':''"

interpretation utf8_writer: json_writer False utf8_ok
  by unfold_locales (rule scan_quoted)

lemma hex_digit_ascii: "n < 16 \<Longrightarrow> 48 \<le> byte_of (hex_digit n) \<and> byte_of (hex_digit n) < 128"
  by (simp add: hex_digit_def)

lemma esc_char_high: "byte_of c \<ge> 128 \<Longrightarrow> esc_char False c = [c]"
  by (simp add: esc_char_def byte_of_def Let_def)

lemma esc_char_low: "byte_of c < 128 \<Longrightarrow> x \<in> set (esc_char False c) \<Longrightarrow> byte_of x < 128 \<and> byte_of x \<noteq> 10"
proof -
  assume c: "byte_of c < 128" and x: "x \<in> set (esc_char False c)"
  have "byte_of c div 16 < 16" "byte_of c mod 16 < 16" using c by simp_all
  then show ?thesis
    using hex_digit_ascii [of "byte_of c div 16"] hex_digit_ascii [of "byte_of c mod 16"] c x
    by (auto simp: esc_char_def byte_of_def Let_def split: if_splits)
qed

lemma utf8_ok_esc: "utf8_ok s \<Longrightarrow> utf8_ok (concat (map (esc_char False) s) @ t) = utf8_ok t"
proof (induction s rule: utf8_induct)
  case (ascii c r)
  then have "utf8_ok (esc_char False c)" by (intro utf8_ok_ascii) (simp add: esc_char_low)
  with ascii show ?case by (simp add: utf8_ok_append)
next
  case (multi p r)
  have "concat (map (esc_char False) p) = p" using multi(1) by (induction p) (simp_all add: esc_char_high)
  with multi show ?case by simp
qed simp

lemma utf8_ok_quote: "utf8_ok s \<Longrightarrow> utf8_ok (quote False s)"
  using utf8_ok_esc [of s "[CHR 0x22]"] by (simp add: quote_def quote_body_def byte_of_def)

lemma utf8_ok_show_int: "utf8_ok (show_int i)"
proof (rule utf8_ok_ascii)
  fix c assume "c \<in> set (show_int i)"
  then have "c = CHR ''-'' \<or> is_digit c" by (auto simp: show_int_def split: if_splits dest: show_nat_digits)
  then show "byte_of c < 128" by (auto simp: is_digit_byte) (simp add: byte_of_def)
qed

lemma utf8_ok_join: "(\<And>x. x \<in> set xs \<Longrightarrow> utf8_ok x) \<Longrightarrow> utf8_ok sep \<Longrightarrow> utf8_ok (join sep xs)"
  by (induction sep xs rule: join.induct) (auto simp: utf8_ok_append)

lemma utf8_ok_lit: "utf8_ok ''null''" "utf8_ok ''true''" "utf8_ok ''false''" "utf8_ok '',''" "utf8_ok '':''" "utf8_ok ''[''"
  "utf8_ok '']''" "utf8_ok ''{''" "utf8_ok ''}''"
  by (simp_all add: byte_of_def)

lemma utf8_ok_dumps: "json_ok v \<Longrightarrow> utf8_ok (dumps v)"
proof (induction v)
  case (JArr xs)
  then have "utf8_ok (join '','' (map dumps xs))" by (intro utf8_ok_join utf8_ok_lit) auto
  with utf8_ok_lit show ?case by (simp only: json_text.simps utf8_ok_append)
next
  case (JObj kvs)
  have "utf8_ok (utf8_writer.pair_of kv)" if "kv \<in> set kvs" for kv
  proof (cases kv)
    case (Pair k v)
    with that JObj.prems have "utf8_ok k" "json_ok v" by auto
    with JObj.IH [of kv v] that Pair show ?thesis
      by (simp add: utf8_writer.pair_of_def utf8_ok_append utf8_ok_quote byte_of_def)
  qed
  then have "utf8_ok (join '','' (map utf8_writer.pair_of kvs))" by (intro utf8_ok_join utf8_ok_lit) auto
  with utf8_ok_lit show ?case by (simp only: json_text.simps utf8_writer.json_text_pairs utf8_ok_append)
qed (simp_all add: utf8_ok_quote utf8_ok_show_int utf8_ok_lit)

text \<open>Reading what was written gives the value back.\<close>

lemma loads_dumps:
  assumes "json_ok v"
  shows "loads (dumps v) = Inr v"
  using utf8_ok_dumps [OF assms] utf8_writer.parse_writer [OF assms, of "[]"] utf8_writer.skip_ws_writer [OF assms, of "[]"]
  by (simp add: loads_with_def stops_def skip_ws_def)

text \<open>The writer never puts a line feed inside a record.\<close>

lemma show_int_no_newline: "CHR 0x0A \<notin> set (show_int i)"
  using show_nat_digits [of "CHR 0x0A"] by (auto simp: show_int_def is_digit_def)

lemma esc_char_no_newline: "CHR 0x0A \<notin> set (esc_char False c)"
proof
  assume n: "CHR 0x0A \<in> set (esc_char False c)"
  have b: "byte_of (CHR 0x0A) = 10" by (simp add: byte_of_def)
  show False
  proof (cases "byte_of c < 128")
    case True
    from esc_char_low [OF True n] b show False by simp
  next
    case False
    with n b show False by (auto simp: esc_char_high)
  qed
qed

lemma join_no_newline: "(\<And>x. x \<in> set xs \<Longrightarrow> CHR 0x0A \<notin> set x) \<Longrightarrow> CHR 0x0A \<notin> set sep \<Longrightarrow> CHR 0x0A \<notin> set (join sep xs)"
  by (induction sep xs rule: join.induct) auto

lemma quote_no_newline: "CHR 0x0A \<notin> set (quote False s)"
  using esc_char_no_newline by (auto simp: quote_def quote_body_def)

lemma dumps_no_newline: "json_ok v \<Longrightarrow> CHR 0x0A \<notin> set (dumps v)"
proof (induction v)
  case (JArr xs)
  then have "CHR 0x0A \<notin> set (join '','' (map dumps xs))" by (intro join_no_newline) auto
  then show ?case by simp
next
  case (JObj kvs)
  have "CHR 0x0A \<notin> set (utf8_writer.pair_of kv)" if "kv \<in> set kvs" for kv
    using JObj that quote_no_newline by (cases kv) (fastforce simp: utf8_writer.pair_of_def)
  then have "CHR 0x0A \<notin> set (join '','' (map utf8_writer.pair_of kvs))" by (intro join_no_newline) auto
  then show ?case by (simp only: json_text.simps utf8_writer.json_text_pairs) simp
qed (simp_all add: quote_no_newline show_int_no_newline)

end
