(* ===== verification/Protection_Journal.thy ===== *)
theory Protection_Journal
  imports Json_Parse Closed_Fsm
begin

text \<open>
  The authoritative journal of a Golden protection transaction
  (\<open>local/runtime_vault/protection_journal.py\<close>): its closed state machine, the write-ahead log of
  each node, the records with their validation, their canonical lines, the reader that classifies
  the durable bytes and the replay that derives the state of the transaction.

  A value of JSON is a \<open>json\<close>; the fields a record has after validation are typed. The messages of
  the errors are left out, their classes are \<open>pj_error\<close>: the schema and transition errors of the
  module, its indeterminate error, and the plain \<open>ValueError\<close> of Python that the module does not
  catch.
\<close>

datatype pj_error = Schema_error | Transition_error | Indeterminate_error | Value_error

definition PROTECTION_JOURNAL_SCHEMA_VERSION :: string where
  "PROTECTION_JOURNAL_SCHEMA_VERSION = ''1.0''"

subsection \<open>The transaction's state machine\<close>

datatype ProtectionTransactionState =
    PREPARING | PREPARED | AWAITING_ELEVATION | APPLYING | VERIFYING_GP1 | VERIFYING_RV2
  | VERIFYING_NODE_SET | ARCHIVING_BACKUP | COMMITTED | CANCELLED | ELEVATION_REJECTED
  | REFUSE_TO_APPLY | REFUSE_TO_PLAN | ROLLBACK_REQUIRED | ROLLING_BACK | ROLLED_BACK
  | ROLLBACK_FAILED | INDETERMINATE

definition TX_STATES :: "ProtectionTransactionState list" where
  "TX_STATES = [PREPARING, PREPARED, AWAITING_ELEVATION, APPLYING, VERIFYING_GP1, VERIFYING_RV2,
     VERIFYING_NODE_SET, ARCHIVING_BACKUP, COMMITTED, CANCELLED, ELEVATION_REJECTED, REFUSE_TO_APPLY,
     REFUSE_TO_PLAN, ROLLBACK_REQUIRED, ROLLING_BACK, ROLLED_BACK, ROLLBACK_FAILED, INDETERMINATE]"

fun tx_value :: "ProtectionTransactionState \<Rightarrow> string" where
  "tx_value PREPARING = ''preparing''"
| "tx_value PREPARED = ''prepared''"
| "tx_value AWAITING_ELEVATION = ''awaiting_elevation''"
| "tx_value APPLYING = ''applying''"
| "tx_value VERIFYING_GP1 = ''verifying_gp1''"
| "tx_value VERIFYING_RV2 = ''verifying_rv2''"
| "tx_value VERIFYING_NODE_SET = ''verifying_node_set''"
| "tx_value ARCHIVING_BACKUP = ''archiving_backup''"
| "tx_value COMMITTED = ''committed''"
| "tx_value CANCELLED = ''cancelled''"
| "tx_value ELEVATION_REJECTED = ''elevation_rejected''"
| "tx_value REFUSE_TO_APPLY = ''refuse_to_apply''"
| "tx_value REFUSE_TO_PLAN = ''refuse_to_plan''"
| "tx_value ROLLBACK_REQUIRED = ''rollback_required''"
| "tx_value ROLLING_BACK = ''rolling_back''"
| "tx_value ROLLED_BACK = ''rolled_back''"
| "tx_value ROLLBACK_FAILED = ''rollback_failed''"
| "tx_value INDETERMINATE = ''indeterminate''"

definition INITIAL_TRANSACTION_STATE :: ProtectionTransactionState where
  "INITIAL_TRANSACTION_STATE = APPLYING"

fun TRANSACTION_TRANSITIONS :: "ProtectionTransactionState \<Rightarrow> ProtectionTransactionState set" where
  "TRANSACTION_TRANSITIONS PREPARING = {PREPARED, REFUSE_TO_APPLY, CANCELLED}"
| "TRANSACTION_TRANSITIONS PREPARED = {AWAITING_ELEVATION, REFUSE_TO_APPLY, CANCELLED}"
| "TRANSACTION_TRANSITIONS AWAITING_ELEVATION = {APPLYING, REFUSE_TO_PLAN, ELEVATION_REJECTED, CANCELLED}"
| "TRANSACTION_TRANSITIONS APPLYING = {VERIFYING_GP1, ROLLBACK_REQUIRED, INDETERMINATE}"
| "TRANSACTION_TRANSITIONS VERIFYING_GP1 = {VERIFYING_RV2, ROLLBACK_REQUIRED, INDETERMINATE}"
| "TRANSACTION_TRANSITIONS VERIFYING_RV2 = {VERIFYING_NODE_SET, ROLLBACK_REQUIRED, INDETERMINATE}"
| "TRANSACTION_TRANSITIONS VERIFYING_NODE_SET = {ARCHIVING_BACKUP, ROLLBACK_REQUIRED, INDETERMINATE}"
| "TRANSACTION_TRANSITIONS ARCHIVING_BACKUP = {COMMITTED, ROLLBACK_REQUIRED}"
| "TRANSACTION_TRANSITIONS ROLLBACK_REQUIRED = {ROLLING_BACK, INDETERMINATE}"
| "TRANSACTION_TRANSITIONS ROLLING_BACK = {ROLLED_BACK, ROLLBACK_FAILED, INDETERMINATE}"
| "TRANSACTION_TRANSITIONS COMMITTED = {}"
| "TRANSACTION_TRANSITIONS CANCELLED = {}"
| "TRANSACTION_TRANSITIONS ELEVATION_REJECTED = {}"
| "TRANSACTION_TRANSITIONS REFUSE_TO_APPLY = {}"
| "TRANSACTION_TRANSITIONS REFUSE_TO_PLAN = {}"
| "TRANSACTION_TRANSITIONS ROLLED_BACK = {}"
| "TRANSACTION_TRANSITIONS ROLLBACK_FAILED = {}"
| "TRANSACTION_TRANSITIONS INDETERMINATE = {}"

definition TERMINAL_TRANSACTION_STATES :: "ProtectionTransactionState set" where
  "TERMINAL_TRANSACTION_STATES = set (filter (\<lambda>s. TRANSACTION_TRANSITIONS s = {}) TX_STATES)"

definition S4A_PERMITTED_TRANSITION_TARGETS :: "ProtectionTransactionState set" where
  "S4A_PERMITTED_TRANSITION_TARGETS =
     {ROLLBACK_REQUIRED, ROLLING_BACK, ROLLED_BACK, ROLLBACK_FAILED, INDETERMINATE}"

definition assert_transaction_transition ::
  "ProtectionTransactionState \<Rightarrow> ProtectionTransactionState \<Rightarrow> pj_error + unit" where
  "assert_transaction_transition current target =
     (if target \<notin> TRANSACTION_TRANSITIONS current then Inl Transition_error else Inr ())"

definition tx_allowed :: "ProtectionTransactionState \<Rightarrow> ProtectionTransactionState \<Rightarrow> bool" where
  "tx_allowed s t \<longleftrightarrow> t \<in> TRANSACTION_TRANSITIONS s"

fun tx_rank :: "ProtectionTransactionState \<Rightarrow> nat" where
  "tx_rank PREPARING = 10" | "tx_rank PREPARED = 9" | "tx_rank AWAITING_ELEVATION = 8" | "tx_rank APPLYING = 7"
| "tx_rank VERIFYING_GP1 = 6" | "tx_rank VERIFYING_RV2 = 5" | "tx_rank VERIFYING_NODE_SET = 4"
| "tx_rank ARCHIVING_BACKUP = 3" | "tx_rank ROLLBACK_REQUIRED = 2" | "tx_rank ROLLING_BACK = 1" | "tx_rank _ = 0"

interpretation protection_fsm: closed_fsm tx_allowed tx_rank
proof
  fix s t assume "tx_allowed s t"
  then show "tx_rank t < tx_rank s" by (cases s) (auto simp: tx_allowed_def)
qed

lemma set_TX_STATES [simp]: "s \<in> set TX_STATES"
  by (cases s) (simp_all add: TX_STATES_def)

lemma terminal_states: "s \<in> TERMINAL_TRANSACTION_STATES \<longleftrightarrow> TRANSACTION_TRANSITIONS s = {}"
  by (simp add: TERMINAL_TRANSACTION_STATES_def)

lemma terminal_rank: "s \<in> TERMINAL_TRANSACTION_STATES \<longleftrightarrow> tx_rank s = 0"
  by (cases s) (simp_all add: terminal_states)

lemma assert_transaction_transition_Inr [simp]:
  "assert_transaction_transition s t = Inr u \<longleftrightarrow> tx_allowed s t"
  by (simp add: assert_transaction_transition_def tx_allowed_def)

subsection \<open>The write-ahead log of a node\<close>

datatype NodeWalState = MUTATING | MUTATED

fun wal_value :: "NodeWalState \<Rightarrow> string" where
  "wal_value MUTATING = ''mutating''"
| "wal_value MUTATED = ''mutated''"

fun NODE_WAL_TRANSITIONS :: "NodeWalState option \<Rightarrow> NodeWalState set" where
  "NODE_WAL_TRANSITIONS None = {MUTATING}"
| "NODE_WAL_TRANSITIONS (Some MUTATING) = {MUTATED}"
| "NODE_WAL_TRANSITIONS (Some MUTATED) = {}"

definition assert_node_transition :: "NodeWalState option \<Rightarrow> NodeWalState \<Rightarrow> pj_error + unit" where
  "assert_node_transition current target =
     (if target \<notin> NODE_WAL_TRANSITIONS current then Inl Transition_error else Inr ())"

definition wal_allowed :: "NodeWalState option \<Rightarrow> NodeWalState option \<Rightarrow> bool" where
  "wal_allowed s t \<longleftrightarrow> (\<exists>x \<in> NODE_WAL_TRANSITIONS s. t = Some x)"

fun wal_rank :: "NodeWalState option \<Rightarrow> nat" where
  "wal_rank None = 2" | "wal_rank (Some MUTATING) = 1" | "wal_rank (Some MUTATED) = 0"

interpretation node_wal: closed_fsm wal_allowed wal_rank
proof
  fix s t assume "wal_allowed s t"
  then show "wal_rank t < wal_rank s" by (cases s rule: wal_rank.cases) (auto simp: wal_allowed_def)
qed

lemma assert_node_transition_Inr [simp]:
  "assert_node_transition s t = Inr u \<longleftrightarrow> s = None \<and> t = MUTATING \<or> s = Some MUTATING \<and> t = MUTATED"
  by (cases "(s)" rule: wal_rank.cases; cases t) (simp_all add: assert_node_transition_def)

datatype JournalRecordKind = HEADER | TRANSACTION | NODE

fun kind_value :: "JournalRecordKind \<Rightarrow> string" where
  "kind_value HEADER = ''journal_header''"
| "kind_value TRANSACTION = ''transaction_state''"
| "kind_value NODE = ''node_state''"

text \<open>\<open>E(value)\<close> of a \<open>StrEnum\<close>: the member with that value, or a \<open>ValueError\<close>.\<close>

definition tx_of_value :: "json \<Rightarrow> ProtectionTransactionState option" where
  "tx_of_value v = find (\<lambda>s. v = JStr (tx_value s)) TX_STATES"

definition wal_of_value :: "json \<Rightarrow> NodeWalState option" where
  "wal_of_value v = find (\<lambda>s. v = JStr (wal_value s)) [MUTATING, MUTATED]"

definition kind_of_value :: "string \<Rightarrow> JournalRecordKind option" where
  "kind_of_value v = find (\<lambda>k. v = kind_value k) [HEADER, TRANSACTION, NODE]"

lemma tx_of_value_inverse [simp]: "tx_of_value (JStr (tx_value s)) = Some s"
  by (cases s) (simp_all add: tx_of_value_def TX_STATES_def)

lemma wal_of_value_inverse [simp]: "wal_of_value (JStr (wal_value s)) = Some s"
  by (cases s) (simp_all add: wal_of_value_def)

lemma kind_of_value_inverse [simp]: "kind_of_value (kind_value k) = Some k"
  by (cases k) (simp_all add: kind_of_value_def)

subsection \<open>Validators\<close>

definition hex_lower :: "char \<Rightarrow> bool" where
  "hex_lower c \<longleftrightarrow> is_digit c \<or> 97 \<le> (of_char c :: nat) \<and> (of_char c :: nat) \<le> 102"

definition validate_sequence :: "json \<Rightarrow> pj_error + int" where
  "validate_sequence v = (case v of JInt n \<Rightarrow> if n < 1 then Inl Schema_error else Inr n | _ \<Rightarrow> Inl Schema_error)"

text \<open>\<open>str(uuid.UUID(s)) == s\<close>: five groups of lower-case hexadecimal digits.\<close>

definition canonical_uuid :: "string \<Rightarrow> bool" where
  "canonical_uuid s \<longleftrightarrow> length s = 36
     \<and> (\<forall>i \<in> set [0..<36]. if i \<in> {8, 13, 18, 23} then s ! i = CHR ''-'' else hex_lower (s ! i))"

definition validate_operation_id :: "json \<Rightarrow> pj_error + string" where
  "validate_operation_id v =
     (case v of
        JStr s \<Rightarrow> (let normalized = py_strip s in
          if canonical_uuid normalized then Inr normalized else Inl Schema_error)
      | _ \<Rightarrow> Inl Schema_error)"

definition validate_sha256_hex :: "json \<Rightarrow> pj_error + string" where
  "validate_sha256_hex v =
     (case v of
        JStr s \<Rightarrow> (let normalized = casefold (py_strip s) in
          if length normalized \<noteq> 64 \<or> \<not> list_all hex_lower normalized then Inl Schema_error else Inr normalized)
      | _ \<Rightarrow> Inl Schema_error)"

definition validate_uint :: "json \<Rightarrow> int \<Rightarrow> pj_error + int" where
  "validate_uint v max_value =
     (case v of
        JInt n \<Rightarrow> if 0 \<le> n \<and> n \<le> max_value then Inr n else Inl Schema_error
      | _ \<Rightarrow> Inl Schema_error)"

definition MAX_UINT64 :: int where "MAX_UINT64 = 2 ^ 64 - 1"
definition MAX_UINT128 :: int where "MAX_UINT128 = 2 ^ 128 - 1"

definition validate_nonempty_text :: "json \<Rightarrow> pj_error + string" where
  "validate_nonempty_text v =
     (case v of
        JStr s \<Rightarrow> if py_strip s = [] then Inl Schema_error else Inr (py_strip s)
      | _ \<Rightarrow> Inl Schema_error)"

definition validate_relative_path :: "json \<Rightarrow> pj_error + string" where
  "validate_relative_path v =
     (case v of
        JStr s \<Rightarrow>
          if s = [] then Inl Schema_error
          else if s = ''.'' then Inr s
          else if CHR 0x00 \<in> set s \<or> CHR 0x5C \<in> set s \<or> CHR '':'' \<in> set s \<or> hd s = CHR ''/'' then Inl Schema_error
          else if \<exists>part \<in> set (split_on (CHR ''/'') s). part \<in> {[], ''.'', ''..''} then Inl Schema_error
          else Inr s
      | _ \<Rightarrow> Inl Schema_error)"

text \<open>What a validator accepts it keeps: a validated value is its own normal form.\<close>

lemma hex_lower_no_upper: "hex_lower c \<Longrightarrow> lower_char c = c"
  by (auto simp: hex_lower_def is_digit_def lower_char_def)

lemma validate_sequence_Inr: "validate_sequence v = Inr n \<longleftrightarrow> v = JInt n \<and> 1 \<le> n"
  by (auto simp: validate_sequence_def split: json.splits if_splits)

lemma validate_uint_Inr: "validate_uint v m = Inr n \<longleftrightarrow> v = JInt n \<and> 0 \<le> n \<and> n \<le> m"
  by (auto simp: validate_uint_def split: json.splits if_splits)

lemma validate_operation_id_idem: "validate_operation_id v = Inr s \<Longrightarrow> validate_operation_id (JStr s) = Inr s"
  by (auto simp: validate_operation_id_def Let_def split: json.splits if_splits)

lemma validate_nonempty_text_idem: "validate_nonempty_text v = Inr s \<Longrightarrow> validate_nonempty_text (JStr s) = Inr s"
  by (auto simp: validate_nonempty_text_def split: json.splits if_splits)

lemma validate_relative_path_id: "validate_relative_path v = Inr s \<Longrightarrow> v = JStr s"
  by (auto simp: validate_relative_path_def split: json.splits if_splits)

lemma validate_relative_path_idem: "validate_relative_path v = Inr s \<Longrightarrow> validate_relative_path (JStr s) = Inr s"
  using validate_relative_path_id by blast

lemma hex_space_free: "(\<And>c. c \<in> set s \<Longrightarrow> hex_lower c) \<Longrightarrow> py_strip s = s"
  by (rule py_strip_graphic) (fastforce simp: hex_lower_def is_digit_def graphic_def)

lemma validate_sha256_hex_idem:
  assumes "validate_sha256_hex v = Inr s"
  shows "validate_sha256_hex (JStr s) = Inr s"
proof -
  from assms have s: "length s = 64" "\<And>c. c \<in> set s \<Longrightarrow> hex_lower c"
    by (auto simp: validate_sha256_hex_def Let_def list_all_iff split: json.splits if_splits)
  moreover have "casefold s = s"
    unfolding casefold_def using s(2) by (intro map_idI hex_lower_no_upper)
  ultimately show ?thesis
    by (auto simp: validate_sha256_hex_def Let_def list_all_iff hex_space_free)
qed

text \<open>A relative path that is accepted cannot leave the protected tree.\<close>

lemma validate_relative_path_safe:
  assumes "validate_relative_path v = Inr s"
  shows "''..'' \<notin> set (split_on (CHR ''/'') s) \<and> CHR 0x5C \<notin> set s \<and> CHR '':'' \<notin> set s \<and> hd s \<noteq> CHR ''/''"
  using assms by (auto simp: validate_relative_path_def split: json.splits if_splits)

subsection \<open>Records\<close>

record JournalHeaderRecord =
  hdr_schema_version :: string
  hdr_sequence :: int
  hdr_operation_id :: string
  hdr_authorized_plan_digest :: string
  hdr_canonical_root :: string
  hdr_volume_serial_number :: int
  hdr_root_file_id :: int
  hdr_created_at :: string

record JournalTransactionRecord =
  tx_sequence :: int
  tx_state :: ProtectionTransactionState

record JournalNodeRecord =
  node_sequence :: int
  node_relative_path :: string
  node_volume_serial_number :: int
  node_file_id :: int
  node_pre_sd_sha256 :: string
  node_wal_state :: NodeWalState

datatype JournalRecord =
    Header_record JournalHeaderRecord
  | Transaction_record JournalTransactionRecord
  | Node_record JournalNodeRecord

fun record_kind :: "JournalRecord \<Rightarrow> JournalRecordKind" where
  "record_kind (Header_record _) = HEADER"
| "record_kind (Transaction_record _) = TRANSACTION"
| "record_kind (Node_record _) = NODE"

fun record_sequence :: "JournalRecord \<Rightarrow> int" where
  "record_sequence (Header_record h) = hdr_sequence h"
| "record_sequence (Transaction_record t) = tx_sequence t"
| "record_sequence (Node_record n) = node_sequence n"

text \<open>The \<open>__post_init__\<close> of each class: the record with its fields in normal form, or the error.\<close>

definition header_post_init :: "JournalHeaderRecord \<Rightarrow> pj_error + JournalHeaderRecord" where
  "header_post_init r =
     res_bind (res_check (hdr_schema_version r = PROTECTION_JOURNAL_SCHEMA_VERSION) Schema_error) (\<lambda>_.
     res_bind (validate_sequence (JInt (hdr_sequence r))) (\<lambda>_.
     res_bind (validate_operation_id (JStr (hdr_operation_id r))) (\<lambda>op.
     res_bind (validate_sha256_hex (JStr (hdr_authorized_plan_digest r))) (\<lambda>digest.
     res_bind (validate_nonempty_text (JStr (hdr_canonical_root r))) (\<lambda>root.
     res_bind (validate_uint (JInt (hdr_volume_serial_number r)) MAX_UINT64) (\<lambda>vol.
     res_bind (validate_uint (JInt (hdr_root_file_id r)) MAX_UINT128) (\<lambda>fid.
     res_bind (validate_nonempty_text (JStr (hdr_created_at r))) (\<lambda>at.
       Inr (r\<lparr>hdr_operation_id := op, hdr_authorized_plan_digest := digest, hdr_canonical_root := root,
              hdr_volume_serial_number := vol, hdr_root_file_id := fid, hdr_created_at := at\<rparr>)))))))))"

definition transaction_post_init :: "JournalTransactionRecord \<Rightarrow> pj_error + JournalTransactionRecord" where
  "transaction_post_init r = res_bind (validate_sequence (JInt (tx_sequence r))) (\<lambda>_. Inr r)"

definition node_post_init :: "JournalNodeRecord \<Rightarrow> pj_error + JournalNodeRecord" where
  "node_post_init r =
     res_bind (validate_sequence (JInt (node_sequence r))) (\<lambda>_.
     res_bind (validate_relative_path (JStr (node_relative_path r))) (\<lambda>path.
     res_bind (validate_uint (JInt (node_volume_serial_number r)) MAX_UINT64) (\<lambda>vol.
     res_bind (validate_uint (JInt (node_file_id r)) MAX_UINT128) (\<lambda>fid.
     res_bind (validate_sha256_hex (JStr (node_pre_sd_sha256 r))) (\<lambda>sha.
       Inr (r\<lparr>node_relative_path := path, node_volume_serial_number := vol, node_file_id := fid,
              node_pre_sd_sha256 := sha\<rparr>))))))"

definition build_journal_header_record ::
  "string \<Rightarrow> string \<Rightarrow> string \<Rightarrow> int \<Rightarrow> int \<Rightarrow> string \<Rightarrow> pj_error + JournalHeaderRecord" where
  "build_journal_header_record operation_id digest root vol fid created_at =
     header_post_init \<lparr>hdr_schema_version = PROTECTION_JOURNAL_SCHEMA_VERSION, hdr_sequence = 1,
       hdr_operation_id = operation_id, hdr_authorized_plan_digest = digest, hdr_canonical_root = root,
       hdr_volume_serial_number = vol, hdr_root_file_id = fid, hdr_created_at = created_at\<rparr>"

text \<open>A record that its class has accepted, with its fields as the class keeps them.\<close>

fun record_valid :: "JournalRecord \<Rightarrow> bool" where
  "record_valid (Header_record h) = (header_post_init h = Inr h)"
| "record_valid (Transaction_record t) = (transaction_post_init t = Inr t)"
| "record_valid (Node_record n) = (node_post_init n = Inr n)"

lemmas record_validators = header_post_init_def transaction_post_init_def node_post_init_def res_bind_Inr
  validate_uint_Inr validate_sequence_Inr

lemma header_post_init_valid: "header_post_init r = Inr h \<Longrightarrow> record_valid (Header_record h)"
  by (clarsimp simp: record_validators)
     (intro exI conjI; (erule validate_operation_id_idem | erule validate_sha256_hex_idem
        | erule validate_nonempty_text_idem | simp))

lemma node_post_init_valid: "node_post_init r = Inr n \<Longrightarrow> record_valid (Node_record n)"
  by (clarsimp simp: record_validators)
     (intro exI conjI; (erule validate_relative_path_idem | erule validate_sha256_hex_idem | simp))

lemma transaction_post_init_valid: "transaction_post_init r = Inr t \<Longrightarrow> t = r \<and> record_valid (Transaction_record t)"
  by (auto simp: record_validators)

subsection \<open>Canonical lines\<close>

definition HEADER_RECORD_KEYS :: "string set" where
  "HEADER_RECORD_KEYS = {''kind'', ''schema_version'', ''sequence'', ''operation_id'', ''authorized_plan_digest'',
     ''canonical_root'', ''volume_serial_number'', ''root_file_id'', ''created_at''}"

definition TRANSACTION_RECORD_KEYS :: "string set" where
  "TRANSACTION_RECORD_KEYS = {''kind'', ''sequence'', ''state''}"

definition NODE_RECORD_KEYS :: "string set" where
  "NODE_RECORD_KEYS = {''kind'', ''sequence'', ''relative_path'', ''volume_serial_number'', ''file_id'',
     ''pre_sd_sha256'', ''state''}"

fun journal_record_dict :: "JournalRecord \<Rightarrow> json" where
  "journal_record_dict (Header_record r) = JObj
     [(''kind'', JStr (kind_value HEADER)), (''schema_version'', JStr (hdr_schema_version r)),
      (''sequence'', JInt (hdr_sequence r)), (''operation_id'', JStr (hdr_operation_id r)),
      (''authorized_plan_digest'', JStr (hdr_authorized_plan_digest r)),
      (''canonical_root'', JStr (hdr_canonical_root r)),
      (''volume_serial_number'', JInt (hdr_volume_serial_number r)),
      (''root_file_id'', JInt (hdr_root_file_id r)), (''created_at'', JStr (hdr_created_at r))]"
| "journal_record_dict (Transaction_record r) = JObj
     [(''kind'', JStr (kind_value TRANSACTION)), (''sequence'', JInt (tx_sequence r)),
      (''state'', JStr (tx_value (tx_state r)))]"
| "journal_record_dict (Node_record r) = JObj
     [(''kind'', JStr (kind_value NODE)), (''sequence'', JInt (node_sequence r)),
      (''relative_path'', JStr (node_relative_path r)),
      (''volume_serial_number'', JInt (node_volume_serial_number r)), (''file_id'', JInt (node_file_id r)),
      (''pre_sd_sha256'', JStr (node_pre_sd_sha256 r)), (''state'', JStr (wal_value (node_wal_state r)))]"

abbreviation LF :: char where "LF \<equiv> CHR 0x0A"

text \<open>\<open>json.dumps\<close> refuses an integer of too many digits and \<open>encode\<close> a lone surrogate, both with a
  \<open>ValueError\<close>.\<close>

definition serialize_journal_record :: "JournalRecord \<Rightarrow> pj_error + string" where
  "serialize_journal_record record =
     (let payload = journal_record_dict record in
      if json_ok payload then Inr (dumps (canon payload) @ [LF]) else Inl Value_error)"

definition item :: "(string \<times> json) list \<Rightarrow> string \<Rightarrow> json" where
  "item kvs k = (case map_of kvs k of Some v \<Rightarrow> v | None \<Rightarrow> JNull)"

definition parse_header :: "(string \<times> json) list \<Rightarrow> int \<Rightarrow> pj_error + JournalRecord" where
  "parse_header kvs sequence =
     res_bind (res_check (fst ` set kvs = HEADER_RECORD_KEYS) Schema_error) (\<lambda>_.
     res_bind (res_check (item kvs ''schema_version'' = JStr PROTECTION_JOURNAL_SCHEMA_VERSION) Schema_error) (\<lambda>_.
     res_bind (validate_operation_id (item kvs ''operation_id'')) (\<lambda>op.
     res_bind (validate_sha256_hex (item kvs ''authorized_plan_digest'')) (\<lambda>digest.
     res_bind (validate_nonempty_text (item kvs ''canonical_root'')) (\<lambda>root.
     res_bind (validate_uint (item kvs ''volume_serial_number'') MAX_UINT64) (\<lambda>vol.
     res_bind (validate_uint (item kvs ''root_file_id'') MAX_UINT128) (\<lambda>fid.
     res_bind (validate_nonempty_text (item kvs ''created_at'')) (\<lambda>at.
     res_bind (header_post_init \<lparr>hdr_schema_version = PROTECTION_JOURNAL_SCHEMA_VERSION, hdr_sequence = sequence,
         hdr_operation_id = op, hdr_authorized_plan_digest = digest, hdr_canonical_root = root,
         hdr_volume_serial_number = vol, hdr_root_file_id = fid, hdr_created_at = at\<rparr>) (\<lambda>r.
       Inr (Header_record r))))))))))"

definition parse_transaction :: "(string \<times> json) list \<Rightarrow> int \<Rightarrow> pj_error + JournalRecord" where
  "parse_transaction kvs sequence =
     res_bind (res_check (fst ` set kvs = TRANSACTION_RECORD_KEYS) Schema_error) (\<lambda>_.
       case tx_of_value (item kvs ''state'') of
         None \<Rightarrow> Inl Schema_error
       | Some state \<Rightarrow>
           res_bind (transaction_post_init \<lparr>tx_sequence = sequence, tx_state = state\<rparr>) (\<lambda>r.
             Inr (Transaction_record r)))"

definition parse_node :: "(string \<times> json) list \<Rightarrow> int \<Rightarrow> pj_error + JournalRecord" where
  "parse_node kvs sequence =
     res_bind (res_check (fst ` set kvs = NODE_RECORD_KEYS) Schema_error) (\<lambda>_.
       case wal_of_value (item kvs ''state'') of
         None \<Rightarrow> Inl Schema_error
       | Some state \<Rightarrow>
           res_bind (validate_relative_path (item kvs ''relative_path'')) (\<lambda>path.
           res_bind (validate_uint (item kvs ''volume_serial_number'') MAX_UINT64) (\<lambda>vol.
           res_bind (validate_uint (item kvs ''file_id'') MAX_UINT128) (\<lambda>fid.
           res_bind (validate_sha256_hex (item kvs ''pre_sd_sha256'')) (\<lambda>sha.
           res_bind (node_post_init \<lparr>node_sequence = sequence, node_relative_path = path,
               node_volume_serial_number = vol, node_file_id = fid, node_pre_sd_sha256 = sha,
               node_wal_state = state\<rparr>) (\<lambda>r.
             Inr (Node_record r)))))))"

definition parse_journal_line :: "string \<Rightarrow> pj_error + JournalRecord" where
  "parse_journal_line line =
     (if line = [] then Inl Schema_error
      else (case loads line of
          Inl Int_too_long \<Rightarrow> Inl Value_error
        | Inl _ \<Rightarrow> Inl Schema_error
        | Inr (JObj kvs) \<Rightarrow>
            (case item kvs ''kind'' of
               JStr kind \<Rightarrow>
                 (case kind_of_value kind of
                    None \<Rightarrow> Inl Schema_error
                  | Some k \<Rightarrow>
                      res_bind (validate_sequence (item kvs ''sequence'')) (\<lambda>sequence.
                        case k of
                          HEADER \<Rightarrow> parse_header kvs sequence
                        | TRANSACTION \<Rightarrow> parse_transaction kvs sequence
                        | NODE \<Rightarrow> parse_node kvs sequence))
             | _ \<Rightarrow> Inl Schema_error)
        | Inr _ \<Rightarrow> Inl Schema_error))"

text \<open>The parser of a record sees only the mapping of its keys to its values.\<close>

lemma map_of_sort_fst: 
  fixes kvs :: "(string \<times> json) list"
  assumes "distinct (map fst kvs)"
  shows "map_of (sort_key fst kvs) = map_of kvs"
  using assms by (intro map_of_inject_set [THEN iffD2]) simp_all

lemma keys_dom: "fst ` set kvs = dom (map_of kvs)"
  by (simp add: dom_map_of_conv_image_fst)

lemma parse_record_cong:
  assumes "map_of kvs' = map_of kvs"
  shows "parse_header kvs' = parse_header kvs" and "parse_transaction kvs' = parse_transaction kvs"
    and "parse_node kvs' = parse_node kvs" and "item kvs' = item kvs"
proof -
  show i: "item kvs' = item kvs" using assms by (simp add: item_def fun_eq_iff)
  show "parse_header kvs' = parse_header kvs" "parse_transaction kvs' = parse_transaction kvs"
    "parse_node kvs' = parse_node kvs"
    by (rule ext, simp only: parse_header_def parse_transaction_def parse_node_def i keys_dom assms)+
qed

fun scalar :: "json \<Rightarrow> bool" where
  "scalar (JArr _) = False" | "scalar (JObj _) = False" | "scalar _ = True"

lemma canon_scalar: "scalar v \<Longrightarrow> canon v = v"
  by (cases v) simp_all

lemma canon_flat:
  assumes "\<And>k v. (k, v) \<in> set kvs \<Longrightarrow> scalar v"
  shows "canon (JObj kvs) = JObj (sort_key fst kvs)"
proof -
  have "map (\<lambda>(k, v). (k, canon v)) kvs = kvs"
    using assms by (intro map_idI) (auto simp: canon_scalar)
  then show ?thesis by simp
qed

lemma journal_record_dict_flat:
  "\<exists>kvs. journal_record_dict r = JObj kvs \<and> distinct (map fst kvs) \<and> (\<forall>(k, v) \<in> set kvs. scalar v)"
  by (cases r) simp_all

lemma header_fields:
  assumes "header_post_init r = Inr h"
  shows "hdr_schema_version r = PROTECTION_JOURNAL_SCHEMA_VERSION \<and> 1 \<le> hdr_sequence r
    \<and> validate_operation_id (JStr (hdr_operation_id r)) = Inr (hdr_operation_id h)
    \<and> validate_sha256_hex (JStr (hdr_authorized_plan_digest r)) = Inr (hdr_authorized_plan_digest h)
    \<and> validate_nonempty_text (JStr (hdr_canonical_root r)) = Inr (hdr_canonical_root h)
    \<and> validate_uint (JInt (hdr_volume_serial_number r)) MAX_UINT64 = Inr (hdr_volume_serial_number h)
    \<and> validate_uint (JInt (hdr_root_file_id r)) MAX_UINT128 = Inr (hdr_root_file_id h)
    \<and> validate_nonempty_text (JStr (hdr_created_at r)) = Inr (hdr_created_at h)"
  using assms by (auto simp: record_validators)

lemma node_fields:
  assumes "node_post_init r = Inr n"
  shows "1 \<le> node_sequence r \<and> validate_relative_path (JStr (node_relative_path r)) = Inr (node_relative_path n)
    \<and> validate_uint (JInt (node_volume_serial_number r)) MAX_UINT64 = Inr (node_volume_serial_number n)
    \<and> validate_uint (JInt (node_file_id r)) MAX_UINT128 = Inr (node_file_id n)
    \<and> validate_sha256_hex (JStr (node_pre_sd_sha256 r)) = Inr (node_pre_sd_sha256 n)"
  using assms by (auto simp: record_validators)

lemma record_valid_sequence: "record_valid r \<Longrightarrow> validate_sequence (JInt (record_sequence r)) = Inr (record_sequence r)"
  by (cases r) (auto simp: validate_sequence_Inr transaction_post_init_def res_bind_Inr dest: header_fields node_fields)

lemma parse_dict_kind:
  assumes "journal_record_dict r = JObj kvs"
  shows "item kvs ''kind'' = JStr (kind_value (record_kind r))" and "item kvs ''sequence'' = JInt (record_sequence r)"
  using assms by (cases r; auto simp: item_def)+

lemma parse_header_dict:
  assumes "journal_record_dict (Header_record h) = JObj kvs" and "record_valid (Header_record h)"
  shows "parse_header kvs (hdr_sequence h) = Inr (Header_record h)"
proof -
  from assms(2) have v: "header_post_init h = Inr h" by simp
  have "fst ` set kvs = HEADER_RECORD_KEYS" using assms(1) by (auto simp: HEADER_RECORD_KEYS_def)
  then show ?thesis
    using header_fields [OF v] v assms(1) by (cases h) (auto simp: parse_header_def item_def)
qed

lemma parse_transaction_dict:
  assumes "journal_record_dict (Transaction_record t) = JObj kvs" and "record_valid (Transaction_record t)"
  shows "parse_transaction kvs (tx_sequence t) = Inr (Transaction_record t)"
proof -
  have "fst ` set kvs = TRANSACTION_RECORD_KEYS" using assms(1) by (auto simp: TRANSACTION_RECORD_KEYS_def)
  then show ?thesis using assms by (cases t) (auto simp: parse_transaction_def item_def)
qed

lemma parse_node_dict:
  assumes "journal_record_dict (Node_record n) = JObj kvs" and "record_valid (Node_record n)"
  shows "parse_node kvs (node_sequence n) = Inr (Node_record n)"
proof -
  from assms(2) have v: "node_post_init n = Inr n" by simp
  have "fst ` set kvs = NODE_RECORD_KEYS" using assms(1) by (auto simp: NODE_RECORD_KEYS_def)
  then show ?thesis using node_fields [OF v] v assms(1) by (cases n) (auto simp: parse_node_def item_def)
qed

text \<open>A line that was written is read back as the record it was written from.\<close>

lemma parse_serialized_line:
  assumes "record_valid r" and "serialize_journal_record r = Inr line"
  shows "\<exists>body. line = body @ [LF] \<and> LF \<notin> set body \<and> body \<noteq> [] \<and> parse_journal_line body = Inr r"
proof -
  obtain kvs where kvs: "journal_record_dict r = JObj kvs" "distinct (map fst kvs)" "\<forall>(k, v) \<in> set kvs. scalar v"
    using journal_record_dict_flat by blast
  let ?kvs = "sort_key fst kvs"
  have canon: "canon (JObj kvs) = JObj ?kvs" using kvs(3) by (intro canon_flat) auto
  from assms(2) have ok: "json_ok (JObj kvs)" and line: "line = dumps (JObj ?kvs) @ [LF]"
    unfolding serialize_journal_record_def Let_def kvs(1) canon by (auto split: if_splits)
  have ok': "json_ok (JObj ?kvs)" using ok by simp
  have m: "map_of ?kvs = map_of kvs" by (rule map_of_sort_fst [OF kvs(2)])
  have cong: "parse_header ?kvs = parse_header kvs" "parse_transaction ?kvs = parse_transaction kvs"
      "parse_node ?kvs = parse_node kvs" "item ?kvs = item kvs"
    by (rule parse_record_cong [OF m])+
  have body: "(case record_kind r of HEADER \<Rightarrow> parse_header ?kvs (record_sequence r)
      | TRANSACTION \<Rightarrow> parse_transaction ?kvs (record_sequence r)
      | NODE \<Rightarrow> parse_node ?kvs (record_sequence r)) = Inr r"
    using kvs(1) assms(1) unfolding cong
    by (cases r; simp only: record_kind.simps record_sequence.simps JournalRecordKind.simps parse_header_dict
        parse_transaction_dict parse_node_dict)
  have ne: "dumps (JObj ?kvs) \<noteq> []" by simp
  have "parse_journal_line (dumps (JObj ?kvs)) = Inr r"
    unfolding parse_journal_line_def loads_dumps [OF ok'] using ne
    by (simp only: if_False sum.case json.case cong parse_dict_kind [OF kvs(1)] kind_of_value_inverse option.case
        record_valid_sequence [OF assms(1)] res_bind.simps body [unfolded cong])
  with dumps_no_newline [OF ok'] line ne show ?thesis by blast
qed

subsection \<open>The journal and its replay\<close>

record JournalPhysicalRoot =
  phys_canonical_root :: string
  phys_volume_serial_number :: int
  phys_root_file_id :: int

record ProtectionJournal =
  pj_operation_id :: string
  pj_authorized_plan_digest :: string
  pj_physical_root :: JournalPhysicalRoot
  pj_transaction_state :: ProtectionTransactionState
  pj_node_records :: "JournalNodeRecord list"
  pj_created_at :: string
  pj_sequence :: int
  pj_schema_version :: string

definition node_record :: "ProtectionJournal \<Rightarrow> string \<Rightarrow> JournalNodeRecord option" where
  "node_record j path = find (\<lambda>r. node_relative_path r = path) (rev (pj_node_records j))"

definition node_state :: "ProtectionJournal \<Rightarrow> string \<Rightarrow> NodeWalState option" where
  "node_state j path = map_option node_wal_state (node_record j path)"

definition latest_records :: "JournalNodeRecord list \<Rightarrow> (string, JournalNodeRecord) dict" where
  "latest_records rs = foldl (\<lambda>latest r. dset (node_relative_path r) r latest) [] rs"

definition nodes_in_state :: "ProtectionJournal \<Rightarrow> NodeWalState \<Rightarrow> JournalNodeRecord list" where
  "nodes_in_state j s = filter (\<lambda>r. node_wal_state r = s) (map snd (latest_records (pj_node_records j)))"

definition nodes_with_durable_mutation_intent :: "ProtectionJournal \<Rightarrow> JournalNodeRecord list" where
  "nodes_with_durable_mutation_intent j = nodes_in_state j MUTATING"

definition nodes_with_durable_mutation_completed :: "ProtectionJournal \<Rightarrow> JournalNodeRecord list" where
  "nodes_with_durable_mutation_completed j = nodes_in_state j MUTATED"

type_synonym identity = "int \<times> int \<times> string"

definition node_identity :: "JournalNodeRecord \<Rightarrow> identity" where
  "node_identity r = (node_volume_serial_number r, node_file_id r, node_pre_sd_sha256 r)"

text \<open>The locals of the loop of \<open>replay_journal_records\<close>, and its body.\<close>

record replay_state =
  rp_transaction_state :: ProtectionTransactionState
  rp_transaction_declared :: bool
  rp_node_records :: "JournalNodeRecord list"
  rp_node_states :: "(string, NodeWalState) dict"
  rp_node_identities :: "(string, identity) dict"
  rp_expected_sequence :: int

definition replay_init :: replay_state where
  "replay_init = \<lparr>rp_transaction_state = INITIAL_TRANSACTION_STATE, rp_transaction_declared = False,
     rp_node_records = [], rp_node_states = [], rp_node_identities = [], rp_expected_sequence = 2\<rparr>"

definition replay_transaction :: "replay_state \<Rightarrow> JournalTransactionRecord \<Rightarrow> pj_error + replay_state" where
  "replay_transaction st t =
     (if \<not> rp_transaction_declared st \<and> tx_state t = INITIAL_TRANSACTION_STATE
      then Inr (st\<lparr>rp_transaction_declared := True\<rparr>)
      else res_bind (assert_transaction_transition (rp_transaction_state st) (tx_state t)) (\<lambda>_.
        Inr (st\<lparr>rp_transaction_state := tx_state t, rp_transaction_declared := True\<rparr>)))"

definition replay_node :: "replay_state \<Rightarrow> JournalNodeRecord \<Rightarrow> pj_error + replay_state" where
  "replay_node st n =
     (let path = node_relative_path n in
      res_bind (assert_node_transition (dget (rp_node_states st) path) (node_wal_state n)) (\<lambda>_.
        case dget (rp_node_identities st) path of
          Some known \<Rightarrow> if known \<noteq> node_identity n then Inl Schema_error
            else Inr (st\<lparr>rp_node_identities := dset path (node_identity n) (rp_node_identities st),
              rp_node_states := dset path (node_wal_state n) (rp_node_states st),
              rp_node_records := rp_node_records st @ [n]\<rparr>)
        | None \<Rightarrow> Inr (st\<lparr>rp_node_identities := dset path (node_identity n) (rp_node_identities st),
              rp_node_states := dset path (node_wal_state n) (rp_node_states st),
              rp_node_records := rp_node_records st @ [n]\<rparr>)))"

definition replay_step :: "replay_state \<Rightarrow> JournalRecord \<Rightarrow> pj_error + replay_state" where
  "replay_step st record =
     (if record_sequence record \<noteq> rp_expected_sequence st then Inl Schema_error
      else let st' = st\<lparr>rp_expected_sequence := rp_expected_sequence st + 1\<rparr> in
        (case record of
           Transaction_record t \<Rightarrow> replay_transaction st' t
         | Node_record n \<Rightarrow> replay_node st' n
         | Header_record _ \<Rightarrow> Inl Schema_error))"

definition replay_result :: "JournalHeaderRecord \<Rightarrow> replay_state \<Rightarrow> ProtectionJournal" where
  "replay_result header st =
     \<lparr>pj_operation_id = hdr_operation_id header,
      pj_authorized_plan_digest = hdr_authorized_plan_digest header,
      pj_physical_root = \<lparr>phys_canonical_root = hdr_canonical_root header,
        phys_volume_serial_number = hdr_volume_serial_number header, phys_root_file_id = hdr_root_file_id header\<rparr>,
      pj_transaction_state = rp_transaction_state st, pj_node_records = rp_node_records st,
      pj_created_at = hdr_created_at header, pj_sequence = rp_expected_sequence st - 1,
      pj_schema_version = hdr_schema_version header\<rparr>"

definition replay_journal_records :: "JournalRecord list \<Rightarrow> pj_error + ProtectionJournal" where
  "replay_journal_records records =
     (case records of
        Header_record header # rest \<Rightarrow>
          if hdr_sequence header \<noteq> 1 then Inl Schema_error
          else res_bind (res_fold replay_step replay_init rest) (\<lambda>st. Inr (replay_result header st))
      | _ \<Rightarrow> Inl Schema_error)"

subsection \<open>Reading the durable bytes\<close>

datatype JournalLoadDisposition = VALID | TORN_TAIL | SCHEMA_INVALID

record JournalLoadResult =
  disposition :: JournalLoadDisposition
  loaded_journal :: "ProtectionJournal option"

text \<open>The result, or an exception that is none of the module's and so leaves \<open>parse_journal_bytes\<close>.\<close>

definition parse_journal_bytes :: "string \<Rightarrow> pj_error + JournalLoadResult" where
  "parse_journal_bytes raw =
     (if raw = [] \<or> last raw \<noteq> LF then Inr \<lparr>disposition = TORN_TAIL, loaded_journal = None\<rparr>
      else (case res_map parse_journal_line (butlast (split_on LF raw)) of
          Inl Value_error \<Rightarrow> Inl Value_error
        | Inl _ \<Rightarrow> Inr \<lparr>disposition = SCHEMA_INVALID, loaded_journal = None\<rparr>
        | Inr records \<Rightarrow>
            (case replay_journal_records records of
               Inl _ \<Rightarrow> Inr \<lparr>disposition = SCHEMA_INVALID, loaded_journal = None\<rparr>
             | Inr journal \<Rightarrow> Inr \<lparr>disposition = VALID, loaded_journal = Some journal\<rparr>)))"

definition deserialize_journal_bytes :: "string \<Rightarrow> pj_error + ProtectionJournal" where
  "deserialize_journal_bytes raw =
     res_bind (parse_journal_bytes raw) (\<lambda>result.
       case loaded_journal result of
         Some journal \<Rightarrow>
           if disposition result = VALID then Inr journal
           else if disposition result = TORN_TAIL then Inl Indeterminate_error else Inl Schema_error
       | None \<Rightarrow> if disposition result = TORN_TAIL then Inl Indeterminate_error else Inl Schema_error)"

text \<open>The bytes that appending the records one after the other leaves in the file.\<close>

definition journal_bytes :: "JournalRecord list \<Rightarrow> pj_error + string" where
  "journal_bytes records = res_bind (res_map serialize_journal_record records) (\<lambda>lines. Inr (concat lines))"

subsection \<open>What a replayed history looks like\<close>

definition node_records_of :: "JournalRecord list \<Rightarrow> JournalNodeRecord list" where
  "node_records_of rs = concat (map (\<lambda>r. case r of Node_record n \<Rightarrow> [n] | _ \<Rightarrow> []) rs)"

definition tx_states_of :: "JournalRecord list \<Rightarrow> ProtectionTransactionState list" where
  "tx_states_of rs = concat (map (\<lambda>r. case r of Transaction_record t \<Rightarrow> [tx_state t] | _ \<Rightarrow> []) rs)"

definition records_for :: "string \<Rightarrow> JournalNodeRecord list \<Rightarrow> JournalNodeRecord list" where
  "records_for path ns = filter (\<lambda>n. node_relative_path n = path) ns"

text \<open>One node's part of the log: nothing, an intent, or an intent and its completion, always of the
  same physical object.\<close>

fun wal_history :: "JournalNodeRecord list \<Rightarrow> bool" where
  "wal_history [] = True"
| "wal_history [a] = (node_wal_state a = MUTATING)"
| "wal_history [a, b] = (node_wal_state a = MUTATING \<and> node_wal_state b = MUTATED \<and> node_identity a = node_identity b)"
| "wal_history _ = False"

definition replay_inv :: "JournalRecord list \<Rightarrow> replay_state \<Rightarrow> bool" where
  "replay_inv rs st \<longleftrightarrow>
     rp_expected_sequence st = 2 + int (length rs) \<and> rp_node_records st = node_records_of rs
     \<and> rp_transaction_declared st = (tx_states_of rs \<noteq> [])
     \<and> (\<exists>us. (tx_states_of rs = us \<or> tx_states_of rs = INITIAL_TRANSACTION_STATE # us)
          \<and> fsm_path tx_allowed INITIAL_TRANSACTION_STATE us
          \<and> rp_transaction_state st = last (INITIAL_TRANSACTION_STATE # us))
     \<and> (\<forall>path. let h = records_for path (node_records_of rs) in wal_history h
          \<and> dget (rp_node_states st) path = (if h = [] then None else Some (node_wal_state (last h)))
          \<and> dget (rp_node_identities st) path = (if h = [] then None else Some (node_identity (last h))))"

lemma records_of_snoc [simp]:
  "node_records_of (rs @ [Node_record n]) = node_records_of rs @ [n]"
  "node_records_of (rs @ [Transaction_record t]) = node_records_of rs"
  "tx_states_of (rs @ [Node_record n]) = tx_states_of rs"
  "tx_states_of (rs @ [Transaction_record t]) = tx_states_of rs @ [tx_state t]"
  by (simp_all add: node_records_of_def tx_states_of_def)

lemma wal_history_snoc:
  assumes "wal_history h"
    and "h = [] \<and> node_wal_state n = MUTATING
      \<or> h \<noteq> [] \<and> node_wal_state (last h) = MUTATING \<and> node_wal_state n = MUTATED \<and> node_identity (last h) = node_identity n"
  shows "wal_history (h @ [n])"
  using assms by (cases h rule: wal_history.cases) auto

lemma replay_inv_init: "replay_inv [] replay_init"
  by (auto simp: replay_inv_def replay_init_def node_records_of_def tx_states_of_def records_for_def
      intro: exI [of _ "[]"])

lemma replay_inv_transaction:
  assumes "replay_inv rs st" and "replay_step st (Transaction_record t) = Inr st'"
  shows "replay_inv (rs @ [Transaction_record t]) st'"
proof -
  let ?i = INITIAL_TRANSACTION_STATE
  from assms(1) obtain us where us: "tx_states_of rs = us \<or> tx_states_of rs = ?i # us" "fsm_path tx_allowed ?i us"
      "rp_transaction_state st = last (?i # us)"
    by (auto simp: replay_inv_def)
  consider (first) "\<not> rp_transaction_declared st" "tx_state t = ?i"
      "st' = st\<lparr>rp_expected_sequence := rp_expected_sequence st + 1, rp_transaction_declared := True\<rparr>"
    | (move) "tx_allowed (rp_transaction_state st) (tx_state t)"
      "st' = st\<lparr>rp_expected_sequence := rp_expected_sequence st + 1, rp_transaction_state := tx_state t,
         rp_transaction_declared := True\<rparr>"
    using assms(2) by (auto simp: replay_step_def replay_transaction_def Let_def res_bind_Inr split: if_splits)
  then show ?thesis
  proof cases
    case first
    with assms(1) have "tx_states_of rs = []" by (simp add: replay_inv_def)
    with us have "us = []" by auto
    with us first have "\<exists>vs. ([?i] = vs \<or> [?i] = ?i # vs) \<and> fsm_path tx_allowed ?i vs
        \<and> rp_transaction_state st' = last (?i # vs)"
      by (intro exI [of _ "[]"]) simp
    with assms(1) first \<open>tx_states_of rs = []\<close> show ?thesis
      unfolding replay_inv_def by simp
  next
    case move
    with us have "fsm_path tx_allowed ?i (us @ [tx_state t])" by (simp add: fsm_path_append)
    with us(1) move have "\<exists>vs. (tx_states_of rs @ [tx_state t] = vs \<or> tx_states_of rs @ [tx_state t] = ?i # vs)
        \<and> fsm_path tx_allowed ?i vs \<and> rp_transaction_state st' = last (?i # vs)"
      by (intro exI [of _ "us @ [tx_state t]"]) auto
    with assms(1) move show ?thesis
      unfolding replay_inv_def by simp
  qed
qed

lemma records_for_snoc:
  "records_for p (ns @ [n]) = (if p = node_relative_path n then records_for p ns @ [n] else records_for p ns)"
  by (simp add: records_for_def)

lemma replay_inv_node:
  assumes "replay_inv rs st" and "replay_step st (Node_record n) = Inr st'"
  shows "replay_inv (rs @ [Node_record n]) st'"
proof -
  let ?p = "node_relative_path n" and ?H = "\<lambda>p. records_for p (node_records_of rs)"
  have inv: "wal_history (?H p)"
      "dget (rp_node_states st) p = (if ?H p = [] then None else Some (node_wal_state (last (?H p))))"
      "dget (rp_node_identities st) p = (if ?H p = [] then None else Some (node_identity (last (?H p))))" for p
    using assms(1) by (simp_all add: replay_inv_def Let_def)
  have edge: "dget (rp_node_states st) ?p = None \<and> node_wal_state n = MUTATING
      \<or> dget (rp_node_states st) ?p = Some MUTATING \<and> node_wal_state n = MUTATED"
    and same: "dget (rp_node_identities st) ?p = None \<or> dget (rp_node_identities st) ?p = Some (node_identity n)"
    and st': "st' = st\<lparr>rp_expected_sequence := rp_expected_sequence st + 1,
        rp_node_identities := dset ?p (node_identity n) (rp_node_identities st),
        rp_node_states := dset ?p (node_wal_state n) (rp_node_states st), rp_node_records := rp_node_records st @ [n]\<rparr>"
    using assms(2) by (auto simp: replay_step_def replay_node_def Let_def res_bind_Inr split: if_splits option.splits)
  have "wal_history (?H ?p @ [n])"
    using inv [of ?p] edge same by (intro wal_history_snoc) (auto split: if_splits)
  with assms(1) inv show ?thesis
    unfolding replay_inv_def st' Let_def by (auto simp: records_for_snoc)
qed

lemma replay_inv_fold: "res_fold replay_step replay_init rs = Inr st \<Longrightarrow> replay_inv rs st"
proof (induction rs arbitrary: st rule: rev_induct)
  case Nil
  then show ?case using replay_inv_init by simp
next
  case (snoc r rs)
  then obtain st0 where st0: "res_fold replay_step replay_init rs = Inr st0" "replay_step st0 r = Inr st"
    by (auto simp: res_fold_append res_bind_Inr)
  show ?case
  proof (cases r)
    case (Header_record h)
    with st0 show ?thesis by (simp add: replay_step_def Let_def split: if_splits)
  qed (use snoc.IH [OF st0(1)] st0(2) replay_inv_transaction replay_inv_node in blast)+
qed

lemma replay_invD:
  assumes "replay_journal_records rs = Inr j"
  obtains h rest st where "rs = Header_record h # rest" and "hdr_sequence h = 1"
    and "res_fold replay_step replay_init rest = Inr st" and "replay_inv rest st" and "j = replay_result h st"
  using assms replay_inv_fold
  by (fastforce simp: replay_journal_records_def res_bind_Inr split: list.splits JournalRecord.splits if_splits)

lemma records_of_header [simp]:
  "node_records_of (Header_record h # rs) = node_records_of rs"
  "tx_states_of (Header_record h # rs) = tx_states_of rs"
  by (simp_all add: node_records_of_def tx_states_of_def)

lemma replay_nodes:
  assumes "replay_journal_records rs = Inr j"
  shows "pj_node_records j = node_records_of rs" and "pj_sequence j = int (length rs)"
    and "wal_history (records_for path (pj_node_records j))"
  by (rule replay_invD [OF assms]; simp add: replay_inv_def replay_result_def Let_def)+

lemma replay_tx_path:
  assumes "replay_journal_records rs = Inr j"
  obtains us where "tx_states_of rs = us \<or> tx_states_of rs = INITIAL_TRANSACTION_STATE # us"
    and "fsm_path tx_allowed INITIAL_TRANSACTION_STATE us"
    and "pj_transaction_state j = last (INITIAL_TRANSACTION_STATE # us)"
  by (rule replay_invD [OF assms]) (auto simp: replay_inv_def replay_result_def)

text \<open>The replay of a prefix of a valid history succeeds: a history is valid at every moment.\<close>

lemma replay_prefix:
  assumes "replay_journal_records rs = Inr j" and "0 < k"
  shows "\<exists>j'. replay_journal_records (take k rs) = Inr j'"
proof -
  from assms(1) obtain h rest st where rs: "rs = Header_record h # rest" "hdr_sequence h = 1"
      "res_fold replay_step replay_init rest = Inr st" by (rule replay_invD)
  have "res_fold replay_step replay_init (take (k - 1) rest @ drop (k - 1) rest) = Inr st"
    using rs(3) by simp
  then have "\<exists>st'. res_fold replay_step replay_init (take (k - 1) rest) = Inr st'"
    unfolding res_fold_append by (auto simp: res_bind_Inr)
  with rs(1,2) assms(2) show ?thesis
    by (cases k) (auto simp: replay_journal_records_def res_bind_Inr)
qed

subsection \<open>Properties\<close>

definition unlines :: "string list \<Rightarrow> string" where
  "unlines bs = concat (map (\<lambda>b. b @ [LF]) bs)"

lemma unlines_simps [simp]: "unlines [] = []" "unlines (b # bs) = b @ LF # unlines bs"
  by (simp_all add: unlines_def)

lemma unlines_last: "bs \<noteq> [] \<Longrightarrow> unlines bs \<noteq> [] \<and> last (unlines bs) = LF"
  by (induction bs rule: rev_induct) (simp_all add: unlines_def)

lemma split_lines:
  "(\<And>b. b \<in> set bs \<Longrightarrow> LF \<notin> set b) \<Longrightarrow> split_on LF (unlines bs) = bs @ [[]]"
  by (induction bs) (simp_all add: split_on_append)

lemma parse_journal_bytes_lines:
  assumes "bs \<noteq> []" and "\<And>b. b \<in> set bs \<Longrightarrow> LF \<notin> set b"
    and "res_map parse_journal_line bs = Inr rs" and "replay_journal_records rs = Inr j"
  shows "parse_journal_bytes (unlines bs) = Inr \<lparr>disposition = VALID, loaded_journal = Some j\<rparr>"
proof -
  have "butlast (split_on LF (unlines bs)) = bs" by (subst split_lines) (use assms(2) in simp_all)
  then show ?thesis
    using unlines_last [OF assms(1)] by (simp add: parse_journal_bytes_def assms(3,4))
qed

lemma journal_bytes_Nil [simp]: "journal_bytes [] = Inr []"
  by (simp add: journal_bytes_def)

lemma journal_bytes_append:
  "journal_bytes (rs @ ts) = res_bind (journal_bytes rs) (\<lambda>u. res_bind (journal_bytes ts) (\<lambda>v. Inr (u @ v)))"
  by (cases "res_map serialize_journal_record rs"; cases "res_map serialize_journal_record ts")
     (simp_all add: journal_bytes_def res_map_append)

lemma journal_bytes_Cons:
  "journal_bytes (r # ts) = res_bind (serialize_journal_record r) (\<lambda>u. res_bind (journal_bytes ts) (\<lambda>v. Inr (u @ v)))"
  using journal_bytes_append [of "[r]" ts] by (cases "serialize_journal_record r") (simp_all add: journal_bytes_def)

lemma journal_bytes_bodies:
  assumes "list_all record_valid rs" and "journal_bytes rs = Inr raw"
  shows "\<exists>bs. raw = unlines bs \<and> length bs = length rs \<and> (\<forall>b \<in> set bs. LF \<notin> set b \<and> b \<noteq> [])
    \<and> (\<forall>k. res_map parse_journal_line (take k bs) = Inr (take k rs))
    \<and> (\<forall>k. journal_bytes (take k rs) = Inr (unlines (take k bs)))"
  using assms
proof (induction rs arbitrary: raw)
    case Nil
    then show ?case by (intro exI [of _ "[]"]) (simp add: journal_bytes_def)
  next
    case (Cons r rs)
    from Cons.prems(2) obtain line raw' where line: "serialize_journal_record r = Inr line"
        and raw': "journal_bytes rs = Inr raw'" "raw = line @ raw'"
      by (auto simp: journal_bytes_Cons res_bind_Inr)
    from parse_serialized_line [OF _ line] Cons.prems(1) obtain b where
      b: "line = b @ [LF]" "LF \<notin> set b" "b \<noteq> []" "parse_journal_line b = Inr r" by auto
    from Cons.IH [OF _ raw'(1)] Cons.prems(1) obtain bs where bs: "raw' = unlines bs"
        "length bs = length rs" "\<forall>b \<in> set bs. LF \<notin> set b \<and> b \<noteq> []"
        "\<forall>k. res_map parse_journal_line (take k bs) = Inr (take k rs)"
        "\<forall>k. journal_bytes (take k rs) = Inr (unlines (take k bs))" by auto
    have "journal_bytes (take k (r # rs)) = Inr (unlines (take k (b # bs)))" for k
      using bs(5) line b(1) by (cases k) (simp_all add: journal_bytes_Cons)
    moreover have "res_map parse_journal_line (take k (b # bs)) = Inr (take k (r # rs))" for k
      using bs(4) b(4) by (cases k) simp_all
    ultimately show ?case using b raw' bs by (intro exI [of _ "b # bs"]) simp
qed

lemma prefix_of_lines:
  assumes "prefix p (unlines bs)" and "p \<noteq> []" and "last p = LF"
    and "\<And>b. b \<in> set bs \<Longrightarrow> LF \<notin> set b"
  shows "\<exists>k. 0 < k \<and> k \<le> length bs \<and> p = unlines (take k bs)"
  using assms
proof (induction bs arbitrary: p)
  case (Cons b bs)
  from Cons.prems(1) consider "prefix p b" | q where "p = (b @ [LF]) @ q" "prefix q (unlines bs)"
    by (auto simp: prefix_append prefix_Cons)
  then show ?case
  proof cases
    case 1
    with Cons.prems(2,3) have "LF \<in> set b" by (metis last_in_set set_mono_prefix subsetD)
    with Cons.prems(4) [of b] show ?thesis by simp
  next
    case 2
    show ?thesis
    proof (cases "q = []")
      case True
      with 2 show ?thesis by (intro exI [of _ 1]) simp
    next
      case False
      with Cons.IH [OF 2(2)] Cons.prems(3,4) 2(1) obtain k where
        "0 < k" "k \<le> length bs" "q = unlines (take k bs)" by auto
      with 2(1) show ?thesis by (intro exI [of _ "Suc k"]) simp
    qed
  qed
qed simp

text \<open>C25: a crash at any byte of a write. Whatever prefix of the bytes of a valid history is left in
  the file, the reader calls it torn, or reads exactly the records that are complete in it; it never
  derives a state that the transaction was not in.\<close>

theorem crash_consistent:
  assumes "list_all record_valid rs" and "journal_bytes rs = Inr raw" and "replay_journal_records rs = Inr j"
    and "prefix p raw"
  shows "(p = [] \<or> last p \<noteq> LF) \<and> parse_journal_bytes p = Inr \<lparr>disposition = TORN_TAIL, loaded_journal = None\<rparr>
    \<or> (\<exists>k j'. 0 < k \<and> k \<le> length rs \<and> journal_bytes (take k rs) = Inr p \<and> replay_journal_records (take k rs) = Inr j'
        \<and> parse_journal_bytes p = Inr \<lparr>disposition = VALID, loaded_journal = Some j'\<rparr>)"
proof (cases "p = [] \<or> last p \<noteq> LF")
  case True
  then show ?thesis by (auto simp: parse_journal_bytes_def)
next
  case False
  obtain bs where bs: "raw = unlines bs" "length bs = length rs"
      "\<And>b. b \<in> set bs \<Longrightarrow> LF \<notin> set b \<and> b \<noteq> []"
      "\<And>k. res_map parse_journal_line (take k bs) = Inr (take k rs)"
      "\<And>k. journal_bytes (take k rs) = Inr (unlines (take k bs))"
    using journal_bytes_bodies [OF assms(1,2)] by blast
  with prefix_of_lines [of p bs] False assms(4) obtain k where
    k: "0 < k" "k \<le> length bs" "p = unlines (take k bs)" by auto
  from replay_prefix [OF assms(3) k(1)] obtain j' where j': "replay_journal_records (take k rs) = Inr j'" ..
  have "parse_journal_bytes p = Inr \<lparr>disposition = VALID, loaded_journal = Some j'\<rparr>"
    unfolding k(3) using k bs(3) j' by (intro parse_journal_bytes_lines [OF _ _ bs(4)]) (auto dest: in_set_takeD)
  with k bs(2) bs(5) [of k] j' show ?thesis by auto
qed

text \<open>Reading the complete bytes gives back the state of the whole history.\<close>

lemma journal_roundtrip:
  assumes "list_all record_valid rs" and "journal_bytes rs = Inr raw" and "replay_journal_records rs = Inr j"
  shows "parse_journal_bytes raw = Inr \<lparr>disposition = VALID, loaded_journal = Some j\<rparr>"
proof -
  obtain bs where bs: "raw = unlines bs" "length bs = length rs"
      "\<And>b. b \<in> set bs \<Longrightarrow> LF \<notin> set b \<and> b \<noteq> []" "\<And>k. res_map parse_journal_line (take k bs) = Inr (take k rs)"
      "\<And>k. journal_bytes (take k rs) = Inr (unlines (take k bs))"
    using journal_bytes_bodies [OF assms(1,2)] by blast
  have "bs \<noteq> []" using assms(3) bs(2) by (auto simp: replay_journal_records_def)
  with bs(1,2,3) bs(4) [of "length rs"] assms(3) show ?thesis
    by (simp add: parse_journal_bytes_lines)
qed

lemma tx_edges [simp]:
  "tx_allowed APPLYING t \<longleftrightarrow> t \<in> {VERIFYING_GP1, ROLLBACK_REQUIRED, INDETERMINATE}"
  "tx_allowed VERIFYING_GP1 t \<longleftrightarrow> t \<in> {VERIFYING_RV2, ROLLBACK_REQUIRED, INDETERMINATE}"
  "tx_allowed VERIFYING_RV2 t \<longleftrightarrow> t \<in> {VERIFYING_NODE_SET, ROLLBACK_REQUIRED, INDETERMINATE}"
  "tx_allowed VERIFYING_NODE_SET t \<longleftrightarrow> t \<in> {ARCHIVING_BACKUP, ROLLBACK_REQUIRED, INDETERMINATE}"
  "tx_allowed ARCHIVING_BACKUP t \<longleftrightarrow> t \<in> {COMMITTED, ROLLBACK_REQUIRED}"
  "tx_allowed ROLLBACK_REQUIRED t \<longleftrightarrow> t \<in> {ROLLING_BACK, INDETERMINATE}"
  "tx_allowed ROLLING_BACK t \<longleftrightarrow> t \<in> {ROLLED_BACK, ROLLBACK_FAILED, INDETERMINATE}"
  "\<not> tx_allowed COMMITTED t" "\<not> tx_allowed ROLLED_BACK t" "\<not> tx_allowed ROLLBACK_FAILED t" "\<not> tx_allowed INDETERMINATE t"
  by (auto simp: tx_allowed_def)

definition failing :: "ProtectionTransactionState \<Rightarrow> bool" where
  "failing s \<longleftrightarrow> s \<in> {ROLLBACK_REQUIRED, ROLLING_BACK, ROLLED_BACK, ROLLBACK_FAILED, INDETERMINATE}"

lemma failing_step: "failing s \<Longrightarrow> tx_allowed s t \<Longrightarrow> failing t"
  by (auto simp: failing_def)

lemma failing_not_committed: "failing s \<Longrightarrow> s \<noteq> COMMITTED"
  by (auto simp: failing_def)

text \<open>Once a transaction has entered the failure branch no later record commits it.\<close>

lemma rollback_never_commits: "failing s \<Longrightarrow> fsm_path tx_allowed s us \<Longrightarrow> last (s # us) \<noteq> COMMITTED"
proof (induction us arbitrary: s)
  case (Cons u us)
  then have "failing u" "fsm_path tx_allowed u us" using failing_step by auto
  with Cons.IH show ?case by simp
qed (simp add: failing_not_committed)

text \<open>The phases that lie between a state of the success branch and the commit.\<close>

fun gates :: "ProtectionTransactionState \<Rightarrow> ProtectionTransactionState list" where
  "gates APPLYING = [VERIFYING_GP1, VERIFYING_RV2, VERIFYING_NODE_SET, ARCHIVING_BACKUP, COMMITTED]"
| "gates VERIFYING_GP1 = [VERIFYING_RV2, VERIFYING_NODE_SET, ARCHIVING_BACKUP, COMMITTED]"
| "gates VERIFYING_RV2 = [VERIFYING_NODE_SET, ARCHIVING_BACKUP, COMMITTED]"
| "gates VERIFYING_NODE_SET = [ARCHIVING_BACKUP, COMMITTED]"
| "gates ARCHIVING_BACKUP = [COMMITTED]"
| "gates _ = []"

definition succeeding :: "ProtectionTransactionState \<Rightarrow> bool" where
  "succeeding s \<longleftrightarrow> s \<in> {APPLYING, VERIFYING_GP1, VERIFYING_RV2, VERIFYING_NODE_SET, ARCHIVING_BACKUP, COMMITTED}"

lemma gate_step: "succeeding s \<Longrightarrow> tx_allowed s t \<Longrightarrow> \<not> failing t \<Longrightarrow> succeeding t \<and> gates s = t # gates t"
  by (cases s) (auto simp: succeeding_def failing_def)

lemma path_to_committed:
  "succeeding s \<Longrightarrow> fsm_path tx_allowed s us \<Longrightarrow> last (s # us) = COMMITTED \<Longrightarrow> us = gates s"
proof (induction us arbitrary: s)
  case (Cons u us)
  from Cons.prems have u: "tx_allowed s u" "fsm_path tx_allowed u us" "last (u # us) = COMMITTED" by simp_all
  then have "\<not> failing u" using rollback_never_commits by blast
  with gate_step [OF Cons.prems(1) u(1)] Cons.IH [OF _ u(2,3)] show ?case by simp
qed simp

text \<open>A journal says COMMITTED only if its transaction records are the four verification phases
  and the commit, in order, each once.\<close>

theorem committed_all_gates:
  assumes "replay_journal_records rs = Inr j" and "pj_transaction_state j = COMMITTED"
  shows "\<exists>opening. opening \<in> {[], [APPLYING]} \<and> tx_states_of rs =
    opening @ [VERIFYING_GP1, VERIFYING_RV2, VERIFYING_NODE_SET, ARCHIVING_BACKUP, COMMITTED]"
proof -
  obtain us where us: "tx_states_of rs = us \<or> tx_states_of rs = APPLYING # us" "fsm_path tx_allowed APPLYING us"
      "pj_transaction_state j = last (APPLYING # us)"
    by (rule replay_tx_path [OF assms(1), unfolded INITIAL_TRANSACTION_STATE_def])
  have "us = gates APPLYING"
    using path_to_committed [OF _ us(2)] us(3) assms(2) by (simp add: succeeding_def)
  then have us': "us = [VERIFYING_GP1, VERIFYING_RV2, VERIFYING_NODE_SET, ARCHIVING_BACKUP, COMMITTED]"
    by simp
  from us(1) show ?thesis
  proof
    assume "tx_states_of rs = us"
    then show ?thesis unfolding us' by (intro exI [of _ "[]"]) simp
  next
    assume "tx_states_of rs = APPLYING # us"
    then show ?thesis unfolding us' by (intro exI [of _ "[APPLYING]"]) simp
  qed
qed

lemma dget_latest_records: "dget (latest_records ns) p = find (\<lambda>r. node_relative_path r = p) (rev ns)"
  by (induction ns rule: rev_induct) (auto simp: latest_records_def)

lemma dict_wf_latest_records [simp]: "dict_wf (latest_records ns)"
  by (induction ns rule: rev_induct) (auto simp: latest_records_def)

lemma find_rev_last:
  "find P (rev xs) = (if filter P xs = [] then None else Some (last (filter P xs)))"
  by (induction xs rule: rev_induct) auto

lemma node_record_last:
  "node_record j p = (let h = records_for p (pj_node_records j) in if h = [] then None else Some (last h))"
  by (simp add: node_record_def records_for_def find_rev_last)

lemma in_nodes_in_state:
  "r \<in> set (nodes_in_state j s) \<longleftrightarrow> node_record j (node_relative_path r) = Some r \<and> node_wal_state r = s"
proof -
  let ?d = "latest_records (pj_node_records j)"
  have key: "node_relative_path r' = p" if "(p, r') \<in> set ?d" for p r'
  proof -
    from that have "dget ?d p = Some r'" by (simp add: dget_iff_in)
    then show ?thesis by (auto simp: dget_latest_records find_Some_iff)
  qed
  have "r \<in> snd ` set ?d \<longleftrightarrow> (node_relative_path r, r) \<in> set ?d"
  proof
    assume "r \<in> snd ` set ?d"
    then obtain p where "(p, r) \<in> set ?d" by auto
    with key [of p r] show "(node_relative_path r, r) \<in> set ?d" by simp
  qed (simp add: rev_image_eqI)
  also have "\<dots> \<longleftrightarrow> dget ?d (node_relative_path r) = Some r" by (simp only: dget_iff_in dict_wf_latest_records)
  finally show ?thesis by (simp add: nodes_in_state_def dget_latest_records node_record_def)
qed

text \<open>After a restart the open intents are exactly the nodes whose log is one intent, and the
  completed ones exactly those whose log is an intent and its completion.\<close>

theorem durable_intent_exact:
  assumes "replay_journal_records rs = Inr j"
  shows "(r \<in> set (nodes_with_durable_mutation_intent j) \<longleftrightarrow> records_for (node_relative_path r) (node_records_of rs) = [r])
    \<and> (r \<in> set (nodes_with_durable_mutation_completed j) \<longleftrightarrow>
        (\<exists>a. records_for (node_relative_path r) (node_records_of rs) = [a, r] \<and> node_wal_state a = MUTATING
          \<and> node_identity a = node_identity r))"
proof -
  have h: "wal_history (records_for (node_relative_path r) (node_records_of rs))"
    using replay_nodes(3) [OF assms] replay_nodes(1) [OF assms] by simp
  show ?thesis
    unfolding nodes_with_durable_mutation_intent_def nodes_with_durable_mutation_completed_def in_nodes_in_state
      node_record_last replay_nodes(1) [OF assms] Let_def
    using h by (cases "records_for (node_relative_path r) (node_records_of rs)" rule: wal_history.cases) auto
qed

text \<open>What the reader accepts is well formed: every record is one its class would keep as it is.\<close>

lemma parse_journal_line_valid:
  assumes "parse_journal_line line = Inr r"
  shows "record_valid r"
proof -
  obtain kvs k n where "(case k of HEADER \<Rightarrow> parse_header kvs n | TRANSACTION \<Rightarrow> parse_transaction kvs n
      | NODE \<Rightarrow> parse_node kvs n) = Inr r"
    using assms
    by (auto simp: parse_journal_line_def res_bind_Inr split: if_splits sum.splits json.splits json_error.splits
        option.splits)
  then show ?thesis
    by (cases k)
       (auto simp: parse_header_def parse_transaction_def parse_node_def res_bind_Inr split: option.splits
         simp del: record_valid.simps dest: header_post_init_valid node_post_init_valid transaction_post_init_valid)
qed

lemma parse_valid_records:
  assumes "parse_journal_bytes raw = Inr \<lparr>disposition = VALID, loaded_journal = Some j\<rparr>"
  obtains rs where "res_map parse_journal_line (butlast (split_on LF raw)) = Inr rs" and "list_all record_valid rs"
    and "replay_journal_records rs = Inr j"
proof -
  from assms obtain rs where rs: "res_map parse_journal_line (butlast (split_on LF raw)) = Inr rs"
      "replay_journal_records rs = Inr j"
    by (auto simp: parse_journal_bytes_def split: if_splits sum.splits pj_error.splits)
  moreover from rs(1) have "list_all record_valid rs"
    unfolding res_map_Inr by (induction rule: list_all2_induct) (simp_all add: parse_journal_line_valid)
  ultimately show thesis using that by blast
qed

lemma validate_sha256_hex_shape: "validate_sha256_hex v = Inr s \<Longrightarrow> length s = 64 \<and> list_all hex_lower s"
  by (auto simp: validate_sha256_hex_def Let_def split: json.splits if_splits)

lemma in_node_records_of: "n \<in> set (node_records_of rs) \<longleftrightarrow> Node_record n \<in> set rs"
  by (auto simp: node_records_of_def split: JournalRecord.splits)

text \<open>C31: the nodes a journal read from disk speaks of are inside the protected tree, by relative paths
  without traversal, and carry identities in the ranges of the file system.\<close>

theorem parsed_nodes_confined:
  assumes "parse_journal_bytes raw = Inr \<lparr>disposition = VALID, loaded_journal = Some j\<rparr>" and "n \<in> set (pj_node_records j)"
  shows "''..'' \<notin> set (split_on (CHR ''/'') (node_relative_path n)) \<and> hd (node_relative_path n) \<noteq> CHR ''/''
    \<and> CHR 0x5C \<notin> set (node_relative_path n) \<and> CHR '':'' \<notin> set (node_relative_path n)
    \<and> 0 \<le> node_volume_serial_number n \<and> node_volume_serial_number n < 2 ^ 64
    \<and> 0 \<le> node_file_id n \<and> node_file_id n < 2 ^ 128
    \<and> length (node_pre_sd_sha256 n) = 64 \<and> list_all hex_lower (node_pre_sd_sha256 n)"
proof -
  obtain rs where rs: "list_all record_valid rs" "replay_journal_records rs = Inr j"
    using parse_valid_records [OF assms(1)] by metis
  from assms(2) have "Node_record n \<in> set rs"
    by (simp add: replay_nodes(1) [OF rs(2)] in_node_records_of)
  then have "record_valid (Node_record n)"
    using rs(1) unfolding list_all_iff by blast
  then have "node_post_init n = Inr n" by simp
  from node_fields [OF this] show ?thesis
    using validate_relative_path_safe [of _ "node_relative_path n"] validate_sha256_hex_shape [of _ "node_pre_sd_sha256 n"]
    by (auto simp: validate_uint_Inr MAX_UINT64_def MAX_UINT128_def)
qed

lemma loads_huge:
  assumes "n > MAX_INT_DIGITS"
  shows "loads_with h (replicate n (CHR ''1'')) = Inl Int_too_long"
proof -
  obtain m where m: "n = Suc m" using assms by (cases n) simp_all
  let ?t = "replicate m (CHR ''1'')" and ?s = "CHR ''1'' # replicate m (CHR ''1'')"
  have d: "is_digit (CHR ''1'')" "byte_of (CHR ''1'') = 49" by (simp_all add: is_digit_def byte_of_def)
  have u: "utf8_ok ?s" by (rule utf8_ok_ascii) (auto simp: d)
  have w: "skip_ws ?s = ?s" by (simp add: skip_ws_def is_ws_def d)
  have "takeWhile is_digit ?t = ?t" "dropWhile is_digit ?t = []" by (auto simp: takeWhile_eq_all_conv d)
  then have "take_digits ?s = (?s, [])" by (simp add: take_digits_def d)
  then have "scan_unsigned ?s = Some (?s, [], [], [])"
    unfolding scan_unsigned_def scan_int_part_def by (simp add: d scan_frac_def scan_exp_def)
  then have "scan_number ?s = Inl Int_too_long"
    using assms m by (simp add: scan_number_def d number_value_def Let_def)
  then have "parse_value h ?s = Inl Int_too_long"
    using scan_constant_number(1) [OF d(1), of ?t] by (subst parse_value.simps) (simp add: d)
  with u w m show ?thesis by (simp add: loads_with_def)
qed

text \<open>The reader does not classify every content: a record whose text has an integer of more than
  4300 digits makes \<open>int\<close> raise a \<open>ValueError\<close>, which leaves \<open>parse_journal_bytes\<close>.\<close>

theorem huge_integer_escapes:
  assumes "MAX_INT_DIGITS < n"
  shows "parse_journal_bytes (replicate n (CHR ''1'') @ [LF]) = Inl Value_error"
proof -
  have "split_on LF (replicate n (CHR ''1'') @ LF # []) = [replicate n (CHR ''1''), []]"
    by (subst split_on_append) auto
  moreover have "parse_journal_line (replicate n (CHR ''1'')) = Inl Value_error"
    using assms by (simp add: parse_journal_line_def loads_huge)
  ultimately show ?thesis by (simp add: parse_journal_bytes_def)
qed

end
