(* ===== verification/Vault_Plan.thy ===== *)
theory Vault_Plan
  imports Protection_Journal "HOL-Library.Product_Lexorder" "HOL-Library.Multiset"
begin

text \<open>
  The authorized plan of a Golden protection operation, as its users read it: the table of nodes
  with the security descriptor each had before (\<open>golden_protection_plan.py\<close>), the plan
  (\<open>authorized_plan.py\<close>), the backup manifest built from it and its binding to the plan
  (\<open>golden_backup_archive.py\<close>), and the two orders in which nodes are mutated and restored
  (\<open>mutation_executor.py\<close>), all of \<open>local/runtime_vault\<close>.

  A digest is the text of its hexadecimal digits; how it is computed plays no part here. The
  descriptor's bytes are their base64 text. \<open>str.upper\<close> on a root path acts as on ASCII.
\<close>

subsection \<open>Nodes and plan\<close>

datatype GoldenProtectionNodeKind = DIR | FILE

fun node_kind_value :: "GoldenProtectionNodeKind \<Rightarrow> string" where
  "node_kind_value DIR = ''dir''"
| "node_kind_value FILE = ''file''"

record NodeSecurityBackup =
  relative_path :: string
  node_kind :: GoldenProtectionNodeKind
  volume_serial_number :: int
  file_id :: int
  pre_sd_bytes_b64 :: string
  pre_sd_length :: int
  pre_sd_sha256 :: string
  owner_sid :: string
  group_sid :: string
  dacl_control_flags :: int
  pre_dacl_protected_flag :: bool
  sddl_diagnostic :: string

record TreeDigest =
  td_digest :: string
  td_files :: int
  td_bytes :: int

record OperatorTokenEvidence =
  op_operator_sid :: string
  op_token_type :: string
  op_acquired_via :: string

record AuthorizedPlan =
  ap_schema_version :: string
  ap_operation_id :: string
  ap_canonical_root :: string
  ap_volume_serial_number :: int
  ap_root_file_id :: int
  ap_tree_digest :: TreeDigest
  ap_node_count :: int
  ap_policy_version :: string
  ap_staging_digest :: string
  ap_operator_identity :: OperatorTokenEvidence
  ap_nodes :: "NodeSecurityBackup list"
  ap_plan_digest :: string

definition node_for :: "AuthorizedPlan \<Rightarrow> string \<Rightarrow> NodeSecurityBackup option" where
  "node_for plan path = find (\<lambda>n. relative_path n = path) (ap_nodes plan)"

text \<open>\<open>_validate_node_set\<close>: the loop over the nodes with its two sets, then the tests on the root.\<close>

datatype plan_error = Plan_creation_error | Duplicate_file_id_error

fun node_set_loop ::
  "int \<Rightarrow> string list \<Rightarrow> (int \<times> int) list \<Rightarrow> NodeSecurityBackup list \<Rightarrow> NodeSecurityBackup list
    \<Rightarrow> plan_error + NodeSecurityBackup list" where
  "node_set_loop vol paths ids roots [] = Inr roots"
| "node_set_loop vol paths ids roots (n # ns) =
     (if relative_path n \<in> set paths then Inl Plan_creation_error
      else if volume_serial_number n \<noteq> vol then Inl Plan_creation_error
      else if (volume_serial_number n, file_id n) \<in> set ids then Inl Duplicate_file_id_error
      else node_set_loop vol (set_add (relative_path n) paths) (set_add (volume_serial_number n, file_id n) ids)
             (if relative_path n = ''.'' then roots @ [n] else roots) ns)"

definition validate_node_set :: "NodeSecurityBackup list \<Rightarrow> int \<Rightarrow> int \<Rightarrow> plan_error + unit" where
  "validate_node_set nodes vol root_fid =
     (if nodes = [] then Inl Plan_creation_error
      else res_bind (node_set_loop vol [] [] [] nodes) (\<lambda>roots.
        case roots of
          [root] \<Rightarrow> if node_kind root \<noteq> DIR then Inl Plan_creation_error
            else if file_id root \<noteq> root_fid then Inl Plan_creation_error else Inr ()
        | _ \<Rightarrow> Inl Plan_creation_error))"

lemma node_set_loop_Inr:
  "node_set_loop vol paths ids roots ns = Inr rs \<longleftrightarrow>
     distinct (map relative_path ns) \<and> set (map relative_path ns) \<inter> set paths = {}
     \<and> (\<forall>n \<in> set ns. volume_serial_number n = vol)
     \<and> distinct (map (\<lambda>n. (volume_serial_number n, file_id n)) ns)
     \<and> set (map (\<lambda>n. (volume_serial_number n, file_id n)) ns) \<inter> set ids = {}
     \<and> rs = roots @ filter (\<lambda>n. relative_path n = ''.'') ns"
  by (induction ns arbitrary: paths ids roots) (auto split: if_splits)

lemma filter_key_unique: "distinct (map f xs) \<Longrightarrow> x \<in> set xs \<Longrightarrow> f x = k \<Longrightarrow> filter (\<lambda>y. f y = k) xs = [x]"
proof (induction xs)
  case (Cons y ys)
  show ?case
  proof (cases "f y = k")
    case True
    with Cons.prems have "y = x" by (metis distinct.simps(2) image_eqI list.simps(9) list.set_map set_ConsD)
    moreover have "filter (\<lambda>z. f z = k) ys = []" using Cons.prems(1) True by (simp add: filter_empty_conv) (metis image_eqI)
    ultimately show ?thesis using True by simp
  next
    case False
    with Cons show ?thesis by auto
  qed
qed simp

lemma filter_eq_singleton: "filter P xs = [x] \<Longrightarrow> x \<in> set xs \<and> P x"
  by (metis filter_is_subset filter_set list.set_intros(1) mem_Collect_eq set_filter subsetD)

text \<open>A node table is accepted exactly when paths and physical identities are unique, all nodes
  are on the volume of the root, and the one root is the expected directory.\<close>

theorem node_set_exact:
  "validate_node_set nodes vol root_fid = Inr () \<longleftrightarrow>
     distinct (map relative_path nodes) \<and> distinct (map file_id nodes)
     \<and> (\<forall>n \<in> set nodes. volume_serial_number n = vol)
     \<and> (\<exists>root \<in> set nodes. relative_path root = ''.'' \<and> node_kind root = DIR \<and> file_id root = root_fid)"
proof -
  have ids: "distinct (map (\<lambda>n. (volume_serial_number n, file_id n)) nodes) \<longleftrightarrow> distinct (map file_id nodes)"
    if "\<forall>n \<in> set nodes. volume_serial_number n = vol"
    using that by (auto simp: distinct_map inj_on_def)
  show ?thesis
  proof
    assume "validate_node_set nodes vol root_fid = Inr ()"
    then obtain root where d: "distinct (map relative_path nodes)" "\<forall>n \<in> set nodes. volume_serial_number n = vol"
        "distinct (map (\<lambda>n. (volume_serial_number n, file_id n)) nodes)"
      and r: "filter (\<lambda>n. relative_path n = ''.'') nodes = [root]" "node_kind root = DIR" "file_id root = root_fid"
      by (auto simp: validate_node_set_def res_bind_Inr node_set_loop_Inr split: if_splits list.splits)
    from filter_eq_singleton [OF r(1)] have "root \<in> set nodes \<and> relative_path root = ''.''" .
    with d ids r show "distinct (map relative_path nodes) \<and> distinct (map file_id nodes)
       \<and> (\<forall>n \<in> set nodes. volume_serial_number n = vol)
       \<and> (\<exists>root \<in> set nodes. relative_path root = ''.'' \<and> node_kind root = DIR \<and> file_id root = root_fid)" by blast
  next
    assume r: "distinct (map relative_path nodes) \<and> distinct (map file_id nodes)
       \<and> (\<forall>n \<in> set nodes. volume_serial_number n = vol)
       \<and> (\<exists>root \<in> set nodes. relative_path root = ''.'' \<and> node_kind root = DIR \<and> file_id root = root_fid)"
    then obtain root where root': "root \<in> set nodes" "relative_path root = ''.''" "node_kind root = DIR" "file_id root = root_fid"
      by blast
    with r have f: "filter (\<lambda>n. relative_path n = ''.'') nodes = [root]" by (intro filter_key_unique) simp_all
    have "node_set_loop vol [] [] [] nodes = Inr [root]"
      unfolding node_set_loop_Inr using r ids f by simp
    moreover have "nodes \<noteq> []" using root'(1) by auto
    ultimately show "validate_node_set nodes vol root_fid = Inr ()"
      using root' by (simp add: validate_node_set_def)
  qed
qed

text \<open>A node of the table is found under its path.\<close>

lemma node_for_in: "node_for plan p = Some n \<Longrightarrow> n \<in> set (ap_nodes plan) \<and> relative_path n = p"
  by (auto simp: node_for_def find_Some_iff)

lemma find_filter_hd: "find P xs = (case filter P xs of [] \<Rightarrow> None | x # _ \<Rightarrow> Some x)"
  by (induction xs) auto

lemma node_for_unique:
  assumes "distinct (map relative_path (ap_nodes plan))" and "n \<in> set (ap_nodes plan)"
  shows "node_for plan (relative_path n) = Some n"
proof -
  have "find (\<lambda>m. relative_path m = relative_path n) (ap_nodes plan) = Some n"
    using filter_key_unique [OF assms refl] by (simp add: find_filter_hd)
  then show ?thesis by (simp add: node_for_def)
qed

subsection \<open>Orders of mutation and of restoration\<close>

definition node_depth :: "string \<Rightarrow> nat" where
  "node_depth path = (if path = ''.'' then 0 else count_list path (CHR ''/'') + 1)"

definition apply_order :: "AuthorizedPlan \<Rightarrow> NodeSecurityBackup list" where
  "apply_order plan = sort_key (\<lambda>n. (- int (node_depth (relative_path n)), relative_path n)) (ap_nodes plan)"

definition rollback_order :: "AuthorizedPlan \<Rightarrow> string list \<Rightarrow> NodeSecurityBackup list" where
  "rollback_order plan mutated =
     sort_key (\<lambda>n. (node_depth (relative_path n), relative_path n))
       (filter (\<lambda>n. relative_path n \<in> set mutated) (ap_nodes plan))"

text \<open>\<open>a\<close> is a proper ancestor of \<open>b\<close>.\<close>

definition ancestor :: "string \<Rightarrow> string \<Rightarrow> bool" where
  "ancestor a b \<longleftrightarrow> b \<noteq> ''.'' \<and> (a = ''.'' \<or> prefix (a @ ''/'') b)"

lemma ancestor_depth: "ancestor a b \<Longrightarrow> node_depth a < node_depth b"
  by (auto simp: ancestor_def node_depth_def prefix_def)

lemma set_apply_order [simp]: "set (apply_order plan) = set (ap_nodes plan)"
  by (simp add: apply_order_def)

lemma set_rollback_order [simp]:
  "set (rollback_order plan ps) = {n \<in> set (ap_nodes plan). relative_path n \<in> set ps}"
  by (auto simp: rollback_order_def)

text \<open>Mutation goes bottom-up and restoration top-down: when one node is an ancestor of another, the
  descendant is mutated first and restored last.\<close>

theorem orders_respect_ancestry:
  assumes "ancestor (relative_path a) (relative_path b)"
  shows "(apply_order plan = xs @ a # ys \<longrightarrow> b \<notin> set ys) \<and> (rollback_order plan ps = xs @ b # ys \<longrightarrow> a \<notin> set ys)"
proof -
  let ?k = "\<lambda>n. (- int (node_depth (relative_path n)), relative_path n)"
    and ?r = "\<lambda>n. (node_depth (relative_path n), relative_path n)"
  have "sorted (map ?k (apply_order plan))" "sorted (map ?r (rollback_order plan ps))"
    by (simp_all add: apply_order_def rollback_order_def)
  with ancestor_depth [OF assms] show ?thesis
    by (fastforce simp: sorted_append less_eq_prod_def)
qed

subsection \<open>The backup manifest\<close>

definition ascii_upper :: "string \<Rightarrow> string" where
  "ascii_upper = map (\<lambda>c. if 97 \<le> (of_char c :: nat) \<and> (of_char c :: nat) \<le> 122 then char_of ((of_char c :: nat) - 32) else c)"

record GoldenBackupArchive =
  gba_operation_id :: string
  gba_canonical_root :: string
  gba_volume_serial_number :: int
  gba_root_file_id :: int
  gba_tree_digest :: TreeDigest
  gba_policy_version :: string
  gba_authorized_plan_digest :: string
  gba_nodes :: "NodeSecurityBackup list"

text \<open>The classes below \<open>GoldenBackupError\<close>, and the exceptions of Python that pass them by.\<close>

datatype backup_error =
    Backup_schema_error | Backup_not_found_error | Backup_indeterminate_error | Backup_already_exists_error
  | Backup_write_error | Backup_namespace_error | Backup_durability_error
  | Backup_os_error | Backup_value_error

definition golden_backup_error :: "backup_error \<Rightarrow> bool" where
  "golden_backup_error e \<longleftrightarrow> e \<notin> {Backup_os_error, Backup_value_error}"

definition orden_canonico :: "NodeSecurityBackup list \<Rightarrow> NodeSecurityBackup list" where
  "orden_canonico nodes = sort_key relative_path nodes"

definition in_range :: "int \<Rightarrow> int \<Rightarrow> bool" where
  "in_range v m \<longleftrightarrow> 0 \<le> v \<and> v \<le> m"

fun archive_node_loop :: "int \<Rightarrow> string list \<Rightarrow> NodeSecurityBackup list \<Rightarrow> backup_error + unit" where
  "archive_node_loop vol seen [] = Inr ()"
| "archive_node_loop vol seen (n # ns) =
     (if volume_serial_number n \<noteq> vol then Inl Backup_schema_error
      else if relative_path n \<in> set seen then Inl Backup_schema_error
      else archive_node_loop vol (set_add (relative_path n) seen) ns)"

definition archive_post_init :: "GoldenBackupArchive \<Rightarrow> backup_error + GoldenBackupArchive" where
  "archive_post_init a =
     res_bind (res_check (py_strip (gba_operation_id a) \<noteq> []) Backup_schema_error) (\<lambda>_.
     res_bind (res_check (py_strip (gba_canonical_root a) \<noteq> []) Backup_schema_error) (\<lambda>_.
     res_bind (res_check (in_range (gba_volume_serial_number a) MAX_UINT64) Backup_schema_error) (\<lambda>_.
     res_bind (res_check (in_range (gba_root_file_id a) MAX_UINT128) Backup_schema_error) (\<lambda>_.
     res_bind (res_check (in_range (td_files (gba_tree_digest a)) MAX_UINT64) Backup_schema_error) (\<lambda>_.
     res_bind (res_check (in_range (td_bytes (gba_tree_digest a)) MAX_UINT64) Backup_schema_error) (\<lambda>_.
     res_bind (res_check (py_strip (gba_policy_version a) \<noteq> []) Backup_schema_error) (\<lambda>_.
     res_bind (res_check (length (gba_authorized_plan_digest a) = 64) Backup_schema_error) (\<lambda>_.
     res_bind (res_check (gba_nodes a \<noteq> []) Backup_schema_error) (\<lambda>_.
     res_bind (archive_node_loop (gba_volume_serial_number a) [] (gba_nodes a)) (\<lambda>_. Inr a))))))))))"

definition build_golden_backup_archive :: "AuthorizedPlan \<Rightarrow> backup_error + GoldenBackupArchive" where
  "build_golden_backup_archive plan =
     archive_post_init \<lparr>gba_operation_id = ap_operation_id plan, gba_canonical_root = ap_canonical_root plan,
       gba_volume_serial_number = ap_volume_serial_number plan, gba_root_file_id = ap_root_file_id plan,
       gba_tree_digest = ap_tree_digest plan, gba_policy_version = ap_policy_version plan,
       gba_authorized_plan_digest = ap_plan_digest plan, gba_nodes = orden_canonico (ap_nodes plan)\<rparr>"

definition binds_to :: "GoldenBackupArchive \<Rightarrow> AuthorizedPlan \<Rightarrow> bool" where
  "binds_to a plan \<longleftrightarrow>
     gba_operation_id a = ap_operation_id plan
     \<and> ascii_upper (gba_canonical_root a) = ascii_upper (ap_canonical_root plan)
     \<and> gba_volume_serial_number a = ap_volume_serial_number plan
     \<and> gba_root_file_id a = ap_root_file_id plan
     \<and> gba_tree_digest a = ap_tree_digest plan
     \<and> gba_policy_version a = ap_policy_version plan
     \<and> gba_authorized_plan_digest a = ap_plan_digest plan
     \<and> gba_nodes a = orden_canonico (ap_nodes plan)"

lemma build_binds: "build_golden_backup_archive plan = Inr a \<Longrightarrow> binds_to a plan"
  by (auto simp: build_golden_backup_archive_def archive_post_init_def res_bind_Inr binds_to_def)

text \<open>A manifest that binds to a plan holds for every node of the plan its record, byte for byte, and
  no other.\<close>

lemma binds_to_nodes: "binds_to a plan \<Longrightarrow> set (gba_nodes a) = set (ap_nodes plan)"
  by (simp add: binds_to_def orden_canonico_def)

lemma archive_node_loop_Inr:
  "archive_node_loop vol seen ns = Inr () \<longleftrightarrow> (\<forall>n \<in> set ns. volume_serial_number n = vol)
     \<and> distinct (map relative_path ns) \<and> set (map relative_path ns) \<inter> set seen = {}"
  by (induction ns arbitrary: seen) (auto split: if_splits)

text \<open>Two plans that one manifest binds to have the same nodes, descriptors included.\<close>

theorem manifest_determines_nodes:
  assumes "binds_to a plan" and "binds_to a plan'" and "distinct (map relative_path (ap_nodes plan))"
  shows "node_for plan' p = node_for plan p \<and> ap_plan_digest plan' = ap_plan_digest plan
    \<and> ap_operation_id plan' = ap_operation_id plan"
proof -
  have s: "orden_canonico (ap_nodes plan') = orden_canonico (ap_nodes plan)"
    using assms(1,2) by (simp add: binds_to_def)
  then have set: "set (ap_nodes plan') = set (ap_nodes plan)"
    by (metis orden_canonico_def set_sort)
  have "mset (ap_nodes plan') = mset (ap_nodes plan)" using s by (metis mset_sort orden_canonico_def)
  then have d: "distinct (map relative_path (ap_nodes plan'))"
    using assms(3) by (metis mset_eq_imp_distinct_iff mset_map)
  have "node_for plan' p = node_for plan p"
  proof (cases "node_for plan p")
    case None
    then have "\<forall>n \<in> set (ap_nodes plan'). relative_path n \<noteq> p" using set by (simp add: node_for_def find_None_iff)
    then have "node_for plan' p = None" by (simp add: node_for_def find_None_iff)
    then show ?thesis using None by simp
  next
    case (Some n)
    then have "n \<in> set (ap_nodes plan')" "relative_path n = p" using node_for_in set by blast+
    with node_for_unique [OF d] Some show ?thesis by auto
  qed
  with assms(1,2) show ?thesis by (simp add: binds_to_def)
qed

end
