(* ===== verification/Plan_Codec.thy ===== *)
theory Plan_Codec
  imports Vault_Plan
begin

text \<open>
  The authorized plan as a file: the validation of a node record
  (\<open>NodeSecurityBackup.__post_init__\<close> of \<open>golden_protection_plan.py\<close>) and of the plan
  (\<open>AuthorizedPlan.__post_init__\<close>), the canonical document with its digest, the reader that accepts
  only that document (\<open>authorized_plan.py\<close>), and what the store makes of the file it finds
  (\<open>authorized_plan_store.py\<close>), all of \<open>local/runtime_vault\<close>.

  \<open>sha\<close> is \<open>hashlib.sha256(...).hexdigest()\<close>. Of the standard library the theory writes out what the
  code calls: \<open>binascii.a2b_base64\<close> in strict mode, the class \<open>\d\<close> of a text pattern (the decimal
  digits of Unicode 14, the version of Python 3.11), \<open>ntpath.splitdrive\<close> and \<open>ntpath.normpath\<close> in the
  version the library has in Python. \<open>str.lower\<close> and \<open>str.upper\<close> act as on ASCII: no other letter is
  mapped into the alphabets they are compared with.
\<close>

unbundle bit_operations_syntax

subsection \<open>What the code uses of the standard library\<close>

definition b64_value :: "char \<Rightarrow> nat option" where
  "b64_value c = (let n = byte_of c in
     if 65 \<le> n \<and> n \<le> 90 then Some (n - 65)
     else if 97 \<le> n \<and> n \<le> 122 then Some (n - 71)
     else if 48 \<le> n \<and> n \<le> 57 then Some (n + 4)
     else if n = 43 then Some 62 else if n = 47 then Some 63 else None)"

text \<open>The loop of \<open>a2b_base64\<close>: position in the group of four, the bits left over, the padding seen.\<close>

fun a2b_loop :: "nat \<Rightarrow> nat \<Rightarrow> nat \<Rightarrow> bool \<Rightarrow> string \<Rightarrow> string option" where
  "a2b_loop q left pads started [] = (if q = 0 then Some [] else None)"
| "a2b_loop q left pads started (c # cs) =
     (if c = CHR ''='' then
        (if 2 \<le> q \<and> 4 \<le> q + (pads + 1) then (if cs \<noteq> [] then None else Some [])
         else a2b_loop q left (if 2 \<le> q then pads + 1 else pads) True cs)
      else (case b64_value c of
          None \<Rightarrow> None
        | Some v \<Rightarrow>
            if started then None
            else if q = 0 then a2b_loop 1 v 0 started cs
            else if q = 1 then map_option ((#) (char_of (left * 4 + v div 16))) (a2b_loop 2 (v mod 16) 0 started cs)
            else if q = 2 then map_option ((#) (char_of (left * 16 + v div 4))) (a2b_loop 3 (v mod 4) 0 started cs)
            else map_option ((#) (char_of (left * 64 + v))) (a2b_loop 0 0 0 started cs)))"

definition b64decode :: "string \<Rightarrow> string option" where
  "b64decode s = (case s of c # _ \<Rightarrow> if c = CHR ''='' then None else a2b_loop 0 0 0 False s | [] \<Rightarrow> Some [])"

definition ND_ZEROS :: "nat list" where
  "ND_ZEROS = [48, 1632, 1776, 1984, 2406, 2534, 2662, 2790, 2918, 3046, 3174, 3302, 3430, 3558, 3664, 3792,
     3872, 4160, 4240, 6112, 6160, 6470, 6608, 6784, 6800, 6992, 7088, 7232, 7248, 42528, 43216, 43264, 43472,
     43504, 43600, 44016, 65296, 66720, 68912, 69734, 69872, 69942, 70096, 70384, 70736, 70864, 71248, 71360,
     71472, 71904, 72016, 72784, 73040, 73120, 92768, 92864, 93008, 120782, 120792, 120802, 120812, 120822,
     123200, 123632, 125264, 130032]"

definition PY_DIGITS :: "string list" where
  "PY_DIGITS = map utf8_encode (concat (map (\<lambda>z. [z..<z + 10]) ND_ZEROS))"

definition digits_plus :: "string \<Rightarrow> bool" where
  "digits_plus s \<longleftrightarrow> s \<noteq> [] \<and> lstrip_by PY_DIGITS s = []"

text \<open>Paths of Windows.\<close>

abbreviation BACKSLASH :: char where "BACKSLASH \<equiv> CHR 0x5C"

definition nt_seps :: "string \<Rightarrow> string" where
  "nt_seps = map (\<lambda>c. if c = CHR ''/'' then BACKSLASH else c)"

definition find_from :: "char \<Rightarrow> string \<Rightarrow> nat \<Rightarrow> nat option" where
  "find_from c s i = (let r = dropWhile (\<lambda>x. x \<noteq> c) (drop i s) in if r = [] then None else Some (length s - length r))"

definition UNC_PREFIX :: string where
  "UNC_PREFIX = [BACKSLASH, BACKSLASH, CHR ''?'', BACKSLASH] @ ''UNC'' @ [BACKSLASH]"

definition nt_splitdrive :: "string \<Rightarrow> string \<times> string" where
  "nt_splitdrive p = (let normp = nt_seps p in
     if take 2 normp = [BACKSLASH, BACKSLASH] then
       (case find_from BACKSLASH normp (if ascii_upper (take 8 normp) = UNC_PREFIX then 8 else 2) of
          None \<Rightarrow> (p, [])
        | Some i \<Rightarrow> (case find_from BACKSLASH normp (i + 1) of
              None \<Rightarrow> (p, [])
            | Some j \<Rightarrow> (take j p, drop j p)))
     else (case dropWhile utf8_cont (tl normp) of
         c # r \<Rightarrow> if c = CHR '':'' then (take (length p - length r) p, drop (length p - length r) p) else ([], p)
       | [] \<Rightarrow> ([], p)))"

fun norm_comps :: "bool \<Rightarrow> string list \<Rightarrow> string list \<Rightarrow> string list" where
  "norm_comps rooted acc [] = rev acc"
| "norm_comps rooted acc (c # cs) =
     (if c = [] \<or> c = ''.'' then norm_comps rooted acc cs
      else if c = ''..'' then
        (if acc \<noteq> [] \<and> hd acc \<noteq> ''..'' then norm_comps rooted (tl acc) cs
         else if acc = [] \<and> rooted then norm_comps rooted acc cs
         else norm_comps rooted (c # acc) cs)
      else norm_comps rooted (c # acc) cs)"

definition nt_normpath :: "string \<Rightarrow> string" where
  "nt_normpath p =
     (let (drive, tail) = nt_splitdrive (nt_seps p);
          (pre, path) = (if take 1 tail = [BACKSLASH] then (drive @ [BACKSLASH], dropWhile (\<lambda>c. c = BACKSLASH) tail)
                         else (drive, tail));
          comps = norm_comps (pre \<noteq> [] \<and> last pre = BACKSLASH) [] (split_on BACKSLASH path);
          comps' = (if pre = [] \<and> comps = [] then [''.''] else comps)
      in pre @ join [BACKSLASH] comps')"

text \<open>\<open>trusted_registry._normalize_windows_root\<close>, without the message.\<close>

definition normalize_windows_root :: "string \<Rightarrow> string option" where
  "normalize_windows_root value =
     (if py_strip value = [] \<or> CHR 0x00 \<in> set value then None
      else let raw = py_strip value in
        if take 2 raw = [BACKSLASH, BACKSLASH] \<or> take 2 raw = ''//'' then None
        else let normalized = nt_normpath raw; (drive, tail) = nt_splitdrive normalized in
          if drive = [] \<or> take 1 tail \<notin> {[BACKSLASH], ''/''} then None else Some normalized)"

subsection \<open>Node records\<close>

datatype plan_codec_error =
    Plan_schema | Plan_digest_mismatch | Node_count_mismatch | Plan_not_found
  | Plan_creation | Duplicate_fid | Backup_integrity
  | Operator_evidence | Python_value | Python_type

text \<open>The first four are the classes below \<open>AuthorizedPlanError\<close>; the next three are
  \<open>PlanCreationError\<close> and its subclasses, which are not.\<close>

definition authorized_plan_error :: "plan_codec_error \<Rightarrow> bool" where
  "authorized_plan_error e \<longleftrightarrow> e \<in> {Plan_schema, Plan_digest_mismatch, Node_count_mismatch, Plan_not_found}"

definition or_raise :: "plan_codec_error \<Rightarrow> pj_error + 'a \<Rightarrow> plan_codec_error + 'a" where
  "or_raise e r = map_sum (\<lambda>_. e) id r"

definition validate_sid :: "json \<Rightarrow> plan_codec_error + string" where
  "validate_sid v =
     (case v of
        JStr s \<Rightarrow> (case split_on (CHR ''-'') s of
            p # ps \<Rightarrow> if p = ''S'' \<and> 2 \<le> length ps \<and> list_all digits_plus ps then Inr s else Inl Backup_integrity
          | [] \<Rightarrow> Inl Backup_integrity)
      | _ \<Rightarrow> Inl Backup_integrity)"

definition decode_sd_bytes :: "json \<Rightarrow> plan_codec_error + string" where
  "decode_sd_bytes v =
     (case v of
        JStr s \<Rightarrow> if s = [] then Inl Backup_integrity
          else (case b64decode s of
              None \<Rightarrow> Inl Backup_integrity
            | Some decoded \<Rightarrow> if decoded = [] then Inl Backup_integrity else Inr decoded)
      | _ \<Rightarrow> Inl Backup_integrity)"

fun kind_of_json :: "json \<Rightarrow> GoldenProtectionNodeKind option" where
  "kind_of_json (JStr s) = (if s = ''dir'' then Some DIR else if s = ''file'' then Some FILE else None)"
| "kind_of_json _ = None"

record NodeFields =
  nf_relative_path :: json
  nf_node_kind :: json
  nf_volume_serial_number :: json
  nf_file_id :: json
  nf_pre_sd_bytes_b64 :: json
  nf_pre_sd_length :: json
  nf_pre_sd_sha256 :: json
  nf_owner_sid :: json
  nf_group_sid :: json
  nf_dacl_control_flags :: json
  nf_pre_dacl_protected_flag :: json
  nf_sddl_diagnostic :: json

fun json_int :: "plan_codec_error \<Rightarrow> json \<Rightarrow> plan_codec_error + int" where
  "json_int e (JInt n) = Inr n" | "json_int e _ = Inl e"

fun json_bool :: "plan_codec_error \<Rightarrow> json \<Rightarrow> plan_codec_error + bool" where
  "json_bool e (JBool b) = Inr b" | "json_bool e _ = Inl e"

fun json_str :: "plan_codec_error \<Rightarrow> json \<Rightarrow> plan_codec_error + string" where
  "json_str e (JStr s) = Inr s" | "json_str e _ = Inl e"

definition SE_DACL_PROTECTED :: int where "SE_DACL_PROTECTED = 0x1000"

definition node_backup_post_init :: "(string \<Rightarrow> string) \<Rightarrow> NodeFields \<Rightarrow> plan_codec_error + NodeSecurityBackup" where
  "node_backup_post_init sha f =
     res_bind (or_raise Backup_integrity (validate_relative_path (nf_relative_path f))) (\<lambda>path.
     res_bind (case kind_of_json (nf_node_kind f) of None \<Rightarrow> Inl Backup_integrity | Some k \<Rightarrow> Inr k) (\<lambda>kind.
     res_bind (or_raise Backup_integrity (validate_uint (nf_volume_serial_number f) MAX_UINT64)) (\<lambda>vol.
     res_bind (or_raise Backup_integrity (validate_uint (nf_file_id f) MAX_UINT128)) (\<lambda>fid.
     res_bind (json_int Backup_integrity (nf_pre_sd_length f)) (\<lambda>len.
     res_bind (res_check (len > 0) Backup_integrity) (\<lambda>_.
     res_bind (json_int Backup_integrity (nf_dacl_control_flags f)) (\<lambda>flags.
     res_bind (res_check (0 \<le> flags \<and> flags \<le> 0xFFFF) Backup_integrity) (\<lambda>_.
     res_bind (json_bool Backup_integrity (nf_pre_dacl_protected_flag f)) (\<lambda>protected.
     res_bind (res_check (protected = (flags AND SE_DACL_PROTECTED \<noteq> 0)) Backup_integrity) (\<lambda>_.
     res_bind (validate_sid (nf_owner_sid f)) (\<lambda>owner.
     res_bind (validate_sid (nf_group_sid f)) (\<lambda>group.
     res_bind (json_str Backup_integrity (nf_sddl_diagnostic f)) (\<lambda>sddl.
     res_bind (json_str Backup_integrity (nf_pre_sd_bytes_b64 f)) (\<lambda>b64.
     res_bind (decode_sd_bytes (JStr b64)) (\<lambda>sd.
     res_bind (res_check (int (length sd) = len) Backup_integrity) (\<lambda>_.
     res_bind (or_raise Backup_integrity (validate_sha256_hex (nf_pre_sd_sha256 f))) (\<lambda>digest.
     res_bind (res_check (sha sd = digest) Backup_integrity) (\<lambda>_.
       Inr \<lparr>relative_path = path, node_kind = kind, volume_serial_number = vol, file_id = fid,
            pre_sd_bytes_b64 = b64, pre_sd_length = len, pre_sd_sha256 = digest, owner_sid = owner,
            group_sid = group, dacl_control_flags = flags, pre_dacl_protected_flag = protected,
            sddl_diagnostic = sddl\<rparr>))))))))))))))))))"

definition MANIFEST_NODE_KEYS :: "string list" where
  "MANIFEST_NODE_KEYS = [''FileId'', ''VolumeSerialNumber'', ''dacl_control_flags'', ''group_sid'', ''node_kind'',
     ''owner_sid'', ''pre_dacl_protected_flag'', ''pre_sd_bytes_b64'', ''pre_sd_length'', ''pre_sd_sha256'',
     ''relative_path'', ''sddl_diagnostic'']"

definition node_security_backup_to_dict :: "NodeSecurityBackup \<Rightarrow> json" where
  "node_security_backup_to_dict n = JObj
     [(''FileId'', JInt (file_id n)),
      (''VolumeSerialNumber'', JInt (volume_serial_number n)),
      (''dacl_control_flags'', JInt (dacl_control_flags n)),
      (''group_sid'', JStr (group_sid n)),
      (''node_kind'', JStr (node_kind_value (node_kind n))),
      (''owner_sid'', JStr (owner_sid n)),
      (''pre_dacl_protected_flag'', JBool (pre_dacl_protected_flag n)),
      (''pre_sd_bytes_b64'', JStr (pre_sd_bytes_b64 n)),
      (''pre_sd_length'', JInt (pre_sd_length n)),
      (''pre_sd_sha256'', JStr (pre_sd_sha256 n)),
      (''relative_path'', JStr (relative_path n)),
      (''sddl_diagnostic'', JStr (sddl_diagnostic n))]"

definition node_fields_of :: "(string \<times> json) list \<Rightarrow> NodeFields" where
  "node_fields_of kvs =
     \<lparr>nf_relative_path = item kvs ''relative_path'', nf_node_kind = item kvs ''node_kind'',
      nf_volume_serial_number = item kvs ''VolumeSerialNumber'', nf_file_id = item kvs ''FileId'',
      nf_pre_sd_bytes_b64 = item kvs ''pre_sd_bytes_b64'', nf_pre_sd_length = item kvs ''pre_sd_length'',
      nf_pre_sd_sha256 = item kvs ''pre_sd_sha256'', nf_owner_sid = item kvs ''owner_sid'',
      nf_group_sid = item kvs ''group_sid'', nf_dacl_control_flags = item kvs ''dacl_control_flags'',
      nf_pre_dacl_protected_flag = item kvs ''pre_dacl_protected_flag'',
      nf_sddl_diagnostic = item kvs ''sddl_diagnostic''\<rparr>"

definition node_security_backup_from_dict :: "(string \<Rightarrow> string) \<Rightarrow> json \<Rightarrow> plan_codec_error + NodeSecurityBackup" where
  "node_security_backup_from_dict sha raw =
     (case raw of
        JObj kvs \<Rightarrow>
          if fst ` set kvs \<noteq> set MANIFEST_NODE_KEYS then Inl Backup_integrity
          else node_backup_post_init sha (node_fields_of kvs)
      | _ \<Rightarrow> Inl Backup_integrity)"

subsection \<open>The plan and its document\<close>

definition ACQUIRED_VIA_ALLOWED :: "string set" where
  "ACQUIRED_VIA_ALLOWED = {''same_account_coordinator_extraction'', ''privileged_service_provider''}"

fun operator_evidence_post_init :: "json \<Rightarrow> json \<Rightarrow> json \<Rightarrow> plan_codec_error + OperatorTokenEvidence" where
  "operator_evidence_post_init sid token via =
     res_bind (json_str Operator_evidence sid) (\<lambda>s.
     res_bind (res_check (prefix ''S-1-'' s) Operator_evidence) (\<lambda>_.
     res_bind (res_check (token = JStr ''primary'') Operator_evidence) (\<lambda>_.
     case via of
       JArr _ \<Rightarrow> Inl Python_type
     | JObj _ \<Rightarrow> Inl Python_type
     | JStr v \<Rightarrow>
         if v \<in> ACQUIRED_VIA_ALLOWED
         then Inr \<lparr>op_operator_sid = s, op_token_type = ''primary'', op_acquired_via = v\<rparr>
         else Inl Operator_evidence
     | _ \<Rightarrow> Inl Operator_evidence)))"

definition AUTHORIZED_PLAN_SCHEMA_VERSION :: string where "AUTHORIZED_PLAN_SCHEMA_VERSION = ''1.0''"

record PlanFields =
  pf_schema_version :: json
  pf_operation_id :: json
  pf_canonical_root :: json
  pf_volume_serial_number :: json
  pf_root_file_id :: json
  pf_td_digest :: json
  pf_td_files :: json
  pf_td_bytes :: json
  pf_node_count :: int
  pf_policy_version :: json
  pf_staging_digest :: json
  pf_operator_identity :: OperatorTokenEvidence
  pf_nodes :: "NodeSecurityBackup list"

definition normalize_canonical_root :: "json \<Rightarrow> plan_codec_error + string" where
  "normalize_canonical_root v =
     (case v of
        JStr s \<Rightarrow> (case normalize_windows_root s of None \<Rightarrow> Inl Plan_schema | Some r \<Rightarrow> Inr r)
      | _ \<Rightarrow> Inl Plan_schema)"

definition nonneg_int :: "json \<Rightarrow> plan_codec_error + int" where
  "nonneg_int v = (case v of JInt n \<Rightarrow> if n < 0 then Inl Plan_schema else Inr n | _ \<Rightarrow> Inl Plan_schema)"

definition validate_tree_digest :: "json \<Rightarrow> json \<Rightarrow> json \<Rightarrow> plan_codec_error + TreeDigest" where
  "validate_tree_digest digest files bytes =
     res_bind (or_raise Plan_schema (validate_sha256_hex digest)) (\<lambda>d.
     res_bind (nonneg_int files) (\<lambda>f.
     res_bind (nonneg_int bytes) (\<lambda>b. Inr \<lparr>td_digest = d, td_files = f, td_bytes = b\<rparr>)))"

fun of_node_set :: "plan_error + 'a \<Rightarrow> plan_codec_error + 'a" where
  "of_node_set (Inl Plan_creation_error) = Inl Plan_creation"
| "of_node_set (Inl Duplicate_file_id_error) = Inl Duplicate_fid"
| "of_node_set (Inr x) = Inr x"

definition authorized_node_sort_key :: "NodeSecurityBackup \<Rightarrow> int \<times> string \<times> string" where
  "authorized_node_sort_key n = (- int (node_depth (relative_path n)), relative_path n, node_kind_value (node_kind n))"

definition tree_digest_dict :: "TreeDigest \<Rightarrow> json" where
  "tree_digest_dict t = JObj [(''bytes'', JInt (td_bytes t)), (''digest'', JStr (td_digest t)), (''files'', JInt (td_files t))]"

definition operator_identity_dict :: "OperatorTokenEvidence \<Rightarrow> json" where
  "operator_identity_dict e = JObj [(''acquired_via'', JStr (op_acquired_via e)),
     (''operator_sid'', JStr (op_operator_sid e)), (''token_type'', JStr (op_token_type e))]"

definition authorized_plan_content_dict :: "AuthorizedPlan \<Rightarrow> (string \<times> json) list" where
  "authorized_plan_content_dict plan =
     [(''canonical_root'', JStr (ap_canonical_root plan)),
      (''node_count'', JInt (ap_node_count plan)),
      (''nodes'', JArr (map node_security_backup_to_dict (ap_nodes plan))),
      (''operation_id'', JStr (ap_operation_id plan)),
      (''operator_identity'', operator_identity_dict (ap_operator_identity plan)),
      (''policy_version'', JStr (ap_policy_version plan)),
      (''root_file_id'', JInt (ap_root_file_id plan)),
      (''schema_version'', JStr (ap_schema_version plan)),
      (''staging_digest'', JStr (ap_staging_digest plan)),
      (''tree_digest'', tree_digest_dict (ap_tree_digest plan)),
      (''volume_serial_number'', JInt (ap_volume_serial_number plan))]"

text \<open>\<open>json.dumps\<close> refuses an integer of too many digits and \<open>encode\<close> a lone surrogate, both with a
  \<open>ValueError\<close>.\<close>

definition canonical_json :: "json \<Rightarrow> plan_codec_error + string" where
  "canonical_json payload = (if json_ok payload then Inr (dumps (canon payload)) else Inl Python_value)"

definition compute_authorized_plan_digest :: "(string \<Rightarrow> string) \<Rightarrow> AuthorizedPlan \<Rightarrow> plan_codec_error + string" where
  "compute_authorized_plan_digest sha plan =
     map_sum id sha (canonical_json (JObj (authorized_plan_content_dict plan)))"

definition plan_document :: "AuthorizedPlan \<Rightarrow> string \<Rightarrow> json" where
  "plan_document plan digest = JObj (authorized_plan_content_dict plan @ [(''plan_digest'', JStr digest)])"

definition serialize_authorized_plan :: "(string \<Rightarrow> string) \<Rightarrow> AuthorizedPlan \<Rightarrow> plan_codec_error + string" where
  "serialize_authorized_plan sha plan =
     res_bind (compute_authorized_plan_digest sha plan) (\<lambda>digest. canonical_json (plan_document plan digest))"

definition authorized_plan_post_init :: "(string \<Rightarrow> string) \<Rightarrow> PlanFields \<Rightarrow> plan_codec_error + AuthorizedPlan" where
  "authorized_plan_post_init sha f =
     res_bind (res_check (pf_schema_version f = JStr AUTHORIZED_PLAN_SCHEMA_VERSION) Plan_schema) (\<lambda>_.
     res_bind (or_raise Plan_schema (validate_operation_id (pf_operation_id f))) (\<lambda>op.
     res_bind (normalize_canonical_root (pf_canonical_root f)) (\<lambda>root.
     res_bind (or_raise Plan_schema (validate_uint (pf_volume_serial_number f) MAX_UINT64)) (\<lambda>vol.
     res_bind (or_raise Plan_schema (validate_uint (pf_root_file_id f) MAX_UINT128)) (\<lambda>fid.
     res_bind (validate_tree_digest (pf_td_digest f) (pf_td_files f) (pf_td_bytes f)) (\<lambda>tree.
     res_bind (or_raise Plan_schema (validate_nonempty_text (pf_policy_version f))) (\<lambda>policy.
     res_bind (or_raise Plan_schema (validate_sha256_hex (pf_staging_digest f))) (\<lambda>staging.
     res_bind (res_check (pf_nodes f \<noteq> []) Plan_schema) (\<lambda>_.
     res_bind (of_node_set (validate_node_set (pf_nodes f) vol fid)) (\<lambda>_.
     res_bind (res_check (pf_node_count f = int (length (pf_nodes f))) Node_count_mismatch) (\<lambda>_.
       let plan = \<lparr>ap_schema_version = AUTHORIZED_PLAN_SCHEMA_VERSION, ap_operation_id = op, ap_canonical_root = root,
                   ap_volume_serial_number = vol, ap_root_file_id = fid, ap_tree_digest = tree,
                   ap_node_count = pf_node_count f, ap_policy_version = policy, ap_staging_digest = staging,
                   ap_operator_identity = pf_operator_identity f,
                   ap_nodes = sort_key authorized_node_sort_key (pf_nodes f), ap_plan_digest = []\<rparr>
       in res_bind (compute_authorized_plan_digest sha plan) (\<lambda>digest.
          Inr (plan\<lparr>ap_plan_digest := digest\<rparr>)))))))))))))"

definition AUTHORIZED_PLAN_ROOT_KEYS :: "string list" where
  "AUTHORIZED_PLAN_ROOT_KEYS = [''schema_version'', ''operation_id'', ''canonical_root'', ''volume_serial_number'',
     ''root_file_id'', ''tree_digest'', ''node_count'', ''policy_version'', ''staging_digest'', ''operator_identity'',
     ''nodes'', ''plan_digest'']"

text \<open>The record of a node in the plan's file: a missing key is the \<open>KeyError\<close> and a value that is no
  object the \<open>TypeError\<close> that the reader turns into its schema error; what the constructor raises is
  passed on.\<close>

definition plan_node_of_item :: "(string \<Rightarrow> string) \<Rightarrow> json \<Rightarrow> plan_codec_error + NodeSecurityBackup" where
  "plan_node_of_item sha raw =
     (case raw of
        JObj kvs \<Rightarrow>
          if \<not> set MANIFEST_NODE_KEYS \<subseteq> fst ` set kvs then Inl Plan_schema
          else node_backup_post_init sha (node_fields_of kvs)
      | _ \<Rightarrow> Inl Plan_schema)"

definition closed_object :: "plan_codec_error \<Rightarrow> string list \<Rightarrow> json \<Rightarrow> plan_codec_error + (string \<times> json) list" where
  "closed_object e keys v =
     (case v of JObj kvs \<Rightarrow> if fst ` set kvs = set keys then Inr kvs else Inl e | _ \<Rightarrow> Inl e)"

definition plan_of_payload :: "(string \<Rightarrow> string) \<Rightarrow> (string \<times> json) list \<Rightarrow> plan_codec_error + AuthorizedPlan" where
  "plan_of_payload sha payload =
     res_bind (closed_object Plan_schema [''bytes'', ''digest'', ''files''] (item payload ''tree_digest'')) (\<lambda>tree.
     res_bind (closed_object Plan_schema [''operator_sid'', ''token_type'', ''acquired_via'']
                 (item payload ''operator_identity'')) (\<lambda>ident.
     res_bind (operator_evidence_post_init (item ident ''operator_sid'') (item ident ''token_type'')
                 (item ident ''acquired_via'')) (\<lambda>operator.
     res_bind (case item payload ''nodes'' of JArr xs \<Rightarrow> if xs = [] then Inl Plan_schema else Inr xs
               | _ \<Rightarrow> Inl Plan_schema) (\<lambda>nodes_raw.
     res_bind (res_map (plan_node_of_item sha) nodes_raw) (\<lambda>nodes.
     res_bind (json_int Plan_schema (item payload ''node_count'')) (\<lambda>node_count.
     authorized_plan_post_init sha
       \<lparr>pf_schema_version = item payload ''schema_version'', pf_operation_id = item payload ''operation_id'',
        pf_canonical_root = item payload ''canonical_root'',
        pf_volume_serial_number = item payload ''volume_serial_number'',
        pf_root_file_id = item payload ''root_file_id'', pf_td_digest = item tree ''digest'',
        pf_td_files = item tree ''files'', pf_td_bytes = item tree ''bytes'', pf_node_count = node_count,
        pf_policy_version = item payload ''policy_version'', pf_staging_digest = item payload ''staging_digest'',
        pf_operator_identity = operator, pf_nodes = nodes\<rparr>))))))"

definition deserialize_authorized_plan :: "(string \<Rightarrow> string) \<Rightarrow> string \<Rightarrow> plan_codec_error + AuthorizedPlan" where
  "deserialize_authorized_plan sha raw =
     (if raw = [] then Inl Plan_schema
      else case loads raw of
          Inl Int_too_long \<Rightarrow> Inl Python_value
        | Inl _ \<Rightarrow> Inl Plan_schema
        | Inr doc \<Rightarrow>
            res_bind (closed_object Plan_schema AUTHORIZED_PLAN_ROOT_KEYS doc) (\<lambda>payload.
            res_bind (or_raise Plan_schema (validate_sha256_hex (item payload ''plan_digest''))) (\<lambda>stored_digest.
            res_bind (plan_of_payload sha payload) (\<lambda>plan.
            res_bind (res_check (ap_plan_digest plan = stored_digest) Plan_digest_mismatch) (\<lambda>_.
            res_bind (serialize_authorized_plan sha plan) (\<lambda>bytes.
            res_bind (res_check (bytes = raw) Plan_schema) (\<lambda>_. Inr plan)))))))"

subsection \<open>What is written is what is read\<close>

lemma json_ok_canon [simp]: "json_ok_with ok (canon v) = json_ok_with ok v"
proof (induction v rule: canon.induct)
  case (2 kvs)
  have "fst \<circ> (\<lambda>(k, v). (k, canon v)) = (fst :: string \<times> json \<Rightarrow> string)" by auto
  moreover have "(\<forall>(k, v) \<in> set (map (\<lambda>(k, v). (k, canon v)) kvs). ok k \<and> json_ok_with ok v)
      = (\<forall>(k, v) \<in> set kvs. ok k \<and> json_ok_with ok v)"
    using 2 by fastforce
  ultimately show ?case by (simp del: set_map)
qed auto

lemma map_of_canon: "map_of (map (\<lambda>(k, v). (k, canon v)) kvs) k = map_option canon (map_of kvs k)"
  by (induction kvs) auto

lemma canon_object:
  assumes "distinct (map fst kvs)"
  shows "\<exists>kvs'. canon (JObj kvs) = JObj kvs' \<and> fst ` set kvs' = fst ` set kvs \<and> item kvs' = canon \<circ> item kvs"
proof (intro exI conjI)
  let ?m = "map (\<lambda>(k, v). (k, canon v)) kvs"
  have d: "distinct (map fst ?m)" using assms by (simp add: case_prod_beta comp_def)
  show "canon (JObj kvs) = JObj (sort_key fst ?m)" by simp
  show "fst ` set (sort_key fst ?m) = fst ` set kvs" by force
  show "item (sort_key fst ?m) = canon \<circ> item kvs"
    by (rule ext) (simp add: item_def map_of_sort_fst [OF d] map_of_canon split: option.split)
qed

definition node_fields :: "NodeSecurityBackup \<Rightarrow> NodeFields" where
  "node_fields n =
     \<lparr>nf_relative_path = JStr (relative_path n), nf_node_kind = JStr (node_kind_value (node_kind n)),
      nf_volume_serial_number = JInt (volume_serial_number n), nf_file_id = JInt (file_id n),
      nf_pre_sd_bytes_b64 = JStr (pre_sd_bytes_b64 n), nf_pre_sd_length = JInt (pre_sd_length n),
      nf_pre_sd_sha256 = JStr (pre_sd_sha256 n), nf_owner_sid = JStr (owner_sid n),
      nf_group_sid = JStr (group_sid n), nf_dacl_control_flags = JInt (dacl_control_flags n),
      nf_pre_dacl_protected_flag = JBool (pre_dacl_protected_flag n),
      nf_sddl_diagnostic = JStr (sddl_diagnostic n)\<rparr>"

text \<open>A node record that its own constructor reproduces: what every constructed record is.\<close>

definition node_ok :: "(string \<Rightarrow> string) \<Rightarrow> NodeSecurityBackup \<Rightarrow> bool" where
  "node_ok sha n \<longleftrightarrow> node_backup_post_init sha (node_fields n) = Inr n"

lemma or_raise_Inr [simp]: "or_raise e r = Inr x \<longleftrightarrow> r = Inr x"
  by (cases r) (simp_all add: or_raise_def)

lemma json_int_Inr [simp]: "json_int e v = Inr n \<longleftrightarrow> v = JInt n" by (cases v) auto
lemma json_bool_Inr [simp]: "json_bool e v = Inr b \<longleftrightarrow> v = JBool b" by (cases v) auto
lemma json_str_Inr [simp]: "json_str e v = Inr s \<longleftrightarrow> v = JStr s" by (cases v) auto

lemma kind_of_json_Some [simp]: "kind_of_json v = Some k \<longleftrightarrow> v = JStr (node_kind_value k)"
  by (cases v; cases k) auto

lemma kind_case_Inr [simp]:
  "(case o' of None \<Rightarrow> Inl e | Some k \<Rightarrow> Inr k) = Inr x \<longleftrightarrow> o' = Some x"
  by (cases o') auto

lemma validate_sid_Inr: "validate_sid v = Inr s \<Longrightarrow> v = JStr s"
  by (auto simp: validate_sid_def split: json.splits list.splits if_splits)

lemma node_backup_post_init_Inr:
  "node_backup_post_init sha f = Inr n \<longleftrightarrow>
     validate_relative_path (nf_relative_path f) = Inr (relative_path n)
     \<and> nf_node_kind f = JStr (node_kind_value (node_kind n))
     \<and> validate_uint (nf_volume_serial_number f) MAX_UINT64 = Inr (volume_serial_number n)
     \<and> validate_uint (nf_file_id f) MAX_UINT128 = Inr (file_id n)
     \<and> nf_pre_sd_length f = JInt (pre_sd_length n) \<and> pre_sd_length n > 0
     \<and> nf_dacl_control_flags f = JInt (dacl_control_flags n) \<and> 0 \<le> dacl_control_flags n \<and> dacl_control_flags n \<le> 0xFFFF
     \<and> nf_pre_dacl_protected_flag f = JBool (pre_dacl_protected_flag n)
     \<and> pre_dacl_protected_flag n = (dacl_control_flags n AND SE_DACL_PROTECTED \<noteq> 0)
     \<and> validate_sid (nf_owner_sid f) = Inr (owner_sid n) \<and> validate_sid (nf_group_sid f) = Inr (group_sid n)
     \<and> nf_sddl_diagnostic f = JStr (sddl_diagnostic n)
     \<and> nf_pre_sd_bytes_b64 f = JStr (pre_sd_bytes_b64 n)
     \<and> (\<exists>sd. decode_sd_bytes (JStr (pre_sd_bytes_b64 n)) = Inr sd \<and> int (length sd) = pre_sd_length n
           \<and> sha sd = pre_sd_sha256 n)
     \<and> validate_sha256_hex (nf_pre_sd_sha256 f) = Inr (pre_sd_sha256 n)"
  unfolding node_backup_post_init_def res_bind_Inr
  by (cases n) (auto simp: res_bind_Inr)

lemma validate_sid_idem: "validate_sid v = Inr s \<Longrightarrow> validate_sid (JStr s) = Inr s"
  using validate_sid_Inr by blast

lemma node_backup_ok: "node_backup_post_init sha f = Inr n \<Longrightarrow> node_ok sha n"
  unfolding node_ok_def node_backup_post_init_Inr
  by (auto simp: node_fields_def validate_relative_path_idem validate_uint_Inr validate_sha256_hex_idem
      intro: validate_sid_idem)

lemma distinct_node_keys: "distinct MANIFEST_NODE_KEYS"
  by (simp add: MANIFEST_NODE_KEYS_def)

lemma node_dict_keys:
  assumes "node_security_backup_to_dict n = JObj kvs"
  shows "fst ` set kvs = set MANIFEST_NODE_KEYS \<and> node_fields_of kvs = node_fields n \<and> distinct (map fst kvs)
    \<and> (\<forall>(k, v) \<in> set kvs. scalar v)"
proof -
  have k: "map fst kvs = MANIFEST_NODE_KEYS"
    using assms by (auto simp: node_security_backup_to_dict_def MANIFEST_NODE_KEYS_def)
  moreover from k have "fst ` set kvs = set MANIFEST_NODE_KEYS" by (metis list.set_map)
  moreover have "node_fields_of kvs = node_fields n" "\<forall>(k, v) \<in> set kvs. scalar v"
    using assms by (auto simp: node_security_backup_to_dict_def node_fields_of_def node_fields_def item_def)
  ultimately show ?thesis using distinct_node_keys by simp
qed

lemma node_fields_of_cong: "item kvs = canon \<circ> item kvs' \<Longrightarrow> node_fields_of kvs' = node_fields n \<Longrightarrow>
    node_fields_of kvs = node_fields n"
  by (simp add: node_fields_of_def node_fields_def)

lemma canon_node_dict:
  obtains kvs where "canon (node_security_backup_to_dict n) = JObj kvs" and "fst ` set kvs = set MANIFEST_NODE_KEYS"
    and "node_fields_of kvs = node_fields n"
proof -
  obtain kvs where k: "node_security_backup_to_dict n = JObj kvs" by (simp add: node_security_backup_to_dict_def)
  note d = node_dict_keys [OF k]
  from canon_object [of kvs] d obtain kvs' where c: "canon (JObj kvs) = JObj kvs'" "fst ` set kvs' = fst ` set kvs"
      "item kvs' = canon \<circ> item kvs" by blast
  have "node_fields_of kvs' = node_fields n" using node_fields_of_cong [OF c(3)] d by blast
  with c d k show ?thesis by (intro that [of kvs']) (simp_all del: canon.simps)
qed

lemma node_from_dict: "node_ok sha n \<Longrightarrow> node_security_backup_from_dict sha (canon (node_security_backup_to_dict n)) = Inr n"
  by (rule canon_node_dict [of n]) (simp add: node_security_backup_from_dict_def node_ok_def)

lemma plan_node_of_dict: "node_ok sha n \<Longrightarrow> plan_node_of_item sha (canon (node_security_backup_to_dict n)) = Inr n"
  by (rule canon_node_dict [of n]) (simp add: plan_node_of_item_def node_ok_def)

lemma res_map_dicts:
  assumes "\<And>n. n \<in> set ns \<Longrightarrow> f (g n) = Inr n"
  shows "res_map f (map g ns) = Inr ns"
  using assms by (induction ns) simp_all

lemma plan_node_ok: "plan_node_of_item sha v = Inr n \<Longrightarrow> node_ok sha n"
  by (auto simp: plan_node_of_item_def split: json.splits if_splits dest: node_backup_ok)

definition plan_fields :: "AuthorizedPlan \<Rightarrow> PlanFields" where
  "plan_fields p =
     \<lparr>pf_schema_version = JStr (ap_schema_version p), pf_operation_id = JStr (ap_operation_id p),
      pf_canonical_root = JStr (ap_canonical_root p), pf_volume_serial_number = JInt (ap_volume_serial_number p),
      pf_root_file_id = JInt (ap_root_file_id p), pf_td_digest = JStr (td_digest (ap_tree_digest p)),
      pf_td_files = JInt (td_files (ap_tree_digest p)), pf_td_bytes = JInt (td_bytes (ap_tree_digest p)),
      pf_node_count = ap_node_count p, pf_policy_version = JStr (ap_policy_version p),
      pf_staging_digest = JStr (ap_staging_digest p), pf_operator_identity = ap_operator_identity p,
      pf_nodes = ap_nodes p\<rparr>"

definition operator_ok :: "OperatorTokenEvidence \<Rightarrow> bool" where
  "operator_ok e \<longleftrightarrow>
     operator_evidence_post_init (JStr (op_operator_sid e)) (JStr (op_token_type e)) (JStr (op_acquired_via e)) = Inr e"

text \<open>A plan that can be kept in a file: its nodes, its operator and the plan itself are what their
  constructors make of them.\<close>

definition plan_stored :: "(string \<Rightarrow> string) \<Rightarrow> AuthorizedPlan \<Rightarrow> bool" where
  "plan_stored sha p \<longleftrightarrow>
     list_all (node_ok sha) (ap_nodes p) \<and> operator_ok (ap_operator_identity p)
     \<and> authorized_plan_post_init sha (plan_fields p) = Inr p"

lemma operator_evidence_ok: "operator_evidence_post_init sid token via = Inr e \<Longrightarrow> operator_ok e"
  by (cases via) (auto simp: res_bind_Inr operator_ok_def split: if_splits)

lemma closed_object_canon:
  assumes "distinct (map fst kvs)" and "fst ` set kvs = set ks"
  shows "\<exists>kvs'. closed_object e ks (canon (JObj kvs)) = Inr kvs' \<and> item kvs' = canon \<circ> item kvs"
  using canon_object [OF assms(1)] assms(2) by (auto simp: closed_object_def)

lemma closed_tree_digest:
  obtains kvs where "closed_object e [''bytes'', ''digest'', ''files''] (canon (tree_digest_dict t)) = Inr kvs"
    and "item kvs ''bytes'' = JInt (td_bytes t)" and "item kvs ''digest'' = JStr (td_digest t)"
    and "item kvs ''files'' = JInt (td_files t)"
proof -
  have "\<exists>kvs. closed_object e [''bytes'', ''digest'', ''files''] (canon (tree_digest_dict t)) = Inr kvs
    \<and> item kvs = canon \<circ> item [(''bytes'', JInt (td_bytes t)), (''digest'', JStr (td_digest t)), (''files'', JInt (td_files t))]"
    unfolding tree_digest_dict_def by (rule closed_object_canon) simp_all
  then show ?thesis using that by (fastforce simp: item_def)
qed

lemma closed_operator:
  obtains kvs where "closed_object e [''operator_sid'', ''token_type'', ''acquired_via''] (canon (operator_identity_dict t)) = Inr kvs"
    and "item kvs ''operator_sid'' = JStr (op_operator_sid t)" and "item kvs ''token_type'' = JStr (op_token_type t)"
    and "item kvs ''acquired_via'' = JStr (op_acquired_via t)"
proof -
  have "\<exists>kvs. closed_object e [''operator_sid'', ''token_type'', ''acquired_via''] (canon (operator_identity_dict t)) = Inr kvs
    \<and> item kvs = canon \<circ> item [(''acquired_via'', JStr (op_acquired_via t)),
     (''operator_sid'', JStr (op_operator_sid t)), (''token_type'', JStr (op_token_type t))]"
    unfolding operator_identity_dict_def by (rule closed_object_canon) auto
  then show ?thesis using that by (fastforce simp: item_def)
qed

text \<open>The reader of the payload sees of a written document the fields of the plan.\<close>

lemma plan_of_document_nodes:
  assumes i: "item kvs = canon \<circ> item (authorized_plan_content_dict p @ [(''plan_digest'', JStr d)])"
    and "ap_nodes p \<noteq> []" and "operator_ok (ap_operator_identity p)"
  shows "plan_of_payload sha kvs =
    res_bind (res_map (plan_node_of_item sha) (map (canon \<circ> node_security_backup_to_dict) (ap_nodes p)))
      (\<lambda>nodes. authorized_plan_post_init sha ((plan_fields p)\<lparr>pf_nodes := nodes\<rparr>))"
proof -
  have f: "item kvs ''tree_digest'' = canon (tree_digest_dict (ap_tree_digest p))"
      "item kvs ''operator_identity'' = canon (operator_identity_dict (ap_operator_identity p))"
      "item kvs ''nodes'' = JArr (map (canon \<circ> node_security_backup_to_dict) (ap_nodes p))"
      "item kvs ''node_count'' = JInt (ap_node_count p)"
      "item kvs ''schema_version'' = JStr (ap_schema_version p)" "item kvs ''operation_id'' = JStr (ap_operation_id p)"
      "item kvs ''canonical_root'' = JStr (ap_canonical_root p)"
      "item kvs ''volume_serial_number'' = JInt (ap_volume_serial_number p)"
      "item kvs ''root_file_id'' = JInt (ap_root_file_id p)" "item kvs ''policy_version'' = JStr (ap_policy_version p)"
      "item kvs ''staging_digest'' = JStr (ap_staging_digest p)"
    unfolding i authorized_plan_content_dict_def by (simp_all add: item_def)
  obtain tree where t: "closed_object Plan_schema [''bytes'', ''digest'', ''files''] (canon (tree_digest_dict (ap_tree_digest p))) = Inr tree"
     "item tree ''bytes'' = JInt (td_bytes (ap_tree_digest p))" "item tree ''digest'' = JStr (td_digest (ap_tree_digest p))"
     "item tree ''files'' = JInt (td_files (ap_tree_digest p))" by (rule closed_tree_digest)
  obtain ident where o': "closed_object Plan_schema [''operator_sid'', ''token_type'', ''acquired_via'']
        (canon (operator_identity_dict (ap_operator_identity p))) = Inr ident"
     "item ident ''operator_sid'' = JStr (op_operator_sid (ap_operator_identity p))"
     "item ident ''token_type'' = JStr (op_token_type (ap_operator_identity p))"
     "item ident ''acquired_via'' = JStr (op_acquired_via (ap_operator_identity p))" by (rule closed_operator)
  have op: "operator_evidence_post_init (item ident ''operator_sid'') (item ident ''token_type'') (item ident ''acquired_via'')
      = Inr (ap_operator_identity p)"
    using assms(3) unfolding o' operator_ok_def .
  show ?thesis
    unfolding plan_of_payload_def f t o'(1) op res_bind.simps plan_fields_def using assms(2) by simp
qed

lemma plan_of_document:
  assumes "item kvs = canon \<circ> item (authorized_plan_content_dict p @ [(''plan_digest'', JStr d)])"
    and "list_all (node_ok sha) (ap_nodes p)" and "ap_nodes p \<noteq> []" and "operator_ok (ap_operator_identity p)"
  shows "plan_of_payload sha kvs = authorized_plan_post_init sha (plan_fields p)"
proof -
  have "res_map (plan_node_of_item sha) (map (canon \<circ> node_security_backup_to_dict) (ap_nodes p)) = Inr (ap_nodes p)"
    by (rule res_map_dicts) (use assms(2) in \<open>auto simp: list_all_iff intro: plan_node_of_dict\<close>)
  moreover have "(plan_fields p)\<lparr>pf_nodes := ap_nodes p\<rparr> = plan_fields p" by (simp add: plan_fields_def)
  ultimately show ?thesis unfolding plan_of_document_nodes [OF assms(1,3,4)] by simp
qed

lemma nodes_ok: "res_map (plan_node_of_item sha) xs = Inr ns \<Longrightarrow> list_all (node_ok sha) ns"
  by (fastforce simp: res_map_Inr list_all2_conv_all_nth list_all_length dest: plan_node_ok)

lemma plan_of_payload_ok:
  assumes "plan_of_payload sha kvs = Inr p"
  shows "list_all (node_ok sha) (ap_nodes p) \<and> operator_ok (ap_operator_identity p) \<and> ap_nodes p \<noteq> []"
proof -
  from assms obtain operator nodes f where o': "operator_ok operator" and n: "list_all (node_ok sha) nodes"
    and f: "authorized_plan_post_init sha f = Inr p" "pf_nodes f = nodes" "pf_operator_identity f = operator"
    unfolding plan_of_payload_def res_bind_Inr
    by (elim exE conjE) (drule nodes_ok operator_evidence_ok | simp)+
  from f have "set (ap_nodes p) = set nodes" "ap_operator_identity p = operator" "nodes \<noteq> []"
    by (auto simp: authorized_plan_post_init_def res_bind_Inr Let_def)
  with o' n show ?thesis by (metis list_all_iff set_empty)
qed

lemma document_keys:
  "distinct (map fst (authorized_plan_content_dict p @ [(''plan_digest'', JStr d)]))
   \<and> fst ` set (authorized_plan_content_dict p @ [(''plan_digest'', JStr d)]) = set AUTHORIZED_PLAN_ROOT_KEYS"
  by (auto simp: authorized_plan_content_dict_def AUTHORIZED_PLAN_ROOT_KEYS_def)

lemma closed_document:
  obtains kvs where "closed_object e AUTHORIZED_PLAN_ROOT_KEYS (canon (plan_document p d)) = Inr kvs"
    and "item kvs = canon \<circ> item (authorized_plan_content_dict p @ [(''plan_digest'', JStr d)])"
    and "item kvs ''plan_digest'' = JStr d"
proof -
  have "\<exists>kvs. closed_object e AUTHORIZED_PLAN_ROOT_KEYS (canon (plan_document p d)) = Inr kvs
    \<and> item kvs = canon \<circ> item (authorized_plan_content_dict p @ [(''plan_digest'', JStr d)])"
    unfolding plan_document_def using document_keys [of p d] by (intro closed_object_canon) blast+
  moreover have "item (authorized_plan_content_dict p @ [(''plan_digest'', JStr d)]) ''plan_digest'' = JStr d"
    by (simp add: item_def authorized_plan_content_dict_def)
  ultimately show ?thesis using that by auto
qed

text \<open>\<open>plan_stored\<close> with the digest in its normal form.\<close>

definition plan_valid :: "(string \<Rightarrow> string) \<Rightarrow> AuthorizedPlan \<Rightarrow> bool" where
  "plan_valid sha p \<longleftrightarrow> plan_stored sha p \<and> validate_sha256_hex (JStr (ap_plan_digest p)) = Inr (ap_plan_digest p)"

definition plan_bytes :: "AuthorizedPlan \<Rightarrow> string" where
  "plan_bytes p = dumps (canon (plan_document p (ap_plan_digest p)))"

lemma content_dict_digest [simp]: "authorized_plan_content_dict (p\<lparr>ap_plan_digest := d\<rparr>) = authorized_plan_content_dict p"
  by (simp add: authorized_plan_content_dict_def)

lemma post_init_digest: "authorized_plan_post_init sha f = Inr p \<Longrightarrow> compute_authorized_plan_digest sha p = Inr (ap_plan_digest p)"
  by (auto simp: authorized_plan_post_init_def compute_authorized_plan_digest_def authorized_plan_content_dict_def
      res_bind_Inr Let_def)

lemma sha_digest_utf8: "validate_sha256_hex (JStr d) = Inr d \<Longrightarrow> utf8_ok d"
  by (rule utf8_ok_ascii) (auto simp: validate_sha256_hex_def Let_def list_all_iff hex_lower_def is_digit_byte byte_of_def
      split: if_splits)

lemma serialize_valid:
  assumes "plan_valid sha p"
  shows "serialize_authorized_plan sha p = Inr (plan_bytes p) \<and> json_ok (plan_document p (ap_plan_digest p))"
proof -
  have c: "compute_authorized_plan_digest sha p = Inr (ap_plan_digest p)"
    using assms post_init_digest [of sha "plan_fields p" p] by (simp add: plan_valid_def plan_stored_def)
  then have "json_ok (JObj (authorized_plan_content_dict p))"
    by (auto simp: compute_authorized_plan_digest_def canonical_json_def split: if_splits)
  moreover have "utf8_ok (ap_plan_digest p)" using assms sha_digest_utf8 by (simp add: plan_valid_def)
  moreover have "utf8_ok ''plan_digest''" by (rule utf8_ok_ascii) (auto simp: byte_of_def)
  ultimately have "json_ok (plan_document p (ap_plan_digest p))"
    using document_keys [of p "ap_plan_digest p"] by (auto simp: plan_document_def)
  then show ?thesis by (simp add: serialize_authorized_plan_def c canonical_json_def plan_bytes_def)
qed

lemma serialize_document:
  assumes "serialize_authorized_plan sha p = Inr raw" and "compute_authorized_plan_digest sha p = Inr d"
  shows "raw = dumps (canon (plan_document p d)) \<and> json_ok (plan_document p d)"
  using assms by (auto simp: serialize_authorized_plan_def canonical_json_def split: if_splits)

lemma loads_document: "json_ok v \<Longrightarrow> loads (dumps (canon v)) = Inr (canon v)"
  by (rule loads_dumps) simp

lemma dumps_object_ne: "dumps (canon (plan_document p d)) \<noteq> []"
  by (simp add: plan_document_def)

lemma deserialize_valid:
  assumes "plan_valid sha p"
  shows "deserialize_authorized_plan sha (plan_bytes p) = Inr p"
proof (rule closed_document [of Plan_schema p "ap_plan_digest p"])
  fix kvs
  assume k: "closed_object Plan_schema AUTHORIZED_PLAN_ROOT_KEYS (canon (plan_document p (ap_plan_digest p))) = Inr kvs"
    "item kvs = canon \<circ> item (authorized_plan_content_dict p @ [(''plan_digest'', JStr (ap_plan_digest p))])"
    "item kvs ''plan_digest'' = JStr (ap_plan_digest p)"
  from assms have s: "plan_stored sha p" and d: "validate_sha256_hex (JStr (ap_plan_digest p)) = Inr (ap_plan_digest p)"
    by (simp_all add: plan_valid_def)
  have ne: "ap_nodes p \<noteq> []" using s by (auto simp: plan_stored_def authorized_plan_post_init_def res_bind_Inr plan_fields_def Let_def)
  have pl: "plan_of_payload sha kvs = Inr p"
    using plan_of_document [OF k(2)] s ne by (simp add: plan_stored_def)
  note v = serialize_valid [OF assms]
  have l: "loads (plan_bytes p) = Inr (canon (plan_document p (ap_plan_digest p)))"
    unfolding plan_bytes_def using v by (intro loads_document) simp
  have "plan_bytes p \<noteq> []" unfolding plan_bytes_def by (rule dumps_object_ne)
  then show ?thesis
    unfolding deserialize_authorized_plan_def l sum.case k(1) by (simp add: k(3) d pl v or_raise_def)
qed

lemma deserialize_Inr_iff:
  "deserialize_authorized_plan sha raw = Inr p \<longleftrightarrow>
     raw \<noteq> [] \<and> (\<exists>doc payload. loads raw = Inr doc
       \<and> closed_object Plan_schema AUTHORIZED_PLAN_ROOT_KEYS doc = Inr payload
       \<and> validate_sha256_hex (item payload ''plan_digest'') = Inr (ap_plan_digest p)
       \<and> plan_of_payload sha payload = Inr p \<and> serialize_authorized_plan sha p = Inr raw)"
proof (cases "loads raw")
  case (Inl e)
  then show ?thesis by (cases e) (simp_all add: deserialize_authorized_plan_def)
next
  case (Inr doc)
  then show ?thesis
    by (cases "raw = []") (auto simp: deserialize_authorized_plan_def res_bind_Inr)
qed

lemma deserialize_Inr:
  assumes "deserialize_authorized_plan sha raw = Inr p"
  shows "plan_valid sha p \<and> raw = plan_bytes p"
proof -
  from assms obtain doc payload where l: "loads raw = Inr doc"
    and c: "closed_object Plan_schema AUTHORIZED_PLAN_ROOT_KEYS doc = Inr payload"
    and d: "validate_sha256_hex (item payload ''plan_digest'') = Inr (ap_plan_digest p)"
    and p: "plan_of_payload sha payload = Inr p" and s: "serialize_authorized_plan sha p = Inr raw"
    unfolding deserialize_Inr_iff by blast
  note ok = plan_of_payload_ok [OF p]
  from s obtain d' where d': "compute_authorized_plan_digest sha p = Inr d'" by (auto simp: serialize_authorized_plan_def res_bind_Inr)
  note doc = serialize_document [OF s d']
  with l have e: "doc = canon (plan_document p d')" using loads_document by force
  obtain kvs where k: "closed_object Plan_schema AUTHORIZED_PLAN_ROOT_KEYS (canon (plan_document p d')) = Inr kvs"
    "item kvs = canon \<circ> item (authorized_plan_content_dict p @ [(''plan_digest'', JStr d')])" by (rule closed_document)
  from c [unfolded e k(1)] have "payload = kvs" by simp
  moreover have "plan_of_payload sha kvs = authorized_plan_post_init sha (plan_fields p)"
    using ok by (intro plan_of_document [OF k(2)]) simp_all
  ultimately have v: "authorized_plan_post_init sha (plan_fields p) = Inr p" using p by simp
  have "ap_plan_digest p = d'" using post_init_digest [OF v] d' by simp
  then show ?thesis
    using v ok doc validate_sha256_hex_idem [OF d] by (simp add: plan_valid_def plan_stored_def plan_bytes_def)
qed

subsection \<open>Canonical files\<close>

text \<open>What a store relies on when it keeps values in files: a file is accepted exactly when it is the
  text of a value that may be kept.\<close>

locale canonical_codec =
  fixes enc :: "'a \<Rightarrow> string" and dec :: "string \<Rightarrow> 'e + 'a" and keeps :: "'a \<Rightarrow> bool"
  assumes dec_iff: "dec raw = Inr x \<longleftrightarrow> keeps x \<and> raw = enc x"
begin

lemma dec_enc: "keeps x \<Longrightarrow> dec (enc x) = Inr x"
  by (simp add: dec_iff)

lemma enc_inj: "keeps x \<Longrightarrow> enc x = enc y \<Longrightarrow> keeps y \<Longrightarrow> x = y"
  by (metis dec_enc sum.inject(2))

lemma one_text: "dec r = Inr x \<Longrightarrow> dec r' = Inr x \<Longrightarrow> r = r'"
  by (simp add: dec_iff)

lemma other_text_refused: "keeps x \<Longrightarrow> r \<noteq> enc x \<Longrightarrow> dec r \<noteq> Inr x"
  by (simp add: dec_iff)

end

interpretation plan_codec: canonical_codec plan_bytes "deserialize_authorized_plan sha" "plan_valid sha" for sha
  using deserialize_valid deserialize_Inr by unfold_locales blast

text \<open>C16: a plan is read from a file exactly when the file is the canonical text of a valid plan.\<close>

theorem plan_file_exact:
  "deserialize_authorized_plan sha raw = Inr p \<longleftrightarrow> plan_valid sha p \<and> raw = plan_bytes p"
  by (rule plan_codec.dec_iff)

lemma plan_valid_nodes:
  assumes "plan_valid sha p"
  shows "distinct (map relative_path (ap_nodes p)) \<and> ap_nodes p \<noteq> [] \<and> list_all (node_ok sha) (ap_nodes p)
    \<and> validate_node_set (ap_nodes p) (ap_volume_serial_number p) (ap_root_file_id p) = Inr ()
    \<and> int (length (ap_nodes p)) = ap_node_count p"
proof -
  have of_node: "of_node_set r = Inr u \<longleftrightarrow> r = Inr u" for r :: "plan_error + 'z" and u
    by (cases r; cases "projl r") (auto elim: of_node_set.elims)
  from assms have "authorized_plan_post_init sha (plan_fields p) = Inr p" and n: "list_all (node_ok sha) (ap_nodes p)"
    by (simp_all add: plan_valid_def plan_stored_def)
  then have "validate_node_set (ap_nodes p) (ap_volume_serial_number p) (ap_root_file_id p) = Inr ()
      \<and> int (length (ap_nodes p)) = ap_node_count p \<and> ap_nodes p \<noteq> []"
    by (auto simp: authorized_plan_post_init_def plan_fields_def res_bind_Inr Let_def of_node validate_uint_Inr)
  with n show ?thesis by (simp add: node_set_exact)
qed

subsection \<open>The plan in its store\<close>

datatype file_read = File_missing | File_unreadable | File_bytes string

datatype DurableWriteOutcome = DURABLE | NOT_DURABLE | Write_INDETERMINATE

definition load_authorized_plan :: "(string \<Rightarrow> string) \<Rightarrow> file_read \<Rightarrow> plan_codec_error + AuthorizedPlan" where
  "load_authorized_plan sha f =
     (case f of
        File_missing \<Rightarrow> Inl Plan_not_found
      | File_unreadable \<Rightarrow> Inl Plan_schema
      | File_bytes raw \<Rightarrow> deserialize_authorized_plan sha raw)"

definition classify_durable_authorized_plan :: "(string \<Rightarrow> string) \<Rightarrow> file_read \<Rightarrow> plan_codec_error + DurableWriteOutcome" where
  "classify_durable_authorized_plan sha f =
     (case f of
        File_missing \<Rightarrow> Inr NOT_DURABLE
      | File_unreadable \<Rightarrow> Inr Write_INDETERMINATE
      | File_bytes raw \<Rightarrow>
          (case deserialize_authorized_plan sha raw of
             Inr _ \<Rightarrow> Inr DURABLE
           | Inl e \<Rightarrow> if authorized_plan_error e then Inr Write_INDETERMINATE else Inl e))"

lemma load_Inr [simp]: "load_authorized_plan sha f = Inr p \<longleftrightarrow> plan_valid sha p \<and> f = File_bytes (plan_bytes p)"
  by (cases f) (auto simp: load_authorized_plan_def plan_codec.dec_iff)

lemma classify_durable: "classify_durable_authorized_plan sha f = Inr DURABLE \<longleftrightarrow> (\<exists>p. load_authorized_plan sha f = Inr p)"
  by (cases f) (auto simp: classify_durable_authorized_plan_def load_authorized_plan_def split: sum.splits if_splits)

lemma corrupt_record:
  "plan_node_of_item sha (canon (node_security_backup_to_dict (n\<lparr>relative_path := ''..''\<rparr>))) = Inl Backup_integrity"
  by (rule canon_node_dict [of "n\<lparr>relative_path := ''..''\<rparr>"])
    (simp add: plan_node_of_item_def node_backup_post_init_def node_fields_def or_raise_def validate_relative_path_def)

definition with_corrupt_paths :: "AuthorizedPlan \<Rightarrow> AuthorizedPlan" where
  "with_corrupt_paths p = p\<lparr>ap_nodes := map (\<lambda>n. n\<lparr>relative_path := ''..''\<rparr>) (ap_nodes p)\<rparr>"

text \<open>C23: the classifier catches the errors of its own module only: a file whose first record names a path
  outside the tree makes it raise what the constructor of the record raises.\<close>

theorem corrupt_plan_file_raises:
  assumes "plan_valid sha p"
  shows "classify_durable_authorized_plan sha (File_bytes (plan_bytes (with_corrupt_paths p))) = Inl Backup_integrity"
proof -
  let ?q = "with_corrupt_paths p"
  have d: "validate_sha256_hex (JStr (ap_plan_digest p)) = Inr (ap_plan_digest p)"
    and ops: "operator_ok (ap_operator_identity p)" using assms by (simp_all add: plan_valid_def plan_stored_def)
  have dots: "utf8_ok ''..''" by (rule utf8_ok_ascii) (auto simp: byte_of_def)
  have ok: "json_ok (plan_document p (ap_plan_digest p))" using serialize_valid [OF assms] by blast
  have "json_ok (node_security_backup_to_dict (n\<lparr>relative_path := ''..''\<rparr>))" if "json_ok (node_security_backup_to_dict n)" for n
    using that dots by (simp add: node_security_backup_to_dict_def)
  with ok have "json_ok (plan_document ?q (ap_plan_digest ?q))"
    by (simp add: plan_document_def authorized_plan_content_dict_def with_corrupt_paths_def)
  from loads_document [OF this] have l: "loads (plan_bytes ?q) = Inr (canon (plan_document ?q (ap_plan_digest ?q)))"
    by (simp only: plan_bytes_def)
  have ne: "plan_bytes ?q \<noteq> []" unfolding plan_bytes_def by (rule dumps_object_ne)
  have ne': "ap_nodes ?q \<noteq> []" and ops': "operator_ok (ap_operator_identity ?q)"
    using plan_valid_nodes [OF assms] ops by (simp_all add: with_corrupt_paths_def)
  show ?thesis
  proof (rule closed_document [of Plan_schema ?q "ap_plan_digest ?q"])
    fix kvs
    assume k: "closed_object Plan_schema AUTHORIZED_PLAN_ROOT_KEYS (canon (plan_document ?q (ap_plan_digest ?q))) = Inr kvs"
      "item kvs = canon \<circ> item (authorized_plan_content_dict ?q @ [(''plan_digest'', JStr (ap_plan_digest ?q))])"
      "item kvs ''plan_digest'' = JStr (ap_plan_digest ?q)"
    have "plan_of_payload sha kvs = Inl Backup_integrity"
      unfolding plan_of_document_nodes [OF k(2) ne' ops'] using ne'
      by (cases "ap_nodes p") (simp_all add: with_corrupt_paths_def corrupt_record)
    then show ?thesis
      using k(1,3) d l ne
      by (simp add: classify_durable_authorized_plan_def deserialize_authorized_plan_def authorized_plan_error_def
          or_raise_def with_corrupt_paths_def)
  qed
qed

lemma utf8_encode_ascii:
  assumes "n < 4194304" and "utf8_encode n = w" and "byte_of (hd w) < 128"
  shows "w = [char_of n] \<and> n < 128"
  using assms by (auto simp: utf8_encode_def split: if_splits)

lemma ND_ZEROS_bound: "z \<in> set ND_ZEROS \<Longrightarrow> z + 10 < 4194304 \<and> (z = 48 \<or> 128 \<le> z)"
  by (auto simp: ND_ZEROS_def)

lemma PY_DIGITS_ascii: "w \<in> set PY_DIGITS \<Longrightarrow> byte_of (hd w) < 128 \<Longrightarrow> \<exists>c. w = [c]"
proof -
  assume "w \<in> set PY_DIGITS" and b: "byte_of (hd w) < 128"
  then obtain z n where "z \<in> set ND_ZEROS" "n < z + 10" "w = utf8_encode n" by (auto simp: PY_DIGITS_def)
  with ND_ZEROS_bound [of z] utf8_encode_ascii [of n w] b show "\<exists>c. w = [c]" by fastforce
qed

lemma ascii_digit_in: "is_digit c \<Longrightarrow> [c] \<in> set PY_DIGITS"
proof -
  assume "is_digit c"
  have "utf8_encode (byte_of c) = [c]" using \<open>is_digit c\<close> by (simp add: utf8_encode_def is_digit_byte byte_of_def)
  moreover have "byte_of c \<in> set (concat (map (\<lambda>z. [z..<z + 10]) ND_ZEROS))"
  proof -
    have "(48 :: nat) \<in> set ND_ZEROS" by (simp add: ND_ZEROS_def)
    then show ?thesis using \<open>is_digit c\<close> by (force simp: is_digit_byte)
  qed
  ultimately show ?thesis unfolding PY_DIGITS_def by (metis imageI list.set_map)
qed

lemma lstrip_digit:
  assumes "is_digit c"
  shows "lstrip_by PY_DIGITS (c # s) = lstrip_by PY_DIGITS s"
proof -
  have "find (\<lambda>w. w \<noteq> [] \<and> prefix w (c # s)) PY_DIGITS = Some [c]"
  proof (cases "find (\<lambda>w. w \<noteq> [] \<and> prefix w (c # s)) PY_DIGITS")
    case None
    with ascii_digit_in [OF assms] show ?thesis by (auto simp: find_None_iff)
  next
    case (Some w)
    then have w: "w \<in> set PY_DIGITS" "w \<noteq> []" "prefix w (c # s)" by (auto simp: find_Some_iff)
    from w(2,3) have "hd w = c" by (cases w) auto
    with w PY_DIGITS_ascii assms obtain d where "w = [d]" by (fastforce simp: is_digit_byte)
    with \<open>hd w = c\<close> Some show ?thesis by simp
  qed
  then show ?thesis by (subst lstrip_by.simps) simp
qed

lemma digits_plus_ascii:
  assumes "s \<noteq> []" and "list_all is_digit s"
  shows "digits_plus s"
proof -
  have "lstrip_by PY_DIGITS s = []" using assms(2)
  proof (induction s)
    case Nil
    show ?case by (subst lstrip_by.simps) (auto simp: find_Some_iff split: option.split)
  qed (simp add: lstrip_digit)
  with assms(1) show ?thesis by (simp add: digits_plus_def)
qed

text \<open>A root of a share is refused when it starts with two equal separators only: with two different
  ones it is accepted, and what it is normalized to is refused when it is read back.\<close>

definition mixed_share :: string where
  "mixed_share = [BACKSLASH, CHR ''/''] @ ''srv'' @ [BACKSLASH] @ ''s'' @ [BACKSLASH] @ ''x''"

lemma mixed_share_root:
  "normalize_windows_root mixed_share = Some ([BACKSLASH, BACKSLASH] @ ''srv'' @ [BACKSLASH] @ ''s'' @ [BACKSLASH] @ ''x'')"
proof -
  have "py_strip mixed_share = mixed_share"
    by (rule py_strip_graphic) (auto simp: mixed_share_def graphic_def)
  then show ?thesis unfolding normalize_windows_root_def
    by (simp add: mixed_share_def nt_normpath_def nt_splitdrive_def nt_seps_def find_from_def UNC_PREFIX_def ascii_upper_def)
qed

lemma drive_root: "normalize_windows_root (''C:'' @ [BACKSLASH] @ ''Golden'') = Some (''C:'' @ [BACKSLASH] @ ''Golden'')"
proof -
  have "py_strip (''C:'' @ [BACKSLASH] @ ''Golden'') = ''C:'' @ [BACKSLASH] @ ''Golden''"
    by (rule py_strip_graphic) (auto simp: graphic_def)
  then show ?thesis unfolding normalize_windows_root_def
    by (simp add: nt_normpath_def nt_splitdrive_def nt_seps_def find_from_def UNC_PREFIX_def ascii_upper_def utf8_cont_def byte_of_def)
qed

end
