(* ===== verification/Json_Ascii.thy ===== *)
theory Json_Ascii
  imports Json_Parse
begin

text \<open>
  The texts that \<open>json.dumps\<close> writes with \<open>ensure_ascii\<close>, the default, which the backup manifest uses:
  every code point outside ASCII as its UTF-16 units. A lone surrogate is written like any other code
  point, so such a text may hold one; only a high surrogate right before a low one is read back as
  something else.
\<close>

subsection \<open>Code points\<close>

fun no_pairs :: "nat list \<Rightarrow> bool" where
  "no_pairs (a # b # ps) = (\<not> (is_high a \<and> is_low b) \<and> no_pairs (b # ps))"
| "no_pairs _ = True"

definition text_of_points :: "nat list \<Rightarrow> string" where
  "text_of_points ps = concat (map utf8_encode ps)"

text \<open>A text of Python, as its bytes.\<close>

definition ascii_text_ok :: "string \<Rightarrow> bool" where
  "ascii_text_ok s \<longleftrightarrow> s = text_of_points (points s) \<and> list_all (\<lambda>n. n < 0x110000) (points s) \<and> no_pairs (points s)"

lemma hex4_esc:
  assumes "n < 0x10000"
  shows "hex4 (drop 2 (esc_unit n) @ t) = Some n"
proof -
  have "n div 4096 < 16" "n div 256 mod 16 < 16" "n div 16 mod 16 < 16" "n mod 16 < 16" using assms by simp_all
  moreover have "n div 4096 * 16 + n div 256 mod 16 = n div 256" "n div 256 * 16 + n div 16 mod 16 = n div 16"
      "n div 16 * 16 + n mod 16 = n"
    using div_mult_mod_eq [of "n div 256" 16] div_mult_mod_eq [of "n div 16" 16] div_mult_mod_eq [of n 16]
    by (simp_all flip: div_mult2_eq)
  ultimately show ?thesis by (simp add: hex4_def esc_unit_def hex_val_digit)
qed

lemma scan_unit:
  assumes "n < 0x10000" and "\<not> is_high n"
  shows "scan_string (esc_unit n @ t) = push (utf8_encode n) (scan_string t)"
proof -
  have "unicode_escape (drop 2 (esc_unit n) @ t) = Some (utf8_encode n, t)"
    unfolding unicode_escape_def hex4_esc [OF assms(1)] using assms(2) by (simp add: esc_unit_def)
  then show ?thesis by (subst scan_string.simps) (simp add: esc_unit_def byte_of_def)
qed

text \<open>A high surrogate is read alone when no low one follows.\<close>

definition low_next :: "string \<Rightarrow> bool" where
  "low_next t \<longleftrightarrow> map byte_of (take 2 t) = [92, 117] \<and> (\<exists>m \<in> set_option (hex4 (drop 2 t)). is_low m)"

lemma scan_high:
  assumes "is_high n" and "\<not> low_next t"
  shows "scan_string (esc_unit n @ t) = push (utf8_encode n) (scan_string t)"
proof -
  have n: "n < 0x10000" using assms(1) by (simp add: is_high_def)
  have "unicode_escape (drop 2 (esc_unit n) @ t) = Some (utf8_encode n, t)"
    unfolding unicode_escape_def hex4_esc [OF n] using assms(2) by (auto simp: esc_unit_def low_next_def)
  then show ?thesis by (subst scan_string.simps) (simp add: esc_unit_def byte_of_def)
qed

lemma scan_pair:
  assumes "0x10000 \<le> n" and "n < 0x110000"
  shows "scan_string (esc_unit (0xD800 + (n - 0x10000) div 1024) @ esc_unit (0xDC00 + (n - 0x10000) mod 1024) @ t)
    = push (utf8_encode n) (scan_string t)"
proof -
  let ?h = "0xD800 + (n - 0x10000) div 1024" and ?l = "0xDC00 + (n - 0x10000) mod 1024"
  have h: "?h < 0x10000" "is_high ?h" and l: "?l < 0x10000" "is_low ?l"
  proof -
    have "n - 0x10000 < 1024 * 1024" using assms(2) by simp
    then have "(n - 0x10000) div 1024 < 1024" by (simp add: less_mult_imp_div_less)
    then show "?h < 0x10000" "is_high ?h" by (simp_all add: is_high_def)
    have "(n - 0x10000) mod 1024 < 1024" by simp
    then show "?l < 0x10000" "is_low ?l" unfolding is_low_def by linarith+
  qed
  have d: "drop 4 (drop 2 (esc_unit ?h) @ esc_unit ?l @ t) = esc_unit ?l @ t" by (simp add: esc_unit_def)
  have u: "map byte_of (take 2 (esc_unit ?l @ t)) = [92, 117]" by (simp add: esc_unit_def byte_of_def)
  have x: "drop 2 (esc_unit ?l @ t) = drop 2 (esc_unit ?l) @ t" "drop 6 (esc_unit ?l @ t) = t" by (simp_all add: esc_unit_def)
  have n: "0x10000 + (?h - 0xD800) * 1024 + (?l - 0xDC00) = n" using assms(1) by simp
  have "unicode_escape (drop 2 (esc_unit ?h) @ esc_unit ?l @ t) = Some (utf8_encode n, t)"
    unfolding unicode_escape_def hex4_esc [OF h(1)] Let_def option.case d u x hex4_esc [OF l(1)]
    using h(2) l(2) n by simp
  then show ?thesis by (subst scan_string.simps) (simp add: esc_unit_def byte_of_def)
qed

subsection \<open>What is written is scanned back\<close>

lemma esc_control: "n < 128 \<Longrightarrow> esc_unit n = [char_of (92 :: nat), CHR ''u'', CHR ''0'', CHR ''0'', hex_digit (n div 16), hex_digit (n mod 16)]"
  by (simp add: esc_unit_def) (simp add: hex_digit_def char_of_def bit_iff_odd)

lemma esc_char_True: "esc_char True c = (if of_char c = (127 :: nat) then esc_unit 127 else esc_char False c)"
  by (simp add: esc_char_def esc_control Let_def)

lemma scan_ascii_point:
  assumes "n < 128"
  shows "scan_string (esc_point n @ t) = push (utf8_encode n) (scan_string t)"
proof (cases "n = 127")
  case True
  then show ?thesis using scan_unit [of 127 t] by (simp add: esc_point_def esc_char_True is_high_def)
next
  case False
  then show ?thesis using scan_esc_char [of "char_of n" t] assms by (simp add: esc_point_def esc_char_True utf8_encode_def)
qed

lemma low_next_unit: "n < 0x10000 \<Longrightarrow> low_next (esc_unit n @ t) = is_low n"
proof -
  assume n: "n < 0x10000"
  have d: "drop 2 (esc_unit n @ t) = drop 2 (esc_unit n) @ t" by (simp add: esc_unit_def)
  have u: "map byte_of (take 2 (esc_unit n @ t)) = [92, 117]" by (simp add: esc_unit_def byte_of_def)
  show ?thesis unfolding low_next_def d u hex4_esc [OF n] by simp
qed

lemma low_next_char: "(n :: nat) < 128 \<Longrightarrow> \<not> low_next (esc_char False (char_of n) @ t)"
proof -
  assume n: "n < 128"
  consider "n < 32" "n \<notin> {10, 13, 9, 12, 8}" | "n \<in> {34, 92, 10, 13, 9, 12, 8}" | "n \<ge> 32" "n \<notin> {34, 92}" by force
  then show ?thesis
  proof cases
    case 1
    with n have "esc_char False (char_of n) = esc_unit n" by (auto simp: esc_char_def esc_control Let_def)
    with 1 low_next_unit [of n t] show ?thesis by (simp add: is_low_def)
  next
    case 2
    then show ?thesis unfolding insert_iff empty_iff
      by (elim disjE) (simp_all add: esc_char_def low_next_def byte_of_def Let_def)
  next
    case 3
    with n have "esc_char False (char_of n) = [char_of n]" "n \<noteq> 92" by (simp_all add: esc_char_def Let_def)
    with n show ?thesis by (simp add: low_next_def byte_of_def)
  qed
qed

lemma low_next_point:
  assumes "n < 0x110000" and "\<not> is_low n"
  shows "\<not> low_next (esc_point n @ t)"
proof -
  consider "n < 128" | "128 \<le> n" "n < 0x10000" | "0x10000 \<le> n" by force
  then show ?thesis
  proof cases
    case 1
    then show ?thesis using low_next_char [of n t] low_next_unit [of 127 t] by (simp add: esc_point_def esc_char_True is_low_def)
  next
    case 2
    then show ?thesis using low_next_unit [of n t] assms(2) by (simp add: esc_point_def)
  next
    case 3
    have "n - 0x10000 < 1024 * 1024" using assms(1) by simp
    then have "(n - 0x10000) div 1024 < 1024" by (simp add: less_mult_imp_div_less)
    then have "0xD800 + (n - 0x10000) div 1024 < 0x10000" "\<not> is_low (0xD800 + (n - 0x10000) div 1024)"
      by (simp_all add: is_low_def)
    with 3 low_next_unit show ?thesis by (simp add: esc_point_def)
  qed
qed

lemma scan_points:
  "list_all (\<lambda>n. n < 0x110000) ps \<Longrightarrow> no_pairs ps \<Longrightarrow>
    scan_string (concat (map esc_point ps) @ CHR 0x22 # rest) = Inr (text_of_points ps, rest)"
proof (induction ps)
  case Nil
  show ?case by (subst scan_string.simps) (simp add: byte_of_def text_of_points_def)
next
  case (Cons n ps)
  let ?t = "concat (map esc_point ps) @ CHR 0x22 # rest"
  have "no_pairs ps" using Cons.prems(2) by (cases ps) simp_all
  with Cons have ih: "scan_string ?t = Inr (text_of_points ps, rest)" by simp
  have low: "\<not> low_next ?t" if "is_high n"
  proof (cases ps)
    case Nil
    then show ?thesis by (cases rest) (auto simp: low_next_def byte_of_def)
  next
    case (Cons q qs)
    with Cons.prems that have "q < 0x110000" "\<not> is_low q" by simp_all
    from low_next_point [OF this] Cons show ?thesis by simp
  qed
  consider "n < 128" | "128 \<le> n" "n < 0x10000" | "0x10000 \<le> n" by force
  then have "scan_string (esc_point n @ ?t) = push (utf8_encode n) (scan_string ?t)"
  proof cases
    case 1
    then show ?thesis by (rule scan_ascii_point)
  next
    case 2
    then show ?thesis using scan_unit [of n ?t] scan_high [of n ?t] low by (cases "is_high n") (simp_all add: esc_point_def)
  next
    case 3
    then show ?thesis using scan_pair [of n ?t] Cons.prems(1) by (simp add: esc_point_def)
  qed
  with ih show ?case by (simp add: push_def text_of_points_def)
qed

interpretation ascii_writer: json_writer True ascii_text_ok
proof
  fix s rest assume "ascii_text_ok s"
  then show "scan_string (quote_body True s @ CHR 0x22 # rest) = Inr (s, rest)"
    using scan_points [of "points s" rest] by (simp add: quote_body_def ascii_text_ok_def)
qed

subsection \<open>The texts are ASCII\<close>

abbreviation ascii_dumps :: "json \<Rightarrow> string" where
  "ascii_dumps \<equiv> json_text True '','' '':''"

definition all_ascii :: "string \<Rightarrow> bool" where
  "all_ascii s \<longleftrightarrow> list_all (\<lambda>c. byte_of c < 128) s"

lemma all_ascii_append [simp]: "all_ascii (s @ t) \<longleftrightarrow> all_ascii s \<and> all_ascii t"
  and all_ascii_Cons [simp]: "all_ascii (c # s) \<longleftrightarrow> byte_of c < 128 \<and> all_ascii s"
  and all_ascii_Nil [simp]: "all_ascii []"
  by (simp_all add: all_ascii_def)

lemma all_ascii_concat: "(\<And>s. s \<in> set ss \<Longrightarrow> all_ascii s) \<Longrightarrow> all_ascii (concat ss)"
  by (induction ss) simp_all

lemma all_ascii_join: "(\<And>s. s \<in> set ss \<Longrightarrow> all_ascii s) \<Longrightarrow> all_ascii sep \<Longrightarrow> all_ascii (join sep ss)"
  by (induction sep ss rule: join.induct) auto

lemma all_ascii_unit: "n < 0x10000 \<Longrightarrow> all_ascii (esc_unit n)"
  using hex_digit_ascii [of "n div 4096"] hex_digit_ascii [of "n div 256 mod 16"] hex_digit_ascii [of "n div 16 mod 16"]
    hex_digit_ascii [of "n mod 16"]
  by (simp add: esc_unit_def byte_of_def)

lemma all_ascii_point:
  assumes "n < 0x110000"
  shows "all_ascii (esc_point n)"
proof (cases "n < 128")
  case True
  then have "all_ascii (esc_char False (char_of n))"
    using esc_char_low [of "char_of n"] by (simp add: all_ascii_def list_all_iff)
  with True all_ascii_unit [of 127] show ?thesis by (simp add: esc_point_def esc_char_True)
next
  case False
  have "n - 0x10000 < 1024 * 1024" using assms by simp
  then have "(n - 0x10000) div 1024 < 1024" by (simp add: less_mult_imp_div_less)
  then have "0xD800 + (n - 0x10000) div 1024 < 0x10000" by simp
  moreover have "(n - 0x10000) mod 1024 < 1024" by simp
  then have "0xDC00 + (n - 0x10000) mod 1024 < 0x10000" by linarith
  ultimately show ?thesis using False all_ascii_unit by (simp add: esc_point_def)
qed

lemma all_ascii_quote: "ascii_text_ok s \<Longrightarrow> all_ascii (quote True s)"
  unfolding quote_def quote_body_def ascii_text_ok_def
  by (auto simp: byte_of_def list_all_iff intro!: all_ascii_concat all_ascii_point)

lemma all_ascii_dumps: "json_ok_with ascii_text_ok v \<Longrightarrow> all_ascii (ascii_dumps v)"
proof (induction v)
  case (JInt i)
  have "byte_of c < 128" if "c \<in> set (show_nat n)" for c n
    using show_nat_digits [OF that] unfolding is_digit_byte by simp
  then have "all_ascii (show_nat n)" for n by (simp add: all_ascii_def list_all_iff)
  then show ?case by (simp add: show_int_def byte_of_def)
next
  case (JArr xs)
  then have "all_ascii (join '','' (map ascii_dumps xs))" by (intro all_ascii_join) (auto simp: byte_of_def)
  then show ?case by (simp add: byte_of_def)
next
  case (JObj kvs)
  have "all_ascii (ascii_writer.pair_of kv)" if "kv \<in> set kvs" for kv
    using JObj that by (cases kv) (fastforce simp: ascii_writer.pair_of_def byte_of_def dest: all_ascii_quote)
  then have "all_ascii (join '','' (map ascii_writer.pair_of kvs))" by (intro all_ascii_join) (auto simp: byte_of_def)
  then show ?case by (simp only: json_text.simps ascii_writer.json_text_pairs) (simp add: byte_of_def)
qed (simp_all add: all_ascii_quote byte_of_def)

lemma loads_ascii_dumps:
  assumes "json_ok_with ascii_text_ok v"
  shows "loads_with h (ascii_dumps v) = Inr v"
proof -
  have "utf8_ok (ascii_dumps v)" using all_ascii_dumps [OF assms] by (intro utf8_ok_ascii) (simp add: all_ascii_def list_all_iff)
  then show ?thesis
    using ascii_writer.parse_writer [OF assms, of "[]" h] ascii_writer.skip_ws_writer [OF assms, of "[]"]
    by (simp add: loads_with_def stops_def skip_ws_def)
qed

subsection \<open>Texts in UTF-8 can be written\<close>

lemma char_byte [simp]: "(char_of (byte_of c) :: char) = c"
  by (simp add: byte_of_def)


lemma cont_byte: "utf8_cont c \<Longrightarrow> \<exists>y. byte_of c = 128 + y \<and> y < 64"
  by (rule exI [of _ "byte_of c - 128"]) (auto simp: utf8_cont_def)

lemma low_six: "(y :: nat) < 64 \<Longrightarrow> (64 * k + y) mod 64 = y"
  by (simp add: mod_add_left_eq [symmetric])

lemma cont_mod [simp]: "(y :: nat) < 64 \<Longrightarrow> (128 + y) mod 64 = y"
  using low_six [of y 2] by simp

lemma utf8_next_point:
  assumes "utf8_next s = Some r"
  shows "\<exists>n. s = utf8_encode n @ r \<and> points s = n # points r \<and> n < 0x110000 \<and> \<not> is_high n \<and> \<not> is_low n"
proof -
  obtain b bs where s: "s = b # bs" using assms by (cases s) (simp_all add: utf8_next_def)
  consider "byte_of b < 128" | "\<not> byte_of b < 128" "194 \<le> byte_of b" "byte_of b < 224"
    | "224 \<le> byte_of b" "byte_of b < 240" | "240 \<le> byte_of b" "byte_of b < 245"
    using assms by (auto simp: s utf8_next_def split: if_splits)
  then show ?thesis
  proof cases
    case 1
    with assms show ?thesis
      by (intro exI [of _ "byte_of b"]) (simp add: s utf8_next_def utf8_encode_def is_high_def is_low_def)
  next
    case 2
    with assms obtain c1 where bs: "bs = c1 # r" "utf8_cont c1"
      by (auto simp: s utf8_next_def split: list.splits if_splits)
    obtain x where x: "byte_of b = 192 + x" "2 \<le> x" "x < 32" using 2 by (intro that [of "byte_of b - 192"]) simp_all
    obtain y where y: "byte_of c1 = 128 + y" "y < 64" using cont_byte [OF bs(2)] by blast
    have c: "b = char_of (192 + x)" "c1 = char_of (128 + y)" using x y by (metis char_byte)+
    have "128 \<le> x * 64 + y" "x * 64 + y < 2048" using x y by simp_all
    with x y show ?thesis
      by (intro exI [of _ "x * 64 + y"]) (simp add: s bs c utf8_encode_def is_high_def is_low_def)
  next
    case 3
    with assms obtain c1 c2 where bs: "bs = c1 # c2 # r" "utf8_cont c1" "utf8_cont c2"
        "byte_of b = 224 \<longrightarrow> 160 \<le> byte_of c1" "byte_of b = 237 \<longrightarrow> byte_of c1 < 160"
      by (auto simp: s utf8_next_def split: list.splits if_splits)
    obtain x where x: "byte_of b = 224 + x" "x < 16" using 3 by (intro that [of "byte_of b - 224"]) simp_all
    obtain y where y: "byte_of c1 = 128 + y" "y < 64" using cont_byte [OF bs(2)] by blast
    obtain z where z: "byte_of c2 = 128 + z" "z < 64" using cont_byte [OF bs(3)] by blast
    have c: "b = char_of (224 + x)" "c1 = char_of (128 + y)" "c2 = char_of (128 + z)" using x y z by (metis char_byte)+
    have xy: "x = 0 \<longrightarrow> 32 \<le> y" "x = 13 \<longrightarrow> y < 32" using bs x y by auto
    let ?n = "x * 4096 + y * 64 + z"
    have n: "2048 \<le> ?n" "?n < 65536" using xy x y z by (cases "x = 0"; simp)+
    have d: "?n div 4096 = x" "?n div 64 mod 64 = y" "?n mod 64 = z"
    proof -
      show "?n div 4096 = x" using y z by simp
      have "?n div 64 = x * 64 + y" using z by simp
      then show "?n div 64 mod 64 = y" using y by simp
      show "?n mod 64 = z" using low_six [OF z(2), of "x * 64 + y"] by (simp add: algebra_simps)
    qed
    have "\<not> (0xD800 \<le> ?n \<and> ?n \<le> 0xDFFF)"
    proof
      assume a: "0xD800 \<le> ?n \<and> ?n \<le> 0xDFFF"
      then have "x = 13" using y z by linarith
      with a xy z show False by simp
    qed
    then have "\<not> is_high ?n \<and> \<not> is_low ?n" unfolding is_high_def is_low_def by linarith
    then show ?thesis using x y z d n
      by (intro exI [of _ ?n]) (simp add: s bs c utf8_encode_def)
  next
    case 4
    with assms obtain c1 c2 c3 where bs: "bs = c1 # c2 # c3 # r" "utf8_cont c1" "utf8_cont c2" "utf8_cont c3"
        "byte_of b = 240 \<longrightarrow> 144 \<le> byte_of c1" "byte_of b = 244 \<longrightarrow> byte_of c1 < 144"
      by (auto simp: s utf8_next_def split: list.splits if_splits)
    obtain x where x: "byte_of b = 240 + x" "x < 5" using 4 by (intro that [of "byte_of b - 240"]) simp_all
    obtain y where y: "byte_of c1 = 128 + y" "y < 64" using cont_byte [OF bs(2)] by blast
    obtain z where z: "byte_of c2 = 128 + z" "z < 64" using cont_byte [OF bs(3)] by blast
    obtain w where w: "byte_of c3 = 128 + w" "w < 64" using cont_byte [OF bs(4)] by blast
    have c: "b = char_of (240 + x)" "c1 = char_of (128 + y)" "c2 = char_of (128 + z)" "c3 = char_of (128 + w)"
      using x y z w by (metis char_byte)+
    have xy: "x = 0 \<longrightarrow> 16 \<le> y" "x = 4 \<longrightarrow> y < 16" using bs x y by auto
    let ?n = "x * 262144 + y * 4096 + z * 64 + w"
    have n: "65536 \<le> ?n" using xy y z w by (cases "x = 0") simp_all
    have n': "?n < 0x110000" using xy x y z w by (cases "x = 4") simp_all
    have d: "?n div 262144 = x" "?n div 4096 mod 64 = y" "?n div 64 mod 64 = z" "?n mod 64 = w"
    proof -
      show "?n div 262144 = x" using y z w by simp
      have "?n div 4096 = x * 64 + y" using z w by simp
      then show "?n div 4096 mod 64 = y" using y by simp
      have "?n div 64 = x * 4096 + y * 64 + z" using w by simp
      show "?n div 64 mod 64 = z" using low_six [OF z(2), of "x * 64 + y"] 
        by (simp only: \<open>?n div 64 = x * 4096 + y * 64 + z\<close>) (simp add: algebra_simps)
      show "?n mod 64 = w" using low_six [OF w(2), of "x * 4096 + y * 64 + z"] by (simp add: algebra_simps)
    qed
    from x y z w d n n' show ?thesis
      by (intro exI [of _ ?n]) (simp add: s bs c utf8_encode_def is_high_def is_low_def)
  qed
qed

lemma utf8_points:
  "utf8_ok s \<Longrightarrow> s = text_of_points (points s) \<and> list_all (\<lambda>n. n < 0x110000) (points s)
     \<and> list_all (\<lambda>n. \<not> is_high n) (points s)"
proof (induction s rule: utf8_ok.induct)
  case (1 s)
  show ?case
  proof (cases "s = []")
    case True
    then show ?thesis by (simp add: text_of_points_def)
  next
    case False
    with "1.prems" obtain r where r: "utf8_next s = Some r" "utf8_ok r"
      by (subst (asm) utf8_ok.simps) (auto split: option.splits)
    from utf8_next_point [OF r(1)] obtain n where n: "s = utf8_encode n @ r" "points s = n # points r" "n < 0x110000" "\<not> is_high n"
      by blast
    from "1.IH" [OF r] n(3,4) show ?thesis
      unfolding n(2) by (subst n(1)) (simp add: text_of_points_def)
  qed
qed

lemma no_pairs_no_high: "list_all (\<lambda>n. \<not> is_high n) ps \<Longrightarrow> no_pairs ps"
  by (induction ps rule: no_pairs.induct) simp_all

lemma utf8_ascii_text_ok: "utf8_ok s \<Longrightarrow> ascii_text_ok s"
  using utf8_points no_pairs_no_high by (simp add: ascii_text_ok_def)

lemma json_ok_ascii: "json_ok v \<Longrightarrow> json_ok_with ascii_text_ok v"
  by (induction v) (auto simp: utf8_ascii_text_ok)

end
