(* ===== verification/Golden_Backup.thy ===== *)
theory Golden_Backup
  imports Plan_Codec Json_Ascii
begin

text \<open>
  The backup manifest of a Golden as a file (\<open>local/runtime_vault/golden_backup_archive.py\<close>): its
  canonical document, the reader that accepts only that document, the name it is kept under, the
  classification and the loading of what is on the disk, and the publication that never replaces what
  is there. The manifest itself, its constructor and its binding to a plan are in \<open>Vault_Plan\<close>.

  \<open>sha\<close> is \<open>hashlib.sha256(...).hexdigest()\<close> and \<open>repr\<close> the \<open>str\<close> of a value that is no text, which the
  reader applies before the last comparison refuses it.
\<close>

subsection \<open>The document\<close>

definition GOLDEN_BACKUP_SCHEMA_VERSION :: string where "GOLDEN_BACKUP_SCHEMA_VERSION = ''gp2-golden-backup-v1''"

definition ARCHIVE_ROOT_KEYS :: "string list" where
  "ARCHIVE_ROOT_KEYS = [''schema_version'', ''operation_id'', ''canonical_root'', ''volume_serial_number'',
     ''root_file_id'', ''tree_digest'', ''policy_version'', ''authorized_plan_digest'', ''node_count'', ''nodes'']"

definition TREE_DIGEST_KEYS :: "string list" where "TREE_DIGEST_KEYS = [''bytes'', ''digest'', ''files'']"

definition archive_cuerpo :: "GoldenBackupArchive \<Rightarrow> (string \<times> json) list" where
  "archive_cuerpo a =
     [(''schema_version'', JStr GOLDEN_BACKUP_SCHEMA_VERSION),
      (''operation_id'', JStr (gba_operation_id a)),
      (''canonical_root'', JStr (gba_canonical_root a)),
      (''volume_serial_number'', JInt (gba_volume_serial_number a)),
      (''root_file_id'', JInt (gba_root_file_id a)),
      (''tree_digest'', tree_digest_dict (gba_tree_digest a)),
      (''policy_version'', JStr (gba_policy_version a)),
      (''authorized_plan_digest'', JStr (gba_authorized_plan_digest a)),
      (''node_count'', JInt (int (length (gba_nodes a)))),
      (''nodes'', JArr (map node_security_backup_to_dict (gba_nodes a)))]"

definition canonical_bytes :: "GoldenBackupArchive \<Rightarrow> string" where
  "canonical_bytes a = ascii_dumps (canon (JObj (archive_cuerpo a)))"

definition archive_digest :: "(string \<Rightarrow> string) \<Rightarrow> GoldenBackupArchive \<Rightarrow> string" where
  "archive_digest sha a = sha (canonical_bytes a)"

subsection \<open>The reader\<close>

definition validate_sha256 :: "string \<Rightarrow> backup_error + string" where
  "validate_sha256 d = (if length d = 64 \<and> list_all hex_lower d then Inr d else Inl Backup_schema_error)"

fun backup_uint :: "json \<Rightarrow> int \<Rightarrow> backup_error + int" where
  "backup_uint (JInt n) m = (if in_range n m then Inr n else Inl Backup_schema_error)"
| "backup_uint _ m = Inl Backup_schema_error"

definition py_str :: "(json \<Rightarrow> string) \<Rightarrow> json \<Rightarrow> string" where
  "py_str repr v = (case v of JStr s \<Rightarrow> s | _ \<Rightarrow> repr v)"

text \<open>\<open>v != n\<close>. A float may be equal to the count; the last comparison of the reader refuses it.\<close>

fun count_differs :: "json \<Rightarrow> int \<Rightarrow> bool" where
  "count_differs (JInt i) n = (i \<noteq> n)"
| "count_differs (JBool b) n = ((if b then 1 else 0) \<noteq> n)"
| "count_differs (JFloat _) n = False"
| "count_differs _ n = True"

definition node_of_entry :: "(string \<Rightarrow> string) \<Rightarrow> json \<Rightarrow> backup_error + NodeSecurityBackup" where
  "node_of_entry sha e = map_sum (\<lambda>_. Backup_schema_error) id (node_security_backup_from_dict sha e)"

fun closed_keys :: "string list \<Rightarrow> json \<Rightarrow> backup_error + (string \<times> json) list" where
  "closed_keys keys (JObj kvs) = (if fst ` set kvs = set keys then Inr kvs else Inl Backup_schema_error)"
| "closed_keys keys _ = Inl Backup_schema_error"

fun nonempty_list :: "json \<Rightarrow> backup_error + json list" where
  "nonempty_list (JArr xs) = (if xs = [] then Inl Backup_schema_error else Inr xs)"
| "nonempty_list _ = Inl Backup_schema_error"

definition archive_of_cuerpo ::
  "(string \<Rightarrow> string) \<Rightarrow> (json \<Rightarrow> string) \<Rightarrow> (string \<times> json) list \<Rightarrow> backup_error + GoldenBackupArchive" where
  "archive_of_cuerpo sha repr cuerpo =
     res_bind (res_check (item cuerpo ''schema_version'' = JStr GOLDEN_BACKUP_SCHEMA_VERSION) Backup_schema_error) (\<lambda>_.
     res_bind (closed_keys TREE_DIGEST_KEYS (item cuerpo ''tree_digest'')) (\<lambda>tree_raw.
     res_bind (nonempty_list (item cuerpo ''nodes'')) (\<lambda>nodes_raw.
     res_bind (res_map (node_of_entry sha) nodes_raw) (\<lambda>nodes.
     res_bind (backup_uint (item cuerpo ''volume_serial_number'') MAX_UINT64) (\<lambda>vol.
     res_bind (backup_uint (item cuerpo ''root_file_id'') MAX_UINT128) (\<lambda>fid.
     res_bind (validate_sha256 (py_str repr (item tree_raw ''digest''))) (\<lambda>digest.
     res_bind (backup_uint (item tree_raw ''files'') MAX_UINT64) (\<lambda>files.
     res_bind (backup_uint (item tree_raw ''bytes'') MAX_UINT64) (\<lambda>bytes.
     res_bind (validate_sha256 (py_str repr (item cuerpo ''authorized_plan_digest''))) (\<lambda>plan_digest.
     res_bind (archive_post_init
        \<lparr>gba_operation_id = py_str repr (item cuerpo ''operation_id''),
         gba_canonical_root = py_str repr (item cuerpo ''canonical_root''),
         gba_volume_serial_number = vol, gba_root_file_id = fid,
         gba_tree_digest = \<lparr>td_digest = digest, td_files = files, td_bytes = bytes\<rparr>,
         gba_policy_version = py_str repr (item cuerpo ''policy_version''),
         gba_authorized_plan_digest = plan_digest, gba_nodes = nodes\<rparr>) (\<lambda>archive.
     res_bind (res_check (\<not> count_differs (item cuerpo ''node_count'') (int (length nodes))) Backup_schema_error) (\<lambda>_.
     res_bind (res_check (map canon nodes_raw = map (canon \<circ> node_security_backup_to_dict) nodes) Backup_schema_error) (\<lambda>_.
       Inr archive)))))))))))))"

definition deserialize_golden_backup_archive ::
  "(string \<Rightarrow> string) \<Rightarrow> (json \<Rightarrow> string) \<Rightarrow> string \<Rightarrow> backup_error + GoldenBackupArchive" where
  "deserialize_golden_backup_archive sha repr raw =
     (if raw = [] then Inl Backup_schema_error
      else case loads_with False raw of
          Inl Int_too_long \<Rightarrow> Inl Backup_value_error
        | Inl _ \<Rightarrow> Inl Backup_schema_error
        | Inr doc \<Rightarrow>
            res_bind (closed_keys ARCHIVE_ROOT_KEYS doc) (\<lambda>cuerpo.
            res_bind (archive_of_cuerpo sha repr cuerpo) (\<lambda>archive.
            res_bind (res_check (canonical_bytes archive = raw) Backup_schema_error) (\<lambda>_. Inr archive))))"

text \<open>An archive that its reader can have made.\<close>

definition archive_valid :: "(string \<Rightarrow> string) \<Rightarrow> GoldenBackupArchive \<Rightarrow> bool" where
  "archive_valid sha a \<longleftrightarrow> archive_post_init a = Inr a \<and> list_all (node_ok sha) (gba_nodes a)
     \<and> validate_sha256 (td_digest (gba_tree_digest a)) = Inr (td_digest (gba_tree_digest a))
     \<and> validate_sha256 (gba_authorized_plan_digest a) = Inr (gba_authorized_plan_digest a)"

subsection \<open>What is accepted\<close>

lemma archive_post_init_Inr:
  "archive_post_init a = Inr b \<longleftrightarrow> b = a \<and> archive_post_init a = Inr a"
  by (auto simp: archive_post_init_def res_bind_Inr)

lemma validate_sha256_Inr: "validate_sha256 d = Inr x \<longleftrightarrow> x = d \<and> length d = 64 \<and> list_all hex_lower d"
  by (auto simp: validate_sha256_def)

lemma backup_uint_Inr: "backup_uint v m = Inr n \<longleftrightarrow> v = JInt n \<and> in_range n m"
  by (cases v) auto

lemma closed_keys_object: "closed_keys ks v = Inr kvs \<longleftrightarrow> closed_object e ks v = Inr kvs"
  by (cases v) (auto simp: closed_object_def)

lemma node_of_entry_ok: "node_of_entry sha e = Inr n \<Longrightarrow> node_ok sha n"
  by (cases "node_security_backup_from_dict sha e")
    (auto simp: node_of_entry_def node_security_backup_from_dict_def split: json.splits if_splits dest: node_backup_ok)

lemma nodes_of_entries_ok: "res_map (node_of_entry sha) xs = Inr ns \<Longrightarrow> list_all (node_ok sha) ns"
  by (fastforce simp: res_map_Inr list_all2_conv_all_nth list_all_length dest: node_of_entry_ok)

lemma archive_of_cuerpo_valid:
  assumes "archive_of_cuerpo sha repr cuerpo = Inr a"
  shows "archive_valid sha a"
proof -
  from assms obtain nodes_raw nodes vol fid digest files bytes plan_digest op root policy where
    n: "res_map (node_of_entry sha) nodes_raw = Inr nodes"
    and d: "validate_sha256 digest = Inr digest" and pd: "validate_sha256 plan_digest = Inr plan_digest"
    and a: "archive_post_init \<lparr>gba_operation_id = op, gba_canonical_root = root,
         gba_volume_serial_number = vol, gba_root_file_id = fid,
         gba_tree_digest = \<lparr>td_digest = digest, td_files = files, td_bytes = bytes\<rparr>,
         gba_policy_version = policy, gba_authorized_plan_digest = plan_digest, gba_nodes = nodes\<rparr> = Inr a"
    unfolding archive_of_cuerpo_def res_bind_Inr validate_sha256_Inr by blast
  from a [unfolded archive_post_init_Inr [of _ a]] nodes_of_entries_ok [OF n] d pd
  show ?thesis unfolding archive_valid_def by auto
qed

lemma deserialize_archive_Inr:
  assumes "deserialize_golden_backup_archive sha repr raw = Inr a"
  shows "archive_valid sha a \<and> raw = canonical_bytes a"
proof (cases "loads_with False raw")
  case (Inl e)
  with assms show ?thesis by (cases e) (auto simp: deserialize_golden_backup_archive_def split: if_splits)
next
  case (Inr doc)
  with assms obtain cuerpo where "archive_of_cuerpo sha repr cuerpo = Inr a" "canonical_bytes a = raw"
    by (auto simp: deserialize_golden_backup_archive_def res_bind_Inr split: if_splits)
  with archive_of_cuerpo_valid show ?thesis by blast
qed

subsection \<open>What is written is read back\<close>

lemma canon_idem [simp]: "canon (canon v) = canon v"
proof (induction v rule: canon.induct)
  case (2 kvs)
  have "map (\<lambda>(k, v). (k, canon v)) (sort_key fst (map (\<lambda>(k, v). (k, canon v)) kvs)) = sort_key fst (map (\<lambda>(k, v). (k, canon v)) kvs)"
    using 2 by (intro map_idI) auto
  then show ?case by (simp add: sort_key_id_if_sorted)
qed simp_all

lemma cuerpo_keys:
  "distinct (map fst (archive_cuerpo a)) \<and> fst ` set (archive_cuerpo a) = set ARCHIVE_ROOT_KEYS"
  by (simp add: archive_cuerpo_def ARCHIVE_ROOT_KEYS_def)

lemma archive_of_written:
  assumes i: "item kvs = canon \<circ> item (archive_cuerpo a)" and v: "archive_valid sha a"
  shows "archive_of_cuerpo sha repr kvs = Inr a"
proof -
  have f: "item kvs ''schema_version'' = JStr GOLDEN_BACKUP_SCHEMA_VERSION"
      "item kvs ''operation_id'' = JStr (gba_operation_id a)" "item kvs ''canonical_root'' = JStr (gba_canonical_root a)"
      "item kvs ''volume_serial_number'' = JInt (gba_volume_serial_number a)" "item kvs ''root_file_id'' = JInt (gba_root_file_id a)"
      "item kvs ''tree_digest'' = canon (tree_digest_dict (gba_tree_digest a))"
      "item kvs ''policy_version'' = JStr (gba_policy_version a)"
      "item kvs ''authorized_plan_digest'' = JStr (gba_authorized_plan_digest a)"
      "item kvs ''node_count'' = JInt (int (length (gba_nodes a)))"
      "item kvs ''nodes'' = JArr (map (canon \<circ> node_security_backup_to_dict) (gba_nodes a))"
    unfolding i archive_cuerpo_def by (simp_all add: item_def)
  obtain tree where t: "closed_object Plan_schema TREE_DIGEST_KEYS (canon (tree_digest_dict (gba_tree_digest a))) = Inr tree"
     "item tree ''bytes'' = JInt (td_bytes (gba_tree_digest a))" "item tree ''digest'' = JStr (td_digest (gba_tree_digest a))"
     "item tree ''files'' = JInt (td_files (gba_tree_digest a))" unfolding TREE_DIGEST_KEYS_def by (rule closed_tree_digest)
  have t': "closed_keys TREE_DIGEST_KEYS (canon (tree_digest_dict (gba_tree_digest a))) = Inr tree"
    using t(1) closed_keys_object by blast
  have p: "archive_post_init a = Inr a" using v by (simp add: archive_valid_def)
  then have r: "in_range (gba_volume_serial_number a) MAX_UINT64" "in_range (gba_root_file_id a) MAX_UINT128"
      "in_range (td_files (gba_tree_digest a)) MAX_UINT64" "in_range (td_bytes (gba_tree_digest a)) MAX_UINT64" "gba_nodes a \<noteq> []"
    unfolding archive_post_init_def res_bind_Inr by auto
  have n: "res_map (node_of_entry sha) (map (canon \<circ> node_security_backup_to_dict) (gba_nodes a)) = Inr (gba_nodes a)"
    by (rule res_map_dicts) (use v in \<open>auto simp: archive_valid_def list_all_iff node_of_entry_def node_from_dict\<close>)
  have e: "\<lparr>gba_operation_id = gba_operation_id a, gba_canonical_root = gba_canonical_root a,
         gba_volume_serial_number = gba_volume_serial_number a, gba_root_file_id = gba_root_file_id a,
         gba_tree_digest = \<lparr>td_digest = td_digest (gba_tree_digest a), td_files = td_files (gba_tree_digest a), td_bytes = td_bytes (gba_tree_digest a)\<rparr>,
         gba_policy_version = gba_policy_version a,
         gba_authorized_plan_digest = gba_authorized_plan_digest a, gba_nodes = gba_nodes a\<rparr> = a" by simp
  have c: "map canon (map (canon \<circ> node_security_backup_to_dict) (gba_nodes a)) = map (canon \<circ> node_security_backup_to_dict) (gba_nodes a)"
    by simp
  from v have s: "validate_sha256 (td_digest (gba_tree_digest a)) = Inr (td_digest (gba_tree_digest a))"
     "validate_sha256 (gba_authorized_plan_digest a) = Inr (gba_authorized_plan_digest a)" by (simp_all add: archive_valid_def)
  show ?thesis
    unfolding archive_of_cuerpo_def f t' nonempty_list.simps res_bind.simps t py_str_def json.case backup_uint.simps
    using r n p c s by (simp add: e)
qed

lemma deserialize_written:
  assumes "archive_valid sha a" and "json_ok_with ascii_text_ok (JObj (archive_cuerpo a))"
  shows "deserialize_golden_backup_archive sha repr (canonical_bytes a) = Inr a"
proof -
  from canon_object [of "archive_cuerpo a"] cuerpo_keys [of a] obtain kvs where
    k: "canon (JObj (archive_cuerpo a)) = JObj kvs" "fst ` set kvs = set ARCHIVE_ROOT_KEYS" "item kvs = canon \<circ> item (archive_cuerpo a)"
    by metis
  have l: "loads_with False (canonical_bytes a) = Inr (JObj kvs)"
    unfolding canonical_bytes_def k(1) using assms(2) by (intro loads_ascii_dumps) (metis json_ok_canon k(1))
  have ne: "canonical_bytes a \<noteq> []" unfolding canonical_bytes_def k(1) by simp
  show ?thesis
    unfolding deserialize_golden_backup_archive_def l using ne k(2) archive_of_written [OF k(3) assms(1)] by simp
qed

subsection \<open>The manifest of a valid plan\<close>

lemma upper_byte: "byte_of c \<ge> 128 \<Longrightarrow> ascii_upper [c] = [c]" "byte_of c < 128 \<Longrightarrow> byte_of (hd (ascii_upper [c])) < 128"
  by (auto simp: ascii_upper_def byte_of_def)

lemma utf8_next_map:
  assumes hi: "\<And>c. byte_of c \<ge> 128 \<Longrightarrow> f c = c" and lo: "\<And>c. byte_of c < 128 \<Longrightarrow> byte_of (f c) < 128"
  shows "utf8_next (map f s) = map_option (map f) (utf8_next s)"
proof (cases s)
  case (Cons b bs)
  have c: "utf8_cont (f c) = utf8_cont c" for c using hi [of c] lo [of c] by (cases "byte_of c < 128") (auto simp: utf8_cont_def)
  have k: "utf8_cont c \<Longrightarrow> f c = c" for c by (rule hi) (simp add: utf8_cont_def)
  show ?thesis
  proof (cases "byte_of b < 128")
    case True
    with lo show ?thesis by (simp add: Cons utf8_next_def)
  next
    case False
    then have "f b = b" by (intro hi) simp
    then show ?thesis
    proof (cases bs)
      case (Cons c1 bs1)
      show ?thesis
      proof (cases bs1)
        case (Cons c2 bs2)
        with \<open>bs = _\<close> \<open>f b = b\<close> False show ?thesis
          by (cases bs2; cases "utf8_cont c1"; cases "utf8_cont c2") (simp_all add: \<open>s = _\<close> utf8_next_def c k)
      qed (use Cons \<open>f b = b\<close> False in \<open>cases "utf8_cont c1"; simp add: \<open>s = _\<close> utf8_next_def c k\<close>)
    qed (simp add: Cons utf8_next_def)
  qed
qed (simp add: utf8_next_def)

lemma utf8_ok_map:
  assumes hi: "\<And>c. byte_of c \<ge> 128 \<Longrightarrow> f c = c" and lo: "\<And>c. byte_of c < 128 \<Longrightarrow> byte_of (f c) < 128"
  shows "utf8_ok (map f s) = utf8_ok s"
proof (induction s rule: utf8_ok.induct)
  case (1 s)
  then show ?case
    by (subst (1 2) utf8_ok.simps) (auto simp: utf8_next_map [OF hi lo] split: option.splits)
qed

lemma utf8_ok_upper: "utf8_ok (ascii_upper s) = utf8_ok s"
  unfolding ascii_upper_def by (rule utf8_ok_map) (auto simp: byte_of_def)

lemma binds_to_json_ok:
  assumes "plan_valid sha p" and "binds_to a p"
  shows "json_ok (JObj (archive_cuerpo a))"
proof -
  have j: "json_ok (plan_document p (ap_plan_digest p))" using serialize_valid [OF assms(1)] by blast
  have b: "gba_operation_id a = ap_operation_id p" "utf8_ok (gba_canonical_root a) = utf8_ok (ap_canonical_root p)"
     "gba_volume_serial_number a = ap_volume_serial_number p" "gba_root_file_id a = ap_root_file_id p"
     "gba_tree_digest a = ap_tree_digest p" "gba_policy_version a = ap_policy_version p"
     "gba_authorized_plan_digest a = ap_plan_digest p" "set (gba_nodes a) = set (ap_nodes p)"
     "length (gba_nodes a) = length (ap_nodes p)"
    using assms(2) utf8_ok_upper [of "gba_canonical_root a"] utf8_ok_upper [of "ap_canonical_root p"]
    by (auto simp: binds_to_def orden_canonico_def)
  have n: "int (length (ap_nodes p)) = ap_node_count p" using plan_valid_nodes [OF assms(1)] by blast
  have k: "utf8_ok ''schema_version''" "utf8_ok ''node_count''" "utf8_ok ''authorized_plan_digest''" "utf8_ok GOLDEN_BACKUP_SCHEMA_VERSION"
    by (rule utf8_ok_ascii; auto simp: byte_of_def GOLDEN_BACKUP_SCHEMA_VERSION_def)+
  have d: "utf8_ok (ap_plan_digest p)" using assms(1) sha_digest_utf8 by (simp add: plan_valid_def)
  have m: "utf8_ok key \<and> json_ok v" if "(key, v) \<in> set (authorized_plan_content_dict p)" for key v
    using j that unfolding plan_document_def by auto
  note f = m [unfolded authorized_plan_content_dict_def]
  have "utf8_ok key \<and> json_ok v" if "(key, v) \<in> set (archive_cuerpo a)" for key v
    using that f [of "''operation_id''" "JStr (ap_operation_id p)"] f [of "''canonical_root''" "JStr (ap_canonical_root p)"]
      f [of "''volume_serial_number''" "JInt (ap_volume_serial_number p)"] f [of "''root_file_id''" "JInt (ap_root_file_id p)"]
      f [of "''tree_digest''" "tree_digest_dict (ap_tree_digest p)"] f [of "''policy_version''" "JStr (ap_policy_version p)"]
      f [of "''node_count''" "JInt (ap_node_count p)"] f [of "''nodes''" "JArr (map node_security_backup_to_dict (ap_nodes p))"]
    unfolding archive_cuerpo_def by (auto simp: b n k d simp del: json_text.simps)
  then show ?thesis using cuerpo_keys [of a] by (simp only: json_ok_with.simps) blast
qed

lemma read_bound_archive:
  assumes "plan_valid sha p" and "binds_to a p"
  shows "deserialize_golden_backup_archive sha repr raw = Inr a \<longleftrightarrow> raw = canonical_bytes a \<and> archive_valid sha a"
  using deserialize_written json_ok_ascii [OF binds_to_json_ok [OF assms]] deserialize_archive_Inr by metis

text \<open>What the constructor makes of a valid plan, if it makes anything.\<close>

lemma hex_digest_kept: "validate_sha256_hex v = Inr d \<Longrightarrow> validate_sha256 d = Inr d"
  by (auto simp: validate_sha256_hex_def validate_sha256_def Let_def split: json.splits if_splits)

lemma post_init_tree: "authorized_plan_post_init sha f = Inr p \<Longrightarrow>
    \<exists>v. validate_sha256_hex v = Inr (td_digest (ap_tree_digest p))"
  by (auto simp: authorized_plan_post_init_def validate_tree_digest_def res_bind_Inr Let_def)

lemma build_valid:
  assumes "plan_valid sha p" and "build_golden_backup_archive p = Inr a"
  shows "archive_valid sha a \<and> binds_to a p"
proof -
  have "authorized_plan_post_init sha (plan_fields p) = Inr p" and n: "list_all (node_ok sha) (ap_nodes p)"
    and d: "validate_sha256_hex (JStr (ap_plan_digest p)) = Inr (ap_plan_digest p)"
    using assms(1) by (simp_all add: plan_valid_def plan_stored_def)
  then obtain v where t: "validate_sha256_hex v = Inr (td_digest (ap_tree_digest p))"
    using post_init_tree by blast
  have b: "binds_to a p" using assms(2) by (rule build_binds)
  have "archive_post_init a = Inr a"
    using assms(2) archive_post_init_Inr unfolding build_golden_backup_archive_def by metis
  then show ?thesis
    using b n hex_digest_kept [OF d] hex_digest_kept [OF t]
    by (auto simp: archive_valid_def binds_to_def orden_canonico_def list_all_iff)
qed

subsection \<open>The name\<close>

text \<open>\<open>format(n, "0<w>x")\<close>.\<close>

fun hex_text :: "nat \<Rightarrow> string" where
  "hex_text n = (if n < 16 then [hex_digit n] else hex_text (n div 16) @ [hex_digit (n mod 16)])"

declare hex_text.simps [simp del]

definition hex_padded :: "nat \<Rightarrow> int \<Rightarrow> string" where
  "hex_padded w n = (let h = hex_text (nat n) in replicate (w - length h) (CHR ''0'') @ h)"

definition VOLUME_SERIAL_SCALE :: nat where "VOLUME_SERIAL_SCALE = 16"
definition ROOT_FILE_ID_SCALE :: nat where "ROOT_FILE_ID_SCALE = 32"

definition format_scope :: "int \<Rightarrow> int \<Rightarrow> string" where
  "format_scope vol fid = hex_padded VOLUME_SERIAL_SCALE vol @ ''_'' @ hex_padded ROOT_FILE_ID_SCALE fid"

text \<open>The components of the directory below the runtime vault, and the name of the file in it.\<close>

definition derive_golden_backup_dir :: "int \<Rightarrow> int \<Rightarrow> string \<Rightarrow> backup_error + string list" where
  "derive_golden_backup_dir vol fid policy =
     res_bind (res_check (in_range vol MAX_UINT64) Backup_schema_error) (\<lambda>_.
     res_bind (res_check (in_range fid MAX_UINT128) Backup_schema_error) (\<lambda>_.
     res_bind (res_check (py_strip policy \<noteq> []) Backup_schema_error) (\<lambda>_.
       Inr [''golden_backups'', format_scope vol fid, policy])))"

definition GOLDEN_BACKUP_FILE_SUFFIX :: string where "GOLDEN_BACKUP_FILE_SUFFIX = ''_manifest.json''"

definition derive_golden_backup_path :: "AuthorizedPlan \<Rightarrow> backup_error + string list" where
  "derive_golden_backup_path plan =
     res_bind (derive_golden_backup_dir (ap_volume_serial_number plan) (ap_root_file_id plan) (ap_policy_version plan))
       (\<lambda>dir. Inr (dir @ [ap_operation_id plan @ GOLDEN_BACKUP_FILE_SUFFIX]))"

lemma hex_text_length: "n < 16 ^ k \<Longrightarrow> k > 0 \<Longrightarrow> length (hex_text n) \<le> k"
proof (induction n arbitrary: k rule: hex_text.induct)
  case (1 n)
  show ?case
  proof (cases "n < 16")
    case False
    with "1.prems" have k: "k \<noteq> 1" "k > 0" using False by (cases "k = 1"; simp)+
    then obtain j where j: "k = Suc j" "j > 0" by (cases k) auto
    have "n div 16 < 16 ^ j" using "1.prems"(1) j by (simp add: less_mult_imp_div_less mult.commute)
    with "1.IH" [OF False] j have "length (hex_text (n div 16)) \<le> j" by simp
    with False j show ?thesis by (subst hex_text.simps) simp
  qed (use "1.prems" in \<open>subst hex_text.simps, simp\<close>)
qed

fun hex_value :: "nat \<Rightarrow> string \<Rightarrow> nat" where
  "hex_value acc [] = acc"
| "hex_value acc (c # cs) = hex_value (acc * 16 + (case hex_val c of None \<Rightarrow> 0 | Some v \<Rightarrow> v)) cs"


lemma hex_value_append: "hex_value acc (s @ t) = hex_value (hex_value acc s) t"
  by (induction s arbitrary: acc) simp_all

lemma hex_value_text: "hex_value 0 (hex_text n) = n"
proof (induction n rule: hex_text.induct)
  case (1 n)
  show ?case
  proof (cases "n < 16")
    case True
    then show ?thesis by (subst hex_text.simps) (simp add: hex_val_digit)
  next
    case False
    with 1 have "hex_value 0 (hex_text (n div 16)) = n div 16" by simp
    with False show ?thesis by (subst hex_text.simps) (simp add: hex_value_append hex_val_digit)
  qed
qed

lemma hex_value_zeros: "hex_value 0 (replicate k (CHR ''0'') @ s) = hex_value 0 s"
proof -
  have "hex_val (CHR ''0'') = Some 0" using hex_val_digit [of 0] by (simp add: hex_digit_def char_of_def bit_iff_odd)
  then show ?thesis by (induction k) simp_all
qed

lemma hex_padded:
  assumes "in_range n (16 ^ w - 1)" and "w > 0"
  shows "length (hex_padded w n) = w \<and> hex_value 0 (hex_padded w n) = nat n"
proof -
  have "n < 16 ^ w" "0 \<le> n" using assms by (auto simp: in_range_def)
  then have "nat n < 16 ^ w" by (simp add: nat_less_iff)
  with assms(2) hex_text_length have "length (hex_text (nat n)) \<le> w" by blast
  then show ?thesis by (simp add: hex_padded_def Let_def hex_value_zeros hex_value_text)
qed

text \<open>Two physical identities never share a name.\<close>

lemma scope_inj:
  assumes "derive_golden_backup_dir vol fid policy = Inr d" and "derive_golden_backup_dir vol' fid' policy' = Inr d"
  shows "vol = vol' \<and> fid = fid' \<and> policy = policy'"
proof -
  from assms have r: "in_range vol (16 ^ 16 - 1)" "in_range vol' (16 ^ 16 - 1)" "in_range fid (16 ^ 32 - 1)" "in_range fid' (16 ^ 32 - 1)"
    and e: "format_scope vol fid = format_scope vol' fid'" "policy = policy'"
    by (auto simp: derive_golden_backup_dir_def res_bind_Inr MAX_UINT64_def MAX_UINT128_def)
  note p = hex_padded [OF r(1)] hex_padded [OF r(2)] hex_padded [OF r(3)] hex_padded [OF r(4)]
  from e(1) p have "hex_padded 16 vol = hex_padded 16 vol'" "hex_padded 32 fid = hex_padded 32 fid'"
    by (simp_all add: format_scope_def VOLUME_SERIAL_SCALE_def ROOT_FILE_ID_SCALE_def)
  with p have "nat vol = nat vol'" "nat fid = nat fid'" by (metis zero_less_numeral)+
  with r e(2) show ?thesis by (auto simp: in_range_def)
qed

subsection \<open>What is on the disk\<close>

definition classify_durable_golden_backup ::
  "(string \<Rightarrow> string) \<Rightarrow> (json \<Rightarrow> string) \<Rightarrow> AuthorizedPlan \<Rightarrow> file_read \<Rightarrow> backup_error + DurableWriteOutcome" where
  "classify_durable_golden_backup sha repr plan f =
     res_bind (derive_golden_backup_path plan) (\<lambda>_.
     case f of
        File_missing \<Rightarrow> Inr NOT_DURABLE
      | File_unreadable \<Rightarrow> Inr Write_INDETERMINATE
      | File_bytes raw \<Rightarrow>
          (case deserialize_golden_backup_archive sha repr raw of
             Inl e \<Rightarrow> if golden_backup_error e then Inr Write_INDETERMINATE else Inl e
           | Inr archive \<Rightarrow> Inr (if binds_to archive plan then DURABLE else Write_INDETERMINATE)))"

text \<open>Without the \<open>path\<close> of the tests, or with the derived one, as the code calls it.\<close>

definition load_durable_golden_backup ::
  "(string \<Rightarrow> string) \<Rightarrow> (json \<Rightarrow> string) \<Rightarrow> AuthorizedPlan \<Rightarrow> file_read \<Rightarrow> backup_error + GoldenBackupArchive" where
  "load_durable_golden_backup sha repr plan f =
     res_bind (derive_golden_backup_path plan) (\<lambda>_.
     case f of
        File_missing \<Rightarrow> Inl Backup_not_found_error
      | File_unreadable \<Rightarrow> Inl Backup_indeterminate_error
      | File_bytes raw \<Rightarrow>
          (case deserialize_golden_backup_archive sha repr raw of
             Inl e \<Rightarrow> Inl (if golden_backup_error e then Backup_indeterminate_error else e)
           | Inr archive \<Rightarrow> if binds_to archive plan then Inr archive else Inl Backup_indeterminate_error))"

subsection \<open>Publication\<close>

record GoldenBackupWriteOutcome =
  wo_durable :: GoldenBackupArchive
  wo_republished :: bool
  wo_revalidated_existing :: bool

text \<open>What one call sees: the file when it is classified, what the writer raises, if anything, and the
  file when it is classified after a collision and when it is loaded.\<close>

record archive_io =
  ai_found :: file_read
  ai_write :: "backup_error option"
  ai_collision :: file_read
  ai_load :: file_read

fun write_error :: "backup_error \<Rightarrow> backup_error" where
  "write_error Backup_durability_error = Backup_durability_error"
| "write_error Backup_namespace_error = Backup_namespace_error"
| "write_error Backup_value_error = Backup_value_error"
| "write_error _ = Backup_write_error"

definition loaded_outcome ::
  "(string \<Rightarrow> string) \<Rightarrow> (json \<Rightarrow> string) \<Rightarrow> AuthorizedPlan \<Rightarrow> archive_io \<Rightarrow> bool
    \<Rightarrow> backup_error + GoldenBackupWriteOutcome" where
  "loaded_outcome sha repr plan io published =
     res_bind (load_durable_golden_backup sha repr plan (ai_load io)) (\<lambda>durable.
       Inr \<lparr>wo_durable = durable, wo_republished = published, wo_revalidated_existing = \<not> published\<rparr>)"

text \<open>The second component is what was handed to the writer.\<close>

definition archive_golden_backup ::
  "(string \<Rightarrow> string) \<Rightarrow> (json \<Rightarrow> string) \<Rightarrow> AuthorizedPlan \<Rightarrow> archive_io
    \<Rightarrow> (backup_error + GoldenBackupWriteOutcome) \<times> string option" where
  "archive_golden_backup sha repr plan io =
     (case build_golden_backup_archive plan of
        Inl e \<Rightarrow> (Inl e, None)
      | Inr archive \<Rightarrow>
          let payload = canonical_bytes archive in
          (case classify_durable_golden_backup sha repr plan (ai_found io) of
             Inl e \<Rightarrow> (Inl e, None)
           | Inr DURABLE \<Rightarrow> (loaded_outcome sha repr plan io False, None)
           | Inr Write_INDETERMINATE \<Rightarrow> (Inl Backup_indeterminate_error, None)
           | Inr NOT_DURABLE \<Rightarrow>
               (case ai_write io of
                  None \<Rightarrow> (loaded_outcome sha repr plan io True, Some payload)
                | Some Backup_already_exists_error \<Rightarrow>
                    (case classify_durable_golden_backup sha repr plan (ai_collision io) of
                       Inl e \<Rightarrow> (Inl e, Some payload)
                     | Inr DURABLE \<Rightarrow> (loaded_outcome sha repr plan io False, Some payload)
                     | Inr _ \<Rightarrow> (Inl Backup_indeterminate_error, Some payload))
                | Some e \<Rightarrow> (Inl (write_error e), Some payload))))"

subsection \<open>What the store guarantees\<close>

lemma derive_path_built: "build_golden_backup_archive plan = Inr a \<Longrightarrow> \<exists>d. derive_golden_backup_path plan = Inr d"
  by (auto simp: build_golden_backup_archive_def archive_post_init_def derive_golden_backup_path_def
      derive_golden_backup_dir_def res_bind_Inr)

lemma load_backup_Inr:
  "load_durable_golden_backup sha repr plan f = Inr a \<longleftrightarrow>
     (\<exists>d. derive_golden_backup_path plan = Inr d)
     \<and> (\<exists>raw. f = File_bytes raw \<and> deserialize_golden_backup_archive sha repr raw = Inr a) \<and> binds_to a plan"
  by (cases f) (auto simp: load_durable_golden_backup_def res_bind_Inr split: sum.splits if_splits)

lemma backup_exact:
  assumes "plan_valid sha p" and "build_golden_backup_archive p = Inr b"
  shows "load_durable_golden_backup sha repr p f = Inr a \<longleftrightarrow>
    f = File_bytes (canonical_bytes a) \<and> archive_valid sha a \<and> binds_to a p"
  using derive_path_built [OF assms(2)] read_bound_archive [OF assms(1), of a] by (auto simp: load_backup_Inr)

lemma classify_load:
  "classify_durable_golden_backup sha repr p f = Inr DURABLE \<longleftrightarrow> (\<exists>a. load_durable_golden_backup sha repr p f = Inr a)"
  by (cases f)
    (auto simp: classify_durable_golden_backup_def load_durable_golden_backup_def res_bind_Inr split: sum.splits if_splits)

lemma classify_absent:
  "classify_durable_golden_backup sha repr p f = Inr NOT_DURABLE \<longleftrightarrow>
     f = File_missing \<and> (\<exists>d. derive_golden_backup_path p = Inr d)"
  by (cases f) (auto simp: classify_durable_golden_backup_def res_bind_Inr split: sum.splits if_splits)

lemma archive_result:
  assumes "archive_golden_backup sha repr p io = (Inr w, written)"
  shows "load_durable_golden_backup sha repr p (ai_load io) = Inr (wo_durable w)
    \<and> (written = None \<longrightarrow> \<not> wo_republished w) \<and> wo_revalidated_existing w = (\<not> wo_republished w)"
  using assms
  by (auto simp: archive_golden_backup_def loaded_outcome_def res_bind_Inr Let_def
      split: sum.splits DurableWriteOutcome.splits option.splits backup_error.splits)

lemma archive_written:
  assumes "archive_golden_backup sha repr p io = (res, Some payload)"
  shows "ai_found io = File_missing \<and> (\<exists>a. build_golden_backup_archive p = Inr a \<and> payload = canonical_bytes a)"
  using assms classify_absent [of sha repr p "ai_found io"]
  by (auto simp: archive_golden_backup_def Let_def
      split: sum.splits DurableWriteOutcome.splits option.splits backup_error.splits)

lemma archive_create_once:
  assumes "plan_valid sha p" and "archive_golden_backup sha repr p io = (res, written)"
  shows "(\<forall>w. res = Inr w \<longrightarrow> ai_load io = File_bytes (canonical_bytes (wo_durable w))
        \<and> archive_valid sha (wo_durable w) \<and> binds_to (wo_durable w) p)
    \<and> (\<forall>payload. written = Some payload \<longrightarrow> ai_found io = File_missing
        \<and> (\<exists>b. build_golden_backup_archive p = Inr b \<and> payload = canonical_bytes b))"
proof -
  have "\<exists>b. build_golden_backup_archive p = Inr b" if "res = Inr w" for w
    using assms(2) that by (auto simp: archive_golden_backup_def split: sum.splits)
  then show ?thesis
    using assms(2) archive_result [of sha repr p io] archive_written [of sha repr p io] backup_exact [OF assms(1)] by blast
qed

text \<open>C17: the backup of a plan is loaded exactly from the canonical text of a manifest that binds to the plan.\<close>

theorem backup_file_exact:
  assumes "plan_valid sha p" and "build_golden_backup_archive p = Inr b"
  shows "load_durable_golden_backup sha repr p f = Inr a \<longleftrightarrow>
    f = File_bytes (canonical_bytes a) \<and> archive_valid sha a \<and> binds_to a p"
  using assms by (rule backup_exact)

text \<open>C18: whatever the disk and the writer do: a publication that succeeds has read back, after the write, a
  file that is the canonical text of a manifest bound to the plan, and something was handed to the writer
  only when the file was missing.\<close>

theorem backup_create_once:
  assumes "plan_valid sha p" and "archive_golden_backup sha repr p io = (res, written)"
  shows "(\<forall>w. res = Inr w \<longrightarrow> ai_load io = File_bytes (canonical_bytes (wo_durable w))
        \<and> archive_valid sha (wo_durable w) \<and> binds_to (wo_durable w) p)
    \<and> (\<forall>payload. written = Some payload \<longrightarrow> ai_found io = File_missing
        \<and> (\<exists>b. build_golden_backup_archive p = Inr b \<and> payload = canonical_bytes b))"
  using assms by (rule archive_create_once)

lemma archive_publishes:
  assumes "plan_valid sha p" and "build_golden_backup_archive p = Inr b"
  shows "archive_golden_backup sha repr p
      \<lparr>ai_found = File_missing, ai_write = None, ai_collision = c, ai_load = File_bytes (canonical_bytes b)\<rparr>
    = (Inr \<lparr>wo_durable = b, wo_republished = True, wo_revalidated_existing = False\<rparr>, Some (canonical_bytes b))
    \<and> archive_golden_backup sha repr p
      \<lparr>ai_found = File_bytes (canonical_bytes b), ai_write = w, ai_collision = c, ai_load = File_bytes (canonical_bytes b)\<rparr>
    = (Inr \<lparr>wo_durable = b, wo_republished = False, wo_revalidated_existing = True\<rparr>, None)"
proof -
  have l: "load_durable_golden_backup sha repr p (File_bytes (canonical_bytes b)) = Inr b"
    using backup_exact [OF assms] build_valid [OF assms] by blast
  then have "classify_durable_golden_backup sha repr p (File_bytes (canonical_bytes b)) = Inr DURABLE"
    using classify_load by blast
  moreover have "classify_durable_golden_backup sha repr p File_missing = Inr NOT_DURABLE"
    using classify_absent derive_path_built [OF assms(2)] by blast
  ultimately show ?thesis using l by (simp add: archive_golden_backup_def assms(2) Let_def loaded_outcome_def)
qed

text \<open>A publication on a disk that works ends with the manifest of the plan, and a second one finds it,
  accepts it and writes nothing.\<close>

theorem backup_published:
  assumes "plan_valid sha p" and "build_golden_backup_archive p = Inr b"
  shows "archive_golden_backup sha repr p
      \<lparr>ai_found = File_missing, ai_write = None, ai_collision = c, ai_load = File_bytes (canonical_bytes b)\<rparr>
    = (Inr \<lparr>wo_durable = b, wo_republished = True, wo_revalidated_existing = False\<rparr>, Some (canonical_bytes b))
    \<and> archive_golden_backup sha repr p
      \<lparr>ai_found = File_bytes (canonical_bytes b), ai_write = w, ai_collision = c, ai_load = File_bytes (canonical_bytes b)\<rparr>
    = (Inr \<lparr>wo_durable = b, wo_republished = False, wo_revalidated_existing = True\<rparr>, None)"
  using assms by (rule archive_publishes)

text \<open>Two physical identities, or two policies, never share a directory.\<close>

theorem backup_scope_injective:
  assumes "derive_golden_backup_dir vol fid policy = Inr d" and "derive_golden_backup_dir vol' fid' policy' = Inr d"
  shows "vol = vol' \<and> fid = fid' \<and> policy = policy'"
  using assms by (rule scope_inj)

subsection \<open>Where the reader and the plan differ\<close>

text \<open>The dimensions of a tree have a bound here that a plan does not put on them: a plan beyond it has no
  backup.\<close>

lemma backup_bounds_tree:
  "MAX_UINT64 < td_files (ap_tree_digest p) \<Longrightarrow> \<exists>e. build_golden_backup_archive p = Inl e"
  by (cases "build_golden_backup_archive p")
    (auto simp: build_golden_backup_archive_def archive_post_init_def res_bind_Inr in_range_def)

text \<open>The classifier catches the errors of its own module only.\<close>

lemma backup_huge_integer:
  assumes "MAX_INT_DIGITS < n" and "derive_golden_backup_path p = Inr d"
  shows "classify_durable_golden_backup sha repr p (File_bytes (replicate n (CHR ''1''))) = Inl Backup_value_error"
proof -
  have "replicate n (CHR ''1'') \<noteq> []" using assms(1) by (cases n) simp_all
  then show ?thesis
    using loads_huge [OF assms(1)] assms(2)
    by (simp add: classify_durable_golden_backup_def deserialize_golden_backup_archive_def golden_backup_error_def)
qed

end
