(* ===== verification/Golden_Lock.thy ===== *)
theory Golden_Lock
  imports Golden_Backup
begin

text \<open>
  The exclusive lock of a Golden (\<open>local/runtime_vault/golden_mutation_lock.py\<close>): its key, the metadata of
  its owner as a file, the classification of what a new process finds, the acquisition with the take-over of
  an orphan by its own operation, and the two ways to give the handle back.

  The world of one lock is the bytes of its file and whether some process has the file open: it is opened
  without sharing, so a second \<open>CreateFileW\<close> reports a sharing violation. The other calls of the kernel are
  outcomes, which are arguments; a write that raises may leave any bytes.
\<close>

subsection \<open>Metadata\<close>

datatype lock_failure =
    Lock_generic | Lock_busy_error | Lock_orphaned_error | Lock_orphan_mismatch_error | Lock_metadata_error
  | Lock_io_error | Lock_cleanup_error bool | Lock_model_error | Lock_value_error

text \<open>The classes below \<open>GoldenLockError\<close>; the last is the \<open>ValueError\<close> of Python.\<close>

definition golden_lock_error :: "lock_failure \<Rightarrow> bool" where
  "golden_lock_error e \<longleftrightarrow> e \<noteq> Lock_value_error"

definition MAX_UINT32 :: int where "MAX_UINT32 = 2 ^ 32 - 1"
definition MAX_INT64 :: int where "MAX_INT64 = 2 ^ 63 - 1"
definition MAX_METADATA_BYTES :: nat where "MAX_METADATA_BYTES = 65536"

definition GOLDEN_LOCK_NAME_PREFIX :: string where "GOLDEN_LOCK_NAME_PREFIX = ''skyclaw_golden_lock_''"

definition lock_uint :: "json \<Rightarrow> int \<Rightarrow> lock_failure + int" where
  "lock_uint v m = (case v of JInt n \<Rightarrow> if in_range n m then Inr n else Inl Lock_model_error | _ \<Rightarrow> Inl Lock_model_error)"

definition lock_operation_id :: "json \<Rightarrow> lock_failure + string" where
  "lock_operation_id v = (case v of JStr s \<Rightarrow> if canonical_uuid s then Inr s else Inl Lock_model_error | _ \<Rightarrow> Inl Lock_model_error)"

definition derive_golden_lock_key :: "int \<Rightarrow> int \<Rightarrow> lock_failure + string" where
  "derive_golden_lock_key vol fid =
     res_bind (lock_uint (JInt vol) MAX_UINT64) (\<lambda>v.
     res_bind (lock_uint (JInt fid) MAX_UINT128) (\<lambda>f.
       Inr (GOLDEN_LOCK_NAME_PREFIX @ hex_text (nat v) @ ''_'' @ hex_text (nat f))))"

datatype GoldenLockPhase = AUTHORIZATION_BOUNDARY | RELEASED

fun lock_phase_value :: "GoldenLockPhase \<Rightarrow> string" where
  "lock_phase_value AUTHORIZATION_BOUNDARY = ''AUTHORIZATION_BOUNDARY''"
| "lock_phase_value RELEASED = ''RELEASED''"

fun lock_phase_of :: "json \<Rightarrow> lock_failure + GoldenLockPhase" where
  "lock_phase_of (JStr s) = (if s = ''AUTHORIZATION_BOUNDARY'' then Inr AUTHORIZATION_BOUNDARY
     else if s = ''RELEASED'' then Inr RELEASED else Inl Lock_model_error)"
| "lock_phase_of _ = Inl Lock_model_error"

fun lock_key_of :: "json \<Rightarrow> lock_failure + string" where
  "lock_key_of (JStr s) = (if prefix GOLDEN_LOCK_NAME_PREFIX s then Inr s else Inl Lock_model_error)"
| "lock_key_of _ = Inl Lock_model_error"

record GoldenLockMetadata =
  lm_lock_key :: string
  lm_owner_pid :: int
  lm_owner_process_creation_time :: int
  lm_session_id :: int
  lm_operation_id :: string
  lm_phase :: GoldenLockPhase
  lm_created_at :: int

definition metadata_post_init :: "(string \<Rightarrow> json) \<Rightarrow> lock_failure + GoldenLockMetadata" where
  "metadata_post_init field =
     res_bind (lock_key_of (field ''lock_key'')) (\<lambda>key.
     res_bind (lock_uint (field ''owner_pid'') MAX_UINT32) (\<lambda>pid.
     res_bind (res_check (pid \<noteq> 0) Lock_model_error) (\<lambda>_.
     res_bind (lock_uint (field ''owner_process_creation_time'') MAX_UINT64) (\<lambda>creation.
     res_bind (lock_uint (field ''session_id'') MAX_UINT32) (\<lambda>session.
     res_bind (lock_operation_id (field ''operation_id'')) (\<lambda>op.
     res_bind (lock_phase_of (field ''phase'')) (\<lambda>phase.
     res_bind (lock_uint (field ''created_at'') MAX_INT64) (\<lambda>created.
     res_bind (res_check (created \<noteq> 0) Lock_model_error) (\<lambda>_.
       Inr \<lparr>lm_lock_key = key, lm_owner_pid = pid, lm_owner_process_creation_time = creation,
            lm_session_id = session, lm_operation_id = op, lm_phase = phase, lm_created_at = created\<rparr>)))))))))"

definition metadata_payload :: "GoldenLockMetadata \<Rightarrow> (string \<times> json) list" where
  "metadata_payload m =
     [(''created_at'', JInt (lm_created_at m)),
      (''lock_key'', JStr (lm_lock_key m)),
      (''operation_id'', JStr (lm_operation_id m)),
      (''owner_pid'', JInt (lm_owner_pid m)),
      (''owner_process_creation_time'', JInt (lm_owner_process_creation_time m)),
      (''phase'', JStr (lock_phase_value (lm_phase m))),
      (''session_id'', JInt (lm_session_id m))]"

definition serialize_golden_lock_metadata :: "GoldenLockMetadata \<Rightarrow> string" where
  "serialize_golden_lock_metadata m = ascii_dumps (canon (JObj (metadata_payload m)))"

definition LOCK_METADATA_KEYS :: "string list" where
  "LOCK_METADATA_KEYS = [''lock_key'', ''owner_pid'', ''owner_process_creation_time'', ''session_id'', ''operation_id'',
     ''phase'', ''created_at'']"

definition deserialize_golden_lock_metadata :: "string \<Rightarrow> lock_failure + GoldenLockMetadata" where
  "deserialize_golden_lock_metadata raw =
     (if raw = [] then Inl Lock_metadata_error
      else if length raw > MAX_METADATA_BYTES then Inl Lock_metadata_error
      else case loads_with False raw of
          Inl Int_too_long \<Rightarrow> Inl Lock_value_error
        | Inl _ \<Rightarrow> Inl Lock_metadata_error
        | Inr (JObj payload) \<Rightarrow>
            if fst ` set payload \<noteq> set LOCK_METADATA_KEYS then Inl Lock_metadata_error
            else map_sum (\<lambda>_. Lock_metadata_error) id (metadata_post_init (item payload))
        | Inr _ \<Rightarrow> Inl Lock_metadata_error)"

text \<open>The evidence of an acquisition: metadata of this process and the identity of the Golden.\<close>

record GoldenLockIdentity =
  li_metadata :: GoldenLockMetadata
  li_volume_serial_number :: int
  li_root_file_id :: int

definition metadata_fields :: "GoldenLockMetadata \<Rightarrow> string \<Rightarrow> json" where
  "metadata_fields m = item (metadata_payload m)"

definition identity_post_init :: "GoldenLockIdentity \<Rightarrow> lock_failure + GoldenLockIdentity" where
  "identity_post_init i =
     res_bind (metadata_post_init (metadata_fields (li_metadata i))) (\<lambda>m.
     res_bind (lock_uint (JInt (li_volume_serial_number i)) MAX_UINT64) (\<lambda>vol.
     res_bind (lock_uint (JInt (li_root_file_id i)) MAX_UINT128) (\<lambda>fid.
     res_bind (derive_golden_lock_key vol fid) (\<lambda>expected_key.
     res_bind (res_check (lm_lock_key m = expected_key) Lock_model_error) (\<lambda>_.
       Inr \<lparr>li_metadata = m, li_volume_serial_number = vol, li_root_file_id = fid\<rparr>)))))"

subsection \<open>What a new process finds\<close>

datatype PreexistingLockDisposition =
    NO_PREEXISTING | RESIDUAL_RELEASED | BUSY_OWNER_ALIVE | BUSY_OWNER_UNREADABLE | ORPHANED_LOCK

definition classify_preexisting_lock :: "GoldenLockMetadata option \<Rightarrow> bool option \<Rightarrow> PreexistingLockDisposition" where
  "classify_preexisting_lock metadata owner_alive =
     (case metadata of
        None \<Rightarrow> NO_PREEXISTING
      | Some m \<Rightarrow>
          if lm_phase m = RELEASED then RESIDUAL_RELEASED
          else if owner_alive = Some True then BUSY_OWNER_ALIVE
          else if owner_alive = None then BUSY_OWNER_UNREADABLE
          else ORPHANED_LOCK)"

subsection \<open>Acquisition\<close>

record lock_world =
  lw_bytes :: string
  lw_open :: bool

datatype write_outcome = Written | Write_failed string

record lock_io =
  lo_open :: bool
  lo_reparse_tag :: "lock_failure + int"
  lo_read :: bool
  lo_alive :: "int \<Rightarrow> int \<Rightarrow> bool option"
  lo_process :: "lock_failure + int \<times> int \<times> int"
  lo_now :: int
  lo_write :: write_outcome
  lo_flush :: bool
  lo_cleanup_write :: write_outcome
  lo_cleanup_flush :: bool

record RecoveryLockAcquisition =
  ra_identity :: GoldenLockIdentity
  ra_preexisting_disposition :: PreexistingLockDisposition
  ra_previous_metadata :: "GoldenLockMetadata option"

text \<open>\<open>write_lock_bytes\<close> and \<open>flush_lock\<close>: whether both were confirmed, and the bytes left.\<close>

definition write_and_flush :: "write_outcome \<Rightarrow> bool \<Rightarrow> string \<Rightarrow> lock_world \<Rightarrow> bool \<times> lock_world" where
  "write_and_flush wr fl payload w =
     (if payload = [] \<or> length payload > MAX_METADATA_BYTES then (False, w)
      else (case wr of
          Write_failed left \<Rightarrow> (False, w\<lparr>lw_bytes := left\<rparr>)
        | Written \<Rightarrow> (fl, w\<lparr>lw_bytes := payload\<rparr>)))"

text \<open>Up to the point where nothing was written: the file as it is found, and whether it may be taken.\<close>

definition inspect_lock ::
  "bool \<Rightarrow> string \<Rightarrow> string \<Rightarrow> lock_io \<Rightarrow> lock_world
    \<Rightarrow> lock_failure + PreexistingLockDisposition \<times> GoldenLockMetadata option" where
  "inspect_lock allow_orphaned_takeover key op io w =
     res_bind (lo_reparse_tag io) (\<lambda>tag.
     res_bind (res_check (tag = 0) Lock_generic) (\<lambda>_.
     res_bind (res_check (lo_read io \<and> length (lw_bytes w) \<le> MAX_METADATA_BYTES) Lock_io_error) (\<lambda>_.
     res_bind (if lw_bytes w = [] then Inr None
               else res_bind (deserialize_golden_lock_metadata (lw_bytes w)) (\<lambda>m.
                      if lm_lock_key m \<noteq> key then Inl Lock_metadata_error else Inr (Some m))) (\<lambda>metadata.
       let alive = (case metadata of
             Some m \<Rightarrow> if lm_phase m \<noteq> RELEASED then lo_alive io (lm_owner_pid m) (lm_owner_process_creation_time m) else None
           | None \<Rightarrow> None);
           found = classify_preexisting_lock metadata alive
       in if found = BUSY_OWNER_ALIVE \<or> found = BUSY_OWNER_UNREADABLE then Inl Lock_busy_error
          else if found = ORPHANED_LOCK \<and> \<not> allow_orphaned_takeover then Inl Lock_orphaned_error
          else if found = ORPHANED_LOCK \<and> map_option lm_operation_id metadata \<noteq> Some op then Inl Lock_orphan_mismatch_error
          else Inr (found, metadata)))))"

definition fresh_identity :: "string \<Rightarrow> int \<Rightarrow> int \<Rightarrow> string \<Rightarrow> lock_io \<Rightarrow> lock_failure + GoldenLockIdentity" where
  "fresh_identity key vol fid op io =
     res_bind (lo_process io) (\<lambda>(pid, creation, session).
       identity_post_init \<lparr>li_metadata = \<lparr>lm_lock_key = key, lm_owner_pid = pid, lm_owner_process_creation_time = creation,
           lm_session_id = session, lm_operation_id = op, lm_phase = AUTHORIZATION_BOUNDARY, lm_created_at = lo_now io\<rparr>,
         li_volume_serial_number = vol, li_root_file_id = fid\<rparr>)"

text \<open>The world has the file closed again when the acquisition fails, and open when it succeeds.\<close>

definition acquire_lock_core ::
  "bool \<Rightarrow> string \<Rightarrow> int \<Rightarrow> int \<Rightarrow> string \<Rightarrow> lock_io \<Rightarrow> lock_world
    \<Rightarrow> (lock_failure + RecoveryLockAcquisition) \<times> lock_world" where
  "acquire_lock_core allow_orphaned_takeover key vol fid op io w =
     (if lw_open w then (Inl Lock_busy_error, w)
      else if \<not> lo_open io then (Inl Lock_io_error, w)
      else case inspect_lock allow_orphaned_takeover key op io w of
          Inl e \<Rightarrow> (Inl e, w)
        | Inr (found, metadata) \<Rightarrow>
            (case fresh_identity key vol fid op io of
               Inl e \<Rightarrow> (Inl e, w)
             | Inr identity \<Rightarrow>
                 (case write_and_flush (lo_write io) (lo_flush io) (serialize_golden_lock_metadata (li_metadata identity)) w of
                    (True, w1) \<Rightarrow>
                      (Inr \<lparr>ra_identity = identity, ra_preexisting_disposition = found, ra_previous_metadata = metadata\<rparr>,
                       w1\<lparr>lw_open := True\<rparr>)
                  | (False, w1) \<Rightarrow>
                      (case write_and_flush (lo_cleanup_write io) (lo_cleanup_flush io)
                              (serialize_golden_lock_metadata ((li_metadata identity)\<lparr>lm_phase := RELEASED\<rparr>)) w1 of
                         (cleanup_ok, w2) \<Rightarrow> (Inl (Lock_cleanup_error cleanup_ok), w2)))))"

definition acquire_with ::
  "bool \<Rightarrow> int \<Rightarrow> int \<Rightarrow> string \<Rightarrow> lock_io \<Rightarrow> lock_world \<Rightarrow> (lock_failure + RecoveryLockAcquisition) \<times> lock_world" where
  "acquire_with allow_orphaned_takeover vol fid op io w =
     (case res_bind (lock_uint (JInt vol) MAX_UINT64) (\<lambda>serial.
           res_bind (lock_uint (JInt fid) MAX_UINT128) (\<lambda>fileid.
           res_bind (lock_operation_id (JStr op)) (\<lambda>op_id.
           res_bind (derive_golden_lock_key serial fileid) (\<lambda>key. Inr (serial, fileid, op_id, key))))) of
        Inl e \<Rightarrow> (Inl e, w)
      | Inr (serial, fileid, op_id, key) \<Rightarrow> acquire_lock_core allow_orphaned_takeover key serial fileid op_id io w)"

definition acquire_golden_mutation_lock ::
  "int \<Rightarrow> int \<Rightarrow> string \<Rightarrow> lock_io \<Rightarrow> lock_world \<Rightarrow> (lock_failure + RecoveryLockAcquisition) \<times> lock_world" where
  "acquire_golden_mutation_lock = acquire_with False"

definition acquire_golden_mutation_lock_for_recovery ::
  "int \<Rightarrow> int \<Rightarrow> string \<Rightarrow> lock_io \<Rightarrow> lock_world \<Rightarrow> (lock_failure + RecoveryLockAcquisition) \<times> lock_world" where
  "acquire_golden_mutation_lock_for_recovery = acquire_with True"

subsection \<open>The handle\<close>

record lock_handle =
  lh_identity :: GoldenLockIdentity
  lh_closed :: bool

definition released_metadata :: "lock_handle \<Rightarrow> GoldenLockMetadata" where
  "released_metadata h = (li_metadata (lh_identity h))\<lparr>lm_phase := RELEASED\<rparr>"

definition release ::
  "write_outcome \<Rightarrow> bool \<Rightarrow> lock_handle \<Rightarrow> lock_world \<Rightarrow> (lock_failure + bool) \<times> lock_handle \<times> lock_world" where
  "release wr fl h w =
     (if lh_closed h then (Inr False, h, w)
      else (case write_and_flush wr fl (serialize_golden_lock_metadata (released_metadata h)) w of
          (ok, w1) \<Rightarrow> ((if ok then Inr True else Inl Lock_io_error), h\<lparr>lh_closed := True\<rparr>, w1\<lparr>lw_open := False\<rparr>)))"

definition retain_for_inspection :: "lock_handle \<Rightarrow> lock_world \<Rightarrow> bool \<times> lock_handle \<times> lock_world" where
  "retain_for_inspection h w =
     (if lh_closed h then (False, h, w) else (True, h\<lparr>lh_closed := True\<rparr>, w\<lparr>lw_open := False\<rparr>))"

subsection \<open>The metadata as a file\<close>

lemma lock_uint_Inr [simp]: "lock_uint v m = Inr n \<longleftrightarrow> v = JInt n \<and> in_range n m"
  by (auto simp: lock_uint_def split: json.splits if_splits)

lemma lock_operation_id_Inr [simp]: "lock_operation_id v = Inr s \<longleftrightarrow> v = JStr s \<and> canonical_uuid s"
  by (auto simp: lock_operation_id_def split: json.splits if_splits)

lemma lock_phase_Inr [simp]: "lock_phase_of v = Inr p \<longleftrightarrow> v = JStr (lock_phase_value p)"
  by (cases v; cases p) auto

lemma lock_key_Inr [simp]: "lock_key_of v = Inr s \<longleftrightarrow> v = JStr s \<and> prefix GOLDEN_LOCK_NAME_PREFIX s"
  by (cases v) auto

text \<open>Metadata that its constructor accepts.\<close>

definition metadata_ok :: "GoldenLockMetadata \<Rightarrow> bool" where
  "metadata_ok m \<longleftrightarrow> prefix GOLDEN_LOCK_NAME_PREFIX (lm_lock_key m)
     \<and> in_range (lm_owner_pid m) MAX_UINT32 \<and> lm_owner_pid m \<noteq> 0
     \<and> in_range (lm_owner_process_creation_time m) MAX_UINT64 \<and> in_range (lm_session_id m) MAX_UINT32
     \<and> canonical_uuid (lm_operation_id m) \<and> in_range (lm_created_at m) MAX_INT64 \<and> lm_created_at m \<noteq> 0"

lemma metadata_post_init_Inr:
  "metadata_post_init field = Inr m \<longleftrightarrow> metadata_ok m \<and> (\<forall>k \<in> set LOCK_METADATA_KEYS. field k = metadata_fields m k)"
  by (cases m) (auto simp: metadata_post_init_def res_bind_Inr metadata_ok_def LOCK_METADATA_KEYS_def metadata_fields_def
      metadata_payload_def item_def)

lemma metadata_ok_released [simp]: "metadata_ok (m\<lparr>lm_phase := p\<rparr>) = metadata_ok m"
  by (simp add: metadata_ok_def)

lemma payload_keys:
  "distinct (map fst (metadata_payload m)) \<and> fst ` set (metadata_payload m) = set LOCK_METADATA_KEYS"
  by (auto simp: metadata_payload_def LOCK_METADATA_KEYS_def)

lemma show_nat_digits_bound: "n < 10 ^ k \<Longrightarrow> k > 0 \<Longrightarrow> length (show_nat n) \<le> k"
proof (induction n arbitrary: k rule: show_nat.induct)
  case (1 n)
  show ?case
  proof (cases "n < 10")
    case False
    with "1.prems" have "k \<noteq> 1" by (cases "k = 1") simp_all
    with "1.prems" obtain j where j: "k = Suc j" "j > 0" by (cases k) auto
    have "n div 10 < 10 ^ j" using "1.prems"(1) j by (simp add: less_mult_imp_div_less mult.commute)
    with "1.IH" [OF False] j have "length (show_nat (n div 10)) \<le> j" by simp
    with False j show ?thesis by (subst show_nat.simps) simp
  qed (use "1.prems" in \<open>subst show_nat.simps, simp\<close>)
qed

lemma show_int_bound: "0 \<le> n \<Longrightarrow> n < 10 ^ k \<Longrightarrow> k > 0 \<Longrightarrow> length (show_int n) \<le> k \<and> length (show_nat (nat \<bar>n\<bar>)) \<le> k"
proof -
  assume "0 \<le> n" "n < 10 ^ k" "k > 0"
  then have "nat n < 10 ^ k" by (simp add: nat_less_iff)
  with \<open>0 \<le> n\<close> \<open>k > 0\<close> show ?thesis using show_nat_digits_bound by (simp add: show_int_def)
qed

lemma points_low: "all_ascii s \<Longrightarrow> length (points s) = length s"
  by (induction s) simp_all

lemma esc_point_length: "length (esc_point n) \<le> 12"
  by (simp add: esc_point_def esc_char_def esc_unit_def Let_def)

lemma quote_length:
  assumes "all_ascii s"
  shows "length (quote True s) \<le> 12 * length s + 2"
proof -
  have "length (concat (map esc_point ps)) \<le> 12 * length ps" for ps
  proof (induction ps)
    case (Cons n ps)
    then show ?case using esc_point_length [of n] by simp
  qed simp
  from this [of "points s"] points_low [OF assms] show ?thesis by (simp add: quote_def quote_body_def)
qed

lemma all_ascii_hex: "all_ascii (hex_text n)"
proof (induction n rule: hex_text.induct)
  case (1 n)
  then show ?case using hex_digit_ascii [of n] hex_digit_ascii [of "n mod 16"] by (subst hex_text.simps) simp
qed

lemma lock_key_ascii:
  assumes "derive_golden_lock_key vol fid = Inr key"
  shows "all_ascii key \<and> length key \<le> 69 \<and> prefix GOLDEN_LOCK_NAME_PREFIX key"
proof -
  from assms have k: "key = GOLDEN_LOCK_NAME_PREFIX @ hex_text (nat vol) @ ''_'' @ hex_text (nat fid)"
    and r: "0 \<le> vol" "vol < 16 ^ 16" "0 \<le> fid" "fid < 16 ^ 32"
    by (auto simp: derive_golden_lock_key_def res_bind_Inr in_range_def MAX_UINT64_def MAX_UINT128_def)
  then have "nat vol < 16 ^ 16" "nat fid < 16 ^ 32" by (simp_all add: nat_less_iff)
  with hex_text_length [of "nat vol" 16] hex_text_length [of "nat fid" 32]
  have "length (hex_text (nat vol)) \<le> 16" "length (hex_text (nat fid)) \<le> 32" by simp_all
  then show ?thesis unfolding k using all_ascii_hex by (simp add: GOLDEN_LOCK_NAME_PREFIX_def byte_of_def)
qed

lemma uuid_ascii: "canonical_uuid s \<Longrightarrow> all_ascii s \<and> length s = 36"
proof -
  assume u: "canonical_uuid s"
  have "byte_of c < 128" if "c \<in> set s" for c
  proof -
    from that obtain i where i: "i < length s" "c = s ! i" by (metis in_set_conv_nth)
    with u have "c = CHR ''-'' \<or> hex_lower c" unfolding canonical_uuid_def by (metis atLeast0LessThan lessThan_iff set_upt)
    then show ?thesis by (auto simp: hex_lower_def is_digit_byte byte_of_def)
  qed
  with u show ?thesis by (simp add: all_ascii_def list_all_iff canonical_uuid_def)
qed

lemma canon_payload: "canon (JObj (metadata_payload m)) = JObj (metadata_payload m)"
  by (simp add: metadata_payload_def list_less_def)

text \<open>Metadata that an acquisition writes.\<close>

definition lock_text_ok :: "GoldenLockMetadata \<Rightarrow> bool" where
  "lock_text_ok m \<longleftrightarrow> metadata_ok m \<and> all_ascii (lm_lock_key m) \<and> length (lm_lock_key m) \<le> 69"

lemma lock_text_released [simp]: "lock_text_ok (m\<lparr>lm_phase := p\<rparr>) = lock_text_ok m"
  by (simp add: lock_text_ok_def)

lemma metadata_numbers:
  assumes "metadata_ok m"
  shows "0 \<le> lm_owner_pid m \<and> lm_owner_pid m < 10 ^ 20 \<and> 0 \<le> lm_owner_process_creation_time m
    \<and> lm_owner_process_creation_time m < 10 ^ 20 \<and> 0 \<le> lm_session_id m \<and> lm_session_id m < 10 ^ 20
    \<and> 0 \<le> lm_created_at m \<and> lm_created_at m < 10 ^ 20"
  using assms by (simp add: metadata_ok_def in_range_def MAX_UINT32_def MAX_UINT64_def MAX_INT64_def)

lemma metadata_numbers_text:
  assumes "metadata_ok m"
  shows "length (show_int (lm_owner_pid m)) \<le> 20" "length (show_nat (nat \<bar>lm_owner_pid m\<bar>)) \<le> 20"
    "length (show_int (lm_owner_process_creation_time m)) \<le> 20" "length (show_nat (nat \<bar>lm_owner_process_creation_time m\<bar>)) \<le> 20"
    "length (show_int (lm_session_id m)) \<le> 20" "length (show_nat (nat \<bar>lm_session_id m\<bar>)) \<le> 20"
    "length (show_int (lm_created_at m)) \<le> 20" "length (show_nat (nat \<bar>lm_created_at m\<bar>)) \<le> 20"
  using metadata_numbers [OF assms] show_int_bound [of _ 20] by simp_all

lemma payload_text:
  assumes "lock_text_ok m"
  shows "json_ok_with ascii_text_ok (JObj (metadata_payload m))"
proof -
  have a: "ascii_text_ok s" if "all_ascii s" for s
    using that by (intro utf8_ascii_text_ok utf8_ok_ascii) (simp add: all_ascii_def list_all_iff)
  have m: "metadata_ok m" using assms by (simp add: lock_text_ok_def)
  have n: "length t \<le> 20 \<Longrightarrow> length t \<le> MAX_INT_DIGITS" for t :: string by (simp add: MAX_INT_DIGITS_def)
  note n = metadata_numbers_text [OF m, THEN n]
  have "all_ascii (lock_phase_value (lm_phase m))" by (cases "lm_phase m") (simp_all add: byte_of_def)
  then have t: "ascii_text_ok (lock_phase_value (lm_phase m))" "ascii_text_ok (lm_operation_id m)" "ascii_text_ok (lm_lock_key m)"
    using a uuid_ascii m assms by (simp_all add: lock_text_ok_def metadata_ok_def)
  have k: "ascii_text_ok ''created_at''" "ascii_text_ok ''lock_key''" "ascii_text_ok ''operation_id''" "ascii_text_ok ''owner_pid''"
      "ascii_text_ok ''owner_process_creation_time''" "ascii_text_ok ''phase''" "ascii_text_ok ''session_id''"
    by (rule a; simp add: byte_of_def)+
  show ?thesis using payload_keys [of m] by (simp add: metadata_payload_def n t k)
qed

lemma serialize_length:
  assumes "lock_text_ok m"
  shows "length (serialize_golden_lock_metadata m) \<le> MAX_METADATA_BYTES \<and> serialize_golden_lock_metadata m \<noteq> []"
proof -
  have q: "length (quote True s) \<le> 12 * length s + 2" if "all_ascii s" for s using that by (rule quote_length)
  have k: "length (quote True ''created_at'') \<le> 122" "length (quote True ''lock_key'') \<le> 98"
      "length (quote True ''operation_id'') \<le> 146" "length (quote True ''owner_pid'') \<le> 110"
      "length (quote True ''owner_process_creation_time'') \<le> 326" "length (quote True ''phase'') \<le> 62"
      "length (quote True ''session_id'') \<le> 122"
    using q [of "''created_at''"] q [of "''lock_key''"] q [of "''operation_id''"] q [of "''owner_pid''"]
      q [of "''owner_process_creation_time''"] q [of "''phase''"] q [of "''session_id''"] by (simp_all add: byte_of_def)
  have m: "metadata_ok m" and key: "length (quote True (lm_lock_key m)) \<le> 830"
    using assms q [of "lm_lock_key m"] by (simp_all add: lock_text_ok_def)
  have "length (quote True (lm_operation_id m)) \<le> 434"
    using q [of "lm_operation_id m"] uuid_ascii [of "lm_operation_id m"] m by (simp add: metadata_ok_def)
  moreover have "length (quote True (lock_phase_value (lm_phase m))) \<le> 266"
    using q [of "lock_phase_value (lm_phase m)"] by (cases "lm_phase m") (simp_all add: byte_of_def)
  moreover note metadata_numbers_text [OF m]
  ultimately show ?thesis
    using k key by (simp add: serialize_golden_lock_metadata_def canon_payload metadata_payload_def MAX_METADATA_BYTES_def
        del: quote_def)
qed

lemma deserialize_metadata_serialize:
  assumes "lock_text_ok m"
  shows "deserialize_golden_lock_metadata (serialize_golden_lock_metadata m) = Inr m"
proof -
  have l: "loads_with False (serialize_golden_lock_metadata m) = Inr (JObj (metadata_payload m))"
    unfolding serialize_golden_lock_metadata_def canon_payload by (rule loads_ascii_dumps [OF payload_text [OF assms]])
  have "metadata_post_init (item (metadata_payload m)) = Inr m"
    unfolding metadata_post_init_Inr using assms by (simp add: lock_text_ok_def metadata_fields_def)
  then show ?thesis
    using serialize_length [OF assms] payload_keys [of m] l by (simp add: deserialize_golden_lock_metadata_def)
qed

lemma metadata_field [simp]:
  "metadata_fields m ''created_at'' = JInt (lm_created_at m)" "metadata_fields m ''lock_key'' = JStr (lm_lock_key m)"
  "metadata_fields m ''operation_id'' = JStr (lm_operation_id m)" "metadata_fields m ''owner_pid'' = JInt (lm_owner_pid m)"
  "metadata_fields m ''owner_process_creation_time'' = JInt (lm_owner_process_creation_time m)"
  "metadata_fields m ''phase'' = JStr (lock_phase_value (lm_phase m))" "metadata_fields m ''session_id'' = JInt (lm_session_id m)"
  by (simp_all add: metadata_fields_def metadata_payload_def item_def)

lemma lock_phase_value_inj [simp]: "lock_phase_value p = lock_phase_value q \<longleftrightarrow> p = q"
  by (cases p; cases q) simp_all

lemma metadata_fields_own: "metadata_post_init (metadata_fields m) = Inr m' \<longleftrightarrow> m' = m \<and> metadata_ok m"
  by (cases m') (auto simp: metadata_post_init_def res_bind_Inr metadata_ok_def simp del: lock_phase_of.simps lock_key_of.simps)

lemma identity_post_init_Inr:
  "identity_post_init i = Inr j \<longleftrightarrow> j = i \<and> metadata_ok (li_metadata i)
     \<and> derive_golden_lock_key (li_volume_serial_number i) (li_root_file_id i) = Inr (lm_lock_key (li_metadata i))"
  by (cases i) (auto simp: identity_post_init_def res_bind_Inr metadata_fields_own derive_golden_lock_key_def)

lemma identity_text: "identity_post_init i = Inr j \<Longrightarrow> lock_text_ok (li_metadata j)"
  using lock_key_ascii by (auto simp: identity_post_init_Inr lock_text_ok_def)

text \<open>C22: the metadata of an acquisition always fits the bound of its reader and is read back.\<close>

theorem lock_metadata_fits:
  assumes "identity_post_init i = Inr j"
  shows "length (serialize_golden_lock_metadata (li_metadata j)) \<le> MAX_METADATA_BYTES
    \<and> deserialize_golden_lock_metadata (serialize_golden_lock_metadata (li_metadata j)) = Inr (li_metadata j)"
  using serialize_length deserialize_metadata_serialize identity_text [OF assms] by blast

lemma hex_text_plain: "CHR ''_'' \<notin> set (hex_text n)"
proof (induction n rule: hex_text.induct)
  case (1 n)
  have "k < 16 \<Longrightarrow> byte_of (hex_digit k) \<noteq> byte_of (CHR ''_'')" for k by (simp add: hex_digit_def byte_of_def [of "CHR ''_''"])
  then have d: "k < 16 \<Longrightarrow> hex_digit k \<noteq> CHR ''_''" for k by metis
  show ?case using 1 d [of n] d [of "n mod 16"] by (subst hex_text.simps) auto
qed

lemma key_inj:
  assumes "derive_golden_lock_key vol fid = Inr key" and "derive_golden_lock_key vol' fid' = Inr key"
  shows "vol = vol' \<and> fid = fid'"
proof -
  from assms have e: "hex_text (nat vol) @ CHR ''_'' # hex_text (nat fid) = hex_text (nat vol') @ CHR ''_'' # hex_text (nat fid')"
    and r: "0 \<le> vol" "0 \<le> fid" "0 \<le> vol'" "0 \<le> fid'"
    by (auto simp: derive_golden_lock_key_def res_bind_Inr in_range_def)
  have "takeWhile (\<lambda>c. c \<noteq> CHR ''_'') (hex_text n @ CHR ''_'' # t) = hex_text n" for n t
    using hex_text_plain [of n] by (subst takeWhile_append2) auto
  with e have "hex_text (nat vol) = hex_text (nat vol')" by metis
  moreover from this e have "hex_text (nat fid) = hex_text (nat fid')" by simp
  ultimately have "nat vol = nat vol'" "nat fid = nat fid'" by (metis hex_value_text)+
  with r show ?thesis by (simp add: eq_nat_nat_iff)
qed

subsection \<open>Who gets the lock\<close>

text \<open>What the file may hold for an operation to take it.\<close>

definition may_take :: "bool \<Rightarrow> string \<Rightarrow> string \<Rightarrow> lock_io \<Rightarrow> lock_world \<Rightarrow> bool" where
  "may_take allow_orphaned_takeover key op io w \<longleftrightarrow>
     lw_bytes w = []
     \<or> (\<exists>m. deserialize_golden_lock_metadata (lw_bytes w) = Inr m \<and> lm_lock_key m = key
          \<and> (lm_phase m = RELEASED
             \<or> allow_orphaned_takeover \<and> lo_alive io (lm_owner_pid m) (lm_owner_process_creation_time m) = Some False
               \<and> lm_operation_id m = op))"

lemma deserialize_bounded: "deserialize_golden_lock_metadata raw = Inr m \<Longrightarrow> raw \<noteq> [] \<and> length raw \<le> MAX_METADATA_BYTES"
  by (auto simp: deserialize_golden_lock_metadata_def split: if_splits)

lemma inspect_Inr:
  "(\<exists>r. inspect_lock tk key op io w = Inr r) \<longleftrightarrow> lo_reparse_tag io = Inr 0 \<and> lo_read io \<and> may_take tk key op io w"
proof (cases "lw_bytes w = []")
  case True
  then show ?thesis
    by (cases "lo_reparse_tag io") (auto simp: inspect_lock_def may_take_def res_check_def classify_preexisting_lock_def)
next
  case False
  show ?thesis
  proof (cases "deserialize_golden_lock_metadata (lw_bytes w)")
    case (Inl e)
    with False show ?thesis by (cases "lo_reparse_tag io") (auto simp: inspect_lock_def may_take_def res_check_def)
  next
    case (Inr m)
    note b = deserialize_bounded [OF Inr]
    show ?thesis
    proof (cases "lo_alive io (lm_owner_pid m) (lm_owner_process_creation_time m)")
      case None
      with False Inr b show ?thesis
        by (cases "lo_reparse_tag io")
          (auto simp: inspect_lock_def may_take_def res_check_def classify_preexisting_lock_def Let_def)
    next
      case (Some alive)
      with False Inr b show ?thesis
        by (cases "lo_reparse_tag io"; cases alive)
          (auto simp: inspect_lock_def may_take_def res_check_def classify_preexisting_lock_def Let_def)
    qed
  qed
qed

lemma fresh_identity_Inr:
  assumes "fresh_identity key vol fid op io = Inr i"
  shows "lm_operation_id (li_metadata i) = op \<and> lm_phase (li_metadata i) = AUTHORIZATION_BOUNDARY \<and> lm_lock_key (li_metadata i) = key
    \<and> li_volume_serial_number i = vol \<and> li_root_file_id i = fid \<and> lock_text_ok (li_metadata i)"
proof -
  from assms obtain pid creation session where
    p: "identity_post_init \<lparr>li_metadata = \<lparr>lm_lock_key = key, lm_owner_pid = pid, lm_owner_process_creation_time = creation,
           lm_session_id = session, lm_operation_id = op, lm_phase = AUTHORIZATION_BOUNDARY, lm_created_at = lo_now io\<rparr>,
         li_volume_serial_number = vol, li_root_file_id = fid\<rparr> = Inr i"
    by (auto simp: fresh_identity_def res_bind_Inr)
  from identity_text [OF p] p show ?thesis unfolding identity_post_init_Inr by simp
qed

lemma write_metadata:
  assumes "lock_text_ok m"
  shows "write_and_flush wr fl (serialize_golden_lock_metadata m) w =
    (case wr of Write_failed left \<Rightarrow> (False, w\<lparr>lw_bytes := left\<rparr>)
     | Written \<Rightarrow> (fl, w\<lparr>lw_bytes := serialize_golden_lock_metadata m\<rparr>))"
  using serialize_length [OF assms] by (auto simp: write_and_flush_def)

text \<open>The outcomes of one acquisition.\<close>

lemma acquire_core_cases:
  assumes "acquire_lock_core tk key vol fid op io w = (res, w')"
  obtains (refused) e where "res = Inl e" and "w' = w"
  | (failed) i left where "fresh_identity key vol fid op io = Inr i" and "\<not> lw_open w" and "may_take tk key op io w"
      and "res = Inl (Lock_cleanup_error (lo_cleanup_write io = Written \<and> lo_cleanup_flush io))"
      and "w' = w\<lparr>lw_bytes := left\<rparr>" and "lo_cleanup_write io = Written \<longrightarrow> left = serialize_golden_lock_metadata ((li_metadata i)\<lparr>lm_phase := RELEASED\<rparr>)"
      and "\<not> (lo_write io = Written \<and> lo_flush io)"
  | (taken) a where "res = Inr a" and "fresh_identity key vol fid op io = Inr (ra_identity a)" and "\<not> lw_open w"
      and "may_take tk key op io w"
      and "w' = \<lparr>lw_bytes = serialize_golden_lock_metadata (li_metadata (ra_identity a)), lw_open = True\<rparr>"
proof (cases "lw_open w \<or> \<not> lo_open io \<or> (\<exists>e. inspect_lock tk key op io w = Inl e) \<or> (\<exists>e. fresh_identity key vol fid op io = Inl e)")
  case True
  with assms show thesis
    by (intro refused [of "case res of Inl e \<Rightarrow> e"])
      (auto simp: acquire_lock_core_def split: if_splits sum.splits prod.splits)
next
  case False
  then obtain d md i where f: "inspect_lock tk key op io w = Inr (d, md)" "fresh_identity key vol fid op io = Inr i" "\<not> lw_open w" "lo_open io"
    by (metis old.sum.exhaust surj_pair)
  have m: "may_take tk key op io w" using inspect_Inr f(1) by blast
  have t: "lock_text_ok (li_metadata i)" using fresh_identity_Inr [OF f(2)] by blast
  then have t': "lock_text_ok ((li_metadata i)\<lparr>lm_phase := RELEASED\<rparr>)" by simp
  have e: "acquire_lock_core tk key vol fid op io w =
      (case write_and_flush (lo_write io) (lo_flush io) (serialize_golden_lock_metadata (li_metadata i)) w of
         (True, w1) \<Rightarrow> (Inr \<lparr>ra_identity = i, ra_preexisting_disposition = d, ra_previous_metadata = md\<rparr>, w1\<lparr>lw_open := True\<rparr>)
       | (False, w1) \<Rightarrow>
           (case write_and_flush (lo_cleanup_write io) (lo_cleanup_flush io)
                   (serialize_golden_lock_metadata ((li_metadata i)\<lparr>lm_phase := RELEASED\<rparr>)) w1 of
              (cleanup_ok, w2) \<Rightarrow> (Inl (Lock_cleanup_error cleanup_ok), w2)))"
    unfolding acquire_lock_core_def f by (simp add: f)
  show thesis
  proof (cases "lo_write io = Written \<and> lo_flush io")
    case True
    with assms t f m show thesis
      by (intro taken [of "\<lparr>ra_identity = i, ra_preexisting_disposition = d, ra_previous_metadata = md\<rparr>"])
        (auto simp: e write_metadata)
  next
    case False
    show thesis
    proof (cases "lo_cleanup_write io")
      case Written
      with False assms t t' f m show thesis
        by (intro failed [of i "serialize_golden_lock_metadata ((li_metadata i)\<lparr>lm_phase := RELEASED\<rparr>)"])
          (auto simp: e write_metadata split: write_outcome.splits)
    next
      case (Write_failed left)
      with False assms t t' f m show thesis
        by (intro failed [of i left]) (auto simp: e write_metadata split: write_outcome.splits)
    qed
  qed
qed

lemma acquire_with_core:
  assumes "acquire_with tk vol fid op io w = (res, w')"
  obtains (invalid) e where "res = Inl e" and "w' = w"
  | (core) key where "derive_golden_lock_key vol fid = Inr key" and "canonical_uuid op"
      and "acquire_lock_core tk key vol fid op io w = (res, w')"
  using assms by (auto simp: acquire_with_def res_bind_Inr split: sum.splits)

lemma acquire_with_eq:
  assumes "derive_golden_lock_key vol fid = Inr key" and "canonical_uuid op"
  shows "acquire_with tk vol fid op io w = acquire_lock_core tk key vol fid op io w"
  using assms by (auto simp: acquire_with_def derive_golden_lock_key_def res_bind_Inr lock_operation_id_def lock_uint_def split: if_splits)

lemma acquire_taken:
  assumes "acquire_with tk vol fid op io w = (Inr a, w')"
  shows "\<exists>key. derive_golden_lock_key vol fid = Inr key \<and> \<not> lw_open w \<and> may_take tk key op io w \<and> lw_open w'
    \<and> deserialize_golden_lock_metadata (lw_bytes w') = Inr (li_metadata (ra_identity a))
    \<and> lm_lock_key (li_metadata (ra_identity a)) = key \<and> lm_operation_id (li_metadata (ra_identity a)) = op
    \<and> lm_phase (li_metadata (ra_identity a)) = AUTHORIZATION_BOUNDARY
    \<and> li_volume_serial_number (ra_identity a) = vol \<and> li_root_file_id (ra_identity a) = fid"
  using assms
proof (cases rule: acquire_with_core)
  case (core key)
  from core(3) show ?thesis
  proof (cases rule: acquire_core_cases)
    case (taken a')
    with core(1) fresh_identity_Inr [OF taken(2)] deserialize_metadata_serialize [of "li_metadata (ra_identity a')"]
    show ?thesis by auto
  qed simp_all
qed simp

text \<open>C19: the lock is never stolen: who gets it found no open handle, and a file that was empty, given back, or
  left by a dead process of the same operation, which only a recovery may take over.\<close>

theorem lock_never_stolen:
  assumes "acquire_with takeover vol fid op io w = (Inr a, w')"
  shows "\<exists>key. derive_golden_lock_key vol fid = Inr key \<and> \<not> lw_open w \<and> lw_open w'
    \<and> (lw_bytes w = []
       \<or> (\<exists>m. deserialize_golden_lock_metadata (lw_bytes w) = Inr m \<and> lm_lock_key m = key
            \<and> (lm_phase m = RELEASED
               \<or> takeover \<and> lo_alive io (lm_owner_pid m) (lm_owner_process_creation_time m) = Some False
                 \<and> lm_operation_id m = op)))
    \<and> deserialize_golden_lock_metadata (lw_bytes w') = Inr (li_metadata (ra_identity a))
    \<and> lm_operation_id (li_metadata (ra_identity a)) = op \<and> lm_phase (li_metadata (ra_identity a)) = AUTHORIZATION_BOUNDARY"
  using acquire_taken [OF assms] unfolding may_take_def by blast

text \<open>A lock left by an operation, closed without being given back, as an attempt of another one finds it.\<close>

definition left_by :: "string \<Rightarrow> string \<Rightarrow> lock_world \<Rightarrow> bool" where
  "left_by key op w \<longleftrightarrow> (\<exists>m. deserialize_golden_lock_metadata (lw_bytes w) = Inr m \<and> lm_lock_key m = key
     \<and> lm_phase m = AUTHORIZATION_BOUNDARY \<and> lm_operation_id m = op)"

type_synonym attempt = "bool \<times> string \<times> lock_io"

definition attempts :: "int \<Rightarrow> int \<Rightarrow> attempt list \<Rightarrow> lock_world \<Rightarrow> lock_world" where
  "attempts vol fid as w = fold (\<lambda>(tk, op, io) w. snd (acquire_with tk vol fid op io w)) as w"

lemma attempt_refused:
  assumes "left_by key owner w" and "derive_golden_lock_key vol fid = Inr key" and "op \<noteq> owner \<or> \<not> tk"
  shows "snd (acquire_with tk vol fid op io w) = w"
proof -
  obtain res w' where eq: "acquire_with tk vol fid op io w = (res, w')" by fastforce
  have m: "\<not> may_take tk key op io w" using assms(1,3) deserialize_bounded by (auto simp: left_by_def may_take_def)
  from eq show ?thesis
  proof (cases rule: acquire_with_core)
    case (core key')
    from core(3) m show ?thesis
      by (cases rule: acquire_core_cases) (use core(1) assms(2) eq in auto)
  qed (use eq in simp)
qed

lemma attempts_refused:
  assumes "left_by key owner w" and "derive_golden_lock_key vol fid = Inr key"
    and "list_all (\<lambda>(tk, op, io). op \<noteq> owner \<or> \<not> tk) as"
  shows "attempts vol fid as w = w"
  using assms(3)
proof (induction as)
  case (Cons a as)
  obtain tk op io where a: "a = (tk, op, io)" by (cases a)
  with Cons attempt_refused [OF assms(1,2)] show ?case by (simp add: attempts_def)
qed (simp add: attempts_def)

text \<open>C20: a lock that was retained keeps every other operation out, however often they try and whatever the
  kernel answers, and so does it with its own until a recovery asks for it.\<close>

theorem retained_lock_holds:
  assumes "acquire_with tk vol fid owner io w = (Inr a, w1)" and "h = \<lparr>lh_identity = ra_identity a, lh_closed = False\<rparr>"
    and "retain_for_inspection h w1 = (True, h', w2)" and "list_all (\<lambda>(tk, op, io). op \<noteq> owner \<or> \<not> tk) as"
  shows "attempts vol fid as w2 = w2 \<and> lw_bytes w2 = lw_bytes w1 \<and> lh_closed h'"
proof -
  obtain key where k: "derive_golden_lock_key vol fid = Inr key" "left_by key owner w1"
    using acquire_taken [OF assms(1)] by (auto simp: left_by_def)
  moreover have w2: "w2 = w1\<lparr>lw_open := False\<rparr>" "lh_closed h'" using assms(2,3) by (auto simp: retain_for_inspection_def)
  ultimately have "left_by key owner w2" by (simp add: left_by_def)
  with attempts_refused [OF _ k(1) assms(4)] w2 show ?thesis by simp
qed

lemma acquire_free:
  assumes "derive_golden_lock_key vol fid = Inr key" and "canonical_uuid op" and "\<not> lw_open w" and "may_take tk key op io w"
    and "lo_open io" and "lo_reparse_tag io = Inr 0" and "lo_read io" and "fresh_identity key vol fid op io = Inr i"
    and "lo_write io = Written" and "lo_flush io"
  shows "\<exists>a. acquire_with tk vol fid op io w = (Inr a, \<lparr>lw_bytes = serialize_golden_lock_metadata (li_metadata i), lw_open = True\<rparr>)
    \<and> ra_identity a = i"
proof -
  obtain d md where d: "inspect_lock tk key op io w = Inr (d, md)" using inspect_Inr [of tk key op io w] assms by force
  have t: "lock_text_ok (li_metadata i)" using fresh_identity_Inr [OF assms(8)] by blast
  show ?thesis unfolding acquire_with_eq [OF assms(1,2)]
    by (simp add: acquire_lock_core_def assms d write_metadata [OF t])
qed

lemma release_open:
  assumes "lock_text_ok (li_metadata (lh_identity h))" and "\<not> lh_closed h"
  shows "release Written True h w = (Inr True, h\<lparr>lh_closed := True\<rparr>,
    \<lparr>lw_bytes = serialize_golden_lock_metadata (released_metadata h), lw_open = False\<rparr>)"
proof -
  have "lock_text_ok (released_metadata h)" using assms(1) by (simp add: released_metadata_def)
  with write_metadata [OF this] assms(2) show ?thesis by (simp add: release_def)
qed

text \<open>What a call of the kernel needs to go well for an acquisition.\<close>

definition lock_io_ok :: "string \<Rightarrow> int \<Rightarrow> int \<Rightarrow> string \<Rightarrow> lock_io \<Rightarrow> bool" where
  "lock_io_ok key vol fid op io \<longleftrightarrow> lo_open io \<and> lo_reparse_tag io = Inr 0 \<and> lo_read io \<and> lo_write io = Written \<and> lo_flush io
     \<and> (\<exists>i. fresh_identity key vol fid op io = Inr i)"

text \<open>Given back, the lock is for anyone to take; and a second release of the same handle does nothing.\<close>

theorem released_lock_is_free:
  assumes "acquire_with tk vol fid op io w = (Inr a, w1)" and "h = \<lparr>lh_identity = ra_identity a, lh_closed = False\<rparr>"
    and "release Written True h w1 = (r, h', w2)"
    and "derive_golden_lock_key vol fid = Inr key" and "canonical_uuid op'" and "lock_io_ok key vol fid op' io'"
  shows "r = Inr True \<and> release wr fl h' w3 = (Inr False, h', w3)
    \<and> (\<exists>a' w'. acquire_golden_mutation_lock vol fid op' io' w2 = (Inr a', w'))"
proof -
  from acquire_taken [OF assms(1)] have t: "lm_lock_key (li_metadata (ra_identity a)) = key" using assms(4) by auto
  from assms(1) have x: "lock_text_ok (li_metadata (ra_identity a))"
  proof (cases rule: acquire_with_core)
    case (core key')
    from core(3) show ?thesis by (cases rule: acquire_core_cases) (use fresh_identity_Inr in auto)
  qed simp
  have hx: "lock_text_ok (li_metadata (lh_identity h))" "\<not> lh_closed h" using x assms(2) by simp_all
  note r = release_open [OF hx, of w1]
  from assms(3) r have e: "r = Inr True" "h' = h\<lparr>lh_closed := True\<rparr>"
      "w2 = \<lparr>lw_bytes = serialize_golden_lock_metadata (released_metadata h), lw_open = False\<rparr>" by simp_all
  have "lock_text_ok (released_metadata h)" using hx(1) by (simp add: released_metadata_def)
  then have "may_take False key op' io' w2"
    using deserialize_metadata_serialize t assms(2) by (auto simp: may_take_def e(3) released_metadata_def)
  with acquire_free [OF assms(4,5), of w2 False io'] assms(6) e(3) show ?thesis
    unfolding acquire_golden_mutation_lock_def lock_io_ok_def by (auto simp: e release_def)
qed

text \<open>C21: a take-over whose write fails marks the lock as given back before it reports the failure: the operation
  that had left it is not resolved, and any other gets the lock.\<close>

theorem failed_takeover_unlocks:
  assumes "left_by key owner w" and "\<not> lw_open w" and "derive_golden_lock_key vol fid = Inr key" and "canonical_uuid owner"
    and "\<And>p c. lo_alive io p c = Some False" and "lo_open io" and "lo_reparse_tag io = Inr 0" and "lo_read io"
    and "fresh_identity key vol fid owner io = Inr i" and "lo_write io \<noteq> Written \<or> \<not> lo_flush io"
    and "lo_cleanup_write io = Written" and "lo_cleanup_flush io"
    and "acquire_golden_mutation_lock_for_recovery vol fid owner io w = (r, w1)"
    and "canonical_uuid op" and "lock_io_ok key vol fid op io'"
  shows "r = Inl (Lock_cleanup_error True) \<and> (\<exists>a w2. acquire_golden_mutation_lock vol fid op io' w1 = (Inr a, w2))"
proof -
  have "may_take True key owner io w" using assms(1,5) by (auto simp: left_by_def may_take_def)
  then obtain x where x: "inspect_lock True key owner io w = Inr x" using inspect_Inr [of True key owner io w] assms(7,8) by blast
  have t: "lock_text_ok (li_metadata i)" using fresh_identity_Inr [OF assms(9)] by blast
  then have t': "lock_text_ok ((li_metadata i)\<lparr>lm_phase := RELEASED\<rparr>)" by simp
  from assms(13) have "acquire_lock_core True key vol fid owner io w = (r, w1)"
    by (simp add: acquire_golden_mutation_lock_for_recovery_def acquire_with_eq [OF assms(3,4)])
  then have r: "r = Inl (Lock_cleanup_error True)"
      "w1 = w\<lparr>lw_bytes := serialize_golden_lock_metadata ((li_metadata i)\<lparr>lm_phase := RELEASED\<rparr>)\<rparr>"
    using assms(2,6,10-12) x by (auto simp: acquire_lock_core_def assms(9) write_metadata [OF t] write_metadata [OF t'] split: write_outcome.splits prod.splits)
  have "may_take False key op io' w1"
    using deserialize_metadata_serialize [OF t'] fresh_identity_Inr [OF assms(9)] by (auto simp: may_take_def r(2))
  with acquire_free [OF assms(3,14), of w1 False io'] assms(2,15) r show ?thesis
    unfolding acquire_golden_mutation_lock_def lock_io_ok_def by auto
qed

end
