(* ===== verification/Protection_Store.thy ===== *)
theory Protection_Store
  imports Vault_Plan
begin

text \<open>
  The durable store of the protection journal
  (\<open>local/runtime_vault/protection_journal_store.py\<close>): publication of a new journal, opening,
  classification and reload, the write-ahead log of a node with its consume-once permit, and the
  transitions of the transaction.

  The kernel (\<open>JournalDurabilityKernel\<close>) is its file, the bytes that a reader of the journal's path
  sees, and the outcomes of its calls, which are arguments of the operations: an append may raise
  after some of the bytes landed, and a flush may report false or raise. The journal's path is fixed
  by the operation, so it is left out of the state.
\<close>

datatype store_error =
    Journal_error pj_error
  | Store_error
  | Create_error
  | Already_exists_error
  | Not_found_error
  | Flush_error
  | Plan_binding_error
  | Kernel_error
  | Phase_not_admitted_error
  | Premature_commit_error

subsection \<open>Bindings and permits\<close>

record NodeMutationBinding =
  nb_relative_path :: string
  nb_volume_serial_number :: int
  nb_file_id :: int
  nb_pre_sd_sha256 :: string

definition binding_from_node :: "NodeSecurityBackup \<Rightarrow> NodeMutationBinding" where
  "binding_from_node n = \<lparr>nb_relative_path = relative_path n, nb_volume_serial_number = volume_serial_number n,
     nb_file_id = file_id n, nb_pre_sd_sha256 = pre_sd_sha256 n\<rparr>"

record WalMutationPermit =
  wp_record :: JournalNodeRecord
  wp_operation_id :: string
  wp_authorized_plan_digest :: string
  wp_consumed :: bool

definition permit_binding :: "WalMutationPermit \<Rightarrow> NodeMutationBinding" where
  "permit_binding p = \<lparr>nb_relative_path = node_relative_path (wp_record p),
     nb_volume_serial_number = node_volume_serial_number (wp_record p), nb_file_id = node_file_id (wp_record p),
     nb_pre_sd_sha256 = node_pre_sd_sha256 (wp_record p)\<rparr>"

definition mark_consumed :: "WalMutationPermit \<Rightarrow> WalMutationPermit" where
  "mark_consumed p = p\<lparr>wp_consumed := True\<rparr>"

subsection \<open>The live journal\<close>

text \<open>The outcome of one append and of the flush that follows it.\<close>

datatype append_outcome = Append_ok | Append_raised nat
datatype flush_outcome = Flush_true | Flush_false | Flush_raised

record journal_io =
  io_append :: append_outcome
  io_flush :: flush_outcome

record DurableProtectionJournal =
  dj_journal :: ProtectionJournal
  dj_plan :: AuthorizedPlan
  dj_handle :: bool
  dj_records :: "JournalRecord list"
  dj_durability_failed :: bool
  dj_file :: string

definition mark_durability_failure :: "DurableProtectionJournal \<Rightarrow> DurableProtectionJournal" where
  "mark_durability_failure s =
     s\<lparr>dj_journal := dj_journal s\<lparr>pj_transaction_state := INDETERMINATE\<rparr>, dj_durability_failed := True\<rparr>"

definition require_live_handle :: "DurableProtectionJournal \<Rightarrow> store_error + unit" where
  "require_live_handle s =
     (if dj_durability_failed s then Inl Flush_error
      else if \<not> dj_handle s then Inl Store_error else Inr ())"

definition landed :: "append_outcome \<Rightarrow> string \<Rightarrow> string" where
  "landed a payload = (case a of Append_ok \<Rightarrow> payload | Append_raised n \<Rightarrow> take n payload)"

definition append_record ::
  "journal_io \<Rightarrow> DurableProtectionJournal \<Rightarrow> JournalRecord \<Rightarrow> (store_error + unit) \<times> DurableProtectionJournal" where
  "append_record io s record =
     (case serialize_journal_record record of
        Inl e \<Rightarrow> (Inl (Journal_error e), s)
      | Inr payload \<Rightarrow>
          (case require_live_handle s of
             Inl e \<Rightarrow> (Inl e, s)
           | Inr _ \<Rightarrow>
               let s1 = s\<lparr>dj_file := dj_file s @ landed (io_append io) payload\<rparr> in
               if io_append io \<noteq> Append_ok \<or> io_flush io = Flush_raised
               then (Inl Kernel_error, mark_durability_failure s1)
               else if io_flush io = Flush_false then (Inl Flush_error, mark_durability_failure s1)
               else let s2 = s1\<lparr>dj_records := dj_records s @ [record]\<rparr> in
                 (case replay_journal_records (dj_records s2) of
                    Inl e \<Rightarrow> (Inl (Journal_error e), s2)
                  | Inr j \<Rightarrow> (Inr (), s2\<lparr>dj_journal := j\<rparr>))))"

definition close_journal :: "DurableProtectionJournal \<Rightarrow> DurableProtectionJournal" where
  "close_journal s = s\<lparr>dj_handle := False\<rparr>"

definition node_binding :: "DurableProtectionJournal \<Rightarrow> string \<Rightarrow> store_error + NodeMutationBinding" where
  "node_binding s path =
     (case node_for (dj_plan s) path of None \<Rightarrow> Inl Plan_binding_error | Some n \<Rightarrow> Inr (binding_from_node n))"

definition require_binding ::
  "DurableProtectionJournal \<Rightarrow> NodeMutationBinding \<Rightarrow> store_error + NodeMutationBinding" where
  "require_binding s b =
     res_bind (node_binding s (nb_relative_path b)) (\<lambda>expected.
       if nb_volume_serial_number b \<noteq> nb_volume_serial_number expected \<or> nb_file_id b \<noteq> nb_file_id expected
          \<or> nb_pre_sd_sha256 b \<noteq> nb_pre_sd_sha256 expected
       then Inl Plan_binding_error else Inr expected)"

definition lift_pj :: "pj_error + 'a \<Rightarrow> store_error + 'a" where
  "lift_pj r = map_sum Journal_error id r"

text \<open>What \<open>record_node_mutation_intent\<close> and \<open>record_node_mutation_completed\<close> share: the live handle,
  the binding to the plan, the edge of the node's log and the record to append.\<close>

definition node_wal_record ::
  "DurableProtectionJournal \<Rightarrow> NodeMutationBinding \<Rightarrow> NodeWalState \<Rightarrow> store_error + JournalNodeRecord" where
  "node_wal_record s binding target =
     res_bind (require_live_handle s) (\<lambda>_.
     res_bind (require_binding s binding) (\<lambda>expected.
     res_bind (lift_pj (assert_node_transition (node_state (dj_journal s) (nb_relative_path expected)) target)) (\<lambda>_.
       lift_pj (node_post_init \<lparr>node_sequence = pj_sequence (dj_journal s) + 1,
         node_relative_path = nb_relative_path expected,
         node_volume_serial_number = nb_volume_serial_number expected, node_file_id = nb_file_id expected,
         node_pre_sd_sha256 = nb_pre_sd_sha256 expected, node_wal_state = target\<rparr>))))"

definition record_node_mutation_intent ::
  "journal_io \<Rightarrow> DurableProtectionJournal \<Rightarrow> NodeMutationBinding
    \<Rightarrow> (store_error + WalMutationPermit) \<times> DurableProtectionJournal" where
  "record_node_mutation_intent io s binding =
     (case node_wal_record s binding MUTATING of
        Inl e \<Rightarrow> (Inl e, s)
      | Inr record \<Rightarrow>
          (case append_record io s (Node_record record) of
             (Inl e, s') \<Rightarrow> (Inl e, s')
           | (Inr _, s') \<Rightarrow>
               (Inr \<lparr>wp_record = record, wp_operation_id = pj_operation_id (dj_journal s'),
                  wp_authorized_plan_digest = pj_authorized_plan_digest (dj_journal s'), wp_consumed = False\<rparr>, s')))"

definition record_node_mutation_completed ::
  "journal_io \<Rightarrow> DurableProtectionJournal \<Rightarrow> NodeMutationBinding \<Rightarrow> (store_error + unit) \<times> DurableProtectionJournal" where
  "record_node_mutation_completed io s binding =
     (case node_wal_record s binding MUTATED of
        Inl e \<Rightarrow> (Inl e, s)
      | Inr record \<Rightarrow> append_record io s (Node_record record))"

definition append_transaction ::
  "journal_io \<Rightarrow> DurableProtectionJournal \<Rightarrow> ProtectionTransactionState
    \<Rightarrow> (store_error + unit) \<times> DurableProtectionJournal" where
  "append_transaction io s target =
     (case transaction_post_init \<lparr>tx_sequence = pj_sequence (dj_journal s) + 1, tx_state = target\<rparr> of
        Inl e \<Rightarrow> (Inl (Journal_error e), s)
      | Inr record \<Rightarrow> append_record io s (Transaction_record record))"

definition transition_to ::
  "journal_io \<Rightarrow> DurableProtectionJournal \<Rightarrow> ProtectionTransactionState
    \<Rightarrow> (store_error + unit) \<times> DurableProtectionJournal" where
  "transition_to io s target =
     (case require_live_handle s of
        Inl e \<Rightarrow> (Inl e, s)
      | Inr _ \<Rightarrow>
          if target = COMMITTED then (Inl Premature_commit_error, s)
          else if target \<notin> S4A_PERMITTED_TRANSITION_TARGETS then (Inl (Journal_error Schema_error), s)
          else (case assert_transaction_transition (pj_transaction_state (dj_journal s)) target of
              Inl e \<Rightarrow> (Inl (Journal_error e), s)
            | Inr _ \<Rightarrow> append_transaction io s target))"

definition S4D_FINALIZATION_TARGETS :: "ProtectionTransactionState set" where
  "S4D_FINALIZATION_TARGETS = {VERIFYING_GP1, VERIFYING_RV2, VERIFYING_NODE_SET, ARCHIVING_BACKUP}"

fun S4D_FINALIZATION_ENTRY_POINTS :: "ProtectionTransactionState \<Rightarrow> ProtectionTransactionState set" where
  "S4D_FINALIZATION_ENTRY_POINTS VERIFYING_GP1 = {APPLYING, VERIFYING_GP1}"
| "S4D_FINALIZATION_ENTRY_POINTS VERIFYING_RV2 = {VERIFYING_GP1}"
| "S4D_FINALIZATION_ENTRY_POINTS VERIFYING_NODE_SET = {VERIFYING_RV2}"
| "S4D_FINALIZATION_ENTRY_POINTS ARCHIVING_BACKUP = {VERIFYING_NODE_SET}"
| "S4D_FINALIZATION_ENTRY_POINTS _ = {}"

definition enter_finalization_phase ::
  "journal_io \<Rightarrow> DurableProtectionJournal \<Rightarrow> ProtectionTransactionState
    \<Rightarrow> (store_error + unit) \<times> DurableProtectionJournal" where
  "enter_finalization_phase io s target =
     (case require_live_handle s of
        Inl e \<Rightarrow> (Inl e, s)
      | Inr _ \<Rightarrow>
          if target \<notin> S4D_FINALIZATION_TARGETS then (Inl Phase_not_admitted_error, s)
          else if pj_transaction_state (dj_journal s) \<notin> S4D_FINALIZATION_ENTRY_POINTS target
            then (Inl Phase_not_admitted_error, s)
          else (case assert_transaction_transition (pj_transaction_state (dj_journal s)) target of
              Inl e \<Rightarrow> (Inl (Journal_error e), s)
            | Inr _ \<Rightarrow> append_transaction io s target))"

text \<open>The archive handed to \<open>commit_finalized\<close> is a \<open>DurableGoldenBackupArchive\<close>, whose type is what its
  first test demands.\<close>

definition commit_finalized ::
  "journal_io \<Rightarrow> DurableProtectionJournal \<Rightarrow> GoldenBackupArchive \<Rightarrow> AuthorizedPlan
    \<Rightarrow> (store_error + unit) \<times> DurableProtectionJournal" where
  "commit_finalized io s archive plan =
     (case require_live_handle s of
        Inl e \<Rightarrow> (Inl e, s)
      | Inr _ \<Rightarrow>
          if pj_transaction_state (dj_journal s) \<noteq> ARCHIVING_BACKUP then (Inl Premature_commit_error, s)
          else if \<not> binds_to archive plan then (Inl Premature_commit_error, s)
          else if gba_authorized_plan_digest archive \<noteq> pj_authorized_plan_digest (dj_journal s)
            then (Inl Premature_commit_error, s)
          else (case assert_transaction_transition (pj_transaction_state (dj_journal s)) COMMITTED of
              Inl e \<Rightarrow> (Inl (Journal_error e), s)
            | Inr _ \<Rightarrow> append_transaction io s COMMITTED))"

subsection \<open>One more record\<close>

lemma replay_snoc:
  assumes "replay_journal_records (Header_record h # rest) = Inr (replay_result h st)" and "hdr_sequence h = 1"
    and "res_fold replay_step replay_init rest = Inr st"
  shows "replay_journal_records (Header_record h # rest @ [r]) =
    res_bind (replay_step st r) (\<lambda>st'. Inr (replay_result h st'))"
  using assms by (cases "replay_step st r") (simp_all add: replay_journal_records_def res_fold_append)

lemma replay_snoc_transaction:
  assumes "replay_journal_records rs = Inr j" and "tx_sequence t = pj_sequence j + 1"
    and "tx_allowed (pj_transaction_state j) (tx_state t)" and "tx_state t \<noteq> APPLYING"
  shows "replay_journal_records (rs @ [Transaction_record t]) =
    Inr (j\<lparr>pj_transaction_state := tx_state t, pj_sequence := pj_sequence j + 1\<rparr>)"
proof -
  obtain h rest st where s: "rs = Header_record h # rest" "hdr_sequence h = 1"
      "res_fold replay_step replay_init rest = Inr st" "replay_inv rest st" "j = replay_result h st"
    using replay_invD [OF assms(1)] .
  have "replay_step st (Transaction_record t) = Inr (st\<lparr>rp_expected_sequence := rp_expected_sequence st + 1,
      rp_transaction_state := tx_state t, rp_transaction_declared := True\<rparr>)"
    using assms(2-4) s(5) by (simp add: replay_step_def replay_transaction_def replay_result_def
        assert_transaction_transition_def tx_allowed_def INITIAL_TRANSACTION_STATE_def)
  with replay_snoc [of h rest st "Transaction_record t"] s assms(1) show ?thesis
    by (simp add: replay_result_def)
qed

lemma replay_snoc_node:
  assumes "replay_journal_records rs = Inr j" and "node_sequence n = pj_sequence j + 1"
    and "assert_node_transition (node_state j (node_relative_path n)) (node_wal_state n) = Inr ()"
    and "\<And>m. node_record j (node_relative_path n) = Some m \<Longrightarrow> node_identity m = node_identity n"
  shows "replay_journal_records (rs @ [Node_record n]) =
    Inr (j\<lparr>pj_node_records := pj_node_records j @ [n], pj_sequence := pj_sequence j + 1\<rparr>)"
proof -
  let ?p = "node_relative_path n"
  obtain h rest st where s: "rs = Header_record h # rest" "hdr_sequence h = 1"
      "res_fold replay_step replay_init rest = Inr st" "replay_inv rest st" "j = replay_result h st"
    using replay_invD [OF assms(1)] .
  let ?H = "records_for ?p (node_records_of rest)"
  have nr: "pj_node_records j = node_records_of rest" using s(4,5) by (simp add: replay_inv_def replay_result_def)
  have st: "dget (rp_node_states st) ?p = (if ?H = [] then None else Some (node_wal_state (last ?H)))"
      "dget (rp_node_identities st) ?p = (if ?H = [] then None else Some (node_identity (last ?H)))"
    using s(4) unfolding replay_inv_def Let_def by blast+
  have rec: "node_record j ?p = (if ?H = [] then None else Some (last ?H))"
    by (simp add: node_record_last nr Let_def)
  have "assert_node_transition (dget (rp_node_states st) ?p) (node_wal_state n) = Inr ()"
    using assms(3) unfolding node_state_def rec st by (simp split: if_splits del: assert_node_transition_Inr)
  moreover have "dget (rp_node_identities st) ?p = None \<or> dget (rp_node_identities st) ?p = Some (node_identity n)"
    using assms(4) unfolding rec st by (auto split: if_splits)
  ultimately have "replay_step st (Node_record n) = Inr (st\<lparr>rp_expected_sequence := rp_expected_sequence st + 1,
      rp_node_identities := dset ?p (node_identity n) (rp_node_identities st),
      rp_node_states := dset ?p (node_wal_state n) (rp_node_states st), rp_node_records := rp_node_records st @ [n]\<rparr>)"
    using assms(2) s(5) by (auto simp: replay_step_def replay_node_def Let_def replay_result_def simp del: assert_node_transition_Inr)
  with replay_snoc [of h rest st "Node_record n"] s assms(1) show ?thesis
    by (simp add: replay_result_def)
qed

subsection \<open>The invariant of a live journal\<close>

text \<open>What the validation of a node of the plan has established of the fields the log copies.\<close>

definition plan_wf :: "AuthorizedPlan \<Rightarrow> bool" where
  "plan_wf plan \<longleftrightarrow> (\<forall>n \<in> set (ap_nodes plan).
     validate_relative_path (JStr (relative_path n)) = Inr (relative_path n)
     \<and> 0 \<le> volume_serial_number n \<and> volume_serial_number n \<le> MAX_UINT64
     \<and> 0 \<le> file_id n \<and> file_id n \<le> MAX_UINT128
     \<and> validate_sha256_hex (JStr (pre_sd_sha256 n)) = Inr (pre_sd_sha256 n))"

definition plan_identity :: "NodeSecurityBackup \<Rightarrow> identity" where
  "plan_identity n = (volume_serial_number n, file_id n, pre_sd_sha256 n)"

definition node_matches :: "AuthorizedPlan \<Rightarrow> JournalNodeRecord \<Rightarrow> bool" where
  "node_matches plan n \<longleftrightarrow> (\<exists>m. node_for plan (node_relative_path n) = Some m \<and> node_identity n = plan_identity m)"

definition store_inv :: "DurableProtectionJournal \<Rightarrow> bool" where
  "store_inv s \<longleftrightarrow> list_all record_valid (dj_records s)
     \<and> (\<forall>n \<in> set (node_records_of (dj_records s)). node_matches (dj_plan s) n)
     \<and> (\<exists>base j. journal_bytes (dj_records s) = Inr base \<and> replay_journal_records (dj_records s) = Inr j
          \<and> (if dj_durability_failed s
             then dj_journal s = j\<lparr>pj_transaction_state := INDETERMINATE\<rparr>
               \<and> (\<exists>r payload n. record_valid r \<and> (\<forall>m \<in> set (node_records_of [r]). node_matches (dj_plan s) m)
                    \<and> serialize_journal_record r = Inr payload \<and> dj_file s = base @ take n payload)
             else dj_journal s = j \<and> dj_file s = base))"

lemma store_inv_live:
  assumes "store_inv s" and "\<not> dj_durability_failed s"
  shows "list_all record_valid (dj_records s)" and "journal_bytes (dj_records s) = Inr (dj_file s)"
    and "replay_journal_records (dj_records s) = Inr (dj_journal s)"
  using assms by (auto simp: store_inv_def)

lemma landed_take: "\<exists>n. landed a payload = take n payload"
  by (cases a) (auto simp: landed_def intro: exI [of _ "length payload"])

text \<open>The outcomes of one append.\<close>

lemma append_record_cases:
  assumes "append_record io s r = (res, s')"
  obtains (refused) e where "res = Inl e" and "s' = s"
  | (failed) e payload n where "\<not> dj_durability_failed s" and "res = Inl e" and "serialize_journal_record r = Inr payload"
      and "s' = mark_durability_failure (s\<lparr>dj_file := dj_file s @ take n payload\<rparr>)"
  | (broken) e payload where "\<not> dj_durability_failed s" and "res = Inl (Journal_error e)"
      and "serialize_journal_record r = Inr payload" and "replay_journal_records (dj_records s @ [r]) = Inl e"
      and "s' = s\<lparr>dj_file := dj_file s @ payload, dj_records := dj_records s @ [r]\<rparr>"
  | (written) payload j where "\<not> dj_durability_failed s" and "res = Inr ()" and "serialize_journal_record r = Inr payload"
      and "io_append io = Append_ok" and "io_flush io = Flush_true"
      and "replay_journal_records (dj_records s @ [r]) = Inr j"
      and "s' = s\<lparr>dj_file := dj_file s @ payload, dj_records := dj_records s @ [r], dj_journal := j\<rparr>"
proof (cases "serialize_journal_record r")
  case (Inl e)
  with assms show thesis by (intro refused [of "Journal_error e"]) (simp_all add: append_record_def)
next
  case (Inr payload)
  show thesis
  proof (cases "require_live_handle s")
    case (Inl e)
    with Inr assms show thesis by (intro refused [of e]) (simp_all add: append_record_def)
  next
    case live: (Inr u)
    then have nf: "\<not> dj_durability_failed s" by (auto simp: require_live_handle_def split: if_splits)
    obtain n where n: "landed (io_append io) payload = take n payload" using landed_take by blast
    consider "io_append io \<noteq> Append_ok \<or> io_flush io = Flush_raised"
      | "io_append io = Append_ok" "io_flush io = Flush_false" | "io_append io = Append_ok" "io_flush io = Flush_true"
      by (cases "io_flush io") auto
    then show thesis
    proof cases
      case 1
      with assms Inr live n show thesis
        by (intro failed [OF nf, of Kernel_error payload n]) (simp_all add: append_record_def Let_def split: if_splits)
    next
      case 2
      with assms Inr live n show thesis
        by (intro failed [OF nf, of Flush_error payload n]) (simp_all add: append_record_def Let_def)
    next
      case 3
      then have p: "landed (io_append io) payload = payload" by (simp add: landed_def)
      show thesis
      proof (cases "replay_journal_records (dj_records s @ [r])")
        case (Inl e)
        with 3 assms Inr live p show thesis
          by (intro broken [OF nf, of e payload]) (auto simp: append_record_def Let_def)
      next
        case j: (Inr j)
        with 3 assms Inr live p show thesis
          by (intro written [OF nf, of payload j]) (auto simp: append_record_def Let_def)
      qed
    qed
  qed
qed

lemma append_record_inv:
  assumes "store_inv s" and "record_valid r" and "replay_journal_records (dj_records s @ [r]) = Inr j"
    and "\<And>n. r = Node_record n \<Longrightarrow> node_matches (dj_plan s) n"
  shows "store_inv (snd (append_record io s r))"
proof -
  obtain res s' where eq: "append_record io s r = (res, s')" by fastforce
  from eq show ?thesis
  proof (cases rule: append_record_cases)
    case refused
    with assms(1) eq show ?thesis by simp
  next
    case (failed e payload n)
    have "\<forall>m \<in> set (node_records_of [r]). node_matches (dj_plan s) m"
      using assms(4) by (cases r) (auto simp: node_records_of_def)
    with failed store_inv_live [OF assms(1)] assms(1,2) have "store_inv s'"
      by (auto simp: store_inv_def mark_durability_failure_def)
    with eq show ?thesis by simp
  next
    case broken
    with assms(3) show ?thesis by simp
  next
    case (written payload j')
    have "journal_bytes (dj_records s @ [r]) = Inr (dj_file s @ payload)"
      using store_inv_live(2) [OF assms(1) written(1)] written(3)
      by (simp add: journal_bytes_append journal_bytes_Cons)
    moreover have "\<forall>n \<in> set (node_records_of (dj_records s @ [r])). node_matches (dj_plan s) n"
      using assms(1,4) by (auto simp: store_inv_def node_records_of_def split: JournalRecord.splits)
    ultimately have "store_inv s'"
      using written assms(1,2) by (auto simp: store_inv_def)
    with eq show ?thesis by simp
  qed
qed

lemma require_live_Inr: "require_live_handle s = Inr u \<longleftrightarrow> \<not> dj_durability_failed s \<and> dj_handle s"
  by (simp add: require_live_handle_def)

lemma lift_pj_Inr [simp]: "lift_pj m = Inr x \<longleftrightarrow> m = Inr x"
  by (cases m) (auto simp: lift_pj_def)

lemma node_post_init_plan:
  assumes "plan_wf plan" and "n \<in> set (ap_nodes plan)" and "1 \<le> q"
  shows "node_post_init \<lparr>node_sequence = q, node_relative_path = relative_path n,
      node_volume_serial_number = volume_serial_number n, node_file_id = file_id n, node_pre_sd_sha256 = pre_sd_sha256 n,
      node_wal_state = t\<rparr> = Inr \<lparr>node_sequence = q, node_relative_path = relative_path n,
      node_volume_serial_number = volume_serial_number n, node_file_id = file_id n, node_pre_sd_sha256 = pre_sd_sha256 n,
      node_wal_state = t\<rparr>"
  using assms by (simp add: plan_wf_def node_post_init_def validate_sequence_def validate_uint_def)

lemma node_record_in: "node_record j p = Some m \<Longrightarrow> m \<in> set (pj_node_records j) \<and> node_relative_path m = p"
proof -
  assume "node_record j p = Some m"
  then have "m \<in> set (records_for p (pj_node_records j))"
    by (auto simp: node_record_last Let_def split: if_splits)
  then show ?thesis by (simp add: records_for_def)
qed

lemma node_wal_record_Inr:
  assumes "node_wal_record s b t = Inr r" and "store_inv s" and "plan_wf (dj_plan s)"
  shows "dj_handle s \<and> \<not> dj_durability_failed s
    \<and> (\<exists>n. node_for (dj_plan s) (nb_relative_path b) = Some n \<and> b = binding_from_node n
        \<and> node_relative_path r = relative_path n \<and> node_identity r = plan_identity n)
    \<and> node_wal_state r = t \<and> assert_node_transition (node_state (dj_journal s) (node_relative_path r)) t = Inr ()
    \<and> record_valid (Node_record r) \<and> node_matches (dj_plan s) r
    \<and> replay_journal_records (dj_records s @ [Node_record r]) =
        Inr (dj_journal s\<lparr>pj_node_records := pj_node_records (dj_journal s) @ [r],
          pj_sequence := pj_sequence (dj_journal s) + 1\<rparr>)"
proof -
  from assms(1) obtain n where live: "dj_handle s" "\<not> dj_durability_failed s"
      and n: "node_for (dj_plan s) (nb_relative_path b) = Some n"
      and eq: "nb_volume_serial_number b = volume_serial_number n" "nb_file_id b = file_id n" "nb_pre_sd_sha256 b = pre_sd_sha256 n"
      and edge: "assert_node_transition (node_state (dj_journal s) (relative_path n)) t = Inr ()"
      and init: "node_post_init \<lparr>node_sequence = pj_sequence (dj_journal s) + 1, node_relative_path = relative_path n,
        node_volume_serial_number = volume_serial_number n, node_file_id = file_id n, node_pre_sd_sha256 = pre_sd_sha256 n,
        node_wal_state = t\<rparr> = Inr r"
    by (auto simp: node_wal_record_def res_bind_Inr require_live_Inr require_binding_def node_binding_def
        binding_from_node_def simp del: assert_node_transition_Inr split: option.splits if_splits)
  have np: "n \<in> set (ap_nodes (dj_plan s))" "relative_path n = nb_relative_path b" using node_for_in [OF n] by auto
  have rep: "replay_journal_records (dj_records s) = Inr (dj_journal s)" using store_inv_live(3) assms(2) live(2) .
  have seq: "pj_sequence (dj_journal s) = int (length (dj_records s))" using replay_nodes(2) [OF rep] .
  have r: "r = \<lparr>node_sequence = pj_sequence (dj_journal s) + 1, node_relative_path = relative_path n,
      node_volume_serial_number = volume_serial_number n, node_file_id = file_id n, node_pre_sd_sha256 = pre_sd_sha256 n,
      node_wal_state = t\<rparr>"
    using init node_post_init_plan [OF assms(3) np(1), of "pj_sequence (dj_journal s) + 1" t] seq by simp
  have m: "node_matches (dj_plan s) r"
    using n np(2) by (simp add: node_matches_def r node_identity_def plan_identity_def)
  have "node_identity m = node_identity r" if "node_record (dj_journal s) (node_relative_path r) = Some m" for m
  proof -
    from that have "m \<in> set (node_records_of (dj_records s))" "node_relative_path m = node_relative_path r"
      using node_record_in [OF that] replay_nodes(1) [OF rep] by auto
    with assms(2) have "node_matches (dj_plan s) m" by (simp add: store_inv_def)
    with m \<open>node_relative_path m = node_relative_path r\<close> show ?thesis by (auto simp: node_matches_def)
  qed
  then have "replay_journal_records (dj_records s @ [Node_record r]) =
      Inr (dj_journal s\<lparr>pj_node_records := pj_node_records (dj_journal s) @ [r], pj_sequence := pj_sequence (dj_journal s) + 1\<rparr>)"
    using edge by (intro replay_snoc_node [OF rep]) (simp_all add: r del: assert_node_transition_Inr)
  moreover have "b = binding_from_node n" using eq np(2) by (simp add: binding_from_node_def)
  moreover have "record_valid (Node_record r)" using node_post_init_valid [OF init] .
  ultimately show ?thesis
    using live n m edge by (simp add: r node_identity_def plan_identity_def del: assert_node_transition_Inr record_valid.simps)
qed

lemma append_transaction_eq:
  assumes "store_inv s" and "\<not> dj_durability_failed s"
  shows "append_transaction io s t =
    append_record io s (Transaction_record \<lparr>tx_sequence = pj_sequence (dj_journal s) + 1, tx_state = t\<rparr>)"
  using replay_nodes(2) [OF store_inv_live(3) [OF assms]]
  by (simp add: append_transaction_def transaction_post_init_def validate_sequence_def)

lemma append_transaction_replay:
  assumes "store_inv s" and "\<not> dj_durability_failed s"
    and "tx_allowed (pj_transaction_state (dj_journal s)) t" and "t \<noteq> APPLYING"
  shows "replay_journal_records (dj_records s @ [Transaction_record \<lparr>tx_sequence = pj_sequence (dj_journal s) + 1, tx_state = t\<rparr>])
    = Inr (dj_journal s\<lparr>pj_transaction_state := t, pj_sequence := pj_sequence (dj_journal s) + 1\<rparr>)"
  using replay_snoc_transaction [OF store_inv_live(3) [OF assms(1,2)]] assms(3,4) by simp

lemma append_transaction_inv:
  assumes "store_inv s" and "\<not> dj_durability_failed s"
    and "tx_allowed (pj_transaction_state (dj_journal s)) t" and "t \<noteq> APPLYING"
  shows "store_inv (snd (append_transaction io s t))"
  unfolding append_transaction_eq [OF assms(1,2)]
  using replay_nodes(2) [OF store_inv_live(3) [OF assms(1,2)]]
  by (intro append_record_inv [OF assms(1) _ append_transaction_replay [OF assms]])
     (simp_all add: transaction_post_init_def validate_sequence_def)

text \<open>The step of a store: any call of any operation, with any outcome of the kernel.\<close>

datatype store_op =
    Op_intent journal_io NodeMutationBinding
  | Op_completed journal_io NodeMutationBinding
  | Op_transition journal_io ProtectionTransactionState
  | Op_phase journal_io ProtectionTransactionState
  | Op_commit journal_io GoldenBackupArchive AuthorizedPlan
  | Op_close

fun run_op :: "store_op \<Rightarrow> DurableProtectionJournal \<Rightarrow> DurableProtectionJournal" where
  "run_op (Op_intent io b) s = snd (record_node_mutation_intent io s b)"
| "run_op (Op_completed io b) s = snd (record_node_mutation_completed io s b)"
| "run_op (Op_transition io t) s = snd (transition_to io s t)"
| "run_op (Op_phase io t) s = snd (enter_finalization_phase io s t)"
| "run_op (Op_commit io a p) s = snd (commit_finalized io s a p)"
| "run_op Op_close s = close_journal s"

text \<open>A transition that passes the guards of its operation appends its record; any other call leaves
  the store alone.\<close>

lemma transition_to_cases:
  assumes "store_inv s"
  shows "(snd (transition_to io s t) = s \<and> (\<exists>e. fst (transition_to io s t) = Inl e))
    \<or> (\<not> dj_durability_failed s \<and> tx_allowed (pj_transaction_state (dj_journal s)) t
       \<and> t \<in> S4A_PERMITTED_TRANSITION_TARGETS \<and> t \<noteq> APPLYING \<and> t \<noteq> COMMITTED
       \<and> transition_to io s t = append_transaction io s t)"
  by (auto simp: transition_to_def S4A_PERMITTED_TRANSITION_TARGETS_def require_live_handle_def
      assert_transaction_transition_def tx_allowed_def split: sum.splits if_splits)

lemma enter_finalization_phase_cases:
  assumes "store_inv s"
  shows "(snd (enter_finalization_phase io s t) = s \<and> (\<exists>e. fst (enter_finalization_phase io s t) = Inl e))
    \<or> (\<not> dj_durability_failed s \<and> tx_allowed (pj_transaction_state (dj_journal s)) t
       \<and> t \<in> S4D_FINALIZATION_TARGETS \<and> t \<noteq> APPLYING \<and> t \<noteq> COMMITTED
       \<and> enter_finalization_phase io s t = append_transaction io s t)"
  by (auto simp: enter_finalization_phase_def S4D_FINALIZATION_TARGETS_def require_live_handle_def
      assert_transaction_transition_def tx_allowed_def split: sum.splits if_splits)

lemma commit_finalized_cases:
  shows "(snd (commit_finalized io s a p) = s \<and> (\<exists>e. fst (commit_finalized io s a p) = Inl e))
    \<or> (\<not> dj_durability_failed s \<and> pj_transaction_state (dj_journal s) = ARCHIVING_BACKUP \<and> binds_to a p
       \<and> gba_authorized_plan_digest a = pj_authorized_plan_digest (dj_journal s)
       \<and> commit_finalized io s a p = append_transaction io s COMMITTED)"
  by (auto simp: commit_finalized_def require_live_handle_def assert_transaction_transition_def split: sum.splits if_splits)

lemma append_record_plan [simp]: "dj_plan (snd (append_record io s r)) = dj_plan s"
proof -
  obtain res s' where eq: "append_record io s r = (res, s')" by fastforce
  then have "dj_plan s' = dj_plan s" by (cases rule: append_record_cases) (simp_all add: mark_durability_failure_def)
  with eq show ?thesis by simp
qed

lemma intent_snd:
  "snd (record_node_mutation_intent io s b) =
    (case node_wal_record s b MUTATING of Inl e \<Rightarrow> s | Inr r \<Rightarrow> snd (append_record io s (Node_record r)))"
  by (auto simp: record_node_mutation_intent_def split: sum.splits prod.splits)

lemma run_op_plan [simp]: "dj_plan (run_op op s) = dj_plan s"
proof (cases op)
  case (Op_intent io b)
  then show ?thesis by (simp add: intent_snd split: sum.splits)
next
  case (Op_completed io b)
  then show ?thesis by (simp add: record_node_mutation_completed_def split: sum.splits)
qed (simp_all add: transition_to_def enter_finalization_phase_def commit_finalized_def append_transaction_def
    close_journal_def split: sum.splits)

lemma run_op_inv:
  assumes "store_inv s" and "plan_wf (dj_plan s)"
  shows "store_inv (run_op op s)"
proof (cases op)
  case (Op_intent io b)
  show ?thesis
  proof (cases "node_wal_record s b MUTATING")
    case (Inr r)
    from node_wal_record_Inr [OF this assms] show ?thesis
      by (auto simp: Op_intent intent_snd Inr intro!: append_record_inv [OF assms(1)])
  qed (use assms(1) in \<open>simp add: Op_intent intent_snd\<close>)
next
  case (Op_completed io b)
  show ?thesis
  proof (cases "node_wal_record s b MUTATED")
    case (Inr r)
    from node_wal_record_Inr [OF this assms] show ?thesis
      by (auto simp: Op_completed record_node_mutation_completed_def Inr intro!: append_record_inv [OF assms(1)])
  qed (use assms(1) in \<open>simp add: Op_completed record_node_mutation_completed_def\<close>)
next
  case (Op_transition io t)
  with transition_to_cases [OF assms(1), of io t] assms(1) append_transaction_inv show ?thesis by auto
next
  case (Op_phase io t)
  with enter_finalization_phase_cases [OF assms(1), of io t] assms(1) append_transaction_inv show ?thesis by auto
next
  case (Op_commit io a p)
  with commit_finalized_cases [of io s a p] assms(1) append_transaction_inv [OF assms(1)] show ?thesis by auto
next
  case Op_close
  have "store_inv (close_journal s) = store_inv s" by (simp add: close_journal_def store_inv_def)
  with Op_close assms(1) show ?thesis by simp
qed

text \<open>C29: every operation, whatever the kernel does, keeps the invariant of the store.\<close>

theorem store_invariant:
  assumes "store_inv s" and "plan_wf (dj_plan s)"
  shows "store_inv (fold run_op ops s)"
  using assms
proof (induction ops arbitrary: s)
  case (Cons op ops)
  then show ?case using Cons.IH [of "run_op op s"] run_op_inv by simp
qed simp

lemma poisoned_refuses:
  "dj_durability_failed s \<Longrightarrow> require_live_handle s = Inl Flush_error"
  by (simp add: require_live_handle_def)

text \<open>After a write whose durability is unknown the store is dead: no call appends, no permit is
  issued, and its file stays as the failure left it.\<close>

theorem poisoned_is_final:
  assumes "dj_durability_failed s"
  shows "record_node_mutation_intent io s b = (Inl Flush_error, s) \<and> record_node_mutation_completed io s b = (Inl Flush_error, s)
    \<and> transition_to io s t = (Inl Flush_error, s) \<and> enter_finalization_phase io s t = (Inl Flush_error, s)
    \<and> commit_finalized io s a p = (Inl Flush_error, s) \<and> dj_file (fold run_op ops s) = dj_file s"
proof -
  note ops = record_node_mutation_intent_def record_node_mutation_completed_def transition_to_def
    enter_finalization_phase_def commit_finalized_def node_wal_record_def poisoned_refuses
  have "dj_file (fold run_op ops s) = dj_file s"
    using assms
  proof (induction ops arbitrary: s)
    case (Cons op ops)
    have "dj_file (run_op op s) = dj_file s \<and> dj_durability_failed (run_op op s)"
      using Cons.prems by (cases op) (simp_all add: ops close_journal_def)
    with Cons.IH [of "run_op op s"] show ?case by simp
  qed simp
  with assms show ?thesis by (simp add: ops)
qed

lemma permit_facts:
  assumes "store_inv s" and "plan_wf (dj_plan s)" and "record_node_mutation_intent io s b = (Inr permit, s')"
  shows "io_append io = Append_ok \<and> io_flush io = Flush_true \<and> wp_consumed permit = False
    \<and> parse_journal_bytes (dj_file s') = Inr \<lparr>disposition = VALID, loaded_journal = Some (dj_journal s')\<rparr>
    \<and> node_record (dj_journal s') (nb_relative_path b) = Some (wp_record permit)
    \<and> node_state (dj_journal s') (nb_relative_path b) = Some MUTATING
    \<and> node_state (dj_journal s) (nb_relative_path b) = None
    \<and> permit_binding permit = b \<and> node_binding s (nb_relative_path b) = Inr b"
proof -
  from assms(3) obtain r where r: "node_wal_record s b MUTATING = Inr r"
      and a: "append_record io s (Node_record r) = (Inr (), s')"
      and p: "wp_record permit = r" "wp_consumed permit = False"
    by (auto simp: record_node_mutation_intent_def split: sum.splits prod.splits)
  from node_wal_record_Inr [OF r assms(1,2)] obtain n where
    n: "node_for (dj_plan s) (nb_relative_path b) = Some n" "b = binding_from_node n" "node_relative_path r = relative_path n"
       "node_identity r = plan_identity n" "node_wal_state r = MUTATING"
    and edge: "assert_node_transition (node_state (dj_journal s) (node_relative_path r)) MUTATING = Inr ()"
    and rep: "replay_journal_records (dj_records s @ [Node_record r]) = Inr (dj_journal s\<lparr>pj_node_records :=
        pj_node_records (dj_journal s) @ [r], pj_sequence := pj_sequence (dj_journal s) + 1\<rparr>)" by blast
  have path: "node_relative_path r = nb_relative_path b" using n(2,3) by (simp add: binding_from_node_def)
  have none: "node_state (dj_journal s) (nb_relative_path b) = None" using edge path by simp
  have inv: "store_inv s'" using run_op_inv [OF assms(1,2), of "Op_intent io b"] assms(3) by simp
  from a have w: "io_append io = Append_ok" "io_flush io = Flush_true" "\<not> dj_durability_failed s'"
      "dj_journal s' = dj_journal s\<lparr>pj_node_records := pj_node_records (dj_journal s) @ [r],
        pj_sequence := pj_sequence (dj_journal s) + 1\<rparr>"
    using rep by (cases rule: append_record_cases; simp)+
  have "parse_journal_bytes (dj_file s') = Inr \<lparr>disposition = VALID, loaded_journal = Some (dj_journal s')\<rparr>"
    using store_inv_live [OF inv w(3)] by (rule journal_roundtrip)
  moreover have "node_record (dj_journal s') (nb_relative_path b) = Some r"
    unfolding w(4) using path by (simp add: node_record_def)
  moreover have "permit_binding permit = b"
    using n(2,3,4) p(1) by (simp add: permit_binding_def binding_from_node_def node_identity_def plan_identity_def)
  moreover have "node_binding s (nb_relative_path b) = Inr b" using n(1,2) by (simp add: node_binding_def)
  ultimately show ?thesis using w(1,2) p none n(5) by (simp add: node_state_def)
qed

text \<open>C26: the permit to mutate a node exists only when the intent is durable: the append and the flush
  were confirmed, and a reader of the file finds the node in MUTATING with the identity of the plan and
  the permit's own record as the node's last.\<close>

theorem permit_implies_durable_intent:
  assumes "store_inv s" and "plan_wf (dj_plan s)" and "record_node_mutation_intent io s b = (Inr permit, s')"
  shows "io_append io = Append_ok \<and> io_flush io = Flush_true \<and> wp_consumed permit = False
    \<and> parse_journal_bytes (dj_file s') = Inr \<lparr>disposition = VALID, loaded_journal = Some (dj_journal s')\<rparr>
    \<and> node_record (dj_journal s') (nb_relative_path b) = Some (wp_record permit)
    \<and> node_state (dj_journal s') (nb_relative_path b) = Some MUTATING
    \<and> node_state (dj_journal s) (nb_relative_path b) = None
    \<and> permit_binding permit = b \<and> node_binding s (nb_relative_path b) = Inr b"
  using assms by (rule permit_facts)

lemma prefix_line_cases:
  assumes "p = base @ take n (body @ [LF])" and "LF \<notin> set body" and "base = [] \<or> last base = LF"
  shows "p = base \<or> p = base @ body @ [LF] \<or> (p \<noteq> [] \<and> last p \<noteq> LF)"
proof (cases "n = 0 \<or> length body < n")
  case True
  with assms(1) show ?thesis by auto
next
  case False
  then have "take n (body @ [LF]) = take n body" "take n body \<noteq> []" using assms by auto
  moreover from this have "last (take n body) \<noteq> LF" using assms(2) by (metis in_set_takeD last_in_set)
  ultimately show ?thesis using assms(1) by simp
qed

text \<open>A write that failed leaves evidence that is never false: what a reader finds is a torn journal,
  the state before the write, or the state after it.\<close>

theorem failed_write_evidence:
  assumes "store_inv s" and "record_valid r" and "replay_journal_records (dj_records s @ [r]) = Inr j"
    and "\<not> dj_durability_failed s" and "append_record io s r = (Inl e, s')"
  shows "parse_journal_bytes (dj_file s') \<in>
    {Inr \<lparr>disposition = TORN_TAIL, loaded_journal = None\<rparr>,
     Inr \<lparr>disposition = VALID, loaded_journal = Some (dj_journal s)\<rparr>,
     Inr \<lparr>disposition = VALID, loaded_journal = Some j\<rparr>}"
proof -
  note live = store_inv_live [OF assms(1,4)]
  have old: "parse_journal_bytes (dj_file s) = Inr \<lparr>disposition = VALID, loaded_journal = Some (dj_journal s)\<rparr>"
    using live by (rule journal_roundtrip)
  from assms(5) show ?thesis
  proof (cases rule: append_record_cases)
    case (failed e' payload n)
    from parse_serialized_line [OF assms(2) failed(3)] obtain body where body: "payload = body @ [LF]" "LF \<notin> set body" by blast
    have last: "dj_file s = [] \<or> last (dj_file s) = LF"
      using old by (auto simp: parse_journal_bytes_def split: if_splits)
    have all: "journal_bytes (dj_records s @ [r]) = Inr (dj_file s @ payload)"
      using live(2) failed(3) by (simp add: journal_bytes_append journal_bytes_Cons)
    have "list_all record_valid (dj_records s @ [r])" using live(1) assms(2) by simp
    note new = journal_roundtrip [OF this all assms(3)]
    have f: "dj_file s' = dj_file s @ take n (body @ [LF])" using failed(4) body(1) by (simp add: mark_durability_failure_def)
    from prefix_line_cases [OF f body(2) last] show ?thesis
      using old new body(1) by (auto simp: parse_journal_bytes_def)
  qed (use old assms(3) in simp_all)
qed

subsection \<open>What each operation does to the transaction's state\<close>

lemma append_record_state:
  assumes "replay_journal_records (dj_records s @ [r]) = Inr j"
  shows "pj_transaction_state (dj_journal (snd (append_record io s r))) \<in>
    {pj_transaction_state (dj_journal s), INDETERMINATE, pj_transaction_state j}"
proof -
  obtain res s' where eq: "append_record io s r = (res, s')" by fastforce
  then have "pj_transaction_state (dj_journal s') \<in> {pj_transaction_state (dj_journal s), INDETERMINATE, pj_transaction_state j}"
    using assms by (cases rule: append_record_cases) (simp_all add: mark_durability_failure_def)
  with eq show ?thesis by simp
qed

lemma append_transaction_state:
  assumes "store_inv s" and "\<not> dj_durability_failed s"
    and "tx_allowed (pj_transaction_state (dj_journal s)) t" and "t \<noteq> APPLYING"
  shows "pj_transaction_state (dj_journal (snd (append_transaction io s t))) \<in> {pj_transaction_state (dj_journal s), INDETERMINATE, t}"
  using append_record_state [OF append_transaction_replay [OF assms]] unfolding append_transaction_eq [OF assms(1,2)] by simp

lemma node_append_state:
  assumes "node_wal_record s b t = Inr r" and "store_inv s" and "plan_wf (dj_plan s)"
  shows "pj_transaction_state (dj_journal (snd (append_record io s (Node_record r)))) \<in> {pj_transaction_state (dj_journal s), INDETERMINATE}"
  using node_wal_record_Inr [OF assms] append_record_state [of s "Node_record r" _ io] by fastforce

lemma run_op_state:
  assumes "store_inv s" and "plan_wf (dj_plan s)"
  shows "pj_transaction_state (dj_journal (run_op op s)) \<in> {pj_transaction_state (dj_journal s), INDETERMINATE}
    \<or> (\<exists>t. tx_allowed (pj_transaction_state (dj_journal s)) t \<and> pj_transaction_state (dj_journal (run_op op s)) = t
        \<and> (t = COMMITTED \<longrightarrow> (\<exists>io a p. op = Op_commit io a p \<and> pj_transaction_state (dj_journal s) = ARCHIVING_BACKUP
             \<and> binds_to a p \<and> gba_authorized_plan_digest a = pj_authorized_plan_digest (dj_journal s))))"
proof (cases op)
  case (Op_intent io b)
  then show ?thesis using node_append_state [OF _ assms] by (auto simp: intent_snd split: sum.splits)
next
  case (Op_completed io b)
  then show ?thesis using node_append_state [OF _ assms]
    by (auto simp: record_node_mutation_completed_def split: sum.splits)
next
  case (Op_transition io t)
  with transition_to_cases [OF assms(1), of io t] append_transaction_state [OF assms(1), of t io] show ?thesis by auto
next
  case (Op_phase io t)
  with enter_finalization_phase_cases [OF assms(1), of io t] append_transaction_state [OF assms(1), of t io] show ?thesis by auto
next
  case (Op_commit io a p)
  with commit_finalized_cases [of io s a p] append_transaction_state [OF assms(1), of COMMITTED io] show ?thesis by auto
next
  case Op_close
  then show ?thesis by (simp add: close_journal_def)
qed

text \<open>C27: the only way to COMMITTED is a call of \<open>commit_finalized\<close> from ARCHIVING_BACKUP with a backup
  that binds to a plan and carries the digest of the journal's header; no sequence of the other calls
  reaches it, whatever the kernel does.\<close>

theorem commit_requires_bound_backup:
  assumes "store_inv s" and "plan_wf (dj_plan s)" and "pj_transaction_state (dj_journal s) \<noteq> COMMITTED"
    and "pj_transaction_state (dj_journal (fold run_op ops s)) = COMMITTED"
  shows "\<exists>pre io a p post. ops = pre @ Op_commit io a p # post \<and> binds_to a p
    \<and> pj_transaction_state (dj_journal (fold run_op pre s)) = ARCHIVING_BACKUP
    \<and> gba_authorized_plan_digest a = pj_authorized_plan_digest (dj_journal (fold run_op pre s))"
  using assms
proof (induction ops arbitrary: s)
  case (Cons op ops)
  let ?s = "run_op op s"
  show ?case
  proof (cases "pj_transaction_state (dj_journal ?s) = COMMITTED")
    case True
    with run_op_state [OF Cons.prems(1,2), of op] Cons.prems(3) obtain io a p where
      "op = Op_commit io a p" "pj_transaction_state (dj_journal s) = ARCHIVING_BACKUP" "binds_to a p"
      "gba_authorized_plan_digest a = pj_authorized_plan_digest (dj_journal s)" by auto
    then show ?thesis by (intro exI [of _ "[]"] exI [of _ io] exI [of _ a] exI [of _ p] exI [of _ ops]) simp
  next
    case False
    from Cons.IH [OF run_op_inv [OF Cons.prems(1,2)] _ False] Cons.prems(2,4) obtain pre io a p post where
      "ops = pre @ Op_commit io a p # post" "binds_to a p"
      "pj_transaction_state (dj_journal (fold run_op pre ?s)) = ARCHIVING_BACKUP"
      "gba_authorized_plan_digest a = pj_authorized_plan_digest (dj_journal (fold run_op pre ?s))" by auto
    then show ?thesis
      by (intro exI [of _ "op # pre"] exI [of _ io] exI [of _ a] exI [of _ p] exI [of _ post]) simp
  qed
qed simp

subsection \<open>Publication, opening and reload\<close>

text \<open>The outcomes of the calls of one creation. A collision shows what another process published.\<close>

datatype publish_outcome = Published | Publish_flush_false | Publish_collision string | Publish_raised

record create_io =
  ci_parent_is_dir :: bool
  ci_stage :: bool
  ci_append_header :: bool
  ci_append_state :: bool
  ci_publish :: publish_outcome
  ci_discard :: bool
  ci_read_all :: bool
  ci_remove :: bool
  ci_open_append :: bool

definition initial_state_record :: JournalTransactionRecord where
  "initial_state_record = \<lparr>tx_sequence = 2, tx_state = INITIAL_TRANSACTION_STATE\<rparr>"

text \<open>After publication: the re-read, the validation and the live handle. \<open>cleanup\<close> is what the
  exception handler leaves at the journal's path.\<close>

definition finish_creation ::
  "create_io \<Rightarrow> AuthorizedPlan \<Rightarrow> JournalRecord list \<Rightarrow> string \<Rightarrow> (store_error + DurableProtectionJournal) \<times> string option" where
  "finish_creation ci plan records content =
     (let cleanup = (if ci_remove ci then None else Some content) in
      if \<not> ci_discard ci \<or> \<not> ci_read_all ci then (Inl Kernel_error, cleanup)
      else (case parse_journal_bytes content of
          Inl e \<Rightarrow> (Inl (Journal_error e), cleanup)
        | Inr parsed \<Rightarrow>
            (case loaded_journal parsed of
               None \<Rightarrow> (Inl Create_error, cleanup)
             | Some j \<Rightarrow>
                 if disposition parsed \<noteq> VALID then (Inl Create_error, cleanup)
                 else if pj_authorized_plan_digest j \<noteq> ap_plan_digest plan then (Inl Create_error, cleanup)
                 else if \<not> ci_open_append ci then (Inl Kernel_error, Some content)
                 else (Inr \<lparr>dj_journal = j, dj_plan = plan, dj_handle = True, dj_records = records,
                        dj_durability_failed = False, dj_file = content\<rparr>, Some content))))"

definition create_protection_journal ::
  "create_io \<Rightarrow> AuthorizedPlan \<Rightarrow> string \<Rightarrow> string option
    \<Rightarrow> (store_error + DurableProtectionJournal) \<times> string option" where
  "create_protection_journal ci plan created_at visible =
     (if \<not> ci_parent_is_dir ci then (Inl Create_error, visible)
      else if visible \<noteq> None then (Inl Already_exists_error, visible)
      else (case build_journal_header_record (ap_operation_id plan) (ap_plan_digest plan) (ap_canonical_root plan)
              (ap_volume_serial_number plan) (ap_root_file_id plan) created_at of
          Inl e \<Rightarrow> (Inl (Journal_error e), visible)
        | Inr header \<Rightarrow>
            if \<not> ci_stage ci then (Inl Create_error, visible)
            else (case serialize_journal_record (Header_record header) of
                Inl e \<Rightarrow> (Inl (Journal_error e), visible)
              | Inr line1 \<Rightarrow>
                  if \<not> ci_append_header ci then (Inl Kernel_error, visible)
                  else (case serialize_journal_record (Transaction_record initial_state_record) of
                      Inl e \<Rightarrow> (Inl (Journal_error e), visible)
                    | Inr line2 \<Rightarrow>
                        if \<not> ci_append_state ci then (Inl Kernel_error, visible)
                        else (case ci_publish ci of
                            Publish_flush_false \<Rightarrow> (Inl Flush_error, visible)
                          | Publish_collision other \<Rightarrow> (Inl Already_exists_error, Some other)
                          | Publish_raised \<Rightarrow> (Inl Create_error, visible)
                          | Published \<Rightarrow> finish_creation ci plan
                              [Header_record header, Transaction_record initial_state_record] (line1 @ line2))))))"

definition require_journal_matches_plan :: "ProtectionJournal \<Rightarrow> AuthorizedPlan \<Rightarrow> store_error + unit" where
  "require_journal_matches_plan j plan =
     (if pj_operation_id j \<noteq> ap_operation_id plan then Inl Plan_binding_error
      else if pj_authorized_plan_digest j \<noteq> ap_plan_digest plan then Inl Plan_binding_error
      else if phys_volume_serial_number (pj_physical_root j) \<noteq> ap_volume_serial_number plan
          \<or> phys_root_file_id (pj_physical_root j) \<noteq> ap_root_file_id plan then Inl Plan_binding_error
      else if phys_canonical_root (pj_physical_root j) \<noteq> ap_canonical_root plan then Inl Plan_binding_error
      else Inr ())"

definition records_from_bytes :: "string \<Rightarrow> pj_error + JournalRecord list" where
  "records_from_bytes raw = res_map parse_journal_line (butlast (split_on LF raw))"

text \<open>The two reads of \<open>open_protection_journal\<close> may see different bytes, or raise (\<open>None\<close>).\<close>

definition open_protection_journal ::
  "bool \<Rightarrow> string option \<Rightarrow> bool \<Rightarrow> string option \<Rightarrow> AuthorizedPlan \<Rightarrow> store_error + DurableProtectionJournal" where
  "open_protection_journal exists read1 open_ok read2 plan =
     (if \<not> exists then Inl Not_found_error
      else case read1 of
        None \<Rightarrow> Inl Kernel_error
      | Some raw \<Rightarrow>
          res_bind (lift_pj (deserialize_journal_bytes raw)) (\<lambda>j.
          res_bind (require_journal_matches_plan j plan) (\<lambda>_.
          res_bind (lift_pj (records_from_bytes raw)) (\<lambda>records.
            if \<not> open_ok then Inl Kernel_error
            else (case read2 of
                None \<Rightarrow> Inl Kernel_error
              | Some raw2 \<Rightarrow>
                  if raw2 \<noteq> raw then Inl Plan_binding_error
                  else Inr \<lparr>dj_journal = j, dj_plan = plan, dj_handle = True, dj_records = records,
                    dj_durability_failed = False, dj_file = raw\<rparr>)))))"

datatype ProtectionJournalClassification = Class_absent | Class_valid | Class_indeterminate

definition classify_protection_journal ::
  "bool \<Rightarrow> string option \<Rightarrow> pj_error + ProtectionJournalClassification \<times> ProtectionJournal option" where
  "classify_protection_journal exists read =
     (if \<not> exists then Inr (Class_absent, None)
      else case read of
        None \<Rightarrow> Inr (Class_indeterminate, None)
      | Some raw \<Rightarrow>
          res_bind (parse_journal_bytes raw) (\<lambda>result.
            case loaded_journal result of
              Some j \<Rightarrow> if disposition result = VALID then Inr (Class_valid, Some j) else Inr (Class_indeterminate, None)
            | None \<Rightarrow> Inr (Class_indeterminate, None)))"

definition load_protection_journal :: "bool \<Rightarrow> string option \<Rightarrow> store_error + ProtectionJournal" where
  "load_protection_journal exists read =
     res_bind (lift_pj (classify_protection_journal exists read)) (\<lambda>(c, j).
       case c of
         Class_absent \<Rightarrow> Inl Not_found_error
       | Class_indeterminate \<Rightarrow> Inl (Journal_error Indeterminate_error)
       | Class_valid \<Rightarrow> (case j of None \<Rightarrow> Inl (Journal_error Indeterminate_error) | Some j \<Rightarrow> Inr j))"

definition reload_protection_journal_after_restart ::
  "bool \<Rightarrow> string option \<Rightarrow> AuthorizedPlan
    \<Rightarrow> store_error + AuthorizedPlan \<times> ProtectionJournal option \<times> ProtectionJournalClassification" where
  "reload_protection_journal_after_restart exists read plan =
     res_bind (lift_pj (classify_protection_journal exists read)) (\<lambda>(c, j).
       case c of
         Class_absent \<Rightarrow> Inr (plan, None, c)
       | Class_indeterminate \<Rightarrow> Inl (Journal_error Indeterminate_error)
       | Class_valid \<Rightarrow> (case j of None \<Rightarrow> Inl (Journal_error Indeterminate_error)
           | Some j \<Rightarrow> res_bind (require_journal_matches_plan j plan) (\<lambda>_. Inr (plan, Some j, c))))"

lemma initial_state_valid: "record_valid (Transaction_record initial_state_record)"
  by (simp add: initial_state_record_def transaction_post_init_def validate_sequence_def)

lemma creation_records:
  assumes "build_journal_header_record op digest root vol fid at = Inr header"
    and "serialize_journal_record (Header_record header) = Inr line1"
    and "serialize_journal_record (Transaction_record initial_state_record) = Inr line2"
  shows "list_all record_valid [Header_record header, Transaction_record initial_state_record]
    \<and> journal_bytes [Header_record header, Transaction_record initial_state_record] = Inr (line1 @ line2)
    \<and> (\<exists>j. replay_journal_records [Header_record header, Transaction_record initial_state_record] = Inr j
         \<and> pj_transaction_state j = APPLYING \<and> pj_node_records j = [])
    \<and> node_records_of [Header_record header, Transaction_record initial_state_record] = []"
proof -
  note init = assms(1) [unfolded build_journal_header_record_def]
  have "record_valid (Header_record header)" by (rule header_post_init_valid [OF init])
  moreover have "hdr_sequence header = 1" using init by (auto simp: record_validators)
  ultimately show ?thesis
    using assms(2,3) initial_state_valid
    by (auto simp: journal_bytes_Cons replay_journal_records_def replay_step_def replay_transaction_def replay_init_def
        initial_state_record_def replay_result_def node_records_of_def INITIAL_TRANSACTION_STATE_def Let_def simp del: record_valid.simps)
qed

text \<open>A journal becomes visible at its path only complete and flushed: whatever fails during the
  creation, what is left there is nothing, what another process published, or a journal that a reader
  accepts, in APPLYING and with no node touched. A live handle has the invariant of the store.\<close>

theorem created_journal_durable:
  assumes "create_protection_journal ci plan created_at None = (res, visible)"
  shows "(\<forall>content. visible = Some content \<longrightarrow> ci_publish ci = Publish_collision content
        \<or> (ci_publish ci = Published \<and> (\<exists>j. parse_journal_bytes content = Inr \<lparr>disposition = VALID, loaded_journal = Some j\<rparr>
            \<and> pj_transaction_state j = APPLYING \<and> pj_node_records j = [])))
    \<and> (\<forall>s. res = Inr s \<longrightarrow> visible = Some (dj_file s) \<and> ci_publish ci = Published \<and> dj_plan s = plan \<and> store_inv s
        \<and> \<not> dj_durability_failed s \<and> pj_transaction_state (dj_journal s) = APPLYING)"
proof (cases "ci_publish ci = Published \<and> visible \<noteq> None")
  case False
  then show ?thesis
    using assms
    by (auto simp: create_protection_journal_def finish_creation_def Let_def
        split: if_splits sum.splits publish_outcome.splits option.splits)
next
  case True
  let ?rs = "\<lambda>header. [Header_record header, Transaction_record initial_state_record]"
  from True assms obtain header line1 line2 where
    h: "build_journal_header_record (ap_operation_id plan) (ap_plan_digest plan) (ap_canonical_root plan)
          (ap_volume_serial_number plan) (ap_root_file_id plan) created_at = Inr header"
       "serialize_journal_record (Header_record header) = Inr line1"
       "serialize_journal_record (Transaction_record initial_state_record) = Inr line2"
       "finish_creation ci plan (?rs header) (line1 @ line2) = (res, visible)"
    by (auto simp: create_protection_journal_def split: if_splits sum.splits publish_outcome.splits)
  from creation_records [OF h(1-3)] obtain j where
    c: "list_all record_valid (?rs header)" "journal_bytes (?rs header) = Inr (line1 @ line2)"
       "replay_journal_records (?rs header) = Inr j" "pj_transaction_state j = APPLYING" "pj_node_records j = []"
       "node_records_of (?rs header) = []" by blast
  have parse: "parse_journal_bytes (line1 @ line2) = Inr \<lparr>disposition = VALID, loaded_journal = Some j\<rparr>"
    by (rule journal_roundtrip [OF c(1-3)])
  have vis: "visible = Some (line1 @ line2)"
    using True h(4) by (auto simp: finish_creation_def Let_def split: if_splits sum.splits option.splits)
  have "visible = Some (dj_file s) \<and> dj_plan s = plan \<and> store_inv s \<and> \<not> dj_durability_failed s
      \<and> pj_transaction_state (dj_journal s) = APPLYING" if "res = Inr s" for s
  proof -
    have s: "s = \<lparr>dj_journal = j, dj_plan = plan, dj_handle = True, dj_records = ?rs header,
        dj_durability_failed = False, dj_file = line1 @ line2\<rparr>"
      using h(4) that parse by (auto simp: finish_creation_def Let_def split: if_splits)
    show ?thesis using vis c by (simp add: s store_inv_def)
  qed
  with True vis parse c(4,5) show ?thesis by auto
qed

lemma parse_bytes_records:
  assumes "list_all record_valid rs" and "journal_bytes rs = Inr raw"
  shows "records_from_bytes raw = Inr rs"
proof -
  obtain bs where bs: "raw = unlines bs" "length bs = length rs" "\<And>b. b \<in> set bs \<Longrightarrow> LF \<notin> set b"
      "\<And>k. res_map parse_journal_line (take k bs) = Inr (take k rs)"
    using journal_bytes_bodies [OF assms] by blast
  have "butlast (split_on LF raw) = bs" unfolding bs(1) by (subst split_lines) (use bs(3) in simp_all)
  with bs(2) bs(4) [of "length rs"] show ?thesis by (simp add: records_from_bytes_def)
qed

lemma reopen_store:
  assumes "store_inv s" and "\<not> dj_durability_failed s"
    and "require_journal_matches_plan (dj_journal s) (dj_plan s) = Inr ()"
  shows "open_protection_journal True (Some (dj_file s)) True (Some (dj_file s)) (dj_plan s) = Inr (s\<lparr>dj_handle := True\<rparr>)
    \<and> store_inv (s\<lparr>dj_handle := True\<rparr>)"
proof -
  note live = store_inv_live [OF assms(1,2)]
  have "deserialize_journal_bytes (dj_file s) = Inr (dj_journal s)"
    using journal_roundtrip [OF live] by (simp add: deserialize_journal_bytes_def)
  moreover have "store_inv (s\<lparr>dj_handle := True\<rparr>) = store_inv s" by (simp add: store_inv_def)
  ultimately show ?thesis
    using assms(1,2,3) parse_bytes_records [OF live(1,2)] by (simp add: open_protection_journal_def lift_pj_def)
qed

text \<open>C30: a restart loses nothing: the store that another process opens on the file of a store that never
  failed has the same records and derives the same state.\<close>

theorem reopen_is_faithful:
  assumes "store_inv s" and "\<not> dj_durability_failed s"
    and "require_journal_matches_plan (dj_journal s) (dj_plan s) = Inr ()"
  shows "open_protection_journal True (Some (dj_file s)) True (Some (dj_file s)) (dj_plan s) = Inr (s\<lparr>dj_handle := True\<rparr>)
    \<and> store_inv (s\<lparr>dj_handle := True\<rparr>)"
  using assms by (rule reopen_store)

text \<open>A store opened on bytes that a reader accepts has the invariant, provided the nodes of the log
  have the identities of the plan; the opening itself checks only the header.\<close>

lemma open_store_inv:
  assumes "open_protection_journal ex (Some raw) ok r2 plan = Inr s"
    and "journal_bytes (dj_records s) = Inr raw"
    and "\<And>n. n \<in> set (pj_node_records (dj_journal s)) \<Longrightarrow> node_matches plan n"
  shows "store_inv s"
proof -
  from assms(1) have s: "deserialize_journal_bytes raw = Inr (dj_journal s)" "records_from_bytes raw = Inr (dj_records s)"
      "dj_plan s = plan" "\<not> dj_durability_failed s" "dj_file s = raw"
    by (auto simp: open_protection_journal_def res_bind_Inr split: if_splits option.splits)
  then have "parse_journal_bytes raw = Inr \<lparr>disposition = VALID, loaded_journal = Some (dj_journal s)\<rparr>"
    by (auto simp: deserialize_journal_bytes_def res_bind_Inr split: option.splits if_splits)
  from parse_valid_records [OF this] s(2) have rs: "list_all record_valid (dj_records s)"
      "replay_journal_records (dj_records s) = Inr (dj_journal s)"
    by (auto simp: records_from_bytes_def)
  with assms(2,3) s replay_nodes(1) [OF rs(2)] show ?thesis by (simp add: store_inv_def)
qed

text \<open>Classification never invents a state: it raises only for the number that \<open>int\<close> refuses, it is
  valid exactly when the bytes parse, and otherwise it says absent or indeterminate.\<close>

lemma classification_exact:
  "classify_protection_journal True (Some raw) = (case parse_journal_bytes raw of
      Inl e \<Rightarrow> Inl e
    | Inr res \<Rightarrow> if disposition res = VALID then Inr (Class_valid, loaded_journal res) else Inr (Class_indeterminate, None))"
  by (auto simp: classify_protection_journal_def parse_journal_bytes_def
      split: if_splits sum.splits pj_error.splits)

end
