(* ===== verification/Protection_Runs.thy ===== *)
theory Protection_Runs
  imports Protection_Store
begin

text \<open>
  What sequences of operations of the store of the protection journal do: the nodes the log names, the
  state of the transaction while nodes are recorded, the transitions that reach their target, and what a
  later reader of the file finds. Shared by the orchestrators that drive the store.
\<close>

subsection \<open>Steps that record nodes\<close>

text \<open>The steps of the journal while nodes are applied are records of nodes, with any outcome.\<close>

fun node_op :: "store_op \<Rightarrow> bool" where
  "node_op (Op_intent io b) = True"
| "node_op (Op_completed io b) = True"
| "node_op _ = False"

definition moves :: "DurableProtectionJournal \<Rightarrow> DurableProtectionJournal \<Rightarrow> bool" where
  "moves j j' \<longleftrightarrow> (\<exists>ops. list_all node_op ops \<and> j' = fold run_op ops j)"

lemma moves_refl [simp]: "moves j j"
  unfolding moves_def by (intro exI [of _ "[]"]) simp

lemma moves_trans: "moves a b \<Longrightarrow> moves b c \<Longrightarrow> moves a c"
proof -
  assume "moves a b" "moves b c"
  then obtain xs ys where "list_all node_op (xs @ ys)" "b = fold run_op xs a" "c = fold run_op ys b" by (auto simp: moves_def)
  then have "c = fold run_op (xs @ ys) a" by simp
  with \<open>list_all node_op (xs @ ys)\<close> show "moves a c" unfolding moves_def by blast
qed

lemma moves_op: "node_op op \<Longrightarrow> moves j (run_op op j)"
  unfolding moves_def by (intro exI [of _ "[op]"]) simp

lemma fold_inv:
  assumes "store_inv j" and "plan_wf (dj_plan j)"
  shows "store_inv (fold run_op ops j) \<and> dj_plan (fold run_op ops j) = dj_plan j"
  using assms
proof (induction ops arbitrary: j)
  case (Cons op ops)
  then show ?case using Cons.IH [of "run_op op j"] run_op_inv [of j op] by simp
qed simp

lemma moves_inv:
  assumes "moves j j'" and "store_inv j" and "plan_wf (dj_plan j)"
  shows "store_inv j'" and "dj_plan j' = dj_plan j"
  using assms(1) fold_inv [OF assms(2,3)] by (auto simp: moves_def)

text \<open>A store is healthy at a state, or its durability was lost and it says INDETERMINATE.\<close>

definition at_state :: "DurableProtectionJournal \<Rightarrow> ProtectionTransactionState \<Rightarrow> bool" where
  "at_state j t \<longleftrightarrow> dj_handle j
     \<and> pj_transaction_state (dj_journal j) = (if dj_durability_failed j then INDETERMINATE else t)"

text \<open>A number of records that \<open>json.dumps\<close> can print.\<close>

definition printable_log :: "DurableProtectionJournal \<Rightarrow> bool" where
  "printable_log j \<longleftrightarrow> Suc (length (dj_records j)) < 10 ^ MAX_INT_DIGITS"

lemma show_nat_bound: "n < 10 ^ d \<Longrightarrow> 0 < d \<Longrightarrow> length (show_nat n) \<le> d"
proof (induction d arbitrary: n)
  case (Suc d)
  show ?case
  proof (cases "n < 10")
    case False
    then have "d \<noteq> 0" using Suc.prems(1) by (cases d) simp_all
    moreover have "n div 10 < 10 ^ d" using Suc.prems(1) by (simp add: less_mult_imp_div_less mult.commute)
    ultimately have "length (show_nat (n div 10)) \<le> d" using Suc.IH by simp
    with False show ?thesis by (subst show_nat.simps) simp
  qed (subst show_nat.simps, simp)
qed simp

lemma serialize_transaction:
  assumes "0 \<le> tx_sequence r" and "nat (tx_sequence r) < 10 ^ MAX_INT_DIGITS"
  shows "\<exists>l. serialize_journal_record (Transaction_record r) = Inr l"
proof -
  have "0 < MAX_INT_DIGITS" by (simp add: MAX_INT_DIGITS_def)
  with assms show_nat_bound [of "nat (tx_sequence r)" MAX_INT_DIGITS]
  have "length (show_nat (nat \<bar>tx_sequence r\<bar>)) \<le> MAX_INT_DIGITS" by simp
  then show ?thesis
    by (cases "tx_state r") (simp_all add: serialize_journal_record_def Let_def byte_of_def del: json_text.simps canon.simps)
qed

text \<open>Whatever an operation does, it leaves the store alone, closes it, or appends one record.\<close>

lemma run_op_append:
  "run_op op s \<in> {s, close_journal s} \<union> range (\<lambda>(io, r). snd (append_record io s r))" (is "_ \<in> ?R")
proof -
  have a: "snd (append_transaction io s t) \<in> ?R" for io t
    by (auto simp: append_transaction_def split: sum.splits)
  show ?thesis
  proof (cases op)
    case (Op_transition io t)
    moreover have "snd (transition_to io s t) = s \<or> snd (transition_to io s t) = snd (append_transaction io s t)"
      by (simp add: transition_to_def split: sum.splits)
    ultimately show ?thesis using a [of io t] by (metis UnI1 insertI1 run_op.simps(3,4))
  next
    case (Op_phase io t)
    moreover have "snd (enter_finalization_phase io s t) = s \<or> snd (enter_finalization_phase io s t) = snd (append_transaction io s t)"
      by (simp add: enter_finalization_phase_def split: sum.splits)
    ultimately show ?thesis using a [of io t] by (metis UnI1 insertI1 run_op.simps(3,4))
  next
    case (Op_commit io b p)
    with commit_finalized_cases [of io s b p] a [of io COMMITTED] show ?thesis by (metis UnI1 insertI1 run_op.simps(5))
  qed (auto simp: intent_snd record_node_mutation_completed_def split: sum.splits)
qed

lemma run_op_cases_append:
  "P s \<Longrightarrow> (\<And>io r. P (snd (append_record io s r))) \<Longrightarrow> P (close_journal s) \<Longrightarrow> P (run_op op s)"
  using run_op_append [of op s] by auto

lemma run_op_records: "length (dj_records j) \<le> length (dj_records (run_op op j))"
proof (rule run_op_cases_append)
  fix io r
  obtain res s' where eq: "append_record io j r = (res, s')" by fastforce
  then have "length (dj_records j) \<le> length (dj_records s')"
    by (cases rule: append_record_cases) (simp_all add: mark_durability_failure_def)
  with eq show "length (dj_records j) \<le> length (dj_records (snd (append_record io j r)))" by simp
qed (simp_all add: close_journal_def)

lemma run_op_records_le: "length (dj_records (run_op op j)) \<le> Suc (length (dj_records j))"
proof (rule run_op_cases_append)
  fix io r
  obtain res s' where eq: "append_record io j r = (res, s')" by fastforce
  then have "length (dj_records s') \<le> Suc (length (dj_records j))"
    by (cases rule: append_record_cases) (simp_all add: mark_durability_failure_def)
  with eq show "length (dj_records (snd (append_record io j r))) \<le> Suc (length (dj_records j))" by simp
qed (simp_all add: close_journal_def)

lemma fold_records: "length (dj_records j) \<le> length (dj_records (fold run_op ops j))"
  by (induction ops arbitrary: j) (auto intro: le_trans [OF run_op_records])

lemma printable_log_run: "printable_log (run_op op j) \<Longrightarrow> printable_log j"
  using run_op_records [of j op] by (simp add: printable_log_def)

lemma printable_log_moves:
  assumes "moves j j'" and "printable_log j'"
  shows "printable_log j"
proof -
  from assms(1) fold_records have "length (dj_records j) \<le> length (dj_records j')" unfolding moves_def by blast
  with assms(2) show ?thesis by (simp add: printable_log_def)
qed

lemma append_record_at_state:
  assumes "at_state s t" and "replay_journal_records (dj_records s @ [r]) = Inr j" and "serialize_journal_record r = Inr payload"
  shows "at_state (snd (append_record io s r)) (pj_transaction_state j)"
proof (cases "dj_durability_failed s")
  case True
  with assms show ?thesis by (simp add: append_record_def require_live_handle_def at_state_def)
next
  case False
  with assms show ?thesis
    by (simp add: append_record_def require_live_handle_def at_state_def Let_def mark_durability_failure_def)
qed

lemma node_append_at_state:
  assumes "at_state s t" and "node_wal_record s b wal = Inr r" and "store_inv s" and "plan_wf (dj_plan s)"
  shows "at_state (snd (append_record io s (Node_record r))) t"
proof (cases "serialize_journal_record (Node_record r)")
  case (Inl e)
  with assms(1) show ?thesis by (simp add: append_record_def)
next
  case (Inr payload)
  note f = node_wal_record_Inr [OF assms(2-4)]
  then have nf: "\<not> dj_durability_failed s" by simp
  from append_record_at_state [OF assms(1) _ Inr] f
  have "at_state (snd (append_record io s (Node_record r))) (pj_transaction_state (dj_journal s))" by fastforce
  with assms(1) nf show ?thesis by (simp add: at_state_def)
qed

lemma moves_at_state:
  assumes "moves j j'" and "store_inv j" and "plan_wf (dj_plan j)" and "at_state j t"
  shows "at_state j' t"
proof -
  from assms(1) obtain ops where ops: "list_all node_op ops" "j' = fold run_op ops j" by (auto simp: moves_def)
  from ops(1) assms(2-4) have "at_state (fold run_op ops j) t"
  proof (induction ops arbitrary: j)
    case (Cons op ops)
    have "at_state (run_op op j) t"
    proof (cases op)
      case (Op_intent io b)
      with Cons.prems node_append_at_state [of j t b MUTATING _ io] show ?thesis by (simp add: intent_snd split: sum.splits)
    next
      case (Op_completed io b)
      with Cons.prems node_append_at_state [of j t b MUTATED _ io] show ?thesis
        by (simp add: record_node_mutation_completed_def split: sum.splits)
    qed (use Cons.prems in simp_all)
    with Cons.IH [of "run_op op j"] Cons.prems run_op_inv [of j op] show ?case by simp
  qed simp
  with ops(2) show ?thesis by simp
qed

text \<open>A transition of the table reaches its target, or the store is poisoned.\<close>

lemma transition_at_state:
  assumes "at_state j s" and "store_inv j" and "tx_allowed s t" and "t \<in> S4A_PERMITTED_TRANSITION_TARGETS"
    and "printable_log j"
  shows "at_state (run_op (Op_transition io t) j) t"
proof (cases "dj_durability_failed j")
  case True
  with assms(1) show ?thesis by (simp add: transition_to_def require_live_handle_def at_state_def)
next
  case False
  with assms(1) have st: "pj_transaction_state (dj_journal j) = s" "dj_handle j" by (simp_all add: at_state_def)
  have t: "t \<noteq> COMMITTED" "t \<noteq> APPLYING" using assms(4) by (auto simp: S4A_PERMITTED_TRANSITION_TARGETS_def)
  have "run_op (Op_transition io t) j = snd (append_transaction io j t)"
    using st False assms(3,4) t by (simp add: transition_to_def require_live_handle_def assert_transaction_transition_def tx_allowed_def)
  moreover obtain payload where "serialize_journal_record
      (Transaction_record \<lparr>tx_sequence = pj_sequence (dj_journal j) + 1, tx_state = t\<rparr>) = Inr payload"
  proof -
    let ?r = "\<lparr>tx_sequence = pj_sequence (dj_journal j) + 1, tx_state = t\<rparr>"
    have "0 \<le> tx_sequence ?r \<and> nat (tx_sequence ?r) < 10 ^ MAX_INT_DIGITS"
      using assms(5) replay_nodes(2) [OF store_inv_live(3) [OF assms(2) False]] by (simp add: printable_log_def nat_add_distrib)
    with serialize_transaction [of ?r] show "(\<And>payload. serialize_journal_record (Transaction_record ?r) = Inr payload \<Longrightarrow> thesis) \<Longrightarrow> thesis"
      by blast
  qed
  ultimately show ?thesis
    using append_record_at_state [OF assms(1) append_transaction_replay [OF assms(2) False _ t(2)]] assms(3) st
    by (simp add: append_transaction_eq [OF assms(2) False])
qed

lemma moves_intent: "moves j (snd (record_node_mutation_intent io j b))"
  using moves_op [of "Op_intent io b" j] by simp

lemma moves_completed: "moves j (snd (record_node_mutation_completed io j b))"
  using moves_op [of "Op_completed io b" j] by simp

lemma poisoned_indeterminate:
  assumes "store_inv s" and "dj_durability_failed s"
  shows "pj_transaction_state (dj_journal s) = INDETERMINATE"
proof -
  from assms obtain j where "dj_journal s = j\<lparr>pj_transaction_state := INDETERMINATE\<rparr>"
    unfolding store_inv_def by (metis (no_types))
  then show ?thesis by (metis ProtectionJournal.select_convs(4) ProtectionJournal.surjective ProtectionJournal.update_convs(4))
qed

subsection \<open>What the log names\<close>

text \<open>A node that the log names stays named, and whatever a later reader takes for a valid journal
  names it too.\<close>

definition logged :: "DurableProtectionJournal \<Rightarrow> string \<Rightarrow> bool" where
  "logged j p \<longleftrightarrow> p \<in> node_relative_path ` set (pj_node_records (dj_journal j))"

lemma store_inv_nodes: "store_inv s \<Longrightarrow> pj_node_records (dj_journal s) = node_records_of (dj_records s)"
  using replay_nodes(1) by (auto simp: store_inv_def split: if_splits)

lemma append_record_nodes:
  assumes "store_inv s"
  shows "set (pj_node_records (dj_journal s)) \<subseteq> set (pj_node_records (dj_journal (snd (append_record io s r))))"
proof -
  obtain res s' where eq: "append_record io s r = (res, s')" by fastforce
  then have "set (pj_node_records (dj_journal s)) \<subseteq> set (pj_node_records (dj_journal s'))"
  proof (cases rule: append_record_cases)
    case (written payload j)
    with replay_nodes(1) [OF written(6)] store_inv_nodes [OF assms] show ?thesis
      by (auto simp: node_records_of_def)
  qed (simp_all add: mark_durability_failure_def)
  with eq show ?thesis by simp
qed

lemma run_op_nodes:
  assumes "store_inv s"
  shows "set (pj_node_records (dj_journal s)) \<subseteq> set (pj_node_records (dj_journal (run_op op s)))"
  by (rule run_op_cases_append) (use append_record_nodes [OF assms] in \<open>simp_all add: close_journal_def\<close>)

lemma fold_logged:
  assumes "store_inv j" and "plan_wf (dj_plan j)" and "logged j p"
  shows "logged (fold run_op ops j) p"
proof -
  have "set (pj_node_records (dj_journal j)) \<subseteq> set (pj_node_records (dj_journal (fold run_op ops j)))"
    using assms(1,2)
  proof (induction ops arbitrary: j)
    case (Cons op ops)
    have "store_inv (run_op op j)" "plan_wf (dj_plan (run_op op j))" using run_op_inv Cons.prems by simp_all
    from Cons.IH [OF this] run_op_nodes [OF Cons.prems(1), of op] show ?case by (simp add: subset_trans)
  qed simp
  with assms(3) show ?thesis by (auto simp: logged_def)
qed

lemma moves_logged: "moves j j' \<Longrightarrow> store_inv j \<Longrightarrow> plan_wf (dj_plan j) \<Longrightarrow> logged j p \<Longrightarrow> logged j' p"
  using fold_logged by (auto simp: moves_def)

lemma parse_bytes_replay:
  assumes "list_all record_valid rs" and "journal_bytes rs = Inr raw"
    and "parse_journal_bytes raw = Inr \<lparr>disposition = VALID, loaded_journal = Some j\<rparr>"
  shows "replay_journal_records rs = Inr j"
proof -
  obtain bs where bs: "raw = unlines bs" "length bs = length rs" "\<And>b. b \<in> set bs \<Longrightarrow> LF \<notin> set b"
      "\<And>k. res_map parse_journal_line (take k bs) = Inr (take k rs)"
    using journal_bytes_bodies [OF assms(1,2)] by blast
  have "butlast (split_on LF raw) = bs" by (subst bs(1), subst split_lines) (use bs(3) in simp_all)
  moreover have "res_map parse_journal_line bs = Inr rs" using bs(2) bs(4) [of "length rs"] by simp
  ultimately show ?thesis using assms(3)
    by (auto simp: parse_journal_bytes_def split: if_splits sum.splits pj_error.splits)
qed

text \<open>A reader that takes the file for a valid journal sees the records of the store, and one more when an
  append that failed had left its whole line.\<close>

lemma reader_cases:
  assumes "store_inv s" and "parse_journal_bytes (dj_file s) = Inr \<lparr>disposition = VALID, loaded_journal = Some j\<rparr>"
  obtains tail where "replay_journal_records (dj_records s @ tail) = Inr j"
    and "\<And>m. m \<in> set (node_records_of tail) \<Longrightarrow> node_matches (dj_plan s) m"
proof (cases "dj_durability_failed s")
  case False
  note live = store_inv_live [OF assms(1) this]
  from parse_bytes_replay [OF live(1,2) assms(2)] show thesis by (intro that [of "[]"]) (simp_all add: node_records_of_def)
next
  case True
  with assms(1) obtain base r payload n where
    base: "journal_bytes (dj_records s) = Inr base" "list_all record_valid (dj_records s)"
    and r: "record_valid r" "serialize_journal_record r = Inr payload" "dj_file s = base @ take n payload"
      "\<forall>m \<in> set (node_records_of [r]). node_matches (dj_plan s) m"
    and rep: "\<exists>j. replay_journal_records (dj_records s) = Inr j"
    by (auto simp: store_inv_def)
  from parse_serialized_line [OF r(1,2)] obtain body where body: "payload = body @ [LF]" "LF \<notin> set body" by blast
  from rep obtain j0 where "replay_journal_records (dj_records s) = Inr j0" ..
  from journal_roundtrip [OF base(2,1) this] have last: "base = [] \<or> last base = LF"
    by (auto simp: parse_journal_bytes_def split: if_splits)
  have all: "journal_bytes (dj_records s @ [r]) = Inr (base @ payload)"
    using base(1) r(2) by (simp add: journal_bytes_append journal_bytes_Cons)
  have valid: "list_all record_valid (dj_records s @ [r])" using base(2) r(1) by simp
  from assms(2) have nt: "dj_file s \<noteq> [] \<and> last (dj_file s) = LF"
    by (auto simp: parse_journal_bytes_def split: if_splits)
  from r(3) body(1) have "dj_file s = base @ take n (body @ [LF])" by simp
  from prefix_line_cases [OF this body(2) last] nt consider "dj_file s = base" | "dj_file s = base @ payload"
    using body(1) by auto
  then show thesis
  proof cases
    case 1
    with parse_bytes_replay [OF base(2,1)] assms(2) show thesis by (intro that [of "[]"]) (simp_all add: node_records_of_def)
  next
    case 2
    with parse_bytes_replay [OF valid all] assms(2) r(4) show thesis by (intro that [of "[r]"]) simp_all
  qed
qed

lemma node_records_of_append: "node_records_of (xs @ ys) = node_records_of xs @ node_records_of ys"
  by (simp add: node_records_of_def)

lemma reader_matches:
  assumes "store_inv s" and "parse_journal_bytes (dj_file s) = Inr \<lparr>disposition = VALID, loaded_journal = Some j\<rparr>"
    and "m \<in> set (pj_node_records j)"
  shows "node_matches (dj_plan s) m"
  using assms(1,2)
proof (cases rule: reader_cases)
  case (1 tail)
  with assms(1,3) replay_nodes(1) [OF 1(1)] show ?thesis by (auto simp: node_records_of_append store_inv_def)
qed

lemma reader_sees_logged:
  assumes "store_inv s" and "logged s p"
    and "parse_journal_bytes (dj_file s) = Inr \<lparr>disposition = VALID, loaded_journal = Some j\<rparr>"
  shows "node_state j p \<noteq> None"
  using assms(1,3)
proof (cases rule: reader_cases)
  case (1 tail)
  have "set (pj_node_records (dj_journal s)) \<subseteq> set (pj_node_records j)"
    using replay_nodes(1) [OF 1(1)] store_inv_nodes [OF assms(1)] by (auto simp: node_records_of_append)
  with assms(2) have "p \<in> node_relative_path ` set (pj_node_records j)" by (auto simp: logged_def)
  then have "records_for p (pj_node_records j) \<noteq> []" by (auto simp: records_for_def filter_empty_conv)
  then show ?thesis by (simp add: node_state_def node_record_last Let_def)
qed

lemma logged_state: "node_state (dj_journal j) p \<noteq> None \<Longrightarrow> logged j p"
  using node_record_in by (fastforce simp: node_state_def logged_def)

subsection \<open>The header never changes\<close>

lemma replay_header:
  assumes "replay_journal_records rs = Inr j" and "replay_journal_records (rs @ tail) = Inr j'"
  shows "pj_operation_id j' = pj_operation_id j \<and> pj_authorized_plan_digest j' = pj_authorized_plan_digest j
    \<and> pj_physical_root j' = pj_physical_root j"
  by (rule replay_invD [OF assms(1)], rule replay_invD [OF assms(2)]) (auto simp: replay_result_def)

lemma append_record_binding:
  assumes "store_inv s"
  shows "require_journal_matches_plan (dj_journal (snd (append_record io s r))) plan = require_journal_matches_plan (dj_journal s) plan"
proof -
  obtain res s' where eq: "append_record io s r = (res, s')" by fastforce
  then have "require_journal_matches_plan (dj_journal s') plan = require_journal_matches_plan (dj_journal s) plan"
  proof (cases rule: append_record_cases)
    case (written payload j)
    with replay_header [OF store_inv_live(3) [OF assms written(1)] written(6)] show ?thesis
      by (simp add: require_journal_matches_plan_def)
  qed (simp_all add: mark_durability_failure_def require_journal_matches_plan_def)
  with eq show ?thesis by simp
qed

lemma run_op_binding:
  "store_inv s \<Longrightarrow> require_journal_matches_plan (dj_journal (run_op op s)) plan = require_journal_matches_plan (dj_journal s) plan"
  by (rule run_op_cases_append) (simp_all add: append_record_binding close_journal_def)

lemma fold_binding:
  assumes "store_inv s" and "plan_wf (dj_plan s)"
  shows "require_journal_matches_plan (dj_journal (fold run_op ops s)) plan = require_journal_matches_plan (dj_journal s) plan"
  using assms
proof (induction ops arbitrary: s)
  case (Cons op ops)
  from run_op_inv [OF Cons.prems, of op] Cons.IH [of "run_op op s"] run_op_binding [OF Cons.prems(1)] Cons.prems(2) show ?case
    by simp
qed simp

subsection \<open>Records of nodes that are written\<close>

text \<open>A successful append of a record of a node: the state of that node moves, nothing else does.\<close>

lemma node_append_ok:
  assumes "node_wal_record s b t = Inr r" and "store_inv s" and "plan_wf (dj_plan s)"
    and "append_record io s (Node_record r) = (Inr u, s')"
  shows "\<not> dj_durability_failed s' \<and> pj_transaction_state (dj_journal s') = pj_transaction_state (dj_journal s)
    \<and> (\<forall>q. node_state (dj_journal s') q = (if q = nb_relative_path b then Some t else node_state (dj_journal s) q))"
proof -
  from node_wal_record_Inr [OF assms(1-3)] have r: "node_relative_path r = nb_relative_path b" "node_wal_state r = t"
      "replay_journal_records (dj_records s @ [Node_record r]) = Inr (dj_journal s\<lparr>pj_node_records :=
        pj_node_records (dj_journal s) @ [r], pj_sequence := pj_sequence (dj_journal s) + 1\<rparr>)"
    by (auto simp: binding_from_node_def)
  from assms(4) have s': "\<not> dj_durability_failed s'" "dj_journal s' = dj_journal s\<lparr>pj_node_records :=
        pj_node_records (dj_journal s) @ [r], pj_sequence := pj_sequence (dj_journal s) + 1\<rparr>"
    using r(3) by (cases rule: append_record_cases; simp)+
  then show ?thesis using r(1,2) by (simp add: node_state_def node_record_def)
qed

lemma intent_ok:
  assumes "record_node_mutation_intent io s b = (Inr permit, s')" and "store_inv s" and "plan_wf (dj_plan s)"
  shows "pj_transaction_state (dj_journal s') = pj_transaction_state (dj_journal s)
    \<and> (\<forall>q. node_state (dj_journal s') q = (if q = nb_relative_path b then Some MUTATING else node_state (dj_journal s) q))"
proof -
  from assms(1) obtain r u where "node_wal_record s b MUTATING = Inr r" "append_record io s (Node_record r) = (Inr u, s')"
    by (auto simp: record_node_mutation_intent_def split: sum.splits prod.splits)
  from node_append_ok [OF this(1) assms(2,3) this(2)] show ?thesis by blast
qed

lemma completed_ok:
  assumes "record_node_mutation_completed io s b = (Inr u, s')" and "store_inv s" and "plan_wf (dj_plan s)"
  shows "\<not> dj_durability_failed s' \<and> pj_transaction_state (dj_journal s') = pj_transaction_state (dj_journal s)
    \<and> (\<forall>q. node_state (dj_journal s') q = (if q = nb_relative_path b then Some MUTATED else node_state (dj_journal s) q))"
proof -
  from assms(1) obtain r where "node_wal_record s b MUTATED = Inr r" "append_record io s (Node_record r) = (Inr u, s')"
    by (auto simp: record_node_mutation_completed_def split: sum.splits prod.splits)
  from node_append_ok [OF this(1) assms(2,3) this(2)] show ?thesis .
qed

subsection \<open>Writes that succeed\<close>

definition healthy_io :: journal_io where
  "healthy_io = \<lparr>io_append = Append_ok, io_flush = Flush_true\<rparr>"

lemma serialize_node:
  assumes "record_valid (Node_record r)" and "utf8_ok (node_relative_path r)" and "nat (node_sequence r) < 10 ^ MAX_INT_DIGITS"
  shows "\<exists>l. serialize_journal_record (Node_record r) = Inr l"
proof -
  from assms(1) have "node_post_init r = Inr r" by simp
  note f = node_fields [OF this]
  have pos: "0 < MAX_INT_DIGITS" by (simp add: MAX_INT_DIGITS_def)
  have small: "length (show_nat (nat \<bar>x\<bar>)) \<le> MAX_INT_DIGITS" if "0 \<le> x" "x \<le> MAX_UINT128" for x
  proof -
    have "nat \<bar>x\<bar> < 10 ^ 100" using that by (simp add: MAX_UINT128_def)
    then have "length (show_nat (nat \<bar>x\<bar>)) \<le> 100" by (rule show_nat_bound) simp
    then show ?thesis by (simp add: MAX_INT_DIGITS_def)
  qed
  have "length (show_nat (nat \<bar>node_sequence r\<bar>)) \<le> MAX_INT_DIGITS"
    using show_nat_bound [OF assms(3) pos] f by (simp add: validate_sequence_Inr)
  moreover have "length (show_nat (nat \<bar>node_file_id r\<bar>)) \<le> MAX_INT_DIGITS"
      "length (show_nat (nat \<bar>node_volume_serial_number r\<bar>)) \<le> MAX_INT_DIGITS"
    using f small [of "node_file_id r"] small [of "node_volume_serial_number r"]
    by (simp_all add: validate_uint_Inr MAX_UINT64_def MAX_UINT128_def)
  moreover have "list_all hex_lower (node_pre_sd_sha256 r)" using f validate_sha256_hex_shape by blast
  then have "utf8_ok (node_pre_sd_sha256 r)"
    by (intro utf8_ok_ascii) (auto simp: list_all_iff hex_lower_def byte_of_def is_digit_def)
  ultimately show ?thesis using assms(2)
    by (cases "node_wal_state r") (simp_all add: serialize_journal_record_def Let_def byte_of_def del: json_text.simps canon.simps)
qed

lemma append_record_ok:
  assumes "dj_handle s" and "\<not> dj_durability_failed s" and "serialize_journal_record r = Inr l"
    and "replay_journal_records (dj_records s @ [r]) = Inr j"
  shows "append_record healthy_io s r = (Inr (), s\<lparr>dj_file := dj_file s @ l, dj_records := dj_records s @ [r], dj_journal := j\<rparr>)"
  using assms by (simp add: append_record_def require_live_handle_def healthy_io_def landed_def)

text \<open>With a healthy disk a node of the plan whose log admits the edge is recorded.\<close>

lemma node_append_succeeds:
  assumes "store_inv s" and "plan_wf (dj_plan s)" and "dj_handle s" and "\<not> dj_durability_failed s"
    and "printable_log s" and "node_for (dj_plan s) p = Some n" and "utf8_ok p"
    and "assert_node_transition (node_state (dj_journal s) p) t = Inr ()"
  shows "\<exists>r s'. node_wal_record s (binding_from_node n) t = Inr r \<and> append_record healthy_io s (Node_record r) = (Inr (), s')
    \<and> length (dj_records s') = Suc (length (dj_records s)) \<and> dj_plan s' = dj_plan s
    \<and> permit_binding \<lparr>wp_record = r, wp_operation_id = a, wp_authorized_plan_digest = b, wp_consumed = c\<rparr> = binding_from_node n
    \<and> pj_operation_id (dj_journal s') = pj_operation_id (dj_journal s)
    \<and> pj_authorized_plan_digest (dj_journal s') = pj_authorized_plan_digest (dj_journal s)"
proof -
  have n: "n \<in> set (ap_nodes (dj_plan s))" "relative_path n = p" using node_for_in [OF assms(6)] by auto
  have seq: "pj_sequence (dj_journal s) = int (length (dj_records s))"
    using replay_nodes(2) [OF store_inv_live(3) [OF assms(1,4)]] .
  let ?r = "\<lparr>node_sequence = pj_sequence (dj_journal s) + 1, node_relative_path = relative_path n,
      node_volume_serial_number = volume_serial_number n, node_file_id = file_id n, node_pre_sd_sha256 = pre_sd_sha256 n,
      node_wal_state = t\<rparr>"
  have w: "node_wal_record s (binding_from_node n) t = Inr ?r"
    using assms(3,4,6,8) n node_post_init_plan [OF assms(2) n(1), of "pj_sequence (dj_journal s) + 1" t] seq
    by (simp add: node_wal_record_def require_live_handle_def require_binding_def node_binding_def binding_from_node_def
        lift_pj_def del: assert_node_transition_Inr)
  note f = node_wal_record_Inr [OF w assms(1,2)]
  have "nat (node_sequence ?r) < 10 ^ MAX_INT_DIGITS" using assms(5) seq by (simp add: printable_log_def nat_add_distrib)
  moreover have "record_valid (Node_record ?r)" using f by blast
  ultimately obtain l where "serialize_journal_record (Node_record ?r) = Inr l"
    using serialize_node [of ?r] assms(7) n(2) by auto
  from append_record_ok [OF assms(3,4) this] f w show ?thesis
    by (simp add: permit_binding_def binding_from_node_def)
qed

subsection \<open>Stores opened on bytes of another process\<close>

text \<open>A store whose file a reader takes for its journal. Opening gives it for any bytes that parse, also
  for lines that this program would print differently, and so without the invariant of the store.\<close>

definition readable :: "DurableProtectionJournal \<Rightarrow> bool" where
  "readable s \<longleftrightarrow> dj_handle s \<and> \<not> dj_durability_failed s \<and> records_from_bytes (dj_file s) = Inr (dj_records s)
     \<and> parse_journal_bytes (dj_file s) = Inr \<lparr>disposition = VALID, loaded_journal = Some (dj_journal s)\<rparr>"

lemma open_readable:
  assumes "open_protection_journal ex r1 ok r2 plan = Inr s"
  shows "readable s" and "dj_plan s = plan" and "r2 = Some (dj_file s)"
    and "require_journal_matches_plan (dj_journal s) plan = Inr ()"
  using assms by (auto simp: open_protection_journal_def res_bind_Inr readable_def deserialize_journal_bytes_def
      split: if_splits option.splits)

lemma readable_replay: "readable s \<Longrightarrow> list_all record_valid (dj_records s) \<and> replay_journal_records (dj_records s) = Inr (dj_journal s)"
  by (auto simp: readable_def records_from_bytes_def elim!: parse_valid_records)

lemma split_on_snoc: "split_on c (s @ c # t) = split_on c s @ split_on c t"
proof (induction s)
  case (Cons x s)
  then show ?case by (cases "split_on c s") (simp_all del: split_on_nonempty, simp)
qed simp

lemma split_on_single: "c \<notin> set s \<Longrightarrow> split_on c s = [s]"
  by (induction s) auto

lemma readable_append:
  assumes "readable s" and "record_valid r" and "append_record io s r = (Inr u, s')"
  shows "readable s'" and "replay_journal_records (dj_records s @ [r]) = Inr (dj_journal s')" and "dj_records s' = dj_records s @ [r]"
proof -
  from assms(3) obtain payload where w: "serialize_journal_record r = Inr payload"
      "replay_journal_records (dj_records s @ [r]) = Inr (dj_journal s')"
      "dj_file s' = dj_file s @ payload" "dj_records s' = dj_records s @ [r]" "dj_handle s' = dj_handle s"
      "dj_durability_failed s' = dj_durability_failed s"
    by (cases rule: append_record_cases) auto
  then show "replay_journal_records (dj_records s @ [r]) = Inr (dj_journal s')" "dj_records s' = dj_records s @ [r]" by simp_all
  from parse_serialized_line [OF assms(2) w(1)] obtain body where
    body: "payload = body @ [LF]" "LF \<notin> set body" "parse_journal_line body = Inr r" by blast
  from assms(1) have raw: "dj_file s \<noteq> []" "last (dj_file s) = LF"
    by (auto simp: readable_def parse_journal_bytes_def split: if_splits)
  then obtain raw where "dj_file s = raw @ [LF]" by (metis append_butlast_last_id)
  then have "records_from_bytes (dj_file s') = Inr (dj_records s')"
    using assms(1) body w(3,4) by (auto simp: readable_def records_from_bytes_def split_on_snoc split_on_single
        butlast_append res_map_append)
  moreover from this have "parse_journal_bytes (dj_file s') = Inr \<lparr>disposition = VALID, loaded_journal = Some (dj_journal s')\<rparr>"
    using w(2,3,4) body(1) by (simp add: parse_journal_bytes_def records_from_bytes_def)
  ultimately show "readable s'" using assms(1) w(5,6) by (simp add: readable_def)
qed

lemma readable_transition:
  assumes "readable s" and "transition_to io s t = (Inr u, s')"
  shows "readable s' \<and> tx_allowed (pj_transaction_state (dj_journal s)) t \<and> length (dj_records s') = Suc (length (dj_records s))
    \<and> dj_journal s' = dj_journal s\<lparr>pj_transaction_state := t, pj_sequence := pj_sequence (dj_journal s) + 1\<rparr>"
proof -
  note rep = readable_replay [OF assms(1), THEN conjunct2]
  let ?r = "\<lparr>tx_sequence = pj_sequence (dj_journal s) + 1, tx_state = t\<rparr>"
  from assms(2) have a: "append_record io s (Transaction_record ?r) = (Inr u, s')" "tx_allowed (pj_transaction_state (dj_journal s)) t"
      "t \<noteq> APPLYING"
    using replay_nodes(2) [OF rep]
    by (auto simp: transition_to_def append_transaction_def transaction_post_init_def validate_sequence_def
        S4A_PERMITTED_TRANSITION_TARGETS_def split: sum.splits if_splits)
  have v: "record_valid (Transaction_record ?r)"
    using replay_nodes(2) [OF rep] by (simp add: transaction_post_init_def validate_sequence_def)
  have "replay_journal_records (dj_records s @ [Transaction_record ?r]) =
      Inr (dj_journal s\<lparr>pj_transaction_state := t, pj_sequence := pj_sequence (dj_journal s) + 1\<rparr>)"
    using replay_snoc_transaction [OF rep, of ?r] a(2,3) by simp
  with readable_append [OF assms(1) v a(1)] a(2) show ?thesis by simp
qed

lemma readable_transition_succeeds:
  assumes "readable s" and "tx_allowed (pj_transaction_state (dj_journal s)) t" and "t \<in> S4A_PERMITTED_TRANSITION_TARGETS"
    and "printable_log s"
  shows "\<exists>s'. transition_to healthy_io s t = (Inr (), s')"
proof -
  note rep = readable_replay [OF assms(1), THEN conjunct2]
  let ?r = "\<lparr>tx_sequence = pj_sequence (dj_journal s) + 1, tx_state = t\<rparr>"
  have t: "t \<noteq> COMMITTED" "t \<noteq> APPLYING" using assms(3) by (auto simp: S4A_PERMITTED_TRANSITION_TARGETS_def)
  from assms(4) have "0 \<le> tx_sequence ?r \<and> nat (tx_sequence ?r) < 10 ^ MAX_INT_DIGITS"
    using replay_nodes(2) [OF rep] by (simp add: printable_log_def nat_add_distrib)
  then obtain l where "serialize_journal_record (Transaction_record ?r) = Inr l" using serialize_transaction [of ?r] by blast
  from append_record_ok [OF _ _ this replay_snoc_transaction [OF rep, of ?r]] assms t show ?thesis
    using replay_nodes(2) [OF rep]
    by (simp add: readable_def transition_to_def require_live_handle_def assert_transaction_transition_def tx_allowed_def
        append_transaction_def transaction_post_init_def validate_sequence_def)
qed

end
