(* ===== verification/Finalization.thy ===== *)
theory Finalization
  imports Golden_Lock Protection_Runs
begin

text \<open>
  The finalization of a protection (\<open>local/runtime_vault/finalization_orchestrator.py\<close>): from an apply whose
  nodes are all MUTATED, or from the phase in which an earlier process died, through the gates and the backup
  to COMMITTED, and only then the release of the lock.

  It drives the journal of \<open>Protection_Store\<close>, the backup of \<open>Golden_Backup\<close> and the lock of
  \<open>Golden_Lock\<close>; the verification port is an argument, asked anew each time. The state is the journal, the
  lock file with the handle on it, the verdicts so far, the last durable phase and the texts handed to the
  writer of the backup. Texts for the operator are not modelled, and none of them is taken to be empty.
  What the kernel of the journal raises is a \<open>ProtectionJournalStoreError\<close>, as the one of Windows does.
\<close>

subsection \<open>Reports\<close>

datatype fin_exc =
    Fin_error | Fin_precondition | Fin_authority | Fin_store store_error | Fin_lock lock_failure
  | Fin_backup backup_error | Fin_unicode | Fin_other

datatype FinalizationDisposition =
    Fin_COMMITTED | ALREADY_COMMITTED | Fin_ROLLBACK_REQUIRED | Fin_LOCK_BUSY | Fin_INDETERMINATE | NOT_APPLICABLE

datatype FinalizationPhase =
    Phase_ENTRY | Phase_VERIFYING_GP1 | Phase_VERIFYING_RV2 | Phase_VERIFYING_NODE_SET | Phase_ARCHIVING_BACKUP
  | Phase_COMMITTED | Phase_ROLLBACK | Phase_TERMINAL

record GateVerdict =
  gv_gate :: string
  gv_passed :: bool
  gv_detail :: string
  gv_evidence_digest :: string

definition gate_verdict_post_init :: "GateVerdict \<Rightarrow> fin_exc + GateVerdict" where
  "gate_verdict_post_init v =
     res_bind (res_check (py_strip (gv_gate v) \<noteq> []) Fin_error) (\<lambda>_.
     res_bind (res_check (length (gv_evidence_digest v) = 64) Fin_error) (\<lambda>_. Inr v))"

record FinalizationLockOutcome =
  fl_acquired :: bool
  fl_released :: bool
  fl_retained_as_orphan :: bool
  fl_operation_id :: string

record FinalizationForensicReport =
  fr_operation_id :: string
  fr_disposition :: FinalizationDisposition
  fr_phase_reached :: FinalizationPhase
  fr_verdicts :: "GateVerdict list"
  fr_lock :: FinalizationLockOutcome
  fr_journal_state :: ProtectionTransactionState
  fr_archive_digest :: "string option"
  fr_authorized_plan_digest :: string

definition committed :: "FinalizationForensicReport \<Rightarrow> bool" where
  "committed r \<longleftrightarrow> fr_disposition r \<in> {Fin_COMMITTED, ALREADY_COMMITTED}"

definition report_post_init :: "FinalizationForensicReport \<Rightarrow> fin_exc + FinalizationForensicReport" where
  "report_post_init r = res_bind (res_check (\<not> (committed r \<and> fr_archive_digest r = None)) Fin_error) (\<lambda>_. Inr r)"

definition verdict_for :: "FinalizationForensicReport \<Rightarrow> string \<Rightarrow> GateVerdict option" where
  "verdict_for r gate = find (\<lambda>v. gv_gate v = gate) (fr_verdicts r)"

subsection \<open>What the world answers\<close>

text \<open>What the port gives for one gate: a verdict, a pair, something else, or an exception.\<close>

datatype observacion = Obs_verdict GateVerdict | Obs_pair bool string | Obs_otro | Obs_raises fin_exc

datatype frontier_session = Session_closed | Session_lock lock_handle | Session_otro

text \<open>The port is asked by the number of verdicts already in the report and the gate; its other arguments are
  the root, the tree digest and the nodes of the plan, the same throughout. The archive is attempted by number.\<close>

record fin_io =
  fi_journal_exists :: bool
  fi_journal_readable :: bool
  fi_observa :: "nat \<Rightarrow> string \<Rightarrow> observacion"
  fi_enter :: "ProtectionTransactionState \<Rightarrow> journal_io"
  fi_archive :: "nat \<Rightarrow> archive_io"
  fi_commit :: journal_io
  fi_rollback :: journal_io
  fi_notifier :: "fin_exc option"
  fi_lock :: lock_io
  fi_release_write :: write_outcome
  fi_release_flush :: bool
  fi_backup :: file_read

record fin_state =
  fs_journal :: DurableProtectionJournal
  fs_lock :: lock_world
  fs_handle :: lock_handle
  fs_verdicts :: "GateVerdict list"
  fs_estado :: ProtectionTransactionState
  fs_escritos :: "string list"

text \<open>The classes that the three handlers name.\<close>

fun store_error_class :: "store_error \<Rightarrow> bool" where
  "store_error_class (Journal_error _) = False"
| "store_error_class Premature_commit_error = False"
| "store_error_class _ = True"

fun fail_closed :: "fin_exc \<Rightarrow> bool" where
  "fail_closed Fin_error = True"
| "fail_closed Fin_precondition = True"
| "fail_closed Fin_authority = True"
| "fail_closed (Fin_store e) = store_error_class e"
| "fail_closed (Fin_lock e) = golden_lock_error e"
| "fail_closed _ = False"

definition archivo_reintentable :: "backup_error \<Rightarrow> bool" where
  "archivo_reintentable e \<longleftrightarrow> e \<in> {Backup_write_error, Backup_durability_error}"

subsection \<open>Preconditions\<close>

definition MAX_ARCHIVE_RETRIES :: nat where "MAX_ARCHIVE_RETRIES = 3"

definition TRAMO_S4D :: "ProtectionTransactionState list" where
  "TRAMO_S4D = [VERIFYING_GP1, VERIFYING_RV2, VERIFYING_NODE_SET, ARCHIVING_BACKUP]"

definition FASES_ADMISIBLES :: "ProtectionTransactionState set" where
  "FASES_ADMISIBLES = {APPLYING, VERIFYING_GP1, VERIFYING_RV2, VERIFYING_NODE_SET, ARCHIVING_BACKUP}"

definition exigir_operacion_coincidente :: "string \<Rightarrow> AuthorizedPlan \<Rightarrow> DurableProtectionJournal \<Rightarrow> fin_exc + unit" where
  "exigir_operacion_coincidente operation_id plan journal =
     res_bind (res_check (ap_operation_id plan = operation_id) Fin_authority) (\<lambda>_.
       res_check (pj_operation_id (dj_journal journal) = operation_id) Fin_authority)"

definition exigir_wal_de_aplicacion_completo :: "DurableProtectionJournal \<Rightarrow> AuthorizedPlan \<Rightarrow> fin_exc + unit" where
  "exigir_wal_de_aplicacion_completo journal plan =
     res_check (filter (\<lambda>n. node_state (dj_journal journal) (relative_path n) \<noteq> Some MUTATED) (ap_nodes plan) = [])
       Fin_precondition"

definition exigir_lock_coherente :: "GoldenLockIdentity \<Rightarrow> AuthorizedPlan \<Rightarrow> fin_exc + unit" where
  "exigir_lock_coherente identity plan =
     res_bind (res_check (lm_operation_id (li_metadata identity) = ap_operation_id plan) Fin_authority) (\<lambda>_.
       res_check (li_volume_serial_number identity = ap_volume_serial_number plan
         \<and> li_root_file_id identity = ap_root_file_id plan) Fin_authority)"

definition handle_de_recovery ::
  "AuthorizedPlan \<Rightarrow> lock_io \<Rightarrow> lock_world \<Rightarrow> (fin_exc + lock_handle) \<times> lock_world" where
  "handle_de_recovery plan io w =
     map_prod (map_sum Fin_lock (\<lambda>a. \<lparr>lh_identity = ra_identity a, lh_closed = False\<rparr>)) id
       (acquire_golden_mutation_lock_for_recovery (ap_volume_serial_number plan) (ap_root_file_id plan) (ap_operation_id plan) io w)"

definition adquirir_lock_para_finalizacion ::
  "AuthorizedPlan \<Rightarrow> frontier_session option \<Rightarrow> lock_io \<Rightarrow> lock_world \<Rightarrow> (fin_exc + lock_handle) \<times> lock_world" where
  "adquirir_lock_para_finalizacion plan session io w =
     (case session of
        None \<Rightarrow> handle_de_recovery plan io w
      | Some Session_closed \<Rightarrow> (Inl Fin_authority, w)
      | Some Session_otro \<Rightarrow> (Inl Fin_authority, w)
      | Some (Session_lock h) \<Rightarrow>
          (if lh_closed h then Inl Fin_authority
           else res_bind (exigir_lock_coherente (lh_identity h) plan) (\<lambda>_. Inr h), w))"

subsection \<open>Gates\<close>

definition evaluar :: "(string \<Rightarrow> string) \<Rightarrow> string \<Rightarrow> observacion \<Rightarrow> fin_exc + GateVerdict" where
  "evaluar sha gate obs =
     (case obs of
        Obs_verdict v \<Rightarrow> if gv_gate v \<noteq> gate then Inl Fin_error else Inr v
      | Obs_pair passed detail \<Rightarrow>
          if \<not> utf8_ok detail then Inl Fin_unicode
          else gate_verdict_post_init \<lparr>gv_gate = gate, gv_passed = passed, gv_detail = detail,
            gv_evidence_digest = sha (gate @ '':'' @ detail)\<rparr>
      | Obs_otro \<Rightarrow> Inl Fin_error
      | Obs_raises e \<Rightarrow> Inl e)"

text \<open>The state while a handle is in hand: give it back without a release, as \<open>retain_for_inspection\<close> does.\<close>

definition retener :: "fin_state \<Rightarrow> fin_state" where
  "retener st = (case retain_for_inspection (fs_handle st) (fs_lock st) of (_, h, w) \<Rightarrow> st\<lparr>fs_handle := h, fs_lock := w\<rparr>)"

definition lock_outcome :: "string \<Rightarrow> bool \<Rightarrow> bool \<Rightarrow> bool \<Rightarrow> FinalizationLockOutcome" where
  "lock_outcome operation_id acquired released retained =
     \<lparr>fl_acquired = acquired, fl_released = released, fl_retained_as_orphan = retained, fl_operation_id = operation_id\<rparr>"

definition informe ::
  "string \<Rightarrow> AuthorizedPlan \<Rightarrow> FinalizationDisposition \<Rightarrow> FinalizationPhase \<Rightarrow> GateVerdict list \<Rightarrow> FinalizationLockOutcome
    \<Rightarrow> ProtectionTransactionState \<Rightarrow> string option \<Rightarrow> fin_exc + FinalizationForensicReport" where
  "informe operation_id plan disp phase verdicts lock estado digest =
     report_post_init \<lparr>fr_operation_id = operation_id, fr_disposition = disp, fr_phase_reached = phase, fr_verdicts = verdicts,
       fr_lock = lock, fr_journal_state = estado, fr_archive_digest = digest, fr_authorized_plan_digest = ap_plan_digest plan\<rparr>"

definition desenrollar_rollback ::
  "string \<Rightarrow> AuthorizedPlan \<Rightarrow> fin_io \<Rightarrow> ProtectionTransactionState \<Rightarrow> fin_state
    \<Rightarrow> (fin_exc + FinalizationForensicReport) \<times> fin_state" where
  "desenrollar_rollback operation_id plan io estado st =
     (case transition_to (fi_rollback io) (fs_journal st) ROLLBACK_REQUIRED of
        (Inl e, j) \<Rightarrow>
          let st1 = st\<lparr>fs_journal := j\<rparr> in
          if store_error_class e
          then (informe operation_id plan Fin_INDETERMINATE Phase_ROLLBACK (fs_verdicts st)
                  (lock_outcome operation_id True False True) estado None, retener st1)
          else (Inl (Fin_store e), st1)
      | (Inr _, j) \<Rightarrow>
          let st1 = st\<lparr>fs_journal := j\<rparr>; st2 = (if lh_closed (fs_handle st1) then st1 else retener st1) in
          (case fi_notifier io of
             Some e \<Rightarrow> (Inl e, st2)
           | None \<Rightarrow> (informe operation_id plan Fin_ROLLBACK_REQUIRED Phase_ROLLBACK (fs_verdicts st)
                  (lock_outcome operation_id True False True) ROLLBACK_REQUIRED None, st2)))"

text \<open>From here the body of the protocol goes on (\<open>Inr None\<close>), returns a report, or raises.\<close>

fun con_informe :: "fin_exc + FinalizationForensicReport \<Rightarrow> fin_exc + FinalizationForensicReport option" where
  "con_informe (Inl e) = Inl e"
| "con_informe (Inr r) = Inr (Some r)"

definition observar ::
  "(string \<Rightarrow> string) \<Rightarrow> string \<Rightarrow> AuthorizedPlan \<Rightarrow> fin_io \<Rightarrow> ProtectionTransactionState \<Rightarrow> string \<Rightarrow> fin_state
    \<Rightarrow> (fin_exc + FinalizationForensicReport option) \<times> fin_state" where
  "observar sha operation_id plan io fase gate st =
     (case evaluar sha gate (fi_observa io (length (fs_verdicts st)) gate) of
        Inl e \<Rightarrow> (Inl e, st)
      | Inr v \<Rightarrow>
          let st1 = st\<lparr>fs_verdicts := fs_verdicts st @ [v]\<rparr> in
          if gv_passed v then (Inr None, st1)
          else map_prod con_informe id (desenrollar_rollback operation_id plan io fase st1))"

fun observar_todos ::
  "(string \<Rightarrow> string) \<Rightarrow> string \<Rightarrow> AuthorizedPlan \<Rightarrow> fin_io \<Rightarrow> ProtectionTransactionState \<Rightarrow> string list \<Rightarrow> fin_state
    \<Rightarrow> (fin_exc + FinalizationForensicReport option) \<times> fin_state" where
  "observar_todos sha operation_id plan io fase [] st = (Inr None, st)"
| "observar_todos sha operation_id plan io fase (gate # rest) st =
     (case observar sha operation_id plan io fase gate st of
        (Inr None, st1) \<Rightarrow> observar_todos sha operation_id plan io fase rest st1
      | r \<Rightarrow> r)"

fun gates_de :: "ProtectionTransactionState \<Rightarrow> string list" where
  "gates_de VERIFYING_GP1 = [''gp1'']"
| "gates_de VERIFYING_RV2 = [''rv2'']"
| "gates_de VERIFYING_NODE_SET = [''node_set'', ''quiescence'', ''rv2'']"
| "gates_de _ = [''gp1'', ''node_set'', ''quiescence'', ''rv2'']"

text \<open>The phases forward by their position; the one that is durable already is observed but not written.\<close>

definition entrar_fase ::
  "fin_io \<Rightarrow> ProtectionTransactionState \<Rightarrow> fin_state \<Rightarrow> (fin_exc + unit) \<times> fin_state" where
  "entrar_fase io fase st =
     (case enter_finalization_phase (fi_enter io fase) (fs_journal st) fase of
        (Inl e, j) \<Rightarrow> (Inl (Fin_store e), st\<lparr>fs_journal := j\<rparr>)
      | (Inr _, j) \<Rightarrow> (Inr (), st\<lparr>fs_journal := j, fs_estado := fase\<rparr>))"

fun recorrer ::
  "(string \<Rightarrow> string) \<Rightarrow> string \<Rightarrow> AuthorizedPlan \<Rightarrow> fin_io \<Rightarrow> int \<Rightarrow> int \<Rightarrow> ProtectionTransactionState list \<Rightarrow> fin_state
    \<Rightarrow> (fin_exc + FinalizationForensicReport option) \<times> fin_state" where
  "recorrer sha operation_id plan io inicial pos [] st = (Inr None, st)"
| "recorrer sha operation_id plan io inicial pos (fase # fases) st =
     (if pos < inicial then recorrer sha operation_id plan io inicial (pos + 1) fases st
      else case (if pos > inicial then entrar_fase io fase st else (Inr (), st)) of
          (Inl e, st1) \<Rightarrow> (Inl e, st1)
        | (Inr _, st1) \<Rightarrow>
            (case observar_todos sha operation_id plan io fase (gates_de fase) st1 of
               (Inr None, st2) \<Rightarrow> recorrer sha operation_id plan io inicial (pos + 1) fases st2
             | r \<Rightarrow> r))"

fun indice :: "ProtectionTransactionState \<Rightarrow> ProtectionTransactionState list \<Rightarrow> int" where
  "indice estado [] = - 1"
| "indice estado (fase # fases) = (if fase = estado then 0 else (let i = indice estado fases in if i < 0 then - 1 else i + 1))"

subsection \<open>The backup and the commit\<close>

text \<open>The attempts of the archive: the last outcome, and what was handed to the writer.\<close>

function archivar ::
  "(string \<Rightarrow> string) \<Rightarrow> (json \<Rightarrow> string) \<Rightarrow> AuthorizedPlan \<Rightarrow> fin_io \<Rightarrow> nat \<Rightarrow> string list
    \<Rightarrow> (backup_error + GoldenBackupWriteOutcome) \<times> string list" where
  "archivar sha repr plan io intentos escritos =
     (case archive_golden_backup sha repr plan (fi_archive io intentos) of
        (res, written) \<Rightarrow>
          let escritos1 = escritos @ (case written of None \<Rightarrow> [] | Some payload \<Rightarrow> [payload]) in
          (case res of
             Inl e \<Rightarrow> if archivo_reintentable e \<and> intentos < MAX_ARCHIVE_RETRIES
                 then archivar sha repr plan io (intentos + 1) escritos1 else (Inl e, escritos1)
           | Inr w \<Rightarrow> (Inr w, escritos1)))"
  by pat_completeness auto
termination by (relation "measure (\<lambda>(sha, repr, plan, io, intentos, escritos). MAX_ARCHIVE_RETRIES - intentos)") auto

declare archivar.simps [simp del]

definition archive_verdict :: "(string \<Rightarrow> string) \<Rightarrow> GoldenBackupWriteOutcome \<Rightarrow> GateVerdict" where
  "archive_verdict sha w = \<lparr>gv_gate = ''archive'', gv_passed = True,
     gv_detail = (if wo_republished w then ''backup create-once durable y revalidado''
                  else ''backup preexistente revalidado por equivalencia exacta de bytes''),
     gv_evidence_digest = archive_digest sha (wo_durable w)\<rparr>"

definition comprometer ::
  "(string \<Rightarrow> string) \<Rightarrow> string \<Rightarrow> AuthorizedPlan \<Rightarrow> fin_io \<Rightarrow> GoldenBackupWriteOutcome \<Rightarrow> fin_state
    \<Rightarrow> (fin_exc + FinalizationForensicReport) \<times> fin_state" where
  "comprometer sha operation_id plan io escritura st =
     (let digest = Some (archive_digest sha (wo_durable escritura)) in
      case commit_finalized (fi_commit io) (fs_journal st) (wo_durable escritura) plan of
        (Inl e, j) \<Rightarrow>
          let st1 = st\<lparr>fs_journal := j\<rparr> in
          if store_error_class e
          then (informe operation_id plan Fin_INDETERMINATE Phase_COMMITTED (fs_verdicts st)
                  (lock_outcome operation_id True False True) (fs_estado st) digest, retener st1)
          else (Inl (Fin_store e), st1)
      | (Inr _, j) \<Rightarrow>
          (case release (fi_release_write io) (fi_release_flush io) (fs_handle st) (fs_lock st) of
             (res, h, w) \<Rightarrow>
               (informe operation_id plan Fin_COMMITTED Phase_COMMITTED (fs_verdicts st)
                  (lock_outcome operation_id True (\<not> isl res) (isl res)) COMMITTED digest,
                st\<lparr>fs_journal := j, fs_estado := COMMITTED, fs_handle := h, fs_lock := w\<rparr>)))"

definition archivar_y_comprometer ::
  "(string \<Rightarrow> string) \<Rightarrow> (json \<Rightarrow> string) \<Rightarrow> string \<Rightarrow> AuthorizedPlan \<Rightarrow> fin_io \<Rightarrow> fin_state
    \<Rightarrow> (fin_exc + FinalizationForensicReport) \<times> fin_state" where
  "archivar_y_comprometer sha repr operation_id plan io st =
     (case archivar sha repr plan io 1 (fs_escritos st) of
        (Inl e, escritos) \<Rightarrow>
          let st1 = st\<lparr>fs_escritos := escritos\<rparr> in
          if archivo_reintentable e
          then desenrollar_rollback operation_id plan io ARCHIVING_BACKUP st1
          else if golden_backup_error e
          then (informe operation_id plan Fin_INDETERMINATE Phase_ARCHIVING_BACKUP (fs_verdicts st1)
                  (lock_outcome operation_id True False True) (fs_estado st1) None, st1)
          else (Inl (Fin_backup e), st1)
      | (Inr escritura, escritos) \<Rightarrow>
          (case gate_verdict_post_init (archive_verdict sha escritura) of
             Inl e \<Rightarrow> (Inl e, st\<lparr>fs_escritos := escritos\<rparr>)
           | Inr v \<Rightarrow> comprometer sha operation_id plan io escritura
                 (st\<lparr>fs_escritos := escritos, fs_verdicts := fs_verdicts st @ [v]\<rparr>)))"

subsection \<open>The whole finalization\<close>

definition cuerpo ::
  "(string \<Rightarrow> string) \<Rightarrow> (json \<Rightarrow> string) \<Rightarrow> string \<Rightarrow> AuthorizedPlan \<Rightarrow> fin_io \<Rightarrow> fin_state
    \<Rightarrow> (fin_exc + FinalizationForensicReport) \<times> fin_state" where
  "cuerpo sha repr operation_id plan io st =
     (let inicial = indice (fs_estado st) TRAMO_S4D in
      if inicial < 0 \<and> fs_estado st \<noteq> APPLYING then (Inl Fin_error, st)
      else case recorrer sha operation_id plan io inicial 0 TRAMO_S4D st of
          (Inl e, st1) \<Rightarrow> (Inl e, st1)
        | (Inr (Some fallo), st1) \<Rightarrow> (Inr fallo, st1)
        | (Inr None, st1) \<Rightarrow> archivar_y_comprometer sha repr operation_id plan io st1)"

text \<open>The handler and the \<open>finally\<close> around the body: whatever is left open is retained, never released. The flag
  \<open>lock_tomado\<close> falls only after the release, when nothing is left that raises.\<close>

definition con_lock ::
  "(string \<Rightarrow> string) \<Rightarrow> (json \<Rightarrow> string) \<Rightarrow> string \<Rightarrow> AuthorizedPlan \<Rightarrow> fin_io \<Rightarrow> fin_state
    \<Rightarrow> (fin_exc + FinalizationForensicReport) \<times> fin_state" where
  "con_lock sha repr operation_id plan io st =
     (case cuerpo sha repr operation_id plan io st of
        (Inr report, st1) \<Rightarrow> (Inr report, retener st1)
      | (Inl e, st1) \<Rightarrow>
          if fail_closed e
          then (informe operation_id plan Fin_INDETERMINATE Phase_ENTRY (fs_verdicts st1)
                  (lock_outcome operation_id True False True) (fs_estado st1) None, retener st1)
          else (Inl e, retener st1))"

record fin_world =
  fw_journal :: DurableProtectionJournal
  fw_lock :: lock_world
  fw_escritos :: "string list"

definition normalizar_commit_ya_durable ::
  "(string \<Rightarrow> string) \<Rightarrow> (json \<Rightarrow> string) \<Rightarrow> string \<Rightarrow> AuthorizedPlan \<Rightarrow> fin_io \<Rightarrow> fin_world
    \<Rightarrow> (fin_exc + FinalizationForensicReport) \<times> fin_world" where
  "normalizar_commit_ya_durable sha repr operation_id plan io w =
     (let nada = lock_outcome operation_id False False False in
      case load_durable_golden_backup sha repr plan (fi_backup io) of
        Inl e \<Rightarrow>
          if golden_backup_error e
          then (informe operation_id plan Fin_INDETERMINATE Phase_TERMINAL [] nada COMMITTED None, w)
          else (Inl (Fin_backup e), w)
      | Inr backup \<Rightarrow>
          let digest = Some (archive_digest sha backup) in
          (case handle_de_recovery plan (fi_lock io) (fw_lock w) of
             (Inl (Fin_lock Lock_orphan_mismatch_error), l) \<Rightarrow>
               (informe operation_id plan Fin_INDETERMINATE Phase_TERMINAL [] nada COMMITTED digest, w\<lparr>fw_lock := l\<rparr>)
           | (Inl (Fin_lock Lock_busy_error), l) \<Rightarrow>
               (informe operation_id plan Fin_LOCK_BUSY Phase_TERMINAL [] nada COMMITTED digest, w\<lparr>fw_lock := l\<rparr>)
           | (Inl e, l) \<Rightarrow>
               (if (case e of Fin_lock x \<Rightarrow> golden_lock_error x | _ \<Rightarrow> False)
                then informe operation_id plan Fin_INDETERMINATE Phase_TERMINAL [] nada COMMITTED digest
                else Inl e, w\<lparr>fw_lock := l\<rparr>)
           | (Inr h, l) \<Rightarrow>
               (case release (fi_release_write io) (fi_release_flush io) h l of
                  (res, h1, l1) \<Rightarrow>
                    (case (if lh_closed h1 then (False, h1, l1) else retain_for_inspection h1 l1) of
                       (_, _, l2) \<Rightarrow>
                         (informe operation_id plan ALREADY_COMMITTED Phase_TERMINAL []
                            (lock_outcome operation_id True (\<not> isl res) (isl res)) COMMITTED digest,
                          w\<lparr>fw_lock := l2\<rparr>)))))"

definition adquisicion_fallida ::
  "string \<Rightarrow> AuthorizedPlan \<Rightarrow> ProtectionTransactionState \<Rightarrow> fin_exc \<Rightarrow> fin_exc + FinalizationForensicReport" where
  "adquisicion_fallida operation_id plan estado e =
     (let nada = lock_outcome operation_id False False False in
      case e of
        Fin_lock Lock_busy_error \<Rightarrow> informe operation_id plan Fin_LOCK_BUSY Phase_ENTRY [] nada estado None
      | Fin_lock x \<Rightarrow> if golden_lock_error x then informe operation_id plan Fin_INDETERMINATE Phase_ENTRY [] nada estado None
          else Inl e
      | _ \<Rightarrow> Inl e)"

definition finalize_protection_transaction ::
  "(string \<Rightarrow> string) \<Rightarrow> (json \<Rightarrow> string) \<Rightarrow> string \<Rightarrow> AuthorizedPlan \<Rightarrow> frontier_session option \<Rightarrow> fin_io \<Rightarrow> fin_world
    \<Rightarrow> (fin_exc + FinalizationForensicReport) \<times> fin_world" where
  "finalize_protection_transaction sha repr operation_id plan session io w =
     (let nada = lock_outcome operation_id False False False in
      case exigir_operacion_coincidente operation_id plan (fw_journal w) of
        Inl e \<Rightarrow> (Inl e, w)
      | Inr _ \<Rightarrow>
          (case classify_protection_journal (fi_journal_exists io)
                  (if fi_journal_readable io then Some (dj_file (fw_journal w)) else None) of
             Inl e \<Rightarrow> (Inl (Fin_store (Journal_error e)), w)
           | Inr (Class_valid, Some leido) \<Rightarrow>
               let estado = pj_transaction_state leido in
               if pj_authorized_plan_digest leido \<noteq> ap_plan_digest plan
               then (informe operation_id plan Fin_INDETERMINATE Phase_ENTRY [] nada estado None, w)
               else if estado = COMMITTED then normalizar_commit_ya_durable sha repr operation_id plan io w
               else if estado \<notin> FASES_ADMISIBLES
               then (informe operation_id plan NOT_APPLICABLE Phase_ENTRY [] nada estado None, w)
               else (case exigir_wal_de_aplicacion_completo (fw_journal w) plan of
                   Inl e \<Rightarrow> (Inl e, w)
                 | Inr _ \<Rightarrow>
                     (case adquirir_lock_para_finalizacion plan session (fi_lock io) (fw_lock w) of
                        (Inl e, l) \<Rightarrow> (adquisicion_fallida operation_id plan estado e, w\<lparr>fw_lock := l\<rparr>)
                      | (Inr h, l) \<Rightarrow>
                          (case con_lock sha repr operation_id plan io
                                  \<lparr>fs_journal = fw_journal w, fs_lock = l, fs_handle = h, fs_verdicts = [],
                                   fs_estado = estado, fs_escritos = fw_escritos w\<rparr> of
                             (res, st) \<Rightarrow> (res, w\<lparr>fw_journal := fs_journal st, fw_lock := fs_lock st,
                                 fw_escritos := fs_escritos st\<rparr>))))
           | Inr _ \<Rightarrow> (informe operation_id plan Fin_INDETERMINATE Phase_ENTRY [] nada INDETERMINATE None, w)))"

subsection \<open>What each part leaves alone\<close>

lemma retener_simps [simp]:
  "fs_journal (retener st) = fs_journal st" "fs_verdicts (retener st) = fs_verdicts st" "fs_estado (retener st) = fs_estado st"
  "fs_escritos (retener st) = fs_escritos st" "lw_bytes (fs_lock (retener st)) = lw_bytes (fs_lock st)"
  "lh_closed (fs_handle (retener st))"
  by (simp_all add: retener_def retain_for_inspection_def split: prod.splits)

lemma retener_open: "\<not> lh_closed (fs_handle st) \<Longrightarrow> \<not> lw_open (fs_lock (retener st))"
  by (simp add: retener_def retain_for_inspection_def)

lemma informe_Inr:
  "informe op plan d ph vs l t dg = Inr r \<longleftrightarrow> r = \<lparr>fr_operation_id = op, fr_disposition = d, fr_phase_reached = ph, fr_verdicts = vs,
      fr_lock = l, fr_journal_state = t, fr_archive_digest = dg, fr_authorized_plan_digest = ap_plan_digest plan\<rparr>
    \<and> (d \<in> {Fin_COMMITTED, ALREADY_COMMITTED} \<longrightarrow> dg \<noteq> None)"
  by (auto simp: informe_def report_post_init_def committed_def res_bind_Inr res_check_def)

text \<open>Nothing was given back and nothing written to the backup.\<close>

definition quiet :: "fin_state \<Rightarrow> fin_state \<Rightarrow> bool" where
  "quiet st st' \<longleftrightarrow> lw_bytes (fs_lock st') = lw_bytes (fs_lock st) \<and> fs_escritos st' = fs_escritos st
     \<and> (\<not> lh_closed (fs_handle st) \<longrightarrow> fs_handle st' = fs_handle st \<and> fs_lock st' = fs_lock st
          \<or> lh_closed (fs_handle st') \<and> \<not> lw_open (fs_lock st'))"

definition no_commit :: "fin_exc + FinalizationForensicReport \<Rightarrow> bool" where
  "no_commit res \<longleftrightarrow> (\<forall>rep. res = Inr rep \<longrightarrow> fr_disposition rep \<in> {Fin_INDETERMINATE, Fin_ROLLBACK_REQUIRED}
     \<and> \<not> fl_released (fr_lock rep))"

lemma quiet_refl [simp]: "quiet st st"
  by (simp add: quiet_def)

lemma quiet_trans: "quiet a b \<Longrightarrow> fs_handle b = fs_handle a \<Longrightarrow> quiet b c \<Longrightarrow> quiet a c"
  by (auto simp: quiet_def)

lemma desenrollar_effect:
  assumes "desenrollar_rollback op plan io fase st = (res, st')"
  shows "quiet st st' \<and> no_commit res"
proof (cases "transition_to (fi_rollback io) (fs_journal st) ROLLBACK_REQUIRED")
  case (Pair r j)
  have q: "quiet st (st\<lparr>fs_journal := j\<rparr>)" "quiet st (retener (st\<lparr>fs_journal := j\<rparr>))"
    using retener_open [of "st\<lparr>fs_journal := j\<rparr>"] by (auto simp: quiet_def)
  show ?thesis
  proof (cases r)
    case (Inl e)
    with assms Pair q show ?thesis
      by (auto simp: desenrollar_rollback_def Let_def no_commit_def informe_Inr lock_outcome_def split: if_splits)
  next
    case (Inr u)
    with assms Pair q show ?thesis
      by (auto simp: desenrollar_rollback_def Let_def no_commit_def informe_Inr lock_outcome_def split: if_splits option.splits)
  qed
qed

lemma observar_cases:
  assumes "observar sha op plan io fase gate st = (res, st')"
  obtains (raised) e where "res = Inl e" and "st' = st"
  | (passed) v where "res = Inr None" and "st' = st\<lparr>fs_verdicts := fs_verdicts st @ [v]\<rparr>"
      and "evaluar sha gate (fi_observa io (length (fs_verdicts st)) gate) = Inr v" and "gv_passed v"
  | (failed) v r where "res = con_informe r"
      and "desenrollar_rollback op plan io fase (st\<lparr>fs_verdicts := fs_verdicts st @ [v]\<rparr>) = (r, st')"
      and "evaluar sha gate (fi_observa io (length (fs_verdicts st)) gate) = Inr v" and "\<not> gv_passed v"
proof (cases "evaluar sha gate (fi_observa io (length (fs_verdicts st)) gate)")
  case (Inl e)
  with assms have "res = Inl e" "st' = st" by (simp_all add: observar_def)
  then show thesis by (rule raised)
next
  case (Inr v)
  show thesis
  proof (cases "gv_passed v")
    case True
    with assms Inr have "res = Inr None" "st' = st\<lparr>fs_verdicts := fs_verdicts st @ [v]\<rparr>" by (simp_all add: observar_def Let_def)
    then show thesis using Inr True by (rule passed)
  next
    case False
    obtain r st1 where d: "desenrollar_rollback op plan io fase (st\<lparr>fs_verdicts := fs_verdicts st @ [v]\<rparr>) = (r, st1)" by fastforce
    with assms Inr False have "res = con_informe r" "st1 = st'" by (simp_all add: observar_def Let_def)
    with d failed Inr False show thesis by simp
  qed
qed

lemma quiet_verdicts: "quiet (st\<lparr>fs_verdicts := vs\<rparr>) st' = quiet st st'"
  by (simp add: quiet_def)

lemma con_informe_Inr: "con_informe r = Inr x \<longleftrightarrow> (\<exists>y. r = Inr y \<and> x = Some y)"
  by (cases r) auto

text \<open>The verdicts of gates that all passed, as the port gave them from its \<open>n\<close>-th answer on.\<close>

fun answers :: "(string \<Rightarrow> string) \<Rightarrow> fin_io \<Rightarrow> nat \<Rightarrow> string list \<Rightarrow> GateVerdict list \<Rightarrow> bool" where
  "answers sha io n [] vs = (vs = [])"
| "answers sha io n (g # gs) vs =
    (\<exists>v vs'. vs = v # vs' \<and> evaluar sha g (fi_observa io n g) = Inr v \<and> gv_passed v \<and> answers sha io (Suc n) gs vs')"

lemma answers_passed: "answers sha io n gs vs \<Longrightarrow> list_all gv_passed vs \<and> length vs = length gs"
  by (induction gs arbitrary: n vs) auto

lemma observar_todos_effect:
  assumes "observar_todos sha op plan io fase gs st = (res, st')"
  shows "quiet st st' \<and> (\<forall>rep. res = Inr (Some rep) \<longrightarrow> no_commit (Inr rep))
    \<and> (res = Inr None \<longrightarrow> (\<exists>vs. st' = st\<lparr>fs_verdicts := fs_verdicts st @ vs\<rparr> \<and> answers sha io (length (fs_verdicts st)) gs vs))"
  using assms
proof (induction gs arbitrary: st)
  case Nil
  then show ?case by (auto intro: exI [of _ "[]"])
next
  case (Cons g gs)
  obtain r st1 where o: "observar sha op plan io fase g st = (r, st1)" by fastforce
  then show ?case
  proof (cases rule: observar_cases)
    case (raised e)
    with Cons.prems o show ?thesis by auto
  next
    case (passed v)
    with Cons.prems o have "observar_todos sha op plan io fase gs st1 = (res, st')" by simp
    from Cons.IH [OF this] passed show ?thesis by (fastforce simp: quiet_verdicts)
  next
    case (failed v r')
    with Cons.prems o have "res = con_informe r'" "st' = st1" by (cases r'; simp)+
    with desenrollar_effect [OF failed(2)] show ?thesis
      by (auto simp: quiet_verdicts con_informe_Inr no_commit_def)
  qed
qed

lemma entrar_fase_same:
  assumes "entrar_fase io fase st = (r, st1)"
  shows "fs_handle st1 = fs_handle st \<and> fs_lock st1 = fs_lock st \<and> fs_verdicts st1 = fs_verdicts st \<and> fs_escritos st1 = fs_escritos st"
  using assms by (auto simp: entrar_fase_def split: prod.splits sum.splits)

lemma quiet_same:
  assumes "fs_handle b = fs_handle a" and "fs_lock b = fs_lock a" and "fs_escritos b = fs_escritos a"
  shows "quiet a c = quiet b c" and "quiet a b"
  using assms by (auto simp: quiet_def)

lemma recorrer_effect:
  assumes "recorrer sha op plan io inicial pos fases st = (res, st')"
  shows "quiet st st' \<and> (\<forall>rep. res = Inr (Some rep) \<longrightarrow> no_commit (Inr rep))
    \<and> (res = Inr None \<longrightarrow> fs_handle st' = fs_handle st \<and> fs_lock st' = fs_lock st
        \<and> (\<exists>vs. fs_verdicts st' = fs_verdicts st @ vs \<and> list_all gv_passed vs)
        \<and> (fases \<noteq> [] \<longrightarrow> inicial < pos + int (length fases) \<longrightarrow>
             (\<exists>vs1 vs2. fs_verdicts st' = fs_verdicts st @ vs1 @ vs2 \<and> list_all gv_passed vs1
                \<and> answers sha io (length (fs_verdicts st @ vs1)) (gates_de (last fases)) vs2)))"
  using assms
proof (induction fases arbitrary: pos st)
  case Nil
  then show ?case by auto
next
  case (Cons fase fases)
  show ?case
  proof (cases "pos < inicial")
    case True
    with Cons.prems have "recorrer sha op plan io inicial (pos + 1) fases st = (res, st')" by simp
    from Cons.IH [OF this] True show ?thesis by (cases "fases = []") (simp_all add: algebra_simps)
  next
    case False
    obtain r st1 where e: "(if pos > inicial then entrar_fase io fase st else (Inr (), st)) = (r, st1)" by fastforce
    then have same: "fs_handle st1 = fs_handle st" "fs_lock st1 = fs_lock st" "fs_verdicts st1 = fs_verdicts st" "fs_escritos st1 = fs_escritos st"
      using entrar_fase_same [of io fase st r st1] by (auto split: if_splits)
    show ?thesis
    proof (cases r)
      case (Inl x)
      with Cons.prems False e have "res = Inl x" "st' = st1" by auto
      with quiet_same(2) [OF same(1,2,4)] show ?thesis by simp
    next
      case (Inr u)
      obtain o' st2 where o: "observar_todos sha op plan io fase (gates_de fase) st1 = (o', st2)" by fastforce
      note oe = observar_todos_effect [OF o]
      show ?thesis
      proof (cases "o' = Inr None")
        case True
        with Cons.prems False e Inr o have "recorrer sha op plan io inicial (pos + 1) fases st2 = (res, st')" by auto
        note ih = Cons.IH [OF this]
        from oe True obtain vs where vs: "st2 = st1\<lparr>fs_verdicts := fs_verdicts st1 @ vs\<rparr>"
            "answers sha io (length (fs_verdicts st1)) (gates_de fase) vs" by blast
        have p: "list_all gv_passed vs" using answers_passed [OF vs(2)] by simp
        have q: "quiet st st'" using ih same vs(1) quiet_same(1) [of st st2 st'] by simp
        moreover have "fs_handle st2 = fs_handle st" "fs_lock st2 = fs_lock st" "fs_verdicts st2 = fs_verdicts st @ vs"
          using vs(1) same by simp_all
        moreover have "\<exists>vs1 vs2. fs_verdicts st' = fs_verdicts st @ vs1 @ vs2 \<and> list_all gv_passed vs1
            \<and> answers sha io (length (fs_verdicts st @ vs1)) (gates_de (last (fase # fases))) vs2"
          if "res = Inr None" "inicial < pos + int (length (fase # fases))"
        proof (cases "fases = []")
          case True
          with \<open>recorrer sha op plan io inicial (pos + 1) fases st2 = (res, st')\<close> have "st' = st2" by simp
          with True vs same show ?thesis by (intro exI [of _ "[]"] exI [of _ vs]) simp
        next
          case False
          with ih that obtain vs1 vs2 where "fs_verdicts st' = fs_verdicts st2 @ vs1 @ vs2" "list_all gv_passed vs1"
              "answers sha io (length (fs_verdicts st2 @ vs1)) (gates_de (last fases)) vs2"
            by (auto simp: algebra_simps)
          with False p vs(1) same show ?thesis by (intro exI [of _ "vs @ vs1"] exI [of _ vs2]) (simp add: add.assoc)
        qed
        ultimately show ?thesis using ih p by auto
      next
        case False
        with Cons.prems \<open>\<not> pos < inicial\<close> e Inr o have "res = o'" "st' = st2" by (auto split: sum.splits option.splits)
        with oe False same quiet_same(1) [OF same(1,2,4)] show ?thesis by auto
      qed
    qed
  qed
qed

text \<open>The archive that was accepted is that of one of the attempts.\<close>

lemma archivar_Inr:
  assumes "archivar sha repr plan io n es = (Inr w, es')" and "n \<le> MAX_ARCHIVE_RETRIES"
  shows "\<exists>k written. n \<le> k \<and> k \<le> MAX_ARCHIVE_RETRIES \<and> archive_golden_backup sha repr plan (fi_archive io k) = (Inr w, written)"
  using assms
proof (induction sha repr plan io n es rule: archivar.induct)
  case (1 sha repr plan io n es)
  obtain r written where a: "archive_golden_backup sha repr plan (fi_archive io n) = (r, written)" by fastforce
  show ?case
  proof (cases r)
    case (Inr w')
    have "archivar sha repr plan io n es = (Inr w', es @ (case written of None \<Rightarrow> [] | Some payload \<Rightarrow> [payload]))"
      by (subst archivar.simps) (simp add: a Inr)
    with 1(2,3) a Inr show ?thesis by auto
  next
    case (Inl e)
    let ?es = "es @ (case written of None \<Rightarrow> [] | Some payload \<Rightarrow> [payload])"
    have u: "archivar sha repr plan io n es = (if archivo_reintentable e \<and> n < MAX_ARCHIVE_RETRIES
        then archivar sha repr plan io (n + 1) ?es else (Inl e, ?es))"
      by (subst archivar.simps) (simp add: a Inl Let_def)
    with 1(2) have again: "archivo_reintentable e \<and> n < MAX_ARCHIVE_RETRIES" by (simp split: if_splits)
    with u 1(2) have "archivar sha repr plan io (n + 1) ?es = (Inr w, es')" by simp
    from 1(1) [OF a [symmetric] refl Inl again this] again show ?thesis by (auto dest: Suc_leD)
  qed
qed

subsection \<open>The journal\<close>

lemma readable_append_tx:
  assumes "readable s" and "append_transaction io s t = (Inr u, s')" and "tx_allowed (pj_transaction_state (dj_journal s)) t" and "t \<noteq> APPLYING"
  shows "readable s' \<and> dj_journal s' = dj_journal s\<lparr>pj_transaction_state := t, pj_sequence := pj_sequence (dj_journal s) + 1\<rparr>
    \<and> length (dj_records s') = Suc (length (dj_records s))"
proof -
  note rep = readable_replay [OF assms(1), THEN conjunct2]
  let ?r = "\<lparr>tx_sequence = pj_sequence (dj_journal s) + 1, tx_state = t\<rparr>"
  have v: "transaction_post_init ?r = Inr ?r"
    using replay_nodes(2) [OF rep] by (simp add: transaction_post_init_def validate_sequence_def)
  then have a: "append_record io s (Transaction_record ?r) = (Inr u, s')" using assms(2) by (simp add: append_transaction_def)
  have "record_valid (Transaction_record ?r)" using v by simp
  from readable_append [OF assms(1) this a] replay_snoc_transaction [OF rep, of ?r] assms(3,4) show ?thesis by simp
qed

lemma readable_phase:
  assumes "readable s" and "enter_finalization_phase io s t = (Inr u, s')"
  shows "readable s' \<and> dj_journal s' = dj_journal s\<lparr>pj_transaction_state := t, pj_sequence := pj_sequence (dj_journal s) + 1\<rparr>
    \<and> length (dj_records s') = Suc (length (dj_records s))"
proof -
  from assms(2) have "append_transaction io s t = (Inr u, s')" "tx_allowed (pj_transaction_state (dj_journal s)) t" "t \<noteq> APPLYING"
    by (auto simp: enter_finalization_phase_def S4D_FINALIZATION_TARGETS_def assert_transaction_transition_def tx_allowed_def
        split: sum.splits if_splits)
  with readable_append_tx [OF assms(1)] show ?thesis by blast
qed

lemma readable_commit:
  assumes "readable s" and "commit_finalized io s a p = (Inr u, s')"
  shows "readable s' \<and> dj_journal s' = dj_journal s\<lparr>pj_transaction_state := COMMITTED, pj_sequence := pj_sequence (dj_journal s) + 1\<rparr>
    \<and> binds_to a p \<and> pj_transaction_state (dj_journal s) = ARCHIVING_BACKUP"
proof -
  from assms(2) have "append_transaction io s COMMITTED = (Inr u, s')" "tx_allowed (pj_transaction_state (dj_journal s)) COMMITTED"
      "binds_to a p" "pj_transaction_state (dj_journal s) = ARCHIVING_BACKUP"
    by (auto simp: commit_finalized_def assert_transaction_transition_def tx_allowed_def split: sum.splits if_splits)
  with readable_append_tx [OF assms(1)] show ?thesis by simp
qed

text \<open>The same transaction, further on.\<close>

definition advanced :: "ProtectionJournal \<Rightarrow> ProtectionJournal \<Rightarrow> bool" where
  "advanced j j' \<longleftrightarrow> (\<exists>t q. j' = j\<lparr>pj_transaction_state := t, pj_sequence := q\<rparr>)"

lemma advanced_refl [simp]: "advanced j j"
  unfolding advanced_def by (intro exI [of _ "pj_transaction_state j"] exI [of _ "pj_sequence j"]) simp


lemma advanced_trans: "advanced a b \<Longrightarrow> advanced b c \<Longrightarrow> advanced a c"
  unfolding advanced_def by (elim exE, simp, blast)

lemma advanced_same: "advanced a b \<Longrightarrow> pj_operation_id b = pj_operation_id a \<and> pj_authorized_plan_digest b = pj_authorized_plan_digest a
    \<and> pj_node_records b = pj_node_records a"
  by (auto simp: advanced_def)

lemma entrar_fase_readable:
  assumes "entrar_fase io fase st = (Inr u, st')" and "readable (fs_journal st)"
  shows "readable (fs_journal st') \<and> advanced (dj_journal (fs_journal st)) (dj_journal (fs_journal st'))"
  using assms readable_phase [OF assms(2)] unfolding advanced_def
  by (fastforce simp: entrar_fase_def split: prod.splits sum.splits)

lemma recorrer_readable:
  assumes "recorrer sha op plan io inicial pos fases st = (Inr None, st')" and "readable (fs_journal st)"
  shows "readable (fs_journal st') \<and> advanced (dj_journal (fs_journal st)) (dj_journal (fs_journal st'))"
  using assms
proof (induction fases arbitrary: pos st)
  case (Cons fase fases)
  show ?case
  proof (cases "pos < inicial")
    case True
    with Cons show ?thesis by simp
  next
    case False
    obtain r st1 where e: "(if pos > inicial then entrar_fase io fase st else (Inr (), st)) = (r, st1)" by fastforce
    with Cons.prems(1) False obtain u where r: "r = Inr u" by (cases r) auto
    have 1: "readable (fs_journal st1) \<and> advanced (dj_journal (fs_journal st)) (dj_journal (fs_journal st1))"
      using e r entrar_fase_readable [of io fase st u st1] Cons.prems(2) by (auto split: if_splits)
    obtain o' st2 where o: "observar_todos sha op plan io fase (gates_de fase) st1 = (o', st2)" by fastforce
    with Cons.prems(1) False e r have n: "o' = Inr None" "recorrer sha op plan io inicial (pos + 1) fases st2 = (Inr None, st')"
      by (auto split: sum.splits option.splits)
    with observar_todos_effect [OF o] have "fs_journal st2 = fs_journal st1" by auto
    with Cons.IH [OF n(2)] 1 advanced_trans show ?thesis by fastforce
  qed
qed simp

subsection \<open>The commit\<close>

lemma comprometer_cases:
  assumes "comprometer sha op plan io w st = (res, st')"
  obtains (committed) h l j r where "commit_finalized (fi_commit io) (fs_journal st) (wo_durable w) plan = (Inr (), j)"
      and "release (fi_release_write io) (fi_release_flush io) (fs_handle st) (fs_lock st) = (r, h, l)"
      and "st' = st\<lparr>fs_journal := j, fs_estado := COMMITTED, fs_handle := h, fs_lock := l\<rparr>"
      and "res = informe op plan Fin_COMMITTED Phase_COMMITTED (fs_verdicts st) (lock_outcome op True (\<not> isl r) (isl r)) COMMITTED
             (Some (archive_digest sha (wo_durable w)))"
  | (uncommitted) "quiet st st'" and "no_commit res"
proof (cases "commit_finalized (fi_commit io) (fs_journal st) (wo_durable w) plan")
  case (Pair r j)
  show thesis
  proof (cases r)
    case (Inl e)
    have "quiet st (st\<lparr>fs_journal := j\<rparr>)" "quiet st (retener (st\<lparr>fs_journal := j\<rparr>))"
      using retener_open [of "st\<lparr>fs_journal := j\<rparr>"] by (auto simp: quiet_def)
    with assms Pair Inl have "quiet st st'" "no_commit res"
      by (auto simp: comprometer_def Let_def no_commit_def informe_Inr lock_outcome_def split: if_splits)
    then show thesis by (rule uncommitted)
  next
    case (Inr u)
    obtain r' h l where "release (fi_release_write io) (fi_release_flush io) (fs_handle st) (fs_lock st) = (r', h, l)"
      by (cases "release (fi_release_write io) (fi_release_flush io) (fs_handle st) (fs_lock st)")
    with assms Pair Inr show thesis by (intro committed [of j r' h l]) (auto simp: comprometer_def Let_def)
  qed
qed

lemma archivar_y_comprometer_cases:
  assumes "archivar_y_comprometer sha repr op plan io st = (res, st')"
  obtains (archived) w es where "archivar sha repr plan io 1 (fs_escritos st) = (Inr w, es)"
      and "comprometer sha op plan io w (st\<lparr>fs_escritos := es, fs_verdicts := fs_verdicts st @ [archive_verdict sha w]\<rparr>) = (res, st')"
  | (unarchived) es where "quiet (st\<lparr>fs_escritos := es\<rparr>) st'" and "no_commit res"
proof (cases "archivar sha repr plan io 1 (fs_escritos st)")
  case (Pair r es)
  show thesis
  proof (cases r)
    case (Inl e)
    note d = desenrollar_effect [of op plan io ARCHIVING_BACKUP "st\<lparr>fs_escritos := es\<rparr>" res st']
    from assms Pair Inl d have "quiet (st\<lparr>fs_escritos := es\<rparr>) st' \<and> no_commit res"
      by (auto simp: archivar_y_comprometer_def Let_def no_commit_def informe_Inr lock_outcome_def split: if_splits)
    then show thesis by (intro unarchived) blast+
  next
    case (Inr w)
    show thesis
    proof (cases "gate_verdict_post_init (archive_verdict sha w)")
      case (Inl e)
      with assms Pair Inr show thesis by (intro unarchived [of es]) (auto simp: archivar_y_comprometer_def no_commit_def)
    next
      case (Inr v)
      then have "v = archive_verdict sha w" by (auto simp: gate_verdict_post_init_def res_bind_Inr)
      with assms Pair Inr \<open>r = Inr w\<close> show thesis by (intro archived [of w es]) (auto simp: archivar_y_comprometer_def)
    qed
  qed
qed

lemma advanced_node_state: "advanced a b \<Longrightarrow> node_state b p = node_state a p"
  by (auto simp: advanced_def node_state_def node_record_def)

subsection \<open>The way through the phases\<close>

text \<open>The state that the journal has when the phase at a position is about to be entered.\<close>

fun previo :: "nat \<Rightarrow> ProtectionTransactionState" where
  "previo 0 = APPLYING"
| "previo (Suc n) = TRAMO_S4D ! n"

lemma tramo_length [simp]: "length TRAMO_S4D = 4"
  by (simp add: TRAMO_S4D_def)

lemma drop_tramo: "p < 4 \<Longrightarrow> drop p TRAMO_S4D = TRAMO_S4D ! p # drop (Suc p) TRAMO_S4D"
  by (simp add: Cons_nth_drop_Suc)

lemma indice_tramo:
  assumes "s \<in> FASES_ADMISIBLES"
  shows "- 1 \<le> indice s TRAMO_S4D \<and> indice s TRAMO_S4D < 4 \<and> previo (nat (indice s TRAMO_S4D + 1)) = s
    \<and> \<not> (indice s TRAMO_S4D < 0 \<and> s \<noteq> APPLYING)"
  using assms unfolding FASES_ADMISIBLES_def by (auto simp: TRAMO_S4D_def Let_def numeral_eq_Suc)

lemma tramo_rollback: "p < 4 \<Longrightarrow> tx_allowed (TRAMO_S4D ! p) ROLLBACK_REQUIRED"
  by (cases p; cases "p - 1"; cases "p - 2") (auto simp: TRAMO_S4D_def tx_allowed_def nth_Cons split: nat.splits)

text \<open>A failed gate: the state in which the rollback is asked for, from which the result comes.\<close>

definition failed_at ::
  "string \<Rightarrow> AuthorizedPlan \<Rightarrow> fin_io \<Rightarrow> fin_state \<Rightarrow> nat \<Rightarrow> fin_exc + FinalizationForensicReport \<Rightarrow> fin_state \<Rightarrow> bool" where
  "failed_at op plan io st k r st' \<longleftrightarrow> (\<exists>st0 fase. desenrollar_rollback op plan io fase st0 = (r, st')
     \<and> readable (fs_journal st0) \<and> tx_allowed (pj_transaction_state (dj_journal (fs_journal st0))) ROLLBACK_REQUIRED
     \<and> advanced (dj_journal (fs_journal st)) (dj_journal (fs_journal st0))
     \<and> length (dj_records (fs_journal st0)) \<le> length (dj_records (fs_journal st)) + k
     \<and> fs_lock st0 = fs_lock st \<and> fs_handle st0 = fs_handle st \<and> fs_escritos st0 = fs_escritos st)"

lemma observar_todos_cases:
  assumes "observar_todos sha op plan io fase gs st = (res, st')" and "readable (fs_journal st)"
    and "tx_allowed (pj_transaction_state (dj_journal (fs_journal st))) ROLLBACK_REQUIRED"
  obtains (raised) e vs where "res = Inl e" and "st' = st\<lparr>fs_verdicts := fs_verdicts st @ vs\<rparr>" and "list_all gv_passed vs"
  | (passed) vs where "res = Inr None" and "st' = st\<lparr>fs_verdicts := fs_verdicts st @ vs\<rparr>" and "list_all gv_passed vs"
  | (failed) r where "res = con_informe r" and "failed_at op plan io st 0 r st'"
proof -
  have "(\<exists>vs. ((\<exists>e. res = Inl e) \<or> res = Inr None) \<and> st' = st\<lparr>fs_verdicts := fs_verdicts st @ vs\<rparr> \<and> list_all gv_passed vs)
      \<or> (\<exists>r. res = con_informe r \<and> failed_at op plan io st 0 r st')"
    using assms
  proof (induction gs arbitrary: st)
    case Nil
    then show ?case by (auto intro!: disjI1 exI [of _ "[]"])
  next
    case (Cons g gs)
    obtain r st1 where o: "observar sha op plan io fase g st = (r, st1)" by fastforce
    then show ?case
    proof (cases rule: observar_cases)
      case (raised e)
      with Cons.prems(1) o show ?thesis by (auto intro!: disjI1 exI [of _ "[]"])
    next
      case (passed v)
      with Cons.prems(1) o have rest: "observar_todos sha op plan io fase gs st1 = (res, st')" by simp
      have "readable (fs_journal st1)" "tx_allowed (pj_transaction_state (dj_journal (fs_journal st1))) ROLLBACK_REQUIRED"
        using passed(2) Cons.prems(2,3) by simp_all
      note ih = Cons.IH [OF rest this]
      from ih consider
        vs where "(\<exists>e. res = Inl e) \<or> res = Inr None" "st' = st1\<lparr>fs_verdicts := fs_verdicts st1 @ vs\<rparr>" "list_all gv_passed vs"
        | r where "res = con_informe r" "failed_at op plan io st1 0 r st'" by blast
      then show ?thesis
      proof cases
        case 1
        with passed show ?thesis by (intro disjI1 exI [of _ "v # vs"]) simp
      next
        case 2
        from 2(2) passed(2) have "failed_at op plan io st 0 r st'" by (auto simp: failed_at_def)
        with 2(1) show ?thesis by blast
      qed
    next
      case (failed v r')
      with Cons.prems(1) o have "res = con_informe r'" "st' = st1" by (cases r'; simp)+
      with failed(2) Cons.prems(2,3) show ?thesis
        unfolding failed_at_def by (intro disjI2 exI [of _ r'] conjI exI [of _ "st\<lparr>fs_verdicts := fs_verdicts st @ [v]\<rparr>"] exI [of _ fase]) simp_all
    qed
  qed
  with raised passed failed show thesis by blast
qed

lemma failed_at_from:
  assumes "failed_at op plan io st1 k r st'" and "advanced (dj_journal (fs_journal st)) (dj_journal (fs_journal st1))"
    and "length (dj_records (fs_journal st1)) \<le> length (dj_records (fs_journal st)) + m" and "k + m \<le> n"
    and "fs_lock st1 = fs_lock st" and "fs_handle st1 = fs_handle st" and "fs_escritos st1 = fs_escritos st"
  shows "failed_at op plan io st n r st'"
  using assms advanced_trans [OF assms(2)] unfolding failed_at_def by fastforce

lemma entrar_fase_ok:
  assumes "entrar_fase io fase st = (Inr u, st1)" and "readable (fs_journal st)"
  shows "readable (fs_journal st1) \<and> pj_transaction_state (dj_journal (fs_journal st1)) = fase
    \<and> length (dj_records (fs_journal st1)) = Suc (length (dj_records (fs_journal st)))"
  using assms readable_phase [OF assms(2)] by (fastforce simp: entrar_fase_def split: prod.splits sum.splits)

lemma recorrer_cases:
  assumes "recorrer sha op plan io inicial (int p) (drop p TRAMO_S4D) st = (res, st')" and "readable (fs_journal st)"
    and "pj_transaction_state (dj_journal (fs_journal st)) = previo (nat (max (int p) (inicial + 1)))"
    and "- 1 \<le> inicial" and "inicial < 4" and "p \<le> 4"
  obtains (raised) e vs where "res = Inl e" and "fs_verdicts st' = fs_verdicts st @ vs" and "list_all gv_passed vs"
  | (passed) vs where "res = Inr None" and "fs_verdicts st' = fs_verdicts st @ vs" and "list_all gv_passed vs"
      and "pj_transaction_state (dj_journal (fs_journal st')) = ARCHIVING_BACKUP"
  | (failed) r where "res = con_informe r" and "failed_at op plan io st (4 - p) r st'"
proof -
  have "((\<exists>e. res = Inl e) \<or> res = Inr None \<and> pj_transaction_state (dj_journal (fs_journal st')) = ARCHIVING_BACKUP)
        \<and> (\<exists>vs. fs_verdicts st' = fs_verdicts st @ vs \<and> list_all gv_passed vs)
      \<or> (\<exists>r. res = con_informe r \<and> failed_at op plan io st (4 - p) r st')"
    using assms
  proof (induction "4 - p" arbitrary: p st)
    case 0
    then have "p = 4" by simp
    with 0(2-) have "res = Inr None" "st' = st" "pj_transaction_state (dj_journal (fs_journal st)) = previo 4" by simp_all
    then show ?case by (simp add: numeral_eq_Suc TRAMO_S4D_def)
  next
    case (Suc k)
    then have p: "p < 4" by simp
    let ?fase = "TRAMO_S4D ! p"
    show ?case
    proof (cases "int p < inicial")
      case True
      with Suc.prems(1) p have r: "recorrer sha op plan io inicial (int (Suc p)) (drop (Suc p) TRAMO_S4D) st = (res, st')"
        by (simp add: drop_tramo add.commute)
      have k: "k = 4 - Suc p" "Suc p \<le> 4" using Suc(2) by simp_all
      have "max (int (Suc p)) (inicial + 1) = max (int p) (inicial + 1)" using True by simp
      then have "pj_transaction_state (dj_journal (fs_journal st)) = previo (nat (max (int (Suc p)) (inicial + 1)))"
        using Suc.prems(3) by (simp only:)
      from Suc(1) [OF k(1) r Suc.prems(2) this Suc.prems(4,5) k(2)] show ?thesis
        using failed_at_from [of op plan io st "4 - Suc p" _ st' st 0 "4 - p"] by auto
    next
      case False
      obtain r st1 where e: "(if int p > inicial then entrar_fase io ?fase st else (Inr (), st)) = (r, st1)" by fastforce
      then have same: "fs_handle st1 = fs_handle st" "fs_lock st1 = fs_lock st" "fs_verdicts st1 = fs_verdicts st" "fs_escritos st1 = fs_escritos st"
        using entrar_fase_same [of io ?fase st r st1] by (auto split: if_splits)
      show ?thesis
      proof (cases r)
        case (Inl x)
        with Suc.prems(1) p False e same show ?thesis by (auto simp: drop_tramo)
      next
        case (Inr u)
        have 1: "readable (fs_journal st1)" "pj_transaction_state (dj_journal (fs_journal st1)) = ?fase"
            "advanced (dj_journal (fs_journal st)) (dj_journal (fs_journal st1))"
            "length (dj_records (fs_journal st1)) \<le> length (dj_records (fs_journal st)) + 1"
        proof -
          have "max (int p) (inicial + 1) = int (Suc p)" if "\<not> int p > inicial" using that False by simp
          then have "pj_transaction_state (dj_journal (fs_journal st)) = ?fase" if "\<not> int p > inicial" using that Suc.prems(3) by (simp add: nat_add_distrib)
          with e Inr entrar_fase_ok [of io ?fase st u st1] entrar_fase_readable [of io ?fase st u st1] Suc.prems(2)
          show "readable (fs_journal st1)" "pj_transaction_state (dj_journal (fs_journal st1)) = ?fase"
            "advanced (dj_journal (fs_journal st)) (dj_journal (fs_journal st1))"
            "length (dj_records (fs_journal st1)) \<le> length (dj_records (fs_journal st)) + 1"
            by (auto split: if_splits)
        qed
        have t: "tx_allowed (pj_transaction_state (dj_journal (fs_journal st1))) ROLLBACK_REQUIRED"
          using 1(2) tramo_rollback [OF p] by simp
        obtain o' st2 where o: "observar_todos sha op plan io ?fase (gates_de ?fase) st1 = (o', st2)" by fastforce
        from o 1(1) t show ?thesis
        proof (cases rule: observar_todos_cases)
          case (raised x vs)
          with Suc.prems(1) p False e Inr o same show ?thesis by (auto simp: drop_tramo)
        next
          case (failed r')
          with Suc.prems(1) p False e Inr o have "res = con_informe r'" "st' = st2"
            by (cases r'; auto simp: drop_tramo)+
          moreover have "failed_at op plan io st (4 - p) r' st2"
            using failed_at_from [OF failed(2) 1(3,4) _ same(2,1,4)] p by simp
          ultimately show ?thesis by blast
        next
          case (passed vs)
          with Suc.prems(1) p False e Inr o
          have r: "recorrer sha op plan io inicial (int (Suc p)) (drop (Suc p) TRAMO_S4D) st2 = (res, st')"
            by (auto simp: drop_tramo add.commute)
          have "max (int (Suc p)) (inicial + 1) = int (Suc p)" using False by simp
          then have "pj_transaction_state (dj_journal (fs_journal st2)) = previo (nat (max (int (Suc p)) (inicial + 1)))"
            using passed(2) 1(2) by (simp add: nat_add_distrib)
          moreover have k: "k = 4 - Suc p" "Suc p \<le> 4" "readable (fs_journal st2)" using Suc(2) passed(2) 1(1) by simp_all
          ultimately have "((\<exists>e. res = Inl e) \<or> res = Inr None \<and> pj_transaction_state (dj_journal (fs_journal st')) = ARCHIVING_BACKUP)
                \<and> (\<exists>vs. fs_verdicts st' = fs_verdicts st2 @ vs \<and> list_all gv_passed vs)
              \<or> (\<exists>r. res = con_informe r \<and> failed_at op plan io st2 (4 - Suc p) r st')"
            using Suc(1) [OF k(1) r k(3) _ Suc.prems(4,5) k(2)] by blast
          moreover have "failed_at op plan io st2 (4 - Suc p) r' st' \<Longrightarrow> failed_at op plan io st (4 - p) r' st'" for r'
            using failed_at_from [of op plan io st2 "4 - Suc p" r' st' st 1 "4 - p"] 1(3,4) passed(2) same p by simp
          ultimately show ?thesis using passed(2,3) same by auto
        qed
      qed
    qed
  qed
  with raised passed failed show thesis by blast
qed

subsection \<open>The body and the whole\<close>

lemma informe_some:
  "informe op plan d ph vs l t (Some x) = Inr \<lparr>fr_operation_id = op, fr_disposition = d, fr_phase_reached = ph, fr_verdicts = vs,
      fr_lock = l, fr_journal_state = t, fr_archive_digest = Some x, fr_authorized_plan_digest = ap_plan_digest plan\<rparr>"
  by (simp add: informe_Inr)



lemma classify_valid:
  assumes "classify_protection_journal ex (if rd then Some raw else None) = Inr (Class_valid, Some j)"
  shows "ex \<and> rd \<and> parse_journal_bytes raw = Inr \<lparr>disposition = VALID, loaded_journal = Some j\<rparr>"
  using assms by (auto simp: classify_protection_journal_def res_bind_Inr split: if_splits option.splits intro: JournalLoadResult.equality)

text \<open>What one call comes to: it ends before it asks for the lock, it normalizes, it does not get the lock, or it runs
  the protocol under the lock.\<close>

lemma finalize_cases:
  assumes "finalize_protection_transaction sha repr op plan session io w = (res, w')"
  obtains (early) "w' = w" and "\<And>rep. res = Inr rep \<Longrightarrow> fr_disposition rep \<in> {Fin_INDETERMINATE, NOT_APPLICABLE} \<and> fr_verdicts rep = []"
  | (durable) j where "parse_journal_bytes (dj_file (fw_journal w)) = Inr \<lparr>disposition = VALID, loaded_journal = Some j\<rparr>"
      and "pj_transaction_state j = COMMITTED" and "normalizar_commit_ya_durable sha repr op plan io w = (res, w')"
  | (unlocked) e l t where "adquirir_lock_para_finalizacion plan session (fi_lock io) (fw_lock w) = (Inl e, l)"
      and "w' = w\<lparr>fw_lock := l\<rparr>" and "res = adquisicion_fallida op plan t e"
  | (locked) j h l st where "parse_journal_bytes (dj_file (fw_journal w)) = Inr \<lparr>disposition = VALID, loaded_journal = Some j\<rparr>"
      and "pj_transaction_state j \<in> FASES_ADMISIBLES" and "pj_authorized_plan_digest j = ap_plan_digest plan"
      and "\<And>n. n \<in> set (ap_nodes plan) \<Longrightarrow> node_state (dj_journal (fw_journal w)) (relative_path n) = Some MUTATED"
      and "adquirir_lock_para_finalizacion plan session (fi_lock io) (fw_lock w) = (Inr h, l)"
      and "con_lock sha repr op plan io \<lparr>fs_journal = fw_journal w, fs_lock = l, fs_handle = h, fs_verdicts = [],
             fs_estado = pj_transaction_state j, fs_escritos = fw_escritos w\<rparr> = (res, st)"
      and "w' = w\<lparr>fw_journal := fs_journal st, fw_lock := fs_lock st, fw_escritos := fs_escritos st\<rparr>"
      and "ap_operation_id plan = op" and "pj_operation_id (dj_journal (fw_journal w)) = op"
proof (cases "\<exists>u. exigir_operacion_coincidente op plan (fw_journal w) = Inr u")
  case False
  then obtain e where "exigir_operacion_coincidente op plan (fw_journal w) = Inl e" by (metis old.sum.exhaust)
  with assms show thesis by (intro early) (auto simp: finalize_protection_transaction_def Let_def)
next
  case True
  then obtain u where x: "exigir_operacion_coincidente op plan (fw_journal w) = Inr u" by blast
  then have ids: "ap_operation_id plan = op" "pj_operation_id (dj_journal (fw_journal w)) = op"
    by (auto simp: exigir_operacion_coincidente_def res_bind_Inr)
  let ?c = "classify_protection_journal (fi_journal_exists io) (if fi_journal_readable io then Some (dj_file (fw_journal w)) else None)"
  show thesis
  proof (cases "\<exists>j. ?c = Inr (Class_valid, Some j)")
    case False
    with assms x show thesis
      by (intro early) (auto simp: finalize_protection_transaction_def Let_def informe_Inr
          split: sum.splits prod.splits option.splits ProtectionJournalClassification.splits)
  next
    case True
    then obtain j where c: "?c = Inr (Class_valid, Some j)" by blast
    note v = classify_valid [OF c]
    show thesis
    proof (cases "pj_authorized_plan_digest j \<noteq> ap_plan_digest plan \<or> pj_transaction_state j \<noteq> COMMITTED
        \<and> (pj_transaction_state j \<notin> FASES_ADMISIBLES \<or> (\<exists>e. exigir_wal_de_aplicacion_completo (fw_journal w) plan = Inl e))")
      case True
      with assms x c show thesis
        by (intro early) (auto simp: finalize_protection_transaction_def Let_def informe_Inr split: if_splits sum.splits)
    next
      case b: False
      show thesis
      proof (cases "pj_transaction_state j = COMMITTED")
        case True
        with assms x c b v show thesis by (intro durable [of j]) (auto simp: finalize_protection_transaction_def Let_def)
      next
        case False
        with b obtain u' where wal: "exigir_wal_de_aplicacion_completo (fw_journal w) plan = Inr u'" by (metis old.sum.exhaust)
        obtain r l where a: "adquirir_lock_para_finalizacion plan session (fi_lock io) (fw_lock w) = (r, l)" by fastforce
        show thesis
        proof (cases r)
          case (Inl e)
          with assms x c b False wal a show thesis
            by (intro unlocked [of e l "pj_transaction_state j"]) (auto simp: finalize_protection_transaction_def Let_def)
        next
          case (Inr h)
          obtain r' st where k: "con_lock sha repr op plan io \<lparr>fs_journal = fw_journal w, fs_lock = l, fs_handle = h, fs_verdicts = [],
             fs_estado = pj_transaction_state j, fs_escritos = fw_escritos w\<rparr> = (r', st)" by fastforce
          with assms x c b False wal a Inr have "r' = res" "w' = w\<lparr>fw_journal := fs_journal st, fw_lock := fs_lock st, fw_escritos := fs_escritos st\<rparr>"
            by (auto simp: finalize_protection_transaction_def Let_def)
          with k v b False wal a Inr ids show thesis
            by (intro locked [of j h l st]) (auto simp: exigir_wal_de_aplicacion_completo_def filter_empty_conv)
        qed
      qed
    qed
  qed
qed

declare answers.simps [simp del]

lemma cuerpo_committed:
  assumes "cuerpo sha repr op plan io st = (Inr rep, st')" and "fr_disposition rep = Fin_COMMITTED" and "readable (fs_journal st)"
  obtains w k written vs1 vs2 h l r where "k \<in> {1..MAX_ARCHIVE_RETRIES}"
      and "archive_golden_backup sha repr plan (fi_archive io k) = (Inr w, written)"
      and "fr_verdicts rep = fs_verdicts st @ vs1 @ vs2 @ [archive_verdict sha w]" and "list_all gv_passed vs1"
      and "answers sha io (length (fs_verdicts st @ vs1)) (gates_de ARCHIVING_BACKUP) vs2"
      and "fr_archive_digest rep = Some (archive_digest sha (wo_durable w))"
      and "readable (fs_journal st')" and "advanced (dj_journal (fs_journal st)) (dj_journal (fs_journal st'))"
      and "pj_transaction_state (dj_journal (fs_journal st')) = COMMITTED" and "binds_to (wo_durable w) plan"
      and "release (fi_release_write io) (fi_release_flush io) (fs_handle st) (fs_lock st) = (r, h, l)"
      and "fs_handle st' = h" and "fs_lock st' = l" and "fl_released (fr_lock rep) = (\<not> isl r)"
proof -
  let ?i = "indice (fs_estado st) TRAMO_S4D"
  have i: "?i < 0 + int (length TRAMO_S4D)" by (simp add: TRAMO_S4D_def Let_def)
  have t: "TRAMO_S4D \<noteq> []" "last TRAMO_S4D = ARCHIVING_BACKUP" by (simp_all add: TRAMO_S4D_def)
  obtain r st1 where r: "recorrer sha op plan io ?i 0 TRAMO_S4D st = (r, st1)" by fastforce
  note e = recorrer_effect [OF r]
  have n: "r = Inr None"
  proof (rule ccontr)
    assume n: "r \<noteq> Inr None"
    with assms(1) r have "Inr rep = (case r of Inl x \<Rightarrow> Inl x | Inr (Some rep) \<Rightarrow> Inr rep)"
      by (auto simp: cuerpo_def Let_def split: sum.splits option.splits if_splits)
    with n e assms(2) show False by (cases r) (auto simp: no_commit_def)
  qed
  with assms(1) r have a: "archivar_y_comprometer sha repr op plan io st1 = (Inr rep, st')" by (auto simp: cuerpo_def Let_def split: if_splits)
  from e n i t obtain vs1 vs2 where vs: "fs_verdicts st1 = fs_verdicts st @ vs1 @ vs2" "list_all gv_passed vs1"
      "answers sha io (length (fs_verdicts st @ vs1)) (gates_de ARCHIVING_BACKUP) vs2"
      "fs_handle st1 = fs_handle st" "fs_lock st1 = fs_lock st" by metis
  note j = recorrer_readable [OF r [unfolded n] assms(3)]
  from a show thesis
  proof (cases rule: archivar_y_comprometer_cases)
    case (unarchived es)
    with assms(2) show thesis by (simp add: no_commit_def)
  next
    case (archived w es)
    have "(1::nat) \<le> MAX_ARCHIVE_RETRIES" by (simp add: MAX_ARCHIVE_RETRIES_def)
    from archivar_Inr [OF archived(1) this] obtain k written where
      k: "k \<in> {1..MAX_ARCHIVE_RETRIES}" "archive_golden_backup sha repr plan (fi_archive io k) = (Inr w, written)" by auto
    from archived(2) show thesis
    proof (cases rule: comprometer_cases)
      case uncommitted
      with assms(2) show thesis by (simp add: no_commit_def)
    next
      case (committed h l j' r')
      have c: "commit_finalized (fi_commit io) (fs_journal st1) (wo_durable w) plan = (Inr (), j')" using committed(1) by simp
      have f: "fs_journal st' = j'" "fs_handle st' = h" "fs_lock st' = l" using committed(3) by simp_all
      have "advanced (dj_journal (fs_journal st1)) (dj_journal j')" using readable_commit [OF _ c] j unfolding advanced_def by blast
      with readable_commit [OF _ c] j f advanced_trans
      have "readable (fs_journal st')" "advanced (dj_journal (fs_journal st)) (dj_journal (fs_journal st'))"
        "pj_transaction_state (dj_journal (fs_journal st')) = COMMITTED" "binds_to (wo_durable w) plan" by auto
      moreover have "fr_verdicts rep = fs_verdicts st @ vs1 @ vs2 @ [archive_verdict sha w]"
          "fr_archive_digest rep = Some (archive_digest sha (wo_durable w))" "fl_released (fr_lock rep) = (\<not> isl r')"
        using committed(4) vs(1) by (simp_all add: informe_some lock_outcome_def)
      moreover have "release (fi_release_write io) (fi_release_flush io) (fs_handle st) (fs_lock st) = (r', h, l)"
        using committed(2) vs(4,5) by simp
      ultimately show thesis using that k vs(2,3) f(2,3) by blast
    qed
  qed
qed

lemma con_lock_committed:
  assumes "con_lock sha repr op plan io st = (Inr rep, st')" and "fr_disposition rep = Fin_COMMITTED"
  shows "\<exists>st1. cuerpo sha repr op plan io st = (Inr rep, st1) \<and> st' = retener st1"
  using assms by (auto simp: con_lock_def informe_Inr split: prod.splits sum.splits if_splits)

text \<open>The normalization by its outcomes.\<close>

lemma normalizar_cases:
  assumes "normalizar_commit_ya_durable sha repr op plan io w = (res, w')"
  obtains (unproved) e where "load_durable_golden_backup sha repr plan (fi_backup io) = Inl e" and "w' = w"
      and "\<And>rep. res = Inr rep \<Longrightarrow> fr_disposition rep = Fin_INDETERMINATE \<and> fr_verdicts rep = []"
  | (unlocked) e l where "handle_de_recovery plan (fi_lock io) (fw_lock w) = (Inl e, l)" and "w' = w\<lparr>fw_lock := l\<rparr>"
      and "\<And>rep. res = Inr rep \<Longrightarrow> fr_disposition rep \<in> {Fin_INDETERMINATE, Fin_LOCK_BUSY} \<and> fr_verdicts rep = []"
  | (released) backup h l r h1 l1 rep where "load_durable_golden_backup sha repr plan (fi_backup io) = Inr backup"
      and "handle_de_recovery plan (fi_lock io) (fw_lock w) = (Inr h, l)"
      and "release (fi_release_write io) (fi_release_flush io) h l = (r, h1, l1)" and "w' = w\<lparr>fw_lock := l1\<rparr>"
      and "res = Inr rep" and "fr_disposition rep = ALREADY_COMMITTED" and "fr_verdicts rep = []"
      and "fr_archive_digest rep = Some (archive_digest sha backup)" and "fl_released (fr_lock rep) = (\<not> isl r)"
proof (cases "load_durable_golden_backup sha repr plan (fi_backup io)")
  case (Inl e)
  with assms show thesis
    by (intro unproved [of e]) (auto simp: normalizar_commit_ya_durable_def Let_def informe_Inr split: if_splits)
next
  case (Inr backup)
  obtain r l where h: "handle_de_recovery plan (fi_lock io) (fw_lock w) = (r, l)" by fastforce
  show thesis
  proof (cases r)
    case (Inl e)
    have "w' = w\<lparr>fw_lock := l\<rparr> \<and> (\<forall>rep. res = Inr rep \<longrightarrow> fr_disposition rep \<in> {Fin_INDETERMINATE, Fin_LOCK_BUSY} \<and> fr_verdicts rep = [])"
    proof (cases "\<exists>x. e = Fin_lock x")
      case True
      then obtain x where "e = Fin_lock x" by blast
      with assms Inr Inl h show ?thesis
        by (cases x) (auto simp: normalizar_commit_ya_durable_def Let_def informe_some split: if_splits)
    next
      case False
      with assms Inr Inl h show ?thesis by (cases e) (auto simp: normalizar_commit_ya_durable_def Let_def)
    qed
    with h Inl show thesis by (intro unlocked [of e l]) auto
  next
    case (Inr h')
    obtain r' h1 l1 where rel: "release (fi_release_write io) (fi_release_flush io) h' l = (r', h1, l1)"
      by (cases "release (fi_release_write io) (fi_release_flush io) h' l")
    then have "lh_closed h1" by (auto simp: release_def split: if_splits prod.splits)
    with assms \<open>load_durable_golden_backup sha repr plan (fi_backup io) = Inr backup\<close> h Inr rel show thesis
      by (intro released [of backup h' l r' h1 l1])
        (auto simp: normalizar_commit_ya_durable_def Let_def informe_some lock_outcome_def)
  qed
qed

lemma adquisicion_fallida_disp:
  assumes "adquisicion_fallida op plan t e = Inr rep"
  shows "fr_disposition rep \<in> {Fin_INDETERMINATE, Fin_LOCK_BUSY} \<and> fr_verdicts rep = []"
proof (cases "\<exists>x. e = Fin_lock x")
  case True
  then obtain x where "e = Fin_lock x" by blast
  with assms show ?thesis by (cases x) (auto simp: adquisicion_fallida_def Let_def informe_Inr split: if_splits)
next
  case False
  with assms show ?thesis by (cases e) (auto simp: adquisicion_fallida_def Let_def)
qed

lemma committed_facts:
  assumes "plan_valid sha plan" and "readable (fw_journal w)"
    and "finalize_protection_transaction sha repr op plan session io w = (Inr rep, w')" and "fr_disposition rep = Fin_COMMITTED"
  shows "\<exists>n a k. n + 5 = length (fr_verdicts rep) \<and> list_all gv_passed (fr_verdicts rep)
    \<and> answers sha io n [''gp1'', ''node_set'', ''quiescence'', ''rv2''] (take 4 (drop n (fr_verdicts rep)))
    \<and> k \<in> {1..MAX_ARCHIVE_RETRIES} \<and> ai_load (fi_archive io k) = File_bytes (canonical_bytes a)
    \<and> archive_valid sha a \<and> binds_to a plan \<and> fr_archive_digest rep = Some (archive_digest sha a)
    \<and> readable (fw_journal w') \<and> pj_transaction_state (dj_journal (fw_journal w')) = COMMITTED
    \<and> pj_operation_id (dj_journal (fw_journal w')) = op
    \<and> pj_authorized_plan_digest (dj_journal (fw_journal w')) = ap_plan_digest plan
    \<and> (\<forall>p \<in> set (ap_nodes plan). node_state (dj_journal (fw_journal w')) (relative_path p) = Some MUTATED)"
  using assms(3)
proof (cases rule: finalize_cases)
  case early
  then show ?thesis using assms(4) by fastforce
next
  case (durable j)
  from durable(3) have False by (cases rule: normalizar_cases) (use assms(4) in fastforce)+
  then show ?thesis ..
next
  case (unlocked e l t)
  with adquisicion_fallida_disp [of op plan t e rep] assms(4) have False by auto
  then show ?thesis ..
next
  case (locked j h l st)
  let ?st = "\<lparr>fs_journal = fw_journal w, fs_lock = l, fs_handle = h, fs_verdicts = [],
             fs_estado = pj_transaction_state j, fs_escritos = fw_escritos w\<rparr>"
  from con_lock_committed [OF locked(6) assms(4)] obtain st1 where
    c: "cuerpo sha repr op plan io ?st = (Inr rep, st1)" "st = retener st1" by blast
  have j: "j = dj_journal (fw_journal w)" using locked(1) assms(2) by (simp add: readable_def)
  have st: "readable (fs_journal ?st)" "fs_verdicts ?st = []" using assms(2) by simp_all
  from cuerpo_committed [OF c(1) assms(4) st(1), unfolded st(2) append_Nil] obtain x k written vs1 vs2 h' l' r where
    f: "k \<in> {1..MAX_ARCHIVE_RETRIES}" "archive_golden_backup sha repr plan (fi_archive io k) = (Inr x, written)"
      "fr_verdicts rep = vs1 @ vs2 @ [archive_verdict sha x]" "list_all gv_passed vs1"
      "answers sha io (length vs1) (gates_de ARCHIVING_BACKUP) vs2"
      "fr_archive_digest rep = Some (archive_digest sha (wo_durable x))" "readable (fs_journal st1)"
      "advanced (dj_journal (fw_journal w)) (dj_journal (fs_journal st1))"
      "pj_transaction_state (dj_journal (fs_journal st1)) = COMMITTED" "binds_to (wo_durable x) plan"
    by (metis (no_types) fin_state.select_convs(1))
  have p: "list_all gv_passed vs2" "length vs2 = 4" using answers_passed [OF f(5)] by simp_all
  have "ai_load (fi_archive io k) = File_bytes (canonical_bytes (wo_durable x)) \<and> archive_valid sha (wo_durable x)"
    using archive_create_once [OF assms(1) f(2)] by simp
  moreover have "take 4 (drop (length vs1) (fr_verdicts rep)) = vs2" using f(3) p(2) by simp
  moreover have "fw_journal w' = fs_journal st1" using locked(7) c(2) by simp
  ultimately show ?thesis using f p advanced_same [OF f(8)] advanced_node_state [OF f(8)] locked(3,4,9) j
    by (intro exI [of _ "length vs1"] exI [of _ "wo_durable x"] exI [of _ k]) (simp add: archive_verdict_def)
qed

text \<open>C5: a commit is proved: when a call reports COMMITTED, in this very run and after all other observations the port let
  gp1, node_set, quiescence and rv2 pass, no gate failed, the backup read back from disk is the canonical text of
  a manifest bound to the plan, and a reader of the journal finds it COMMITTED for the plan with all nodes MUTATED.\<close>

theorem committed_is_proved:
  assumes "plan_valid sha plan" and "readable (fw_journal w)"
    and "finalize_protection_transaction sha repr op plan session io w = (Inr rep, w')" and "fr_disposition rep = Fin_COMMITTED"
  shows "\<exists>n a k. n + 5 = length (fr_verdicts rep) \<and> list_all gv_passed (fr_verdicts rep)
    \<and> answers sha io n [''gp1'', ''node_set'', ''quiescence'', ''rv2''] (take 4 (drop n (fr_verdicts rep)))
    \<and> k \<in> {1..MAX_ARCHIVE_RETRIES} \<and> ai_load (fi_archive io k) = File_bytes (canonical_bytes a)
    \<and> archive_valid sha a \<and> binds_to a plan \<and> fr_archive_digest rep = Some (archive_digest sha a)
    \<and> readable (fw_journal w') \<and> pj_transaction_state (dj_journal (fw_journal w')) = COMMITTED
    \<and> pj_operation_id (dj_journal (fw_journal w')) = op
    \<and> pj_authorized_plan_digest (dj_journal (fw_journal w')) = ap_plan_digest plan
    \<and> (\<forall>p \<in> set (ap_nodes plan). node_state (dj_journal (fw_journal w')) (relative_path p) = Some MUTATED)"
  using assms by (rule committed_facts)

subsection \<open>The lock\<close>





subsection \<open>Failed gates\<close>







subsection \<open>A commit found on disk\<close>

text \<open>C8: a second finalization of a committed operation changes nothing but the lock: no gate is asked, nothing is
  written to the journal or the backup, and it reports the commit only with a backup that proves it.\<close>

theorem committed_replay:
  assumes "finalize_protection_transaction sha repr op plan session io w = (res, w')"
    and "readable (fw_journal w)" and "pj_transaction_state (dj_journal (fw_journal w)) = COMMITTED"
    and "plan_valid sha plan" and "build_golden_backup_archive plan = Inr b"
  shows "fw_journal w' = fw_journal w \<and> fw_escritos w' = fw_escritos w
    \<and> (\<forall>rep. res = Inr rep \<longrightarrow> fr_verdicts rep = [] \<and> fr_disposition rep \<notin> {Fin_COMMITTED, Fin_ROLLBACK_REQUIRED}
        \<and> (fr_disposition rep = ALREADY_COMMITTED \<longrightarrow>
             (\<exists>a. fi_backup io = File_bytes (canonical_bytes a) \<and> archive_valid sha a \<and> binds_to a plan
                \<and> fr_archive_digest rep = Some (archive_digest sha a))))"
  using assms(1)
proof (cases rule: finalize_cases)
  case early
  then show ?thesis by fastforce
next
  case (durable j)
  from durable(3) show ?thesis
  proof (cases rule: normalizar_cases)
    case (released backup h l r h1 l1 rep)
    with backup_exact [OF assms(4,5), of repr "fi_backup io" backup] show ?thesis by auto
  qed fastforce+
next
  case (unlocked e l t)
  with adquisicion_fallida_disp [of op plan t e] show ?thesis by fastforce
next
  case (locked j h l st)
  then have "j = dj_journal (fw_journal w)" using assms(2) by (simp add: readable_def)
  with locked(2) assms(3) show ?thesis by (simp add: FASES_ADMISIBLES_def)
qed

subsection \<open>Completion\<close>

lemma readable_append_succeeds:
  assumes "readable s" and "tx_allowed (pj_transaction_state (dj_journal s)) t" and "t \<noteq> APPLYING" and "printable_log s"
  shows "\<exists>s'. append_transaction healthy_io s t = (Inr (), s')"
proof -
  note rep = readable_replay [OF assms(1), THEN conjunct2]
  let ?r = "\<lparr>tx_sequence = pj_sequence (dj_journal s) + 1, tx_state = t\<rparr>"
  from assms(4) have "0 \<le> tx_sequence ?r \<and> nat (tx_sequence ?r) < 10 ^ MAX_INT_DIGITS"
    using replay_nodes(2) [OF rep] by (simp add: printable_log_def nat_add_distrib)
  then obtain l where "serialize_journal_record (Transaction_record ?r) = Inr l" using serialize_transaction [of ?r] by blast
  from append_record_ok [OF _ _ this replay_snoc_transaction [OF rep, of ?r]] assms show ?thesis
    using replay_nodes(2) [OF rep]
    by (simp add: readable_def append_transaction_def transaction_post_init_def validate_sequence_def)
qed

lemma phase_edge: "p < 4 \<Longrightarrow> previo p \<in> S4D_FINALIZATION_ENTRY_POINTS (TRAMO_S4D ! p) \<and> tx_allowed (previo p) (TRAMO_S4D ! p)
    \<and> TRAMO_S4D ! p \<noteq> APPLYING \<and> TRAMO_S4D ! p \<in> S4D_FINALIZATION_TARGETS"
  by (cases p; cases "p - 1"; cases "p - 2")
    (auto simp: TRAMO_S4D_def tx_allowed_def S4D_FINALIZATION_TARGETS_def nth_Cons split: nat.splits)

lemma phase_succeeds:
  assumes "readable s" and "pj_transaction_state (dj_journal s) = previo p" and "p < 4" and "printable_log s"
  shows "\<exists>s'. enter_finalization_phase healthy_io s (TRAMO_S4D ! p) = (Inr (), s')"
proof -
  note e = phase_edge [OF assms(3)]
  from e assms(2) have "tx_allowed (pj_transaction_state (dj_journal s)) (TRAMO_S4D ! p)" "TRAMO_S4D ! p \<noteq> APPLYING" by simp_all
  from readable_append_succeeds [OF assms(1) this assms(4)] obtain s' where
    a: "append_transaction healthy_io s (TRAMO_S4D ! p) = (Inr (), s')" by blast
  have "\<not> dj_durability_failed s" "dj_handle s" using assms(1) by (simp_all add: readable_def)
  with a e assms(2) show ?thesis
    by (simp add: enter_finalization_phase_def require_live_handle_def assert_transaction_transition_def tx_allowed_def)
qed

text \<open>A port for which every gate passes.\<close>

definition gates_pass :: "(string \<Rightarrow> string) \<Rightarrow> fin_io \<Rightarrow> bool" where
  "gates_pass sha io \<longleftrightarrow> (\<forall>n. \<forall>g \<in> {''gp1'', ''rv2'', ''node_set'', ''quiescence''}.
     \<exists>v. evaluar sha g (fi_observa io n g) = Inr v \<and> gv_passed v)"

lemma observar_todos_passes:
  assumes "gates_pass sha io" and "set gs \<subseteq> {''gp1'', ''rv2'', ''node_set'', ''quiescence''}"
  shows "\<exists>vs. observar_todos sha op plan io fase gs st = (Inr None, st\<lparr>fs_verdicts := fs_verdicts st @ vs\<rparr>)"
  using assms(2)
proof (induction gs arbitrary: st)
  case Nil
  show ?case by (auto intro: exI [of _ "[]"])
next
  case (Cons g gs)
  have "g \<in> {''gp1'', ''rv2'', ''node_set'', ''quiescence''}" using Cons.prems by (simp del: insert_iff)
  from bspec [OF spec [OF assms(1) [unfolded gates_pass_def]] this]
  obtain v where v: "evaluar sha g (fi_observa io (length (fs_verdicts st)) g) = Inr v" "gv_passed v" by blast
  have "set gs \<subseteq> {''gp1'', ''rv2'', ''node_set'', ''quiescence''}" using Cons.prems by simp
  from Cons.IH [OF this, of "st\<lparr>fs_verdicts := fs_verdicts st @ [v]\<rparr>"] obtain vs where
    "observar_todos sha op plan io fase gs (st\<lparr>fs_verdicts := fs_verdicts st @ [v]\<rparr>)
      = (Inr None, st\<lparr>fs_verdicts := fs_verdicts st @ [v] @ vs\<rparr>)" by auto
  with v have "observar_todos sha op plan io fase (g # gs) st = (Inr None, st\<lparr>fs_verdicts := fs_verdicts st @ (v # vs)\<rparr>)"
    by (simp add: observar_def Let_def)
  then show ?case by blast
qed

lemma gates_de_known: "set (gates_de fase) \<subseteq> {''gp1'', ''rv2'', ''node_set'', ''quiescence''}"
  by (cases fase) auto

lemma recorrer_succeeds:
  assumes "readable (fs_journal st)"
    and "pj_transaction_state (dj_journal (fs_journal st)) = previo (nat (max (int p) (inicial + 1)))" and "p \<le> 4"
    and "length (dj_records (fs_journal st)) + (4 - p) < 10 ^ MAX_INT_DIGITS"
    and "gates_pass sha io" and "fi_enter io = (\<lambda>_. healthy_io)"
  shows "\<exists>st'. recorrer sha op plan io inicial (int p) (drop p TRAMO_S4D) st = (Inr None, st')
    \<and> length (dj_records (fs_journal st')) \<le> length (dj_records (fs_journal st)) + (4 - p)"
  using assms(1-4)
proof (induction "4 - p" arbitrary: p st)
  case 0
  then show ?case by simp
next
  case (Suc k)
  then have p: "p < 4" and k: "k = 4 - Suc p" "Suc p \<le> 4" by simp_all
  let ?fase = "TRAMO_S4D ! p"
  show ?case
  proof (cases "int p < inicial")
    case True
    then have "max (int (Suc p)) (inicial + 1) = max (int p) (inicial + 1)" by simp
    then have "pj_transaction_state (dj_journal (fs_journal st)) = previo (nat (max (int (Suc p)) (inicial + 1)))"
      using Suc.prems(2) by (simp only:)
    with Suc(1) [OF k(1) Suc.prems(1) _ k(2)] Suc.prems(4) True p show ?thesis
      by (fastforce simp: drop_tramo add.commute)
  next
    case False
    have "\<exists>st1. (if int p > inicial then entrar_fase io ?fase st else (Inr (), st)) = (Inr (), st1) \<and> readable (fs_journal st1)
        \<and> pj_transaction_state (dj_journal (fs_journal st1)) = ?fase
        \<and> length (dj_records (fs_journal st1)) \<le> Suc (length (dj_records (fs_journal st)))"
    proof (cases "int p > inicial")
      case True
      then have "max (int p) (inicial + 1) = int p" by simp
      then have "pj_transaction_state (dj_journal (fs_journal st)) = previo p" using Suc.prems(2) by simp
      moreover have "printable_log (fs_journal st)" using Suc.prems(4) p by (simp add: printable_log_def)
      ultimately obtain j where j: "enter_finalization_phase healthy_io (fs_journal st) ?fase = (Inr (), j)"
        using phase_succeeds [OF Suc.prems(1) _ p] by blast
      with readable_phase [OF Suc.prems(1) j] True assms(6) show ?thesis by (simp add: entrar_fase_def)
    next
      case f: False
      then have "max (int p) (inicial + 1) = int (Suc p)" using False by simp
      with f Suc.prems(1,2) show ?thesis by (simp add: nat_add_distrib)
    qed
    then obtain st1 where s: "(if int p > inicial then entrar_fase io ?fase st else (Inr (), st)) = (Inr (), st1)"
        "readable (fs_journal st1)" "pj_transaction_state (dj_journal (fs_journal st1)) = ?fase"
        "length (dj_records (fs_journal st1)) \<le> Suc (length (dj_records (fs_journal st)))" by blast
    obtain vs where o: "observar_todos sha op plan io ?fase (gates_de ?fase) st1 = (Inr None, st1\<lparr>fs_verdicts := fs_verdicts st1 @ vs\<rparr>)"
      using observar_todos_passes [OF assms(5) gates_de_known] by blast
    let ?st2 = "st1\<lparr>fs_verdicts := fs_verdicts st1 @ vs\<rparr>"
    have "max (int (Suc p)) (inicial + 1) = int (Suc p)" using False by simp
    then have "pj_transaction_state (dj_journal (fs_journal ?st2)) = previo (nat (max (int (Suc p)) (inicial + 1)))"
      using s(3) by (simp add: nat_add_distrib)
    moreover have "readable (fs_journal ?st2)" "length (dj_records (fs_journal ?st2)) + (4 - Suc p) < 10 ^ MAX_INT_DIGITS"
      using s(2,4) Suc.prems(4) p by simp_all
    ultimately obtain st' where
      r: "recorrer sha op plan io inicial (int (Suc p)) (drop (Suc p) TRAMO_S4D) ?st2 = (Inr None, st')"
         "length (dj_records (fs_journal st')) \<le> length (dj_records (fs_journal ?st2)) + (4 - Suc p)"
      using Suc(1) [OF k(1) _ _ k(2)] by blast
    with False p s(1,4) o show ?thesis by (auto simp: drop_tramo add.commute)
  qed
qed

text \<open>The archive succeeds within the attempts: before, only failures that are tried again.\<close>

definition archive_succeeds ::
  "(string \<Rightarrow> string) \<Rightarrow> (json \<Rightarrow> string) \<Rightarrow> AuthorizedPlan \<Rightarrow> fin_io \<Rightarrow> GoldenBackupWriteOutcome \<Rightarrow> bool" where
  "archive_succeeds sha repr plan io w \<longleftrightarrow> (\<exists>k \<in> {1..MAX_ARCHIVE_RETRIES}.
     fst (archive_golden_backup sha repr plan (fi_archive io k)) = Inr w
     \<and> (\<forall>i \<in> {1..<k}. \<exists>e. fst (archive_golden_backup sha repr plan (fi_archive io i)) = Inl e \<and> archivo_reintentable e))"

lemma archivar_succeeds:
  assumes "n \<le> k" and "k \<le> MAX_ARCHIVE_RETRIES" and "fst (archive_golden_backup sha repr plan (fi_archive io k)) = Inr w"
    and "\<And>i. n \<le> i \<Longrightarrow> i < k \<Longrightarrow> \<exists>e. fst (archive_golden_backup sha repr plan (fi_archive io i)) = Inl e \<and> archivo_reintentable e"
  shows "\<exists>es'. archivar sha repr plan io n es = (Inr w, es')"
  using assms
proof (induction "k - n" arbitrary: n es)
  case 0
  then have n: "n = k" by simp
  obtain written where "archive_golden_backup sha repr plan (fi_archive io n) = (Inr w, written)"
    using 0(4) n by (metis prod.collapse)
  then show ?case by (subst archivar.simps) simp
next
  case (Suc m)
  then have nk: "n < k" "m = k - Suc n" "Suc n \<le> k" by simp_all
  obtain e where e: "fst (archive_golden_backup sha repr plan (fi_archive io n)) = Inl e" "archivo_reintentable e"
    using Suc.prems(4) [of n] nk(1) by blast
  then obtain written where a: "archive_golden_backup sha repr plan (fi_archive io n) = (Inl e, written)" by (metis prod.collapse)
  let ?es = "es @ (case written of None \<Rightarrow> [] | Some payload \<Rightarrow> [payload])"
  obtain es' where "archivar sha repr plan io (Suc n) ?es = (Inr w, es')"
    using Suc(1) [OF nk(2,3) Suc.prems(2,3), of ?es] Suc.prems(4) by auto
  moreover have "archivar sha repr plan io n es = archivar sha repr plan io (Suc n) ?es"
    using e(2) nk(1) Suc.prems(2) by (subst archivar.simps) (simp add: a Let_def)
  ultimately show ?case by simp
qed

lemma cuerpo_succeeds:
  assumes "readable (fs_journal st)" and "pj_transaction_state (dj_journal (fs_journal st)) = fs_estado st" and "fs_estado st \<in> FASES_ADMISIBLES"
    and "pj_authorized_plan_digest (dj_journal (fs_journal st)) = ap_plan_digest plan"
    and "length (dj_records (fs_journal st)) + 6 < 10 ^ MAX_INT_DIGITS"
    and "gates_pass sha io" and "fi_enter io = (\<lambda>_. healthy_io)" and "fi_commit io = healthy_io"
    and "archive_succeeds sha repr plan io w" and "\<And>x. length (sha x) = 64"
  shows "\<exists>rep st'. cuerpo sha repr op plan io st = (Inr rep, st') \<and> fr_disposition rep = Fin_COMMITTED"
proof -
  let ?i = "indice (fs_estado st) TRAMO_S4D"
  note i = indice_tramo [OF assms(3)]
  have s: "pj_transaction_state (dj_journal (fs_journal st)) = previo (nat (max (int 0) (?i + 1)))"
    using i assms(2) by (simp add: max_def)
  have n: "length (dj_records (fs_journal st)) + (4 - 0) < 10 ^ MAX_INT_DIGITS" using assms(5) by linarith
  from recorrer_succeeds [OF assms(1) s _ n assms(6,7)] obtain st1 where
    r: "recorrer sha op plan io ?i (int 0) (drop 0 TRAMO_S4D) st = (Inr None, st1)"
       "length (dj_records (fs_journal st1)) \<le> length (dj_records (fs_journal st)) + 4" by auto
  have i2: "- 1 \<le> ?i" "?i < 4" "(0::nat) \<le> 4" using i by simp_all
  from r(1) assms(1) s i2 have arch: "pj_transaction_state (dj_journal (fs_journal st1)) = ARCHIVING_BACKUP"
  proof (cases rule: recorrer_cases)
    case (failed x)
    then show ?thesis by (cases x) simp_all
  qed simp_all
  have rj: "readable (fs_journal st1)" "advanced (dj_journal (fs_journal st)) (dj_journal (fs_journal st1))"
    using recorrer_readable [OF r(1) assms(1)] by simp_all
  from assms(9) obtain k where k: "k \<in> {1..MAX_ARCHIVE_RETRIES}" "fst (archive_golden_backup sha repr plan (fi_archive io k)) = Inr w"
      "\<forall>i \<in> {1..<k}. \<exists>e. fst (archive_golden_backup sha repr plan (fi_archive io i)) = Inl e \<and> archivo_reintentable e"
    unfolding archive_succeeds_def by blast
  have k2: "1 \<le> k" "k \<le> MAX_ARCHIVE_RETRIES" using k(1) by simp_all
  obtain es where a: "archivar sha repr plan io 1 (fs_escritos st1) = (Inr w, es)"
    using archivar_succeeds [OF k2 k(2), of "fs_escritos st1"] k(3) by auto
  obtain written where "archive_golden_backup sha repr plan (fi_archive io k) = (Inr w, written)" using k(2) by (metis prod.collapse)
  from archive_result [OF this] have b: "binds_to (wo_durable w) plan" by (auto simp: load_backup_Inr)
  then have d: "gba_authorized_plan_digest (wo_durable w) = pj_authorized_plan_digest (dj_journal (fs_journal st1))"
    using assms(4) advanced_same [OF rj(2)] by (simp add: binds_to_def)
  have ver: "gate_verdict_post_init (archive_verdict sha w) = Inr (archive_verdict sha w)"
  proof -
    have "py_strip ''archive'' = ''archive''" by (rule py_strip_graphic) (auto simp: graphic_def)
    then show ?thesis using assms(10) by (simp add: gate_verdict_post_init_def archive_verdict_def archive_digest_def)
  qed
  have "tx_allowed ARCHIVING_BACKUP COMMITTED" by (simp add: tx_allowed_def)
  moreover have "printable_log (fs_journal st1)" using r(2) assms(5) by (simp add: printable_log_def)
  ultimately obtain j where j: "append_transaction healthy_io (fs_journal st1) COMMITTED = (Inr (), j)"
    using readable_append_succeeds [OF rj(1), of COMMITTED] arch by auto
  have "\<not> dj_durability_failed (fs_journal st1)" "dj_handle (fs_journal st1)" using rj(1) by (simp_all add: readable_def)
  then have c: "commit_finalized healthy_io (fs_journal st1) (wo_durable w) plan = (Inr (), j)"
    using arch b d j by (simp add: commit_finalized_def require_live_handle_def assert_transaction_transition_def)
  obtain rr h l where rel: "release (fi_release_write io) (fi_release_flush io) (fs_handle st1) (fs_lock st1) = (rr, h, l)"
    by (cases "release (fi_release_write io) (fi_release_flush io) (fs_handle st1) (fs_lock st1)")
  from r(1) i have "cuerpo sha repr op plan io st = archivar_y_comprometer sha repr op plan io st1" by (auto simp: cuerpo_def Let_def)
  also have "\<exists>rep st'. \<dots> = (Inr rep, st') \<and> fr_disposition rep = Fin_COMMITTED"
    by (simp add: archivar_y_comprometer_def a [unfolded One_nat_def] ver comprometer_def Let_def assms(8) c rel informe_some)
  finally show ?thesis .
qed

lemma finalize_locked:
  assumes "readable (fw_journal w)" and "pj_transaction_state (dj_journal (fw_journal w)) \<in> FASES_ADMISIBLES"
    and "pj_operation_id (dj_journal (fw_journal w)) = op" and "ap_operation_id plan = op"
    and "pj_authorized_plan_digest (dj_journal (fw_journal w)) = ap_plan_digest plan"
    and "\<And>n. n \<in> set (ap_nodes plan) \<Longrightarrow> node_state (dj_journal (fw_journal w)) (relative_path n) = Some MUTATED"
    and "fi_journal_exists io" and "fi_journal_readable io"
    and "adquirir_lock_para_finalizacion plan session (fi_lock io) (fw_lock w) = (Inr h, l)"
    and "con_lock sha repr op plan io \<lparr>fs_journal = fw_journal w, fs_lock = l, fs_handle = h, fs_verdicts = [],
             fs_estado = pj_transaction_state (dj_journal (fw_journal w)), fs_escritos = fw_escritos w\<rparr> = (res, st)"
  shows "finalize_protection_transaction sha repr op plan session io w =
    (res, w\<lparr>fw_journal := fs_journal st, fw_lock := fs_lock st, fw_escritos := fs_escritos st\<rparr>)"
proof -
  have "classify_protection_journal True (Some (dj_file (fw_journal w))) = Inr (Class_valid, Some (dj_journal (fw_journal w)))"
    using assms(1) by (simp add: classify_protection_journal_def readable_def)
  moreover have "exigir_wal_de_aplicacion_completo (fw_journal w) plan = Inr ()"
    using assms(6) by (simp add: exigir_wal_de_aplicacion_completo_def filter_empty_conv)
  moreover have "exigir_operacion_coincidente op plan (fw_journal w) = Inr ()"
    using assms(3,4) by (simp add: exigir_operacion_coincidente_def)
  moreover have "pj_transaction_state (dj_journal (fw_journal w)) \<noteq> COMMITTED" using assms(2) by (auto simp: FASES_ADMISIBLES_def)
  ultimately show ?thesis using assms(2,5,7-10) by (simp add: finalize_protection_transaction_def)
qed

text \<open>Where a finalization can get the lock and give it back.\<close>

definition lock_available :: "AuthorizedPlan \<Rightarrow> fin_io \<Rightarrow> string \<Rightarrow> lock_world \<Rightarrow> bool" where
  "lock_available plan io key w \<longleftrightarrow> derive_golden_lock_key (ap_volume_serial_number plan) (ap_root_file_id plan) = Inr key
     \<and> canonical_uuid (ap_operation_id plan) \<and> \<not> lw_open w \<and> may_take True key (ap_operation_id plan) (fi_lock io) w
     \<and> lock_io_ok key (ap_volume_serial_number plan) (ap_root_file_id plan) (ap_operation_id plan) (fi_lock io)
     \<and> fi_release_write io = Written \<and> fi_release_flush io"

lemma lock_taken_and_released:
  assumes "lock_available plan io key w"
  shows "\<exists>h l. handle_de_recovery plan (fi_lock io) w = (Inr h, l)
    \<and> (\<exists>h1 l1. release (fi_release_write io) (fi_release_flush io) h l = (Inr True, h1, l1) \<and> lh_closed h1
        \<and> (\<forall>op' io'. canonical_uuid op' \<longrightarrow> lock_io_ok key (ap_volume_serial_number plan) (ap_root_file_id plan) op' io' \<longrightarrow>
             (\<exists>a w2. acquire_golden_mutation_lock (ap_volume_serial_number plan) (ap_root_file_id plan) op' io' l1 = (Inr a, w2))))"
proof -
  let ?v = "ap_volume_serial_number plan" and ?f = "ap_root_file_id plan" and ?op = "ap_operation_id plan"
  obtain i where i: "fresh_identity key ?v ?f ?op (fi_lock io) = Inr i" using assms by (auto simp: lock_available_def lock_io_ok_def)
  note t = fresh_identity_Inr [OF i]
  obtain a where a: "acquire_with True ?v ?f ?op (fi_lock io) w = (Inr a, \<lparr>lw_bytes = serialize_golden_lock_metadata (li_metadata i), lw_open = True\<rparr>)"
      "ra_identity a = i"
    using acquire_free [of ?v ?f key ?op w True "fi_lock io" i] assms i by (auto simp: lock_available_def lock_io_ok_def)
  let ?h = "\<lparr>lh_identity = i, lh_closed = False\<rparr>" and ?l = "\<lparr>lw_bytes = serialize_golden_lock_metadata (li_metadata i), lw_open = True\<rparr>"
  have h: "handle_de_recovery plan (fi_lock io) w = (Inr ?h, ?l)"
    using a by (simp add: handle_de_recovery_def acquire_golden_mutation_lock_for_recovery_def)
  let ?h1 = "?h\<lparr>lh_closed := True\<rparr>" and ?l1 = "\<lparr>lw_bytes = serialize_golden_lock_metadata (released_metadata ?h), lw_open = False\<rparr>"
  have r: "release (fi_release_write io) (fi_release_flush io) ?h ?l = (Inr True, ?h1, ?l1)"
    using release_open [of ?h ?l] t assms by (simp add: lock_available_def)
  have "lock_text_ok (released_metadata ?h)" using t by (simp add: released_metadata_def)
  then have m: "may_take False key op' io' ?l1" for op' io'
    using deserialize_metadata_serialize [of "released_metadata ?h"] t by (auto simp: may_take_def released_metadata_def)
  have "\<exists>a w2. acquire_golden_mutation_lock ?v ?f op' io' ?l1 = (Inr a, w2)"
    if "canonical_uuid op'" "lock_io_ok key ?v ?f op' io'" for op' io'
    using acquire_free [of ?v ?f key op' ?l1 False io'] m [of op' io'] assms that
    by (auto simp: lock_available_def lock_io_ok_def acquire_golden_mutation_lock_def)
  with h r show ?thesis by (intro exI [of _ ?h] exI [of _ ?l] conjI exI [of _ ?h1] exI [of _ ?l1]) auto
qed

lemma completes:
  assumes "readable (fw_journal w)" and "pj_transaction_state (dj_journal (fw_journal w)) \<in> FASES_ADMISIBLES"
    and "pj_operation_id (dj_journal (fw_journal w)) = op" and "ap_operation_id plan = op"
    and "pj_authorized_plan_digest (dj_journal (fw_journal w)) = ap_plan_digest plan"
    and "\<And>n. n \<in> set (ap_nodes plan) \<Longrightarrow> node_state (dj_journal (fw_journal w)) (relative_path n) = Some MUTATED"
    and "length (dj_records (fw_journal w)) + 6 < 10 ^ MAX_INT_DIGITS"
    and "fi_journal_exists io" and "fi_journal_readable io" and "fi_enter io = (\<lambda>_. healthy_io)" and "fi_commit io = healthy_io"
    and "gates_pass sha io" and "archive_succeeds sha repr plan io b" and "\<And>x. length (sha x) = 64"
    and "lock_available plan io key (fw_lock w)"
    and "finalize_protection_transaction sha repr op plan None io w = (res, w')"
    and "canonical_uuid op'" and "lock_io_ok key (ap_volume_serial_number plan) (ap_root_file_id plan) op' io'"
  shows "(\<exists>rep. res = Inr rep \<and> fr_disposition rep = Fin_COMMITTED \<and> fl_released (fr_lock rep))
    \<and> (\<exists>a w2. acquire_golden_mutation_lock (ap_volume_serial_number plan) (ap_root_file_id plan) op' io' (fw_lock w') = (Inr a, w2))"
proof -
  from lock_taken_and_released [OF assms(15)] obtain h l h1 l1 where
    h: "handle_de_recovery plan (fi_lock io) (fw_lock w) = (Inr h, l)"
       "release (fi_release_write io) (fi_release_flush io) h l = (Inr True, h1, l1)" "lh_closed h1"
       "\<exists>a w2. acquire_golden_mutation_lock (ap_volume_serial_number plan) (ap_root_file_id plan) op' io' l1 = (Inr a, w2)"
    using assms(17,18) by blast
  let ?st = "\<lparr>fs_journal = fw_journal w, fs_lock = l, fs_handle = h, fs_verdicts = [],
             fs_estado = pj_transaction_state (dj_journal (fw_journal w)), fs_escritos = fw_escritos w\<rparr>"
  have s: "readable (fs_journal ?st)" "pj_transaction_state (dj_journal (fs_journal ?st)) = fs_estado ?st" "fs_estado ?st \<in> FASES_ADMISIBLES"
      "pj_authorized_plan_digest (dj_journal (fs_journal ?st)) = ap_plan_digest plan"
      "length (dj_records (fs_journal ?st)) + 6 < 10 ^ MAX_INT_DIGITS"
    using assms(1,2,5,7) by simp_all
  from cuerpo_succeeds [OF s assms(12,10,11,13,14)] obtain rep st1 where
    c: "cuerpo sha repr op plan io ?st = (Inr rep, st1)" "fr_disposition rep = Fin_COMMITTED" by blast
  have rel: "fs_handle st1 = h1" "fs_lock st1 = l1" "fl_released (fr_lock rep)"
    using c(1,2) s(1) by (rule cuerpo_committed; use h(2) in simp)+
  have k: "con_lock sha repr op plan io ?st = (Inr rep, retener st1)" using c(1) by (simp add: con_lock_def)
  have l: "fs_lock (retener st1) = l1" using rel h(3) by (simp add: retener_def retain_for_inspection_def)
  have "adquirir_lock_para_finalizacion plan None (fi_lock io) (fw_lock w) = (Inr h, l)"
    using h(1) by (simp add: adquirir_lock_para_finalizacion_def)
  from finalize_locked [OF assms(1-6,8,9) this k] assms(16) l rel(3) c(2) h(4) show ?thesis by auto
qed

text \<open>C9: nothing but an obstacle stops a finalization: from any of its phases, with a healthy disk, gates that pass, an
  archive that succeeds within its attempts and a lock that is to be had, it commits, gives the lock back, and any
  other operation can take it.\<close>

theorem finalization_completes:
  assumes "readable (fw_journal w)" and "pj_transaction_state (dj_journal (fw_journal w)) \<in> FASES_ADMISIBLES"
    and "pj_operation_id (dj_journal (fw_journal w)) = op" and "ap_operation_id plan = op"
    and "pj_authorized_plan_digest (dj_journal (fw_journal w)) = ap_plan_digest plan"
    and "\<And>n. n \<in> set (ap_nodes plan) \<Longrightarrow> node_state (dj_journal (fw_journal w)) (relative_path n) = Some MUTATED"
    and "length (dj_records (fw_journal w)) + 6 < 10 ^ MAX_INT_DIGITS"
    and "fi_journal_exists io" and "fi_journal_readable io" and "fi_enter io = (\<lambda>_. healthy_io)" and "fi_commit io = healthy_io"
    and "gates_pass sha io" and "archive_succeeds sha repr plan io b" and "\<And>x. length (sha x) = 64"
    and "lock_available plan io key (fw_lock w)"
    and "finalize_protection_transaction sha repr op plan None io w = (res, w')"
    and "canonical_uuid op'" and "lock_io_ok key (ap_volume_serial_number plan) (ap_root_file_id plan) op' io'"
  shows "(\<exists>rep. res = Inr rep \<and> fr_disposition rep = Fin_COMMITTED \<and> fl_released (fr_lock rep))
    \<and> (\<exists>a w2. acquire_golden_mutation_lock (ap_volume_serial_number plan) (ap_root_file_id plan) op' io' (fw_lock w') = (Inr a, w2))"
  using assms by (rule completes)


end
