(* ===== verification/Mutation_Executor.thy ===== *)
theory Mutation_Executor
  imports Protection_Runs
begin

text \<open>
  The orchestrator that applies the authorized access lists to the nodes of a plan and undoes them on
  a failure (\<open>local/runtime_vault/mutation_executor.py\<close>).

  The port through which a node is opened, read, mutated and restored drives Windows; it is a record
  of functions on an environment \<open>'g\<close> that they may change, and every call may raise. What the code
  relies on is \<open>port_laws\<close>, about the descriptor that each node has in an environment. The outcomes
  of the journal's appends are a list that the calls consume; when it is exhausted they succeed.
\<close>

subsection \<open>The port\<close>

record NodeIdentity =
  ni_volume_serial_number :: int
  ni_file_id :: int
  ni_reparse_tag :: int
  ni_number_of_links :: int

datatype exec_error = Apply_error | Permit_error | Authority_error | Rollback_error

text \<open>An exception of a call: one of the module's own, or any other.\<close>

datatype port_exc = Exec_exc exec_error | Other_exc

type_synonym node_path = "string \<times> string list"

record 'g port =
  p_probe :: "node_path \<Rightarrow> GoldenProtectionNodeKind \<Rightarrow> ('g, port_exc, unit) action"
  p_open :: "node_path \<Rightarrow> GoldenProtectionNodeKind \<Rightarrow> ('g, port_exc, int) action"
  p_close :: "int \<Rightarrow> 'g \<Rightarrow> 'g"
  p_read_identity :: "int \<Rightarrow> ('g, port_exc, NodeIdentity) action"
  p_read_live_pre_sd_sha256 :: "int \<Rightarrow> ('g, port_exc, string) action"
  p_apply_target_dacl :: "int \<Rightarrow> NodeSecurityBackup \<Rightarrow> ('g, port_exc, unit) action"
  p_verify_target_dacl :: "int \<Rightarrow> NodeSecurityBackup \<Rightarrow> ('g, port_exc, unit) action"
  p_restore_pre_sd :: "int \<Rightarrow> NodeSecurityBackup \<Rightarrow> ('g, port_exc, unit) action"
  p_verify_restored_pre_sd :: "int \<Rightarrow> NodeSecurityBackup \<Rightarrow> ('g, port_exc, unit) action"
  p_setsecurityinfo_calls :: "'g \<Rightarrow> nat"

record 'g exec_world =
  ew_env :: 'g
  ew_journal :: DurableProtectionJournal
  ew_io :: "journal_io list"

definition on_env :: "('g, 'e, 'a) action \<Rightarrow> ('g exec_world, 'e, 'a) action" where
  "on_env m w = (case m (ew_env w) of (r, g) \<Rightarrow> (r, w\<lparr>ew_env := g\<rparr>))"

definition next_io :: "journal_io list \<Rightarrow> journal_io" where
  "next_io ios = (case ios of [] \<Rightarrow> \<lparr>io_append = Append_ok, io_flush = Flush_true\<rparr> | io # _ \<Rightarrow> io)"

text \<open>A call of the journal. Its exceptions are none of the executor's own.\<close>

definition on_journal ::
  "(journal_io \<Rightarrow> DurableProtectionJournal \<Rightarrow> (store_error + 'a) \<times> DurableProtectionJournal)
    \<Rightarrow> ('g exec_world, port_exc, 'a) action" where
  "on_journal f w =
     (case f (next_io (ew_io w)) (ew_journal w) of
        (r, j) \<Rightarrow> (map_sum (\<lambda>_. Other_exc) id r, w\<lparr>ew_journal := j, ew_io := tl (ew_io w)\<rparr>))"

subsection \<open>Gates\<close>

definition derive_node_path :: "AuthorizedPlan \<Rightarrow> string \<Rightarrow> node_path" where
  "derive_node_path plan path = (ap_canonical_root plan, if path = ''.'' then [] else split_on (CHR ''/'') path)"

record boundary_session =
  bs_closed :: bool
  bs_lock_closed :: bool
  bs_operation_id :: string
  bs_volume_serial_number :: int
  bs_root_file_id :: int

definition require_authority ::
  "AuthorizedPlan \<Rightarrow> DurableProtectionJournal \<Rightarrow> boundary_session \<Rightarrow> exec_error + unit" where
  "require_authority plan journal session =
     (if bs_closed session then Inl Authority_error
      else if bs_lock_closed session then Inl Authority_error
      else if bs_operation_id session \<noteq> ap_operation_id plan \<or> pj_operation_id (dj_journal journal) \<noteq> ap_operation_id plan
        then Inl Authority_error
      else if bs_volume_serial_number session \<noteq> ap_volume_serial_number plan
          \<or> bs_root_file_id session \<noteq> ap_root_file_id plan then Inl Authority_error
      else if pj_authorized_plan_digest (dj_journal journal) \<noteq> ap_plan_digest plan then Inl Authority_error
      else Inr ())"

definition require_applying_state :: "DurableProtectionJournal \<Rightarrow> exec_error + unit" where
  "require_applying_state journal =
     (if pj_transaction_state (dj_journal journal) \<noteq> APPLYING then Inl Authority_error else Inr ())"

definition require_identity :: "NodeSecurityBackup \<Rightarrow> NodeIdentity \<Rightarrow> port_exc + unit" where
  "require_identity node observed =
     (if ni_volume_serial_number observed \<noteq> volume_serial_number node then Inl (Exec_exc Apply_error)
      else if ni_file_id observed \<noteq> file_id node then Inl (Exec_exc Apply_error)
      else if ni_reparse_tag observed \<noteq> 0 then Inl (Exec_exc Apply_error) else Inr ())"

definition require_single_link :: "NodeSecurityBackup \<Rightarrow> NodeIdentity \<Rightarrow> port_exc + unit" where
  "require_single_link node observed =
     (if node_kind node = FILE \<and> ni_number_of_links observed \<noteq> 1 then Inl (Exec_exc Apply_error) else Inr ())"

definition require_live_pre_sd :: "NodeSecurityBackup \<Rightarrow> string \<Rightarrow> port_exc + unit" where
  "require_live_pre_sd node observed = (if observed \<noteq> pre_sd_sha256 node then Inl (Exec_exc Apply_error) else Inr ())"

definition require_permit :: "WalMutationPermit \<Rightarrow> AuthorizedPlan \<Rightarrow> NodeSecurityBackup \<Rightarrow> port_exc + unit" where
  "require_permit permit plan node =
     (if wp_consumed permit then Inl (Exec_exc Permit_error)
      else if wp_operation_id permit \<noteq> ap_operation_id plan then Inl (Exec_exc Permit_error)
      else if wp_authorized_plan_digest permit \<noteq> ap_plan_digest plan then Inl (Exec_exc Permit_error)
      else if permit_binding permit \<noteq> binding_from_node node then Inl (Exec_exc Permit_error)
      else Inr ())"

subsection \<open>One node\<close>

record NodeMutationOutcome =
  mo_relative_path :: string
  mo_node_kind :: GoldenProtectionNodeKind
  mo_applied :: bool
  mo_mutated :: bool
  mo_rolled_back :: bool

definition fresh_outcome :: "NodeSecurityBackup \<Rightarrow> NodeMutationOutcome" where
  "fresh_outcome n = \<lparr>mo_relative_path = relative_path n, mo_node_kind = node_kind n, mo_applied = False, mo_mutated = False, mo_rolled_back = False\<rparr>"

text \<open>An exception of the module is kept; any other becomes the given one.\<close>

fun wrap_exc :: "exec_error \<Rightarrow> port_exc \<Rightarrow> exec_error" where
  "wrap_exc _ (Exec_exc e) = e"
| "wrap_exc d Other_exc = d"

definition lift_store :: "store_error + 'a \<Rightarrow> port_exc + 'a" where
  "lift_store r = map_sum (\<lambda>_. Other_exc) id r"

text \<open>Steps 5 to 15: everything that must hold before the descriptor is touched.\<close>

definition before_mutation ::
  "'g port \<Rightarrow> AuthorizedPlan \<Rightarrow> NodeSecurityBackup \<Rightarrow> int \<Rightarrow> ('g exec_world, port_exc, unit) action" where
  "before_mutation port plan node handle =
     st_bind (on_env (p_read_identity port handle)) (\<lambda>observed.
     st_bind (st_lift (require_identity node observed)) (\<lambda>_.
     st_bind (st_lift (require_single_link node observed)) (\<lambda>_.
     st_bind (on_env (p_read_live_pre_sd_sha256 port handle)) (\<lambda>sha.
     st_bind (st_lift (require_live_pre_sd node sha)) (\<lambda>_.
     st_bind (\<lambda>w. (lift_store (node_binding (ew_journal w) (relative_path node)), w)) (\<lambda>binding.
     st_bind (on_journal (\<lambda>io j. record_node_mutation_intent io j binding)) (\<lambda>permit.
     st_bind (on_env (p_read_identity port handle)) (\<lambda>again.
     st_bind (st_lift (require_single_link node again)) (\<lambda>_.
     st_lift (require_permit permit plan node))))))))))"

definition after_mutation ::
  "'g port \<Rightarrow> NodeSecurityBackup \<Rightarrow> int \<Rightarrow> ('g exec_world, port_exc, unit) action" where
  "after_mutation port node handle =
     st_bind (on_env (p_verify_target_dacl port handle node)) (\<lambda>_.
     st_bind (\<lambda>w. (lift_store (node_binding (ew_journal w) (relative_path node)), w)) (\<lambda>binding.
     on_journal (\<lambda>io j. record_node_mutation_completed io j binding)))"

definition node_body ::
  "'g port \<Rightarrow> AuthorizedPlan \<Rightarrow> NodeSecurityBackup \<Rightarrow> int \<Rightarrow> 'g exec_world
    \<Rightarrow> (NodeMutationOutcome \<times> exec_error option) \<times> 'g exec_world" where
  "node_body port plan node handle w =
     (let o0 = fresh_outcome node; o1 = o0\<lparr>mo_applied := True\<rparr>; o2 = o1\<lparr>mo_mutated := True\<rparr> in
      case before_mutation port plan node handle w of
        (Inl e, w1) \<Rightarrow> ((o0, Some (wrap_exc Apply_error e)), w1)
      | (Inr _, w1) \<Rightarrow>
          (case on_env (p_apply_target_dacl port handle node) w1 of
             (Inl e, w2) \<Rightarrow> ((o0, Some (wrap_exc Apply_error e)), w2)
           | (Inr _, w2) \<Rightarrow>
               (case after_mutation port node handle w2 of
                  (Inl e, w3) \<Rightarrow> ((o1, Some (wrap_exc Apply_error e)), w3)
                | (Inr _, w3) \<Rightarrow> ((o2, None), w3))))"

definition close_handle :: "'g port \<Rightarrow> int \<Rightarrow> 'g exec_world \<Rightarrow> 'g exec_world" where
  "close_handle port handle w = (if handle \<noteq> 0 then w\<lparr>ew_env := p_close port handle (ew_env w)\<rparr> else w)"

definition apply_node ::
  "'g port \<Rightarrow> AuthorizedPlan \<Rightarrow> NodeSecurityBackup \<Rightarrow> 'g exec_world
    \<Rightarrow> (NodeMutationOutcome \<times> exec_error option) \<times> 'g exec_world" where
  "apply_node port plan node w =
     (let path = derive_node_path plan (relative_path node) in
      case st_bind (on_env (p_probe port path (node_kind node)))
             (\<lambda>_. on_env (p_open port path (node_kind node))) w of
        (Inl e, w1) \<Rightarrow> ((fresh_outcome node, Some (wrap_exc Apply_error e)), w1)
      | (Inr handle, w1) \<Rightarrow>
          (case node_body port plan node handle w1 of (r, w2) \<Rightarrow> (r, close_handle port handle w2)))"

subsection \<open>Rollback\<close>

definition restore_checks :: "NodeSecurityBackup \<Rightarrow> NodeIdentity \<Rightarrow> port_exc + unit" where
  "restore_checks node observed =
     (if ni_volume_serial_number observed \<noteq> volume_serial_number node \<or> ni_file_id observed \<noteq> file_id node
      then Inl (Exec_exc Rollback_error)
      else if ni_reparse_tag observed \<noteq> 0 then Inl (Exec_exc Rollback_error) else Inr ())"

definition restore_node ::
  "'g port \<Rightarrow> AuthorizedPlan \<Rightarrow> NodeSecurityBackup \<Rightarrow> ('g exec_world, port_exc, unit) action" where
  "restore_node port plan node w =
     (case on_env (p_open port (derive_node_path plan (relative_path node)) (node_kind node)) w of
        (Inl e, w1) \<Rightarrow> (Inl e, w1)
      | (Inr handle, w1) \<Rightarrow>
          (case st_bind (on_env (p_read_identity port handle)) (\<lambda>observed.
                st_bind (st_lift (restore_checks node observed)) (\<lambda>_.
                st_bind (on_env (p_restore_pre_sd port handle node)) (\<lambda>_.
                on_env (p_verify_restored_pre_sd port handle node)))) w1 of
             (r, w2) \<Rightarrow> (r, close_handle port handle w2)))"

definition intentar_transicion ::
  "ProtectionTransactionState \<Rightarrow> 'g exec_world \<Rightarrow> ProtectionTransactionState \<times> 'g exec_world" where
  "intentar_transicion destino w =
     (case on_journal (\<lambda>io j. transition_to io j destino) w of
        (_, w') \<Rightarrow> (pj_transaction_state (dj_journal (ew_journal w')), w'))"

text \<open>The loop of \<open>_rollback\<close>: the paths restored, and the error that ended it.\<close>

fun rollback_nodes ::
  "'g port \<Rightarrow> AuthorizedPlan \<Rightarrow> NodeSecurityBackup list \<Rightarrow> string list \<Rightarrow> 'g exec_world
    \<Rightarrow> (string list \<times> exec_error option) \<times> 'g exec_world" where
  "rollback_nodes port plan [] restored w = ((restored, None), w)"
| "rollback_nodes port plan (n # ns) restored w =
     (case restore_node port plan n w of
        (Inl e, w') \<Rightarrow> ((restored, Some (wrap_exc Rollback_error e)), w')
      | (Inr _, w') \<Rightarrow> rollback_nodes port plan ns (restored @ [relative_path n]) w')"

definition marcar :: "NodeMutationOutcome list \<Rightarrow> string list \<Rightarrow> NodeMutationOutcome list" where
  "marcar outcomes restored = map (\<lambda>oc. oc\<lparr>mo_rolled_back := mo_relative_path oc \<in> set restored\<rparr>) outcomes"

definition rollback ::
  "'g port \<Rightarrow> AuthorizedPlan \<Rightarrow> NodeMutationOutcome list \<Rightarrow> 'g exec_world
    \<Rightarrow> (NodeMutationOutcome list \<times> exec_error option) \<times> 'g exec_world" where
  "rollback port plan outcomes w =
     (let orden = rollback_order plan (map mo_relative_path (filter mo_applied outcomes));
          (_, w1) = intentar_transicion ROLLING_BACK w
      in (case rollback_nodes port plan orden [] w1 of
            ((restored, Some e), w2) \<Rightarrow> ((marcar outcomes restored, Some e), w2)
          | ((restored, None), w2) \<Rightarrow>
              (case intentar_transicion ROLLED_BACK w2 of
                 (_, w3) \<Rightarrow> ((marcar outcomes restored, None), w3))))"

subsection \<open>The whole apply\<close>

record ApplyReport =
  ar_operation_id :: string
  ar_outcomes :: "NodeMutationOutcome list"
  ar_transaction_state :: ProtectionTransactionState
  ar_setsecurityinfo_calls :: nat
  ar_apply_error :: "exec_error option"
  ar_rollback_error :: "exec_error option"

definition ESTADOS_PROHIBIDOS_TRAS_FALLO_DE_ROLLBACK :: "ProtectionTransactionState set" where
  "ESTADOS_PROHIBIDOS_TRAS_FALLO_DE_ROLLBACK = {APPLYING, ROLLBACK_REQUIRED, ROLLING_BACK, ROLLED_BACK}"

fun apply_nodes ::
  "'g port \<Rightarrow> AuthorizedPlan \<Rightarrow> NodeSecurityBackup list \<Rightarrow> 'g exec_world
    \<Rightarrow> (NodeMutationOutcome list \<times> exec_error option) \<times> 'g exec_world" where
  "apply_nodes port plan [] w = (([], None), w)"
| "apply_nodes port plan (n # ns) w =
     (case apply_node port plan n w of
        ((oc, Some e), w') \<Rightarrow> (([oc], Some e), w')
      | ((oc, None), w') \<Rightarrow>
          (case apply_nodes port plan ns w' of ((ocs, e), w'') \<Rightarrow> ((oc # ocs, e), w'')))"

text \<open>\<open>Refused\<close> is the exception of a gate before anything was touched; \<open>Raised\<close> carries the report of
  the \<open>MutationRollbackError\<close>.\<close>

datatype apply_result = Refused exec_error | Returned ApplyReport | Raised ApplyReport

definition final_state ::
  "exec_error option \<Rightarrow> 'g exec_world \<Rightarrow> ProtectionTransactionState \<times> 'g exec_world" where
  "final_state rollback_error w =
     (let estado = pj_transaction_state (dj_journal (ew_journal w)) in
      if rollback_error = None then (estado, w)
      else (let (estado', w') = (if estado = ROLLING_BACK then intentar_transicion ROLLBACK_FAILED w else (estado, w))
            in (if estado' \<in> ESTADOS_PROHIBIDOS_TRAS_FALLO_DE_ROLLBACK then ROLLBACK_FAILED else estado', w')))"

definition apply_authorized_plan ::
  "'g port \<Rightarrow> AuthorizedPlan \<Rightarrow> boundary_session \<Rightarrow> 'g exec_world \<Rightarrow> apply_result \<times> 'g exec_world" where
  "apply_authorized_plan port plan session w =
     (case res_bind (require_authority plan (ew_journal w) session) (\<lambda>_. require_applying_state (ew_journal w)) of
        Inl e \<Rightarrow> (Refused e, w)
      | Inr _ \<Rightarrow>
          (case apply_nodes port plan (apply_order plan) w of
             ((outcomes, None), w1) \<Rightarrow>
               (Returned \<lparr>ar_operation_id = ap_operation_id plan, ar_outcomes = outcomes,
                  ar_transaction_state = pj_transaction_state (dj_journal (ew_journal w1)),
                  ar_setsecurityinfo_calls = p_setsecurityinfo_calls port (ew_env w1),
                  ar_apply_error = None, ar_rollback_error = None\<rparr>, w1)
           | ((outcomes, Some apply_error), w1) \<Rightarrow>
               (let (_, w2) = intentar_transicion ROLLBACK_REQUIRED w1;
                    ((finales, rollback_error), w3) = rollback port plan outcomes w2;
                    (estado, w4) = final_state rollback_error w3;
                    reporte = \<lparr>ar_operation_id = ap_operation_id plan, ar_outcomes = finales, ar_transaction_state = estado,
                      ar_setsecurityinfo_calls = p_setsecurityinfo_calls port (ew_env w4),
                      ar_apply_error = Some apply_error, ar_rollback_error = rollback_error\<rparr>
                in ((if rollback_error = None then Returned reporte else Raised reporte), w4))))"

subsection \<open>What the code relies on\<close>

text \<open>\<open>sd g p\<close> is the descriptor that the node at the relative path \<open>p\<close> has in the environment \<open>g\<close>, up to
  the layout of its bytes (owner, group, list and protection; Windows may serialize it anew), \<open>sem s\<close>
  the descriptor of the bytes with the digest \<open>s\<close>, and \<open>obj g h\<close> the node an open handle stands for. Only
  the two writing calls change a descriptor, and only that of the node of their handle; a target list
  that is refused changes nothing; the digest that is read is that of bytes of the node's descriptor, and
  a verified restoration means the descriptor of the plan. No call is assumed to succeed.\<close>

definition port_laws ::
  "'g port \<Rightarrow> ('g \<Rightarrow> string \<Rightarrow> 'd) \<Rightarrow> (string \<Rightarrow> 'd) \<Rightarrow> ('g \<Rightarrow> int \<Rightarrow> string option) \<Rightarrow> AuthorizedPlan \<Rightarrow> bool" where
  "port_laws port sd sem obj plan \<longleftrightarrow>
     (\<forall>path k. st_keeps (\<lambda>g g'. sd g' = sd g) (p_probe port path k))
     \<and> (\<forall>path k. st_keeps (\<lambda>g g'. sd g' = sd g) (p_open port path k))
     \<and> (\<forall>h g. sd (p_close port h g) = sd g)
     \<and> (\<forall>h. st_keeps (\<lambda>g g'. sd g' = sd g \<and> obj g' = obj g) (p_read_identity port h))
     \<and> (\<forall>h. st_keeps (\<lambda>g g'. sd g' = sd g \<and> obj g' = obj g) (p_read_live_pre_sd_sha256 port h))
     \<and> (\<forall>h n. st_keeps (\<lambda>g g'. sd g' = sd g \<and> obj g' = obj g) (p_verify_target_dacl port h n))
     \<and> (\<forall>h n. st_keeps (\<lambda>g g'. sd g' = sd g \<and> obj g' = obj g) (p_verify_restored_pre_sd port h n))
     \<and> (\<forall>h n. st_keeps (\<lambda>g g'. obj g' = obj g \<and> (\<forall>p q. obj g h = Some p \<longrightarrow> q \<noteq> p \<longrightarrow> sd g' q = sd g q))
          (p_apply_target_dacl port h n))
     \<and> (\<forall>h n. st_keeps (\<lambda>g g'. obj g' = obj g \<and> (\<forall>p q. obj g h = Some p \<longrightarrow> q \<noteq> p \<longrightarrow> sd g' q = sd g q))
          (p_restore_pre_sd port h n))
     \<and> (\<forall>h n g e g'. p_apply_target_dacl port h n g = (Inl e, g') \<longrightarrow> sd g' = sd g)
     \<and> (\<forall>n \<in> set (ap_nodes plan). \<forall>k g h g'. p_open port (derive_node_path plan (relative_path n)) k g = (Inr h, g')
          \<longrightarrow> obj g' h = Some (relative_path n))
     \<and> (\<forall>h g s g' p. p_read_live_pre_sd_sha256 port h g = (Inr s, g') \<longrightarrow> obj g h = Some p \<longrightarrow> sem s = sd g p)
     \<and> (\<forall>h n g u g' p. p_verify_restored_pre_sd port h n g = (Inr u, g') \<longrightarrow> obj g h = Some p \<longrightarrow> sd g p = sem (pre_sd_sha256 n))"

subsection \<open>What a call may do to the world\<close>

text \<open>A world keeps its descriptors and handles, and its journal makes steps of the store.\<close>

definition calm :: "('g \<Rightarrow> string \<Rightarrow> 'd) \<Rightarrow> ('g \<Rightarrow> int \<Rightarrow> string option) \<Rightarrow> 'g exec_world \<Rightarrow> 'g exec_world \<Rightarrow> bool" where
  "calm sd obj w w' \<longleftrightarrow> sd (ew_env w') = sd (ew_env w) \<and> obj (ew_env w') = obj (ew_env w) \<and> moves (ew_journal w) (ew_journal w')"

lemma calm_refl [simp]: "calm sd obj w w"
  by (simp add: calm_def)

lemma calm_trans: "calm sd obj a b \<Longrightarrow> calm sd obj b c \<Longrightarrow> calm sd obj a c"
  by (auto simp: calm_def intro: moves_trans)

lemma calm_order: "reflp (calm sd obj)" "transp (calm sd obj)"
  by (auto intro!: reflpI transpI intro: calm_trans)

lemma calm_env: "st_keeps (\<lambda>g g'. sd g' = sd g \<and> obj g' = obj g) m \<Longrightarrow> st_keeps (calm sd obj) (on_env m)"
  by (auto simp: st_keeps_def on_env_def calm_def split: prod.splits) (metis snd_conv)+

lemma calm_journal: "(\<And>io j. moves j (snd (f io j))) \<Longrightarrow> st_keeps (calm sd obj) (on_journal f)"
  by (auto simp: st_keeps_def on_journal_def calm_def split: prod.splits) (metis snd_conv)

lemma calm_read: "st_keeps (calm sd obj) (\<lambda>w. (f w, w))"
  by (simp add: st_keeps_def)

lemmas calm_intros = st_keeps_bind [OF calm_order(2)] st_keeps_lift [OF calm_order(1)] calm_env calm_journal calm_read

subsection \<open>One node\<close>

lemma port_calm:
  assumes "port_laws port sd sem obj plan"
  shows "st_keeps (calm sd obj) (on_env (p_read_identity port h))"
    and "st_keeps (calm sd obj) (on_env (p_read_live_pre_sd_sha256 port h))"
    and "st_keeps (calm sd obj) (on_env (p_verify_target_dacl port h n))"
    and "st_keeps (calm sd obj) (on_env (p_verify_restored_pre_sd port h n))"
  using assms by (auto simp: port_laws_def intro!: calm_env)

lemma before_mutation_calm:
  assumes "port_laws port sd sem obj plan"
  shows "st_keeps (calm sd obj) (before_mutation port plan' n h)"
  unfolding before_mutation_def by (intro calm_intros(1,2,4,5) port_calm [OF assms] moves_intent)

lemma after_mutation_calm:
  assumes "port_laws port sd sem obj plan"
  shows "st_keeps (calm sd obj) (after_mutation port n h)"
  unfolding after_mutation_def by (intro calm_intros(1,2,4,5) port_calm [OF assms] moves_completed)

lemma keepsD: "st_keeps R m \<Longrightarrow> m w = (r, w') \<Longrightarrow> R w w'"
  by (auto simp: st_keeps_def dest: spec [of _ w])

lemma on_journal_Inr:
  "on_journal f w = (Inr x, w') \<Longrightarrow> f (next_io (ew_io w)) (ew_journal w) = (Inr x, ew_journal w') \<and> ew_env w' = ew_env w"
  by (cases "f (next_io (ew_io w)) (ew_journal w)"; cases "fst (f (next_io (ew_io w)) (ew_journal w))")
     (auto simp: on_journal_def)

lemma on_env_eq: "on_env m w = (r, w') \<longleftrightarrow> (\<exists>g. m (ew_env w) = (r, g) \<and> w' = w\<lparr>ew_env := g\<rparr>)"
  by (auto simp: on_env_def split: prod.splits)

lemma st_lift_eq [simp]: "st_lift r w = (r', w') \<longleftrightarrow> r' = r \<and> w' = w"
  by (auto simp: st_lift_def)

text \<open>The intent is durable, and the descriptor still the one of the plan, when the descriptor is about
  to be written.\<close>

lemma before_mutation_Inr:
  assumes laws: "port_laws port sd sem obj plan" and h: "obj (ew_env w) h = Some (relative_path n)"
    and inv: "store_inv (ew_journal w)" "plan_wf (dj_plan (ew_journal w))"
    and run: "before_mutation port plan' n h w = (Inr u, w1)"
  shows "sd (ew_env w) (relative_path n) = sem (pre_sd_sha256 n)"
    and "node_state (dj_journal (ew_journal w)) (relative_path n) = None"
    and "node_state (dj_journal (ew_journal w1)) (relative_path n) = Some MUTATING"
    and "parse_journal_bytes (dj_file (ew_journal w1)) = Inr \<lparr>disposition = VALID, loaded_journal = Some (dj_journal (ew_journal w1))\<rparr>"
proof -
  from run obtain o1 o2 sha b permit wa wb wc wd where
    a: "on_env (p_read_identity port h) w = (Inr o1, wa)"
    and b: "on_env (p_read_live_pre_sd_sha256 port h) wa = (Inr sha, wb)" "require_live_pre_sd n sha = Inr ()"
    and c: "lift_store (node_binding (ew_journal wb) (relative_path n)) = Inr b"
    and d: "on_journal (\<lambda>io j. record_node_mutation_intent io j b) wb = (Inr permit, wc)"
    and e: "on_env (p_read_identity port h) wc = (Inr o2, wd)" "w1 = wd"
    by (auto simp: before_mutation_def st_bind_Inr)
  from keepsD [OF port_calm(1) [OF laws] a] have ca: "sd (ew_env wa) = sd (ew_env w)" "obj (ew_env wa) = obj (ew_env w)"
    by (simp_all add: calm_def)
  have "sem sha = sd (ew_env wa) (relative_path n)"
    using laws b(1) ca(2) h unfolding port_laws_def on_env_eq by metis
  with b(2) ca(1) show "sd (ew_env w) (relative_path n) = sem (pre_sd_sha256 n)"
    by (auto simp: require_live_pre_sd_def split: if_splits)
  have j: "ew_journal wb = ew_journal w" "ew_journal w1 = ew_journal wc"
    using a b(1) e by (auto simp: on_env_eq)
  from c have nb: "nb_relative_path b = relative_path n"
    by (auto simp: lift_store_def node_binding_def binding_from_node_def node_for_def j
        map_sum_def find_Some_iff split: option.splits sum.splits)
  from on_journal_Inr [OF d] have i: "record_node_mutation_intent (next_io (ew_io wb)) (ew_journal w) b = (Inr permit, ew_journal w1)"
    by (simp add: j)
  note p = permit_facts [OF inv i, unfolded nb]
  from p show "node_state (dj_journal (ew_journal w)) (relative_path n) = None"
    "node_state (dj_journal (ew_journal w1)) (relative_path n) = Some MUTATING"
    "parse_journal_bytes (dj_file (ew_journal w1)) = Inr \<lparr>disposition = VALID, loaded_journal = Some (dj_journal (ew_journal w1))\<rparr>"
    by simp_all
qed

lemma binding_path: "lift_store (node_binding j p) = Inr b \<Longrightarrow> nb_relative_path b = p"
  by (auto simp: lift_store_def node_binding_def binding_from_node_def node_for_def map_sum_def find_Some_iff
      split: option.splits sum.splits)

lemma before_mutation_journal:
  assumes "before_mutation port plan' n h w = (Inr u, w1)" and "store_inv (ew_journal w)" and "plan_wf (dj_plan (ew_journal w))"
  shows "pj_transaction_state (dj_journal (ew_journal w1)) = pj_transaction_state (dj_journal (ew_journal w))
    \<and> (\<forall>q. node_state (dj_journal (ew_journal w1)) q = (if q = relative_path n then Some MUTATING else node_state (dj_journal (ew_journal w)) q))"
proof -
  from assms(1) obtain o1 o2 sha b permit wa wb wc where
    a: "on_env (p_read_identity port h) w = (Inr o1, wa)" "on_env (p_read_live_pre_sd_sha256 port h) wa = (Inr sha, wb)"
    and c: "lift_store (node_binding (ew_journal wb) (relative_path n)) = Inr b"
    and d: "on_journal (\<lambda>io j. record_node_mutation_intent io j b) wb = (Inr permit, wc)"
    and e: "on_env (p_read_identity port h) wc = (Inr o2, w1)"
    by (auto simp: before_mutation_def st_bind_Inr)
  have j: "ew_journal wb = ew_journal w" "ew_journal w1 = ew_journal wc" using a e by (auto simp: on_env_eq)
  from on_journal_Inr [OF d] j have "record_node_mutation_intent (next_io (ew_io wb)) (ew_journal w) b = (Inr permit, ew_journal w1)"
    by simp
  from intent_ok [OF this assms(2,3)] binding_path [OF c] show ?thesis by simp
qed

lemma after_mutation_journal:
  assumes "after_mutation port n h w = (Inr u, w1)" and "store_inv (ew_journal w)" and "plan_wf (dj_plan (ew_journal w))"
  shows "\<not> dj_durability_failed (ew_journal w1)
    \<and> pj_transaction_state (dj_journal (ew_journal w1)) = pj_transaction_state (dj_journal (ew_journal w))
    \<and> (\<forall>q. node_state (dj_journal (ew_journal w1)) q = (if q = relative_path n then Some MUTATED else node_state (dj_journal (ew_journal w)) q))"
proof -
  from assms(1) obtain v b wa where
    a: "on_env (p_verify_target_dacl port h n) w = (Inr v, wa)"
    and c: "lift_store (node_binding (ew_journal wa) (relative_path n)) = Inr b"
    and d: "on_journal (\<lambda>io j. record_node_mutation_completed io j b) wa = (Inr u, w1)"
    by (auto simp: after_mutation_def st_bind_Inr)
  have j: "ew_journal wa = ew_journal w" using a by (auto simp: on_env_eq)
  from on_journal_Inr [OF d] j have "record_node_mutation_completed (next_io (ew_io wa)) (ew_journal w) b = (Inr u, ew_journal w1)"
    by simp
  from completed_ok [OF this assms(2,3)] binding_path [OF c] show ?thesis by simp
qed

text \<open>What one node's turn does to the world. Only its own descriptor may change, and only when the
  outcome says it was applied.\<close>

definition node_effect ::
  "('g \<Rightarrow> string \<Rightarrow> 'd) \<Rightarrow> (string \<Rightarrow> 'd) \<Rightarrow> NodeSecurityBackup \<Rightarrow> NodeMutationOutcome \<Rightarrow> exec_error option
    \<Rightarrow> 'g exec_world \<Rightarrow> 'g exec_world \<Rightarrow> bool" where
  "node_effect sd sem n oc err w w' \<longleftrightarrow>
     mo_relative_path oc = relative_path n
     \<and> moves (ew_journal w) (ew_journal w')
     \<and> (\<forall>q. q \<noteq> relative_path n \<longrightarrow> sd (ew_env w') q = sd (ew_env w) q)
     \<and> (if mo_applied oc then sd (ew_env w) (relative_path n) = sem (pre_sd_sha256 n) \<and> logged (ew_journal w') (relative_path n)
        else sd (ew_env w') = sd (ew_env w))
     \<and> (err = None \<longrightarrow> mo_applied oc \<and> mo_mutated oc \<and> \<not> dj_durability_failed (ew_journal w')
          \<and> pj_transaction_state (dj_journal (ew_journal w')) = pj_transaction_state (dj_journal (ew_journal w))
          \<and> (\<forall>q. node_state (dj_journal (ew_journal w')) q =
               (if q = relative_path n then Some MUTATED else node_state (dj_journal (ew_journal w)) q)))"

lemma node_body_effect:
  assumes laws: "port_laws port sd sem obj plan" and h: "obj (ew_env w) h = Some (relative_path n)"
    and inv: "store_inv (ew_journal w)" "plan_wf (dj_plan (ew_journal w))"
    and run: "node_body port plan' n h w = ((oc, err), w')"
  shows "node_effect sd sem n oc err w w'"
proof -
  obtain r1 w1 where b: "before_mutation port plan' n h w = (r1, w1)" by fastforce
  from keepsD [OF before_mutation_calm [OF laws] b]
  have c1: "sd (ew_env w1) = sd (ew_env w)" "obj (ew_env w1) = obj (ew_env w)" "moves (ew_journal w) (ew_journal w1)"
    by (simp_all add: calm_def)
  show ?thesis
  proof (cases r1)
    case (Inl e)
    with run b c1 show ?thesis
      by (simp add: node_body_def Let_def node_effect_def fresh_outcome_def) (auto simp: fresh_outcome_def)
  next
    case r1: (Inr u)
    note pre = before_mutation_Inr [OF laws h inv b [unfolded r1]]
      and bj = before_mutation_journal [OF b [unfolded r1] inv]
    from moves_inv [OF c1(3) inv] inv(2) have inv1: "store_inv (ew_journal w1)" "plan_wf (dj_plan (ew_journal w1))" by simp_all
    from pre(3) have log1: "logged (ew_journal w1) (relative_path n)" by (intro logged_state) simp
    obtain r2 g2 where a: "p_apply_target_dacl port h n (ew_env w1) = (r2, g2)" by fastforce
    have a': "on_env (p_apply_target_dacl port h n) w1 = (r2, w1\<lparr>ew_env := g2\<rparr>)" by (simp add: on_env_def a)
    have "st_keeps (\<lambda>g g'. obj g' = obj g \<and> (\<forall>p q. obj g h = Some p \<longrightarrow> q \<noteq> p \<longrightarrow> sd g' q = sd g q)) (p_apply_target_dacl port h n)"
      using laws by (simp add: port_laws_def)
    from keepsD [OF this a] c1(2) h have other: "\<And>q. q \<noteq> relative_path n \<Longrightarrow> sd g2 q = sd (ew_env w1) q" by simp
    show ?thesis
    proof (cases r2)
      case (Inl e)
      then have "sd g2 = sd (ew_env w1)" using laws a by (auto simp: port_laws_def)
      with run b r1 a' Inl c1 show ?thesis by (auto simp: node_body_def Let_def node_effect_def fresh_outcome_def)
    next
      case r2: (Inr v)
      obtain r3 w3 where f: "after_mutation port n h (w1\<lparr>ew_env := g2\<rparr>) = (r3, w3)" by fastforce
      from keepsD [OF after_mutation_calm [OF laws] f]
      have c3: "sd (ew_env w3) = sd g2" "moves (ew_journal w1) (ew_journal w3)" by (simp_all add: calm_def)
      note log3 = moves_logged [OF c3(2) inv1 log1] and mv = moves_trans [OF c1(3) c3(2)]
      show ?thesis
      proof (cases r3)
        case (Inl e)
        with run b r1 a' r2 f have "oc = (fresh_outcome n)\<lparr>mo_applied := True\<rparr>" "err \<noteq> None" "w' = w3"
          by (auto simp: node_body_def Let_def)
        with c1 c3 other pre(1) log3 mv show ?thesis by (simp add: node_effect_def fresh_outcome_def)
      next
        case (Inr x)
        with run b r1 a' r2 f have "oc = (fresh_outcome n)\<lparr>mo_applied := True, mo_mutated := True\<rparr>" "w' = w3"
          by (auto simp: node_body_def Let_def)
        moreover have "\<not> dj_durability_failed (ew_journal w3)
            \<and> pj_transaction_state (dj_journal (ew_journal w3)) = pj_transaction_state (dj_journal (ew_journal w))
            \<and> (\<forall>q. node_state (dj_journal (ew_journal w3)) q =
                 (if q = relative_path n then Some MUTATED else node_state (dj_journal (ew_journal w)) q))"
          using after_mutation_journal [OF f [unfolded Inr]] inv1 bj by simp
        ultimately show ?thesis using c1 c3 other pre(1) log3 mv by (simp add: node_effect_def fresh_outcome_def)
      qed
    qed
  qed
qed

lemma node_effect_calm:
  assumes "node_effect sd sem n oc err w w1"
    and "sd (ew_env w0) = sd (ew_env w)" and "ew_journal w0 = ew_journal w"
    and "sd (ew_env w') = sd (ew_env w1)" and "ew_journal w' = ew_journal w1"
  shows "node_effect sd sem n oc err w0 w'"
  using assms by (simp add: node_effect_def)

lemma port_quiet:
  assumes "port_laws port sd sem obj plan"
  shows "p_probe port path k g = (r1, g') \<Longrightarrow> sd g' = sd g" and "p_open port path k g = (r2, g') \<Longrightarrow> sd g' = sd g"
    and "sd (p_close port h g) = sd g"
proof -
  from assms have "st_keeps (\<lambda>g g'. sd g' = sd g) (p_probe port path k)" "st_keeps (\<lambda>g g'. sd g' = sd g) (p_open port path k)"
    "sd (p_close port h g) = sd g" by (simp_all add: port_laws_def del: split_paired_All)
  then show "p_probe port path k g = (r1, g') \<Longrightarrow> sd g' = sd g" "p_open port path k g = (r2, g') \<Longrightarrow> sd g' = sd g"
    "sd (p_close port h g) = sd g" by (auto dest: keepsD)
qed

lemma apply_node_effect:
  assumes laws: "port_laws port sd sem obj plan" and n: "n \<in> set (ap_nodes plan)"
    and inv: "store_inv (ew_journal w)" "plan_wf (dj_plan (ew_journal w))"
    and run: "apply_node port plan n w = ((oc, err), w')"
  shows "node_effect sd sem n oc err w w'"
proof -
  let ?path = "derive_node_path plan (relative_path n)"
  obtain r1 g1 where p: "p_probe port ?path (node_kind n) (ew_env w) = (r1, g1)" by fastforce
  have sd1: "sd g1 = sd (ew_env w)" using port_quiet(1) [OF laws p] .
  show ?thesis
  proof (cases r1)
    case (Inl e)
    with run p sd1 show ?thesis by (auto simp: apply_node_def Let_def st_bind_def on_env_def node_effect_def fresh_outcome_def)
  next
    case r1: (Inr u)
    obtain r2 g2 where o: "p_open port ?path (node_kind n) g1 = (r2, g2)" by fastforce
    have sd2: "sd g2 = sd g1" using port_quiet(2) [OF laws o] .
    show ?thesis
    proof (cases r2)
      case (Inl e)
      with run p r1 o sd1 sd2 show ?thesis
        by (auto simp: apply_node_def Let_def st_bind_def on_env_def node_effect_def fresh_outcome_def)
    next
      case r2: (Inr h)
      let ?w = "w\<lparr>ew_env := g2\<rparr>"
      obtain oc' err' w2 where b: "node_body port plan n h ?w = ((oc', err'), w2)" by (metis prod.collapse)
      have "obj g2 h = Some (relative_path n)" using laws n o r2 by (simp add: port_laws_def)
      with node_body_effect [OF laws, of ?w h n plan oc' err' w2] inv b have e: "node_effect sd sem n oc' err' ?w w2" by simp
      have "sd (p_close port h (ew_env w2)) = sd (ew_env w2)" using port_quiet(3) [OF laws] .
      then have "sd (ew_env (close_handle port h w2)) = sd (ew_env w2)" "ew_journal (close_handle port h w2) = ew_journal w2"
        by (simp_all add: close_handle_def)
      moreover have "oc = oc'" "err = err'" "w' = close_handle port h w2"
        using run p r1 o r2 b by (simp_all add: apply_node_def Let_def st_bind_def on_env_def)
      ultimately show ?thesis using node_effect_calm [OF e, of w w'] sd1 sd2 by simp
    qed
  qed
qed

subsection \<open>All nodes\<close>

definition nodes_effect ::
  "('g \<Rightarrow> string \<Rightarrow> 'd) \<Rightarrow> (string \<Rightarrow> 'd) \<Rightarrow> NodeSecurityBackup list \<Rightarrow> NodeMutationOutcome list \<Rightarrow> exec_error option
    \<Rightarrow> 'g exec_world \<Rightarrow> 'g exec_world \<Rightarrow> bool" where
  "nodes_effect sd sem ns ocs err w w' \<longleftrightarrow>
     moves (ew_journal w) (ew_journal w')
     \<and> (\<forall>q. sd (ew_env w') q \<noteq> sd (ew_env w) q \<longrightarrow> (\<exists>oc \<in> set ocs. mo_applied oc \<and> mo_relative_path oc = q))
     \<and> (\<forall>oc \<in> set ocs. mo_applied oc \<longrightarrow> logged (ew_journal w') (mo_relative_path oc)
          \<and> (\<exists>n \<in> set ns. relative_path n = mo_relative_path oc \<and> sd (ew_env w) (relative_path n) = sem (pre_sd_sha256 n)))
     \<and> (err = None \<longrightarrow> map mo_relative_path ocs = map relative_path ns \<and> list_all (\<lambda>oc. mo_applied oc \<and> mo_mutated oc) ocs
          \<and> (\<not> dj_durability_failed (ew_journal w) \<longrightarrow> \<not> dj_durability_failed (ew_journal w'))
          \<and> pj_transaction_state (dj_journal (ew_journal w')) = pj_transaction_state (dj_journal (ew_journal w))
          \<and> (\<forall>q. node_state (dj_journal (ew_journal w')) q =
               (if q \<in> relative_path ` set ns then Some MUTATED else node_state (dj_journal (ew_journal w)) q)))"

lemma nodes_effect_stop:
  assumes "node_effect sd sem n oc (Some e) w w'"
  shows "nodes_effect sd sem (n # ns) [oc] (Some e) w w'"
proof -
  note eff = assms [unfolded node_effect_def]
  have "mo_applied oc \<and> mo_relative_path oc = q" if "sd (ew_env w') q \<noteq> sd (ew_env w) q" for q
    using eff that by (cases "q = relative_path n"; cases "mo_applied oc") simp_all
  then have c: "\<forall>q. sd (ew_env w') q \<noteq> sd (ew_env w) q \<longrightarrow> (\<exists>c \<in> set [oc]. mo_applied c \<and> mo_relative_path c = q)" by simp
  have "relative_path n = mo_relative_path oc" "moves (ew_journal w) (ew_journal w')" using eff by simp_all
  moreover have "logged (ew_journal w') (relative_path n) \<and> sd (ew_env w) (relative_path n) = sem (pre_sd_sha256 n)" if "mo_applied oc"
    using eff that by simp
  ultimately show ?thesis using c unfolding nodes_effect_def by auto
qed

lemma nodes_effect_Cons:
  assumes e1: "node_effect sd sem n oc None w w1" and e2: "nodes_effect sd sem ns ocs err w1 w'"
    and fresh: "relative_path n \<notin> relative_path ` set ns"
    and inv: "store_inv (ew_journal w1)" "plan_wf (dj_plan (ew_journal w1))"
  shows "nodes_effect sd sem (n # ns) (oc # ocs) err w w'"
proof -
  from e1 have a: "mo_relative_path oc = relative_path n" "moves (ew_journal w) (ew_journal w1)" "mo_applied oc" "mo_mutated oc"
      "\<not> dj_durability_failed (ew_journal w1)"
      "pj_transaction_state (dj_journal (ew_journal w1)) = pj_transaction_state (dj_journal (ew_journal w))"
      "sd (ew_env w) (relative_path n) = sem (pre_sd_sha256 n)" "logged (ew_journal w1) (relative_path n)"
      "\<And>q. q \<noteq> relative_path n \<Longrightarrow> sd (ew_env w1) q = sd (ew_env w) q"
      "\<And>q. node_state (dj_journal (ew_journal w1)) q =
          (if q = relative_path n then Some MUTATED else node_state (dj_journal (ew_journal w)) q)"
    by (simp_all add: node_effect_def)
  note b = e2 [unfolded nodes_effect_def]
  have mv: "moves (ew_journal w) (ew_journal w')" using a(2) b moves_trans by blast
  have changed: "\<exists>c \<in> set (oc # ocs). mo_applied c \<and> mo_relative_path c = q" if "sd (ew_env w') q \<noteq> sd (ew_env w) q" for q
  proof (cases "q = relative_path n")
    case False
    with that a(9) have "sd (ew_env w') q \<noteq> sd (ew_env w1) q" by simp
    with b show ?thesis by auto
  qed (use a(1,3) in simp)
  have log: "logged (ew_journal w') (relative_path n)" using moves_logged [OF _ inv a(8)] b by blast
  have "\<exists>m \<in> set (n # ns). relative_path m = mo_relative_path c \<and> sd (ew_env w) (relative_path m) = sem (pre_sd_sha256 m)"
    if c: "c \<in> set ocs" "mo_applied c" for c
  proof -
    from b c obtain m where m: "m \<in> set ns" "relative_path m = mo_relative_path c" "sd (ew_env w1) (relative_path m) = sem (pre_sd_sha256 m)"
      by blast
    moreover have "relative_path m \<noteq> relative_path n" using m(1) fresh by (metis imageI)
    ultimately have "sd (ew_env w) (relative_path m) = sem (pre_sd_sha256 m)" using a(9) by simp
    with m(1,2) show ?thesis by auto
  qed
  then have orig: "mo_applied c \<longrightarrow> logged (ew_journal w') (mo_relative_path c)
      \<and> (\<exists>m \<in> set (n # ns). relative_path m = mo_relative_path c \<and> sd (ew_env w) (relative_path m) = sem (pre_sd_sha256 m))"
    if "c \<in> set (oc # ocs)" for c
    using that a(1,7) log b by auto
  have none: "map mo_relative_path (oc # ocs) = map relative_path (n # ns)" "list_all (\<lambda>oc. mo_applied oc \<and> mo_mutated oc) (oc # ocs)"
      "\<not> dj_durability_failed (ew_journal w')"
      "pj_transaction_state (dj_journal (ew_journal w')) = pj_transaction_state (dj_journal (ew_journal w))"
      "node_state (dj_journal (ew_journal w')) q =
         (if q \<in> relative_path ` set (n # ns) then Some MUTATED else node_state (dj_journal (ew_journal w)) q)"
    if "err = None" for q
    using b a that by simp_all
  show ?thesis unfolding nodes_effect_def
  proof (intro conjI)
    show "moves (ew_journal w) (ew_journal w')" by (rule mv)
  qed (use changed orig none in \<open>blast | simp\<close>)+
qed

lemma apply_nodes_effect:
  assumes laws: "port_laws port sd sem obj plan" and ns: "set ns \<subseteq> set (ap_nodes plan)" "distinct (map relative_path ns)"
    and inv: "store_inv (ew_journal w)" "plan_wf (dj_plan (ew_journal w))"
    and run: "apply_nodes port plan ns w = ((ocs, err), w')"
  shows "nodes_effect sd sem ns ocs err w w'"
  using ns inv run
proof (induction ns arbitrary: w ocs)
  case Nil
  then show ?case by (simp add: nodes_effect_def)
next
  case (Cons n ns)
  obtain oc e w1 where r: "apply_node port plan n w = ((oc, e), w1)" by (metis prod.collapse)
  from Cons.prems(1) have n: "n \<in> set (ap_nodes plan)" by simp
  note eff = apply_node_effect [OF laws n Cons.prems(3,4) r]
  show ?case
  proof (cases e)
    case (Some x)
    with Cons.prems(5) r have "ocs = [oc]" "err = Some x" "w' = w1" by simp_all
    with nodes_effect_stop eff Some show ?thesis by blast
  next
    case None
    obtain ocs' err' w2 where r2: "apply_nodes port plan ns w1 = ((ocs', err'), w2)" by (metis prod.collapse)
    from eff have "moves (ew_journal w) (ew_journal w1)" by (simp add: node_effect_def)
    from moves_inv [OF this Cons.prems(3,4)] Cons.prems(4) have inv1: "store_inv (ew_journal w1)" "plan_wf (dj_plan (ew_journal w1))"
      by simp_all
    have "ocs = oc # ocs'" "err = err'" "w' = w2" using Cons.prems(5) r None r2 by simp_all
    moreover have "nodes_effect sd sem ns ocs' err' w1 w2"
      using Cons.IH [OF _ _ inv1] Cons.prems(1,2) r2 \<open>err = err'\<close> \<open>w' = w2\<close> by simp
    moreover have "relative_path n \<notin> relative_path ` set ns" using Cons.prems(2) by simp
    ultimately show ?thesis using nodes_effect_Cons [OF eff [unfolded None] _ _ inv1] by simp
  qed
qed

subsection \<open>Restoring\<close>

lemma restore_node_effect:
  assumes laws: "port_laws port sd sem obj plan" and n: "n \<in> set (ap_nodes plan)"
    and run: "restore_node port plan n w = (r, w')"
  shows "ew_journal w' = ew_journal w \<and> (\<forall>q. q \<noteq> relative_path n \<longrightarrow> sd (ew_env w') q = sd (ew_env w) q)
    \<and> (\<forall>u. r = Inr u \<longrightarrow> sd (ew_env w') (relative_path n) = sem (pre_sd_sha256 n))"
proof -
  let ?path = "derive_node_path plan (relative_path n)"
  obtain r1 g1 where o: "p_open port ?path (node_kind n) (ew_env w) = (r1, g1)" by fastforce
  note sd1 = port_quiet(2) [OF laws o]
  show ?thesis
  proof (cases r1)
    case (Inl e)
    with run o sd1 show ?thesis by (auto simp: restore_node_def on_env_def)
  next
    case r1: (Inr h)
    have h: "obj g1 h = Some (relative_path n)" using laws n o r1 by (simp add: port_laws_def)
    let ?close = "\<lambda>g. (close_handle port h (w\<lparr>ew_env := g\<rparr>))"
    have close: "sd (ew_env (?close g)) = sd g" "ew_journal (?close g) = ew_journal w" for g
      using port_quiet(3) [OF laws] by (simp_all add: close_handle_def)
    obtain r2 g2 where i: "p_read_identity port h g1 = (r2, g2)" by fastforce
    have "st_keeps (\<lambda>g g'. sd g' = sd g \<and> obj g' = obj g) (p_read_identity port h)" using laws by (simp add: port_laws_def)
    from keepsD [OF this i] h sd1 have g2: "sd g2 = sd (ew_env w)" "obj g2 h = Some (relative_path n)" by simp_all
    obtain r3 g3 where s: "p_restore_pre_sd port h n g2 = (r3, g3)" by fastforce
    have "st_keeps (\<lambda>g g'. obj g' = obj g \<and> (\<forall>p q. obj g h = Some p \<longrightarrow> q \<noteq> p \<longrightarrow> sd g' q = sd g q)) (p_restore_pre_sd port h n)"
      using laws by (simp add: port_laws_def)
    from keepsD [OF this s] g2 have g3: "obj g3 h = Some (relative_path n)"
        "\<And>q. q \<noteq> relative_path n \<Longrightarrow> sd g3 q = sd (ew_env w) q" by simp_all
    obtain r4 g4 where v: "p_verify_restored_pre_sd port h n g3 = (r4, g4)" by fastforce
    have "st_keeps (\<lambda>g g'. sd g' = sd g \<and> obj g' = obj g) (p_verify_restored_pre_sd port h n)" using laws by (simp add: port_laws_def)
    from keepsD [OF this v] have g4: "sd g4 = sd g3" by simp
    have verified: "sd g3 (relative_path n) = sem (pre_sd_sha256 n)" if "r4 = Inr u" for u
      using laws [unfolded port_laws_def] v g3(1) unfolding that by blast
    have "w' = ?close g2 \<and> (\<forall>u. r \<noteq> Inr u) \<or> w' = ?close g3 \<and> (\<forall>u. r \<noteq> Inr u) \<or> w' = ?close g4 \<and> r = r4"
      using run o r1 i s v
      by (cases r2; cases r3; cases "restore_checks n (projr r2)")
         (auto simp: restore_node_def on_env_def st_bind_def st_lift_def)
    then show ?thesis using close g2(1) g3(2) g4 verified by auto
  qed
qed

lemma rollback_nodes_effect:
  assumes laws: "port_laws port sd sem obj plan" and ns: "set ns \<subseteq> set (ap_nodes plan)" "distinct (map relative_path ns)"
    and run: "rollback_nodes port plan ns restored w = ((restored', err), w')"
  shows "ew_journal w' = ew_journal w \<and> (\<forall>q. q \<notin> relative_path ` set ns \<longrightarrow> sd (ew_env w') q = sd (ew_env w) q)
    \<and> (\<forall>n \<in> set ns. relative_path n \<in> set restored' \<longrightarrow> relative_path n \<notin> set restored \<longrightarrow> sd (ew_env w') (relative_path n) = sem (pre_sd_sha256 n))
    \<and> (err = None \<longrightarrow> restored' = restored @ map relative_path ns) \<and> set restored' \<subseteq> set restored \<union> relative_path ` set ns"
  using ns run
proof (induction ns arbitrary: restored w)
  case (Cons n ns)
  obtain r w1 where r: "restore_node port plan n w = (r, w1)" by fastforce
  from Cons.prems(1) have n: "n \<in> set (ap_nodes plan)" by simp
  note eff = restore_node_effect [OF laws n r]
  show ?case
  proof (cases r)
    case (Inl e)
    with Cons.prems(3) r have "restored' = restored" "err \<noteq> None" "w' = w1" by auto
    with eff show ?thesis by auto
  next
    case (Inr u)
    let ?restored = "restored @ [relative_path n]"
    have fresh: "relative_path n \<notin> relative_path ` set ns" using Cons.prems(2) by simp
    have ih: "ew_journal w' = ew_journal w1" "\<And>q. q \<notin> relative_path ` set ns \<Longrightarrow> sd (ew_env w') q = sd (ew_env w1) q"
        "\<And>m. m \<in> set ns \<Longrightarrow> relative_path m \<in> set restored' \<Longrightarrow> relative_path m \<notin> set ?restored \<Longrightarrow>
          sd (ew_env w') (relative_path m) = sem (pre_sd_sha256 m)"
        "err = None \<Longrightarrow> restored' = ?restored @ map relative_path ns"
        "set restored' \<subseteq> set ?restored \<union> relative_path ` set ns"
      using Cons.IH [of ?restored w1] Cons.prems r Inr by simp_all
    have head: "sd (ew_env w') (relative_path n) = sem (pre_sd_sha256 n)" using ih(2) [OF fresh] eff Inr by simp
    have "sd (ew_env w') (relative_path m) = sem (pre_sd_sha256 m)"
      if "m \<in> set (n # ns)" "relative_path m \<in> set restored'" "relative_path m \<notin> set restored" for m
    proof (cases "m = n")
      case False
      with that fresh have "relative_path m \<noteq> relative_path n" by (metis imageI set_ConsD)
      with that False ih(3) [of m] show ?thesis by simp
    qed (use head in simp)
    moreover have "sd (ew_env w') q = sd (ew_env w) q" if "q \<notin> relative_path ` set (n # ns)" for q
      using that ih(2) [of q] eff by simp
    ultimately show ?thesis using ih(1,4,5) eff by auto
  qed
qed simp

lemma intentar_transicion_eq:
  "intentar_transicion t w = (pj_transaction_state (dj_journal (run_op (Op_transition (next_io (ew_io w)) t) (ew_journal w))),
     w\<lparr>ew_journal := run_op (Op_transition (next_io (ew_io w)) t) (ew_journal w), ew_io := tl (ew_io w)\<rparr>)"
  by (simp add: intentar_transicion_def on_journal_def split: prod.splits)

subsection \<open>The whole apply\<close>

lemma distinct_orders:
  assumes "distinct (map relative_path (ap_nodes plan))"
  shows "distinct (map relative_path (apply_order plan))" and "distinct (map relative_path (rollback_order plan ps))"
proof -
  from assms have d: "distinct (ap_nodes plan)" "inj_on relative_path (set (ap_nodes plan))" by (simp_all add: distinct_map)
  then show "distinct (map relative_path (apply_order plan))" by (simp add: distinct_map apply_order_def)
  have "inj_on relative_path (set (rollback_order plan ps))" using d(2) by (rule inj_on_subset) auto
  with d(1) show "distinct (map relative_path (rollback_order plan ps))" by (simp add: distinct_map rollback_order_def)
qed

text \<open>What is common to both ends of a failed apply: the descriptors after the restoring loop.\<close>

definition unrestored :: "NodeMutationOutcome list \<Rightarrow> string list \<Rightarrow> string set" where
  "unrestored ocs restored = mo_relative_path ` {oc \<in> set ocs. mo_applied oc} - set restored"

lemma rollback_descriptors:
  assumes laws: "port_laws port sd sem obj plan" and d: "distinct (map relative_path (ap_nodes plan))"
    and a: "nodes_effect sd sem (apply_order plan) ocs (Some e) w w1" and env: "ew_env w2 = ew_env w1"
    and r: "rollback_nodes port plan (rollback_order plan (map mo_relative_path (filter mo_applied ocs))) [] w2 = ((restored, err), w3)"
  shows "(\<forall>q. sd (ew_env w3) q \<noteq> sd (ew_env w) q \<longrightarrow> q \<in> unrestored ocs restored) \<and> ew_journal w3 = ew_journal w2
    \<and> (err = None \<longrightarrow> unrestored ocs restored = {})"
proof -
  let ?order = "rollback_order plan (map mo_relative_path (filter mo_applied ocs))"
  have ap: "\<exists>n \<in> set ?order. relative_path n = q \<and> sd (ew_env w) q = sem (pre_sd_sha256 n)"
    if "oc \<in> set ocs" "mo_applied oc" "mo_relative_path oc = q" for oc q
    using a that by (force simp: nodes_effect_def)
  note eff = rollback_nodes_effect [OF laws _ distinct_orders(2) [OF d] r]
  have sub: "set ?order \<subseteq> set (ap_nodes plan)" by auto
  note eff = eff [OF sub]
  have changed: "q \<in> unrestored ocs restored" if q: "sd (ew_env w3) q \<noteq> sd (ew_env w) q" for q
  proof (rule ccontr)
    assume n: "q \<notin> unrestored ocs restored"
    show False
    proof (cases "\<exists>oc \<in> set ocs. mo_applied oc \<and> mo_relative_path oc = q")
      case True
      with ap obtain n where m: "n \<in> set ?order" "relative_path n = q" "sd (ew_env w) q = sem (pre_sd_sha256 n)" by blast
      from True n have "q \<in> set restored" by (auto simp: unrestored_def)
      with eff m(1,2) have "sd (ew_env w3) q = sem (pre_sd_sha256 n)" by auto
      with q m(3) show False by simp
    next
      case False
      then have "q \<notin> relative_path ` set ?order" by (auto simp: image_iff)
      with eff env have "sd (ew_env w3) q = sd (ew_env w1) q" by simp
      with False a q show False by (force simp: nodes_effect_def)
    qed
  qed
  have "unrestored ocs restored = {}" if "err = None"
  proof -
    from eff that have "restored = map relative_path ?order" by simp
    with ap show ?thesis by (force simp: unrestored_def)
  qed
  with changed eff show ?thesis by blast
qed

lemma transition_run:
  assumes "intentar_transicion t w = (s, w')" and "at_state (ew_journal w) st" and "store_inv (ew_journal w)"
    and "plan_wf (dj_plan (ew_journal w))" and "tx_allowed st t" and "t \<in> S4A_PERMITTED_TRANSITION_TARGETS"
    and "printable_log (ew_journal w')"
  shows "ew_env w' = ew_env w \<and> at_state (ew_journal w') t \<and> store_inv (ew_journal w')
    \<and> plan_wf (dj_plan (ew_journal w')) \<and> s = pj_transaction_state (dj_journal (ew_journal w'))
    \<and> printable_log (ew_journal w) \<and> (\<forall>p. logged (ew_journal w) p \<longrightarrow> logged (ew_journal w') p)"
proof -
  let ?op = "Op_transition (next_io (ew_io w)) t"
  from assms(1) have w': "ew_env w' = ew_env w" "ew_journal w' = run_op ?op (ew_journal w)"
      "s = pj_transaction_state (dj_journal (ew_journal w'))"
    unfolding intentar_transicion_eq by auto
  have "printable_log (ew_journal w)" using assms(7) unfolding w'(2) by (rule printable_log_run)
  moreover from transition_at_state [OF assms(2,3,5,6) this] have "at_state (ew_journal w') t" unfolding w'(2) .
  moreover have "logged (ew_journal w') p" if "logged (ew_journal w) p" for p
    using fold_logged [OF assms(3,4) that, of "[?op]"] w'(2) by simp
  ultimately show ?thesis using w' run_op_inv [OF assms(3,4), of ?op] assms(4) by (simp del: run_op.simps)
qed

text \<open>What a run needs of the world it starts in: a plan without repeated paths, a store with its
  invariant whose records are well formed, and an open handle.\<close>

definition exec_ready :: "AuthorizedPlan \<Rightarrow> 'g exec_world \<Rightarrow> bool" where
  "exec_ready plan w \<longleftrightarrow> distinct (map relative_path (ap_nodes plan)) \<and> store_inv (ew_journal w)
     \<and> plan_wf (dj_plan (ew_journal w)) \<and> dj_handle (ew_journal w)"

lemma applying_at_state:
  assumes "exec_ready plan w" and "require_applying_state (ew_journal w) = Inr ()"
  shows "at_state (ew_journal w) APPLYING" and "\<not> dj_durability_failed (ew_journal w)"
proof -
  from assms have "store_inv (ew_journal w)" "dj_handle (ew_journal w)" "pj_transaction_state (dj_journal (ew_journal w)) = APPLYING"
    by (auto simp: exec_ready_def require_applying_state_def split: if_splits)
  with poisoned_indeterminate show "\<not> dj_durability_failed (ew_journal w)" "at_state (ew_journal w) APPLYING"
    by (fastforce simp: at_state_def)+
qed

lemma apply_nodes_ready:
  assumes laws: "port_laws port sd sem obj plan" and ready: "exec_ready plan w"
    and gate: "require_applying_state (ew_journal w) = Inr ()"
    and run: "apply_nodes port plan (apply_order plan) w = ((ocs, err), w1)"
  shows "nodes_effect sd sem (apply_order plan) ocs err w w1" and "at_state (ew_journal w1) APPLYING"
    and "store_inv (ew_journal w1)" and "plan_wf (dj_plan (ew_journal w1))"
proof -
  from ready have r: "distinct (map relative_path (ap_nodes plan))" "store_inv (ew_journal w)" "plan_wf (dj_plan (ew_journal w))"
    by (simp_all add: exec_ready_def)
  show eff: "nodes_effect sd sem (apply_order plan) ocs err w w1"
    using apply_nodes_effect [OF laws _ distinct_orders(1) [OF r(1)] r(2,3) run] by simp
  then have mv: "moves (ew_journal w) (ew_journal w1)" by (simp add: nodes_effect_def)
  from moves_inv [OF mv r(2,3)] r(3) show "store_inv (ew_journal w1)" "plan_wf (dj_plan (ew_journal w1))" by simp_all
  show "at_state (ew_journal w1) APPLYING"
    using moves_at_state [OF mv r(2,3) applying_at_state(1) [OF ready gate]] .
qed

text \<open>The end of a failed apply, from the world in which the first failure left it.\<close>

lemma failed_apply_end:
  assumes laws: "port_laws port sd sem obj plan" and ready: "exec_ready plan w"
    and gate: "require_applying_state (ew_journal w) = Inr ()"
    and run: "apply_nodes port plan (apply_order plan) w = ((ocs, Some e), w1)"
    and t2: "intentar_transicion ROLLBACK_REQUIRED w1 = (s2, w2)"
    and rb: "rollback port plan ocs w2 = ((finales, rerr), w3)"
    and fin: "final_state rerr w3 = (estado, w4)" and log: "printable_log (ew_journal w4)"
  shows "\<exists>restored. finales = marcar ocs restored
    \<and> (\<forall>q. sd (ew_env w4) q \<noteq> sd (ew_env w) q \<longrightarrow> q \<in> unrestored ocs restored)
    \<and> (\<forall>oc \<in> set ocs. mo_applied oc \<longrightarrow> logged (ew_journal w4) (mo_relative_path oc)) \<and> store_inv (ew_journal w4)
    \<and> (if rerr = None then unrestored ocs restored = {} \<and> at_state (ew_journal w4) ROLLED_BACK
          \<and> estado = pj_transaction_state (dj_journal (ew_journal w4))
       else at_state (ew_journal w4) ROLLBACK_FAILED \<and> estado \<in> {ROLLBACK_FAILED, INDETERMINATE})"
proof -
  note a = apply_nodes_ready [OF laws ready gate run]
  from ready have d: "distinct (map relative_path (ap_nodes plan))" by (simp add: exec_ready_def)
  obtain s5 w5 where t5: "intentar_transicion ROLLING_BACK w2 = (s5, w5)" by fastforce
  obtain restored err w6 where r: "rollback_nodes port plan (rollback_order plan (map mo_relative_path (filter mo_applied ocs))) [] w5
      = ((restored, err), w6)" by (metis prod.collapse)
  have rb': "finales = marcar ocs restored" "rerr = err"
      "w3 = (if err = None then snd (intentar_transicion ROLLED_BACK w6) else w6)"
    using rb t5 r by (cases err; auto simp: rollback_def Let_def split: prod.splits)+
  have mono: "printable_log (ew_journal x)" if "intentar_transicion u x = (s, y)" "printable_log (ew_journal y)" for u x s y
    using that unfolding intentar_transicion_eq by (auto intro: printable_log_run simp del: run_op.simps)
  have w3: "printable_log (ew_journal w3)"
    using fin log mono [of ROLLBACK_FAILED w3] by (auto simp: final_state_def Let_def split: prod.splits if_splits)
  obtain s7 w7 where t7: "intentar_transicion ROLLED_BACK w6 = (s7, w7)" by fastforce
  have w6: "printable_log (ew_journal w6)" using w3 rb'(3) mono [OF t7] t7 by (cases "err = None") simp_all
  have env: "ew_env w5 = ew_env w1" using t2 t5 unfolding intentar_transicion_eq by auto
  note dsc = rollback_descriptors [OF laws d a(1) env r]
  then have j6: "ew_journal w6 = ew_journal w5" by simp
  with w6 have w5: "printable_log (ew_journal w5)" by simp
  note p2 = transition_run [OF t2 a(2-4) _ _ mono [OF t5 w5]]
  have p2: "at_state (ew_journal w2) ROLLBACK_REQUIRED" "store_inv (ew_journal w2)" "plan_wf (dj_plan (ew_journal w2))"
      "\<And>p. logged (ew_journal w1) p \<Longrightarrow> logged (ew_journal w2) p"
    using p2 by (simp_all add: S4A_PERMITTED_TRANSITION_TARGETS_def)
  have p5: "at_state (ew_journal w5) ROLLING_BACK" "store_inv (ew_journal w5)" "plan_wf (dj_plan (ew_journal w5))"
      "\<And>p. logged (ew_journal w2) p \<Longrightarrow> logged (ew_journal w5) p"
    using transition_run [OF t5 p2(1-3) _ _ w5] by (simp_all add: S4A_PERMITTED_TRANSITION_TARGETS_def)
  have log1: "logged (ew_journal w6) (mo_relative_path oc)" if "oc \<in> set ocs" "mo_applied oc" for oc
    using a(1) that p2(4) p5(4) j6 by (simp add: nodes_effect_def)
  show ?thesis
  proof (cases err)
    case None
    with rb'(3) t7 have "w3 = w7" by simp
    moreover have "w4 = w3" "estado = pj_transaction_state (dj_journal (ew_journal w3))"
      using fin rb'(2) None by (auto simp: final_state_def)
    moreover have "ew_env w7 = ew_env w6 \<and> at_state (ew_journal w7) ROLLED_BACK \<and> store_inv (ew_journal w7)
        \<and> (\<forall>p. logged (ew_journal w6) p \<longrightarrow> logged (ew_journal w7) p)"
      using transition_run [OF t7, unfolded j6, OF p5(1-3)] w3 \<open>w3 = w7\<close> j6 by (simp add: S4A_PERMITTED_TRANSITION_TARGETS_def)
    ultimately show ?thesis using rb'(1,2) dsc None log1 by (intro exI [of _ restored]) auto
  next
    case (Some x)
    with rb'(3) have w36: "w3 = w6" by simp
    obtain s8 w8 where t8: "intentar_transicion ROLLBACK_FAILED w6 = (s8, w8)" by fastforce
    show ?thesis
    proof (cases "dj_durability_failed (ew_journal w6)")
      case True
      then have "pj_transaction_state (dj_journal (ew_journal w6)) = INDETERMINATE" "at_state (ew_journal w6) ROLLBACK_FAILED"
        using p5(1) j6 by (simp_all add: at_state_def)
      moreover from this fin rb'(2) Some w36 have "w4 = w6" "estado = INDETERMINATE"
        by (simp_all add: final_state_def ESTADOS_PROHIBIDOS_TRAS_FALLO_DE_ROLLBACK_def)
      ultimately show ?thesis using rb'(1,2) dsc Some log1 p5(2) j6 by (intro exI [of _ restored]) simp
    next
      case False
      then have "pj_transaction_state (dj_journal (ew_journal w6)) = ROLLING_BACK" using p5(1) j6 by (simp add: at_state_def)
      with fin rb'(2) Some w36 t8 have w4: "w4 = w8"
          "estado = (if s8 \<in> ESTADOS_PROHIBIDOS_TRAS_FALLO_DE_ROLLBACK then ROLLBACK_FAILED else s8)"
        by (simp_all add: final_state_def)
      have f: "ew_env w8 = ew_env w6 \<and> at_state (ew_journal w8) ROLLBACK_FAILED \<and> store_inv (ew_journal w8)
          \<and> s8 = pj_transaction_state (dj_journal (ew_journal w8)) \<and> (\<forall>p. logged (ew_journal w6) p \<longrightarrow> logged (ew_journal w8) p)"
        using transition_run [OF t8, unfolded j6, OF p5(1-3)] log w4(1) j6 by (simp add: S4A_PERMITTED_TRANSITION_TARGETS_def)
      then have "estado \<in> {ROLLBACK_FAILED, INDETERMINATE}"
        using w4(2) by (auto simp: at_state_def ESTADOS_PROHIBIDOS_TRAS_FALLO_DE_ROLLBACK_def split: if_splits)
      with f show ?thesis using rb'(1,2) dsc Some log1 w4(1) by (intro exI [of _ restored]) simp
    qed
  qed
qed

subsection \<open>An apply that meets no obstacle\<close>

text \<open>Every call of the port succeeds, and says of an open node what the plan says of it; the verification
  of the new descriptor succeeds for the nodes of a set.\<close>

definition port_succeeds ::
  "'g port \<Rightarrow> ('g \<Rightarrow> string \<Rightarrow> 'd) \<Rightarrow> (string \<Rightarrow> 'd) \<Rightarrow> ('g \<Rightarrow> int \<Rightarrow> string option) \<Rightarrow> AuthorizedPlan \<Rightarrow> NodeSecurityBackup set \<Rightarrow> bool" where
  "port_succeeds port sd sem obj plan good \<longleftrightarrow>
     (\<forall>path k g. fst (p_probe port path k g) = Inr ())
     \<and> (\<forall>path k g. \<exists>h. fst (p_open port path k g) = Inr h)
     \<and> (\<forall>h n g. n \<in> set (ap_nodes plan) \<longrightarrow> obj g h = Some (relative_path n) \<longrightarrow> fst (p_read_identity port h g) =
          Inr \<lparr>ni_volume_serial_number = volume_serial_number n, ni_file_id = file_id n, ni_reparse_tag = 0, ni_number_of_links = 1\<rparr>)
     \<and> (\<forall>h n g. n \<in> set (ap_nodes plan) \<longrightarrow> obj g h = Some (relative_path n) \<longrightarrow> sd g (relative_path n) = sem (pre_sd_sha256 n) \<longrightarrow>
          fst (p_read_live_pre_sd_sha256 port h g) = Inr (pre_sd_sha256 n))
     \<and> (\<forall>h n g. fst (p_apply_target_dacl port h n g) = Inr ())
     \<and> (\<forall>h n g. n \<in> good \<longrightarrow> fst (p_verify_target_dacl port h n g) = Inr ())"

text \<open>A node whose turn may come: its descriptor is the one of the plan and the log does not name it.\<close>

definition untouched :: "('g \<Rightarrow> string \<Rightarrow> 'd) \<Rightarrow> (string \<Rightarrow> 'd) \<Rightarrow> 'g exec_world \<Rightarrow> NodeSecurityBackup \<Rightarrow> bool" where
  "untouched sd sem w n \<longleftrightarrow> sd (ew_env w) (relative_path n) = sem (pre_sd_sha256 n)
     \<and> node_state (dj_journal (ew_journal w)) (relative_path n) = None \<and> utf8_ok (relative_path n)"

lemma fst_pair: "fst x = a \<Longrightarrow> \<exists>b. x = (a, b)"
  by (cases x) simp

lemma port_succeedsD:
  assumes "port_succeeds port sd sem obj plan good"
  shows "\<exists>g'. p_probe port path k g = (Inr (), g')" and "\<exists>h g'. p_open port path k g = (Inr h, g')"
    and "n \<in> set (ap_nodes plan) \<Longrightarrow> obj g h = Some (relative_path n) \<Longrightarrow> \<exists>g'. p_read_identity port h g =
      (Inr \<lparr>ni_volume_serial_number = volume_serial_number n, ni_file_id = file_id n, ni_reparse_tag = 0, ni_number_of_links = 1\<rparr>, g')"
    and "n \<in> set (ap_nodes plan) \<Longrightarrow> obj g h = Some (relative_path n) \<Longrightarrow> sd g (relative_path n) = sem (pre_sd_sha256 n) \<Longrightarrow>
      \<exists>g'. p_read_live_pre_sd_sha256 port h g = (Inr (pre_sd_sha256 n), g')"
    and "\<exists>g'. p_apply_target_dacl port h n g = (Inr (), g')" and "n \<in> good \<Longrightarrow> \<exists>g'. p_verify_target_dacl port h n g = (Inr (), g')"
proof -
  note d = assms [unfolded port_succeeds_def]
  show "\<exists>g'. p_probe port path k g = (Inr (), g')" by (rule fst_pair) (simp add: d del: split_paired_All)
  from d obtain r where "fst (p_open port path k g) = Inr r" by (metis (no_types))
  from fst_pair [OF this] show "\<exists>h g'. p_open port path k g = (Inr h, g')" by blast
  show "\<exists>g'. p_read_live_pre_sd_sha256 port h g = (Inr (pre_sd_sha256 n), g')"
    if "n \<in> set (ap_nodes plan)" "obj g h = Some (relative_path n)" "sd g (relative_path n) = sem (pre_sd_sha256 n)"
    by (rule fst_pair) (use d that in simp)
  show "\<exists>g'. p_apply_target_dacl port h n g = (Inr (), g')" by (rule fst_pair) (simp add: d)
  show "n \<in> good \<Longrightarrow> \<exists>g'. p_verify_target_dacl port h n g = (Inr (), g')" by (rule fst_pair) (simp add: d)
  show "\<exists>g'. p_read_identity port h g =
      (Inr \<lparr>ni_volume_serial_number = volume_serial_number n, ni_file_id = file_id n, ni_reparse_tag = 0, ni_number_of_links = 1\<rparr>, g')"
    if "n \<in> set (ap_nodes plan)" "obj g h = Some (relative_path n)"
    by (rule fst_pair) (use d that in simp)
qed

lemma healthy_next: "next_io [] = healthy_io"
  by (simp add: next_io_def healthy_io_def)

text \<open>What a world must be for the next turn, and how much room the turn takes in the log.\<close>

definition world_ready :: "nat \<Rightarrow> AuthorizedPlan \<Rightarrow> 'g exec_world \<Rightarrow> bool" where
  "world_ready k plan w \<longleftrightarrow> store_inv (ew_journal w) \<and> plan_wf plan \<and> dj_plan (ew_journal w) = plan \<and> dj_handle (ew_journal w)
     \<and> \<not> dj_durability_failed (ew_journal w) \<and> ew_io w = [] \<and> pj_operation_id (dj_journal (ew_journal w)) = ap_operation_id plan
     \<and> pj_authorized_plan_digest (dj_journal (ew_journal w)) = ap_plan_digest plan
     \<and> length (dj_records (ew_journal w)) + k < 10 ^ MAX_INT_DIGITS"

lemma record_node_succeeds:
  assumes "world_ready (Suc k) plan w" and "node_for plan p = Some n" and "utf8_ok p"
  shows "node_state (dj_journal (ew_journal w)) p = None \<Longrightarrow>
      \<exists>permit w'. on_journal (\<lambda>io j. record_node_mutation_intent io j (binding_from_node n)) w = (Inr permit, w')
        \<and> require_permit permit plan n = Inr () \<and> world_ready k plan w' \<and> ew_env w' = ew_env w"
    and "node_state (dj_journal (ew_journal w)) p = Some MUTATING \<Longrightarrow>
      \<exists>w'. on_journal (\<lambda>io j. record_node_mutation_completed io j (binding_from_node n)) w = (Inr (), w')
        \<and> world_ready k plan w' \<and> ew_env w' = ew_env w"
proof -
  let ?j = "ew_journal w"
  from assms(1) have j: "store_inv ?j" "plan_wf (dj_plan ?j)" "dj_plan ?j = plan" "dj_handle ?j" "\<not> dj_durability_failed ?j"
      "ew_io w = []" "pj_operation_id (dj_journal ?j) = ap_operation_id plan"
      "pj_authorized_plan_digest (dj_journal ?j) = ap_plan_digest plan" "length (dj_records ?j) + Suc k < 10 ^ MAX_INT_DIGITS"
    by (simp_all add: world_ready_def)
  then have pl: "printable_log ?j" by (simp add: printable_log_def)
  have step: "\<exists>r s'. node_wal_record ?j (binding_from_node n) t = Inr r \<and> append_record healthy_io ?j (Node_record r) = (Inr (), s')
      \<and> permit_binding \<lparr>wp_record = r, wp_operation_id = ap_operation_id plan, wp_authorized_plan_digest = ap_plan_digest plan, wp_consumed = False\<rparr> = binding_from_node n
      \<and> pj_operation_id (dj_journal s') = ap_operation_id plan \<and> pj_authorized_plan_digest (dj_journal s') = ap_plan_digest plan
      \<and> world_ready k plan (w\<lparr>ew_journal := s', ew_io := []\<rparr>)"
    if edge: "assert_node_transition (node_state (dj_journal ?j) p) t = Inr ()" for t
  proof -
    from node_append_succeeds [OF j(1,2,4,5) pl _ assms(3) edge, unfolded j(3), OF assms(2), of "ap_operation_id plan" "ap_plan_digest plan" False]
    obtain r s' where r: "node_wal_record ?j (binding_from_node n) t = Inr r" "append_record healthy_io ?j (Node_record r) = (Inr (), s')"
      "length (dj_records s') = Suc (length (dj_records ?j))" "dj_plan s' = plan"
      "permit_binding \<lparr>wp_record = r, wp_operation_id = ap_operation_id plan, wp_authorized_plan_digest = ap_plan_digest plan, wp_consumed = False\<rparr> = binding_from_node n"
      "pj_operation_id (dj_journal s') = pj_operation_id (dj_journal ?j)"
      "pj_authorized_plan_digest (dj_journal s') = pj_authorized_plan_digest (dj_journal ?j)" by blast
    note f = node_wal_record_Inr [OF r(1) j(1,2)]
    have "store_inv s'" using append_record_inv [OF j(1), of "Node_record r" _ healthy_io] f r(2) by fastforce
    moreover have "dj_handle s'" "\<not> dj_durability_failed s'"
      using r(2) j(4) by (cases rule: append_record_cases, simp_all)+
    ultimately have "world_ready k plan (w\<lparr>ew_journal := s', ew_io := []\<rparr>)"
      using r j by (simp add: world_ready_def)
    with r j show ?thesis by auto
  qed
  show "\<exists>permit w'. on_journal (\<lambda>io j. record_node_mutation_intent io j (binding_from_node n)) w = (Inr permit, w')
      \<and> require_permit permit plan n = Inr () \<and> world_ready k plan w' \<and> ew_env w' = ew_env w"
    if "node_state (dj_journal ?j) p = None"
    using step [of MUTATING] that j(6)
    by (auto simp: on_journal_def healthy_next record_node_mutation_intent_def require_permit_def)
  show "\<exists>w'. on_journal (\<lambda>io j. record_node_mutation_completed io j (binding_from_node n)) w = (Inr (), w')
      \<and> world_ready k plan w' \<and> ew_env w' = ew_env w"
    if "node_state (dj_journal ?j) p = Some MUTATING"
    using step [of MUTATED] that j(6)
    by (auto simp: on_journal_def healthy_next record_node_mutation_completed_def)
qed


lemma world_ready_env [simp]: "world_ready k plan (w\<lparr>ew_env := g\<rparr>) = world_ready k plan w"
  by (simp add: world_ready_def)

lemma world_ready_node: "world_ready k plan w \<Longrightarrow> node_for plan p = Some n \<Longrightarrow>
    lift_store (node_binding (ew_journal w) p) = Inr (binding_from_node n)"
  by (simp add: world_ready_def node_binding_def lift_store_def)

lemma before_mutation_succeeds:
  assumes laws: "port_laws port sd sem obj plan" and ok: "port_succeeds port sd sem obj plan good"
    and w: "world_ready (Suc k) plan w" "node_for plan (relative_path n) = Some n" "untouched sd sem w n"
    and h: "obj (ew_env w) h = Some (relative_path n)"
  shows "\<exists>w'. before_mutation port plan n h w = (Inr (), w') \<and> world_ready k plan w'"
proof -
  let ?id = "\<lparr>ni_volume_serial_number = volume_serial_number n, ni_file_id = file_id n, ni_reparse_tag = 0, ni_number_of_links = 1\<rparr>"
  have n: "n \<in> set (ap_nodes plan)" using node_for_in [OF w(2)] by simp
  have ident: "\<exists>g'. p_read_identity port h g = (Inr ?id, g')" if "obj g h = Some (relative_path n)" for g
    using port_succeedsD(3) [OF ok n that] .
  from ident [OF h] obtain g1 where g1: "p_read_identity port h (ew_env w) = (Inr ?id, g1)" ..
  let ?w1 = "w\<lparr>ew_env := g1\<rparr>"
  have e1: "on_env (p_read_identity port h) w = (Inr ?id, ?w1)" by (simp add: on_env_def g1)
  from keepsD [OF port_calm(1) [OF laws] e1] h have c1: "obj g1 h = Some (relative_path n)" "sd g1 = sd (ew_env w)"
    by (simp_all add: calm_def)
  obtain g2 where g2: "p_read_live_pre_sd_sha256 port h g1 = (Inr (pre_sd_sha256 n), g2)"
    using port_succeedsD(4) [OF ok n c1(1)] c1(2) w(3) by (auto simp: untouched_def)
  let ?w2 = "w\<lparr>ew_env := g2\<rparr>"
  have e2: "on_env (p_read_live_pre_sd_sha256 port h) ?w1 = (Inr (pre_sd_sha256 n), ?w2)" by (simp add: on_env_def g2)
  from keepsD [OF port_calm(2) [OF laws] e2] c1 have c2: "obj g2 h = Some (relative_path n)" by (simp add: calm_def)
  have s: "require_live_pre_sd n (pre_sd_sha256 n) = Inr ()" by (simp add: require_live_pre_sd_def)
  have "world_ready (Suc k) plan ?w2" using w(1) by simp
  from record_node_succeeds(1) [OF this w(2)] w(3) obtain permit w3 where
    e3: "on_journal (\<lambda>io j. record_node_mutation_intent io j (binding_from_node n)) ?w2 = (Inr permit, w3)"
    "require_permit permit plan n = Inr ()" "world_ready k plan w3" "ew_env w3 = g2"
    by (auto simp: untouched_def)
  from ident [OF c2] obtain g4 where "p_read_identity port h g2 = (Inr ?id, g4)" ..
  with e3(4) have e4: "on_env (p_read_identity port h) w3 = (Inr ?id, w3\<lparr>ew_env := g4\<rparr>)" by (simp add: on_env_def)
  have "before_mutation port plan n h w = (Inr (), w3\<lparr>ew_env := g4\<rparr>)"
    using e1 e2 e3(1,2) e4 s world_ready_node [OF w(1,2)]
    by (simp add: before_mutation_def st_bind_def st_lift_def require_identity_def require_single_link_def)
  with e3(3) show ?thesis by auto
qed

lemma apply_node_succeeds:
  assumes laws: "port_laws port sd sem obj plan" and ok: "port_succeeds port sd sem obj plan good"
    and w: "world_ready (Suc (Suc k)) plan w" "node_for plan (relative_path n) = Some n" "untouched sd sem w n" "n \<in> good"
  shows "\<exists>oc w'. apply_node port plan n w = ((oc, None), w') \<and> world_ready k plan w'
    \<and> (\<forall>m. relative_path m \<noteq> relative_path n \<longrightarrow> untouched sd sem w m \<longrightarrow> untouched sd sem w' m)
    \<and> (\<exists>h g g'. obj g h = Some (relative_path n) \<and> p_apply_target_dacl port h n g = (Inr (), g') \<and> sd (ew_env w') = sd g')"
proof -
  let ?path = "derive_node_path plan (relative_path n)"
  have n: "n \<in> set (ap_nodes plan)" using node_for_in [OF w(2)] by simp
  have inv: "store_inv (ew_journal w)" "plan_wf (dj_plan (ew_journal w))" using w(1) by (auto simp: world_ready_def)
  obtain g1 where g1: "p_probe port ?path (node_kind n) (ew_env w) = (Inr (), g1)"
    using port_succeedsD(1) [OF ok] by blast
  obtain h g2 where g2: "p_open port ?path (node_kind n) g1 = (Inr h, g2)"
    using port_succeedsD(2) [OF ok] by blast
  have h: "obj g2 h = Some (relative_path n)" using laws n g2 by (simp add: port_laws_def)
  have sd2: "sd g2 = sd (ew_env w)" using port_quiet(1) [OF laws g1] port_quiet(2) [OF laws g2] by simp
  let ?w2 = "w\<lparr>ew_env := g2\<rparr>"
  have "world_ready (Suc (Suc k)) plan ?w2" "untouched sd sem ?w2 n" using w sd2 by (simp_all add: untouched_def)
  from before_mutation_succeeds [OF laws ok this(1) w(2) this(2)] h obtain w3 where
    b: "before_mutation port plan n h ?w2 = (Inr (), w3)" "world_ready (Suc k) plan w3" by auto
  have mutating: "node_state (dj_journal (ew_journal w3)) (relative_path n) = Some MUTATING"
    using before_mutation_Inr(3) [OF laws _ _ _ b(1)] h inv by simp
  from keepsD [OF before_mutation_calm [OF laws] b(1)] h have h3: "obj (ew_env w3) h = Some (relative_path n)"
    by (simp add: calm_def)
  obtain g4 where g4: "p_apply_target_dacl port h n (ew_env w3) = (Inr (), g4)"
    using port_succeedsD(5) [OF ok] by blast
  obtain g5 where g5: "p_verify_target_dacl port h n g4 = (Inr (), g5)"
    using port_succeedsD(6) [OF ok w(4)] by blast
  let ?w5 = "w3\<lparr>ew_env := g5\<rparr>"
  have r5: "world_ready (Suc k) plan ?w5" using b(2) by simp
  from record_node_succeeds(2) [OF this w(2)] mutating w(3) obtain w6 where
    e6: "on_journal (\<lambda>io j. record_node_mutation_completed io j (binding_from_node n)) ?w5 = (Inr (), w6)" "world_ready k plan w6" "ew_env w6 = g5"
    by (auto simp: untouched_def)
  have "st_keeps (\<lambda>g g'. sd g' = sd g \<and> obj g' = obj g) (p_verify_target_dacl port h n)" using laws by (simp add: port_laws_def)
  from keepsD [OF this g5] have "sd (ew_env (close_handle port h w6)) = sd g4"
    using e6(3) port_quiet(3) [OF laws] by (simp add: close_handle_def)
  with h3 g4 have written: "\<exists>h' g g'. obj g h' = Some (relative_path n) \<and> p_apply_target_dacl port h' n g = (Inr (), g')
      \<and> sd (ew_env (close_handle port h w6)) = sd g'" by blast
  have "after_mutation port n h (w3\<lparr>ew_env := g4\<rparr>) = (Inr (), w6)"
    using g5 e6(1) world_ready_node [OF r5 w(2)] by (simp add: after_mutation_def st_bind_def on_env_def)
  then have "\<exists>oc. apply_node port plan n w = ((oc, None), close_handle port h w6)"
    using g1 g2 b(1) g4 by (simp add: apply_node_def Let_def st_bind_def on_env_def node_body_def)
  then obtain oc where oc: "apply_node port plan n w = ((oc, None), close_handle port h w6)" ..
  have "world_ready k plan (close_handle port h w6)" using e6(2) by (simp add: close_handle_def)
  moreover have "untouched sd sem (close_handle port h w6) m" if "relative_path m \<noteq> relative_path n" "untouched sd sem w m" for m
    using apply_node_effect [OF laws n inv oc] that by (simp add: node_effect_def untouched_def)
  ultimately show ?thesis using oc written by blast
qed

lemma apply_nodes_succeeds:
  assumes laws: "port_laws port sd sem obj plan" and ok: "port_succeeds port sd sem obj plan good"
  shows "world_ready (2 * length ns + k) plan w \<Longrightarrow> distinct (map relative_path ns) \<Longrightarrow>
    (\<And>n. n \<in> set ns \<Longrightarrow> node_for plan (relative_path n) = Some n \<and> untouched sd sem w n \<and> n \<in> good) \<Longrightarrow>
    \<exists>ocs w'. apply_nodes port plan ns w = ((ocs, None), w') \<and> world_ready k plan w'"
proof (induction ns arbitrary: w)
  case (Cons n ns)
  from Cons.prems(1) have "world_ready (Suc (Suc (2 * length ns + k))) plan w" by simp
  from apply_node_succeeds [OF laws ok this, of n] Cons.prems(3) [of n] obtain oc w1 where
    a: "apply_node port plan n w = ((oc, None), w1)" "world_ready (2 * length ns + k) plan w1"
    "\<And>m. relative_path m \<noteq> relative_path n \<Longrightarrow> untouched sd sem w m \<Longrightarrow> untouched sd sem w1 m" by auto
  have "node_for plan (relative_path m) = Some m \<and> untouched sd sem w1 m \<and> m \<in> good" if "m \<in> set ns" for m
    using Cons.prems(2,3) that a(3) [of m] by (auto simp: image_iff)
  from Cons.IH [OF a(2) _ this] Cons.prems(2) a(1) show ?case by auto
qed simp


subsection \<open>Properties\<close>

text \<open>C24: write-ahead order. The descriptor of a node is written only after its intent is durable: when
  the call that writes it is reached, a reader of the file finds the node in MUTATING, it was not in the
  log before, and its descriptor is still the one the plan was authorized on.\<close>

theorem write_ahead:
  assumes "port_laws port sd sem obj plan" and "obj (ew_env w) handle = Some (relative_path n)"
    and "store_inv (ew_journal w)" and "plan_wf (dj_plan (ew_journal w))"
    and "before_mutation port plan n handle w = (r, w1)"
  shows "case r of
      Inl e \<Rightarrow> node_body port plan n handle w = ((fresh_outcome n, Some (wrap_exc Apply_error e)), w1) \<and> sd (ew_env w1) = sd (ew_env w)
    | Inr _ \<Rightarrow> parse_journal_bytes (dj_file (ew_journal w1)) = Inr \<lparr>disposition = VALID, loaded_journal = Some (dj_journal (ew_journal w1))\<rparr>
        \<and> node_state (dj_journal (ew_journal w1)) (relative_path n) = Some MUTATING
        \<and> node_state (dj_journal (ew_journal w)) (relative_path n) = None
        \<and> sd (ew_env w1) (relative_path n) = sem (pre_sd_sha256 n)"
proof (cases r)
  case (Inl e)
  with keepsD [OF before_mutation_calm [OF assms(1)] assms(5)] assms(5) show ?thesis
    by (simp add: node_body_def Let_def calm_def)
next
  case (Inr u)
  with before_mutation_Inr [OF assms(1-4)] assms(5) keepsD [OF before_mutation_calm [OF assms(1)] assms(5)] show ?thesis
    by (simp add: calm_def)
qed

text \<open>An apply that reports success mutated every node of the plan, bottom-up, and the file of the
  journal says so to any reader: all nodes MUTATED, the transaction still APPLYING.\<close>

theorem apply_success:
  assumes "port_laws port sd sem obj plan" and "exec_ready plan w" and "ap_nodes plan \<noteq> []"
    and "apply_authorized_plan port plan session w = (Returned rep, w')" and "ar_apply_error rep = None"
  shows "ar_transaction_state rep = APPLYING
    \<and> map mo_relative_path (ar_outcomes rep) = map relative_path (apply_order plan)
    \<and> list_all (\<lambda>oc. mo_applied oc \<and> mo_mutated oc) (ar_outcomes rep)
    \<and> parse_journal_bytes (dj_file (ew_journal w')) = Inr \<lparr>disposition = VALID, loaded_journal = Some (dj_journal (ew_journal w'))\<rparr>
    \<and> list_all (\<lambda>n. node_state (dj_journal (ew_journal w')) (relative_path n) = Some MUTATED) (ap_nodes plan)"
proof -
  from assms(4,5) obtain ocs where gate: "require_applying_state (ew_journal w) = Inr ()"
    and run: "apply_nodes port plan (apply_order plan) w = ((ocs, None), w')" "ar_outcomes rep = ocs"
      "ar_transaction_state rep = pj_transaction_state (dj_journal (ew_journal w'))"
    by (auto simp: apply_authorized_plan_def Let_def res_bind_Inr split: sum.splits prod.splits option.splits if_splits)
  note a = apply_nodes_ready [OF assms(1,2) gate run(1)]
  note nf = applying_at_state(2) [OF assms(2) gate]
  with a(1) have "\<not> dj_durability_failed (ew_journal w')" by (simp add: nodes_effect_def)
  from journal_roundtrip [OF store_inv_live [OF a(3) this]] a(1,2) this run(2,3) show ?thesis
    by (simp add: nodes_effect_def at_state_def list_all_iff)
qed

lemma unobstructed_apply:
  assumes "port_laws port sd sem obj plan" and "port_succeeds port sd sem obj plan (set (ap_nodes plan))"
    and "world_ready (2 * length (ap_nodes plan)) plan w" and "distinct (map relative_path (ap_nodes plan))"
    and "require_authority plan (ew_journal w) session = Inr ()"
    and "pj_transaction_state (dj_journal (ew_journal w)) = APPLYING" and "\<forall>n \<in> set (ap_nodes plan). untouched sd sem w n"
  shows "\<exists>rep w'. apply_authorized_plan port plan session w = (Returned rep, w') \<and> ar_apply_error rep = None \<and> ar_rollback_error rep = None"
proof -
  have "length (apply_order plan) = length (ap_nodes plan)" by (simp add: apply_order_def)
  with apply_nodes_succeeds [OF assms(1,2), of "apply_order plan" 0 w] assms(3,7) distinct_orders(1) [OF assms(4)]
    node_for_unique [OF assms(4)]
  obtain ocs w' where "apply_nodes port plan (apply_order plan) w = ((ocs, None), w')" by auto
  with assms(5,6) show ?thesis by (simp add: apply_authorized_plan_def require_applying_state_def)
qed

text \<open>Nothing but an obstacle stops an apply. With a port whose calls succeed, a healthy disk, an
  authority that holds and nodes that are as the plan says, the call returns a report without errors.\<close>

theorem apply_completes:
  assumes "port_laws port sd sem obj plan" and "port_succeeds port sd sem obj plan (set (ap_nodes plan))"
    and "world_ready (2 * length (ap_nodes plan)) plan w" and "distinct (map relative_path (ap_nodes plan))"
    and "require_authority plan (ew_journal w) session = Inr ()"
    and "pj_transaction_state (dj_journal (ew_journal w)) = APPLYING" and "\<forall>n \<in> set (ap_nodes plan). untouched sd sem w n"
  shows "\<exists>rep w'. apply_authorized_plan port plan session w = (Returned rep, w') \<and> ar_apply_error rep = None \<and> ar_rollback_error rep = None"
  using assms by (rule unobstructed_apply)



text \<open>Whatever happens, the journal makes steps of the store, so its invariant and its plan stay.\<close>

lemma transicion_step: "intentar_transicion t w = (s, w') \<Longrightarrow> \<exists>ops. ew_journal w' = fold run_op ops (ew_journal w)"
  unfolding intentar_transicion_eq by (intro exI [of _ "[Op_transition (next_io (ew_io w)) t]"]) auto

lemma steps_trans: "\<exists>ops. b = fold run_op ops a \<Longrightarrow> \<exists>ops. c = fold run_op ops b \<Longrightarrow> \<exists>ops. c = fold run_op ops a"
  by (metis fold_append comp_apply)

lemma apply_steps:
  assumes laws: "port_laws port sd sem obj plan" and ready: "exec_ready plan w"
    and run: "apply_authorized_plan port plan session w = (res, w')"
  shows "\<exists>ops. ew_journal w' = fold run_op ops (ew_journal w)"
proof (cases "res_bind (require_authority plan (ew_journal w) session) (\<lambda>_. require_applying_state (ew_journal w))")
  case (Inl e)
  with run show ?thesis by (intro exI [of _ "[]"]) (auto simp: apply_authorized_plan_def)
next
  case (Inr u)
  then have gate: "require_applying_state (ew_journal w) = Inr ()" by (auto simp: res_bind_Inr)
  obtain ocs err w1 where r: "apply_nodes port plan (apply_order plan) w = ((ocs, err), w1)" by (metis prod.collapse)
  from apply_nodes_ready(1) [OF laws ready gate r] have s1: "\<exists>ops. ew_journal w1 = fold run_op ops (ew_journal w)"
    by (auto simp: nodes_effect_def moves_def)
  show ?thesis
  proof (cases err)
    case None
    with run Inr r s1 show ?thesis by (simp add: apply_authorized_plan_def)
  next
    case (Some e)
    obtain s2 w2 where t2: "intentar_transicion ROLLBACK_REQUIRED w1 = (s2, w2)" by fastforce
    obtain s3 w3 where t3: "intentar_transicion ROLLING_BACK w2 = (s3, w3)" by fastforce
    let ?orden = "rollback_order plan (map mo_relative_path (filter mo_applied ocs))"
    obtain restored rerr w4 where rb: "rollback_nodes port plan ?orden [] w3 = ((restored, rerr), w4)" by (metis prod.collapse)
    have sub: "set ?orden \<subseteq> set (ap_nodes plan)" by auto
    from ready have "distinct (map relative_path (ap_nodes plan))" by (simp add: exec_ready_def)
    from rollback_nodes_effect [OF laws sub distinct_orders(2) [OF this] rb] have j4: "ew_journal w4 = ew_journal w3" by simp
    obtain s5 w5 where t5: "intentar_transicion ROLLED_BACK w4 = (s5, w5)" by fastforce
    let ?w6 = "if rerr = None then w5 else w4"
    obtain estado w7 where fin: "final_state rerr ?w6 = (estado, w7)" by fastforce
    have "\<exists>ops. ew_journal ?w6 = fold run_op ops (ew_journal w1)"
      using steps_trans [OF transicion_step [OF t2] transicion_step [OF t3]] transicion_step [OF t5] j4
      by (cases rerr) (auto intro: steps_trans)
    moreover have "\<exists>ops. ew_journal w7 = fold run_op ops (ew_journal ?w6)"
    proof (cases "w7 = ?w6")
      case False
      with fin obtain s8 where "intentar_transicion ROLLBACK_FAILED ?w6 = (s8, w7)"
        by (auto simp: final_state_def Let_def split: if_splits prod.splits)
      then show ?thesis by (rule transicion_step)
    qed (auto intro: exI [of _ "[]"])
    moreover have "w' = w7" using run Inr r Some t2 t3 rb t5 fin
      by (cases rerr) (auto simp: apply_authorized_plan_def rollback_def Let_def)
    ultimately show ?thesis using s1 by (blast intro: steps_trans)
  qed
qed

lemma apply_logged:
  assumes "port_laws port sd sem obj plan" and "exec_ready plan w"
    and "apply_authorized_plan port plan session w = (res, w')" and "printable_log (ew_journal w')"
    and "sd (ew_env w') q \<noteq> sd (ew_env w) q"
  shows "store_inv (ew_journal w') \<and> logged (ew_journal w') q"
proof (cases "res_bind (require_authority plan (ew_journal w) session) (\<lambda>_. require_applying_state (ew_journal w))")
  case (Inl e)
  with assms(3,5) show ?thesis by (auto simp: apply_authorized_plan_def)
next
  case (Inr u)
  then have gate: "require_applying_state (ew_journal w) = Inr ()" by (auto simp: res_bind_Inr)
  obtain ocs err w1 where run: "apply_nodes port plan (apply_order plan) w = ((ocs, err), w1)" by (metis prod.collapse)
  note a = apply_nodes_ready [OF assms(1,2) gate run]
  show ?thesis
  proof (cases err)
    case None
    with assms(3) Inr run have "w' = w1" by (simp add: apply_authorized_plan_def)
    with a(1,3) assms(5) show ?thesis by (auto simp: nodes_effect_def)
  next
    case (Some e)
    obtain s2 w2 where t2: "intentar_transicion ROLLBACK_REQUIRED w1 = (s2, w2)" by fastforce
    obtain finales rerr w3 where rb: "rollback port plan ocs w2 = ((finales, rerr), w3)" by (metis prod.collapse)
    obtain estado w4 where fin: "final_state rerr w3 = (estado, w4)" by fastforce
    have "w' = w4" using assms(3) Inr run Some t2 rb fin by (auto simp: apply_authorized_plan_def Let_def split: if_splits)
    with failed_apply_end [OF assms(1,2) gate run [unfolded Some] t2 rb fin] assms(4,5) show ?thesis
      by (auto simp: unrestored_def)
  qed
qed

text \<open>No change escapes the log. Whatever the run does, a node whose descriptor differs afterwards is
  named by the journal, and whatever a later reader takes for a valid journal names it too.\<close>

theorem changes_are_logged:
  assumes "port_laws port sd sem obj plan" and "exec_ready plan w"
    and "apply_authorized_plan port plan session w = (res, w')" and "printable_log (ew_journal w')"
    and "sd (ew_env w') q \<noteq> sd (ew_env w) q"
    and "parse_journal_bytes (dj_file (ew_journal w')) = Inr \<lparr>disposition = VALID, loaded_journal = Some j\<rparr>"
  shows "node_state j q \<noteq> None"
  using apply_logged [OF assms(1-5)] reader_sees_logged assms(6) by blast

end
