(* ===== verification/Recovery.thy ===== *)
theory Recovery
  imports Mutation_Executor Plan_Codec
begin

text \<open>
  The recovery of an interrupted protection (\<open>local/runtime_vault/recovery_orchestrator.py\<close>): what a new
  process decides from the plan, the journal and the lock binding it finds on disk, and the rollback it
  runs when the journal says so.

  The port is the one of the executor. What the process reads from disk before it has the lock, and again
  under the lock, are two views, which may differ. The texts for the operator are not modelled; that
  there is a reason is.
\<close>

subsection \<open>Decisions\<close>

datatype RecoveryDisposition =
    NO_TRANSACTION | Disp_ROLLED_BACK | POST_VERIFICATION_REQUIRED | PRE_PLAN_LOCK_RECOVERED
  | Disp_INDETERMINATE | LOCK_BUSY | Disp_TERMINAL

datatype RecoveryLockOutcome = NOT_ATTEMPTED | ACQUIRED_RELEASED | ACQUIRED_RETAINED | Lock_BUSY | REFUSED

datatype RecoveryIdentitySource = Source_AUTHORIZED_PLAN | Source_PROTECTION_JOURNAL | Source_OPERATION_LOCK_BINDING | Source_NONE

datatype OperationLockBindingEvidence = Binding_DURABLE | Binding_ABSENT | Binding_INDETERMINATE

record resultado =
  re_disposition :: RecoveryDisposition
  re_retener_lock :: bool
  re_operator :: bool
  re_nodes_restored :: "string list"
  re_nodes_skipped :: "string list"
  re_nodes_pending :: "string list"
  re_physical_completed :: bool
  re_setsecurityinfo_calls :: nat

text \<open>\<open>_Resultado\<close> with the defaults of its fields.\<close>

definition resultado_de :: "RecoveryDisposition \<Rightarrow> bool \<Rightarrow> bool \<Rightarrow> resultado" where
  "resultado_de d retener op = \<lparr>re_disposition = d, re_retener_lock = retener, re_operator = op, re_nodes_restored = [],
     re_nodes_skipped = [], re_nodes_pending = [], re_physical_completed = False, re_setsecurityinfo_calls = 0\<rparr>"

definition indeterminado :: resultado where
  "indeterminado = resultado_de Disp_INDETERMINATE True True"

subsection \<open>Gates on one node\<close>

datatype motivo = Volume_drift | File_id_drift | Reparse_point | External_hardlink | Not_opened | Drift_without_record | Call_failed

definition motivo_identidad :: "NodeSecurityBackup \<Rightarrow> NodeIdentity \<Rightarrow> motivo option" where
  "motivo_identidad node observed =
     (if ni_volume_serial_number observed \<noteq> volume_serial_number node then Some Volume_drift
      else if ni_file_id observed \<noteq> file_id node then Some File_id_drift
      else if ni_reparse_tag observed \<noteq> 0 then Some Reparse_point
      else if node_kind node = FILE \<and> ni_number_of_links observed \<noteq> 1 then Some External_hardlink
      else None)"

datatype evaluacion = En_pre | Necesita_restore | Detener motivo

definition evaluar_nodo ::
  "'g port \<Rightarrow> node_path \<Rightarrow> NodeSecurityBackup \<Rightarrow> bool \<Rightarrow> 'g \<Rightarrow> evaluacion \<times> 'g" where
  "evaluar_nodo port path node es_candidato g =
     (case p_open port path (node_kind node) g of
        (Inl _, g1) \<Rightarrow> (Detener Not_opened, g1)
      | (Inr handle, g1) \<Rightarrow>
          (case (case p_read_identity port handle g1 of
                   (Inl _, g2) \<Rightarrow> (Detener Call_failed, g2)
                 | (Inr observed, g2) \<Rightarrow>
                     (case motivo_identidad node observed of
                        Some m \<Rightarrow> (Detener m, g2)
                      | None \<Rightarrow>
                          (case p_verify_restored_pre_sd port handle node g2 of
                             (Inr _, g3) \<Rightarrow> (En_pre, g3)
                           | (Inl _, g3) \<Rightarrow> (if es_candidato then Necesita_restore else Detener Drift_without_record, g3)))) of
             (ev, g4) \<Rightarrow> (ev, p_close port handle g4)))"

definition restaurar_nodo :: "'g port \<Rightarrow> node_path \<Rightarrow> NodeSecurityBackup \<Rightarrow> 'g \<Rightarrow> motivo option \<times> 'g" where
  "restaurar_nodo port path node g =
     (case p_open port path (node_kind node) g of
        (Inl _, g1) \<Rightarrow> (Some Not_opened, g1)
      | (Inr handle, g1) \<Rightarrow>
          (case (case p_read_identity port handle g1 of
                   (Inl _, g2) \<Rightarrow> (Some Call_failed, g2)
                 | (Inr observed, g2) \<Rightarrow>
                     (case motivo_identidad node observed of
                        Some m \<Rightarrow> (Some m, g2)
                      | None \<Rightarrow>
                          (case p_restore_pre_sd port handle node g2 of
                             (Inl _, g3) \<Rightarrow> (Some Call_failed, g3)
                           | (Inr _, g3) \<Rightarrow>
                               (case p_verify_restored_pre_sd port handle node g3 of
                                  (Inl _, g4) \<Rightarrow> (Some Call_failed, g4)
                                | (Inr _, g4) \<Rightarrow> (None, g4))))) of
             (m, g5) \<Rightarrow> (m, p_close port handle g5)))"

text \<open>Whether a durable transition was confirmed.\<close>

definition transicionar :: "ProtectionTransactionState \<Rightarrow> 'g exec_world \<Rightarrow> bool \<times> 'g exec_world" where
  "transicionar target w =
     (case on_journal (\<lambda>io j. transition_to io j target) w of
        (Inl _, w') \<Rightarrow> (False, w')
      | (Inr _, w') \<Rightarrow> (True, w'))"

definition append_indeterminate :: "'g exec_world \<Rightarrow> 'g exec_world" where
  "append_indeterminate w = snd (transicionar INDETERMINATE w)"

subsection \<open>The rollback\<close>

text \<open>The read-only scan: the nodes in PRE, those to restore, and the node that stopped it.\<close>

fun escanear ::
  "'g port \<Rightarrow> AuthorizedPlan \<Rightarrow> string set \<Rightarrow> NodeSecurityBackup list \<Rightarrow> string list \<Rightarrow> string list \<Rightarrow> 'g
    \<Rightarrow> (string list \<times> string list \<times> string option) \<times> 'g" where
  "escanear port plan candidatos [] dentro necesita g = ((dentro, necesita, None), g)"
| "escanear port plan candidatos (n # ns) dentro necesita g =
     (case evaluar_nodo port (derive_node_path plan (relative_path n)) n (relative_path n \<in> candidatos) g of
        (En_pre, g') \<Rightarrow> escanear port plan candidatos ns (dentro @ [relative_path n]) necesita g'
      | (Necesita_restore, g') \<Rightarrow> escanear port plan candidatos ns dentro (necesita @ [relative_path n]) g'
      | (Detener _, g') \<Rightarrow> ((dentro, necesita, Some (relative_path n)), g'))"

fun restaurar_nodos ::
  "'g port \<Rightarrow> AuthorizedPlan \<Rightarrow> NodeSecurityBackup list \<Rightarrow> string list \<Rightarrow> 'g \<Rightarrow> (string list \<times> bool) \<times> 'g" where
  "restaurar_nodos port plan [] restaurados g = ((restaurados, True), g)"
| "restaurar_nodos port plan (n # ns) restaurados g =
     (case restaurar_nodo port (derive_node_path plan (relative_path n)) n g of
        (Some _, g') \<Rightarrow> ((restaurados, False), g')
      | (None, g') \<Rightarrow> restaurar_nodos port plan ns (restaurados @ [relative_path n]) g')"

definition calls :: "'g port \<Rightarrow> 'g exec_world \<Rightarrow> nat" where
  "calls port w = p_setsecurityinfo_calls port (ew_env w)"

text \<open>Phases 1 to 3, once the journal says ROLLING_BACK.\<close>

definition rollback_fases ::
  "'g port \<Rightarrow> AuthorizedPlan \<Rightarrow> string set \<Rightarrow> 'g exec_world \<Rightarrow> resultado \<times> 'g exec_world" where
  "rollback_fases port plan candidatos w =
     (case escanear port plan candidatos (ap_nodes plan) [] [] (ew_env w) of
        ((dentro, necesita, Some p), g) \<Rightarrow>
          (let w1 = append_indeterminate (w\<lparr>ew_env := g\<rparr>)
           in (indeterminado\<lparr>re_nodes_skipped := dentro, re_nodes_pending := p # necesita,
                re_setsecurityinfo_calls := calls port w1\<rparr>, w1))
      | ((dentro, necesita, None), g) \<Rightarrow>
          (let orden = rollback_order plan necesita in
           case restaurar_nodos port plan orden [] g of
             ((restaurados, False), g') \<Rightarrow>
               (let w1 = append_indeterminate (w\<lparr>ew_env := g'\<rparr>)
                in (indeterminado\<lparr>re_nodes_restored := restaurados, re_nodes_skipped := dentro,
                     re_nodes_pending := filter (\<lambda>p. p \<notin> set restaurados) (map relative_path orden),
                     re_setsecurityinfo_calls := calls port w1\<rparr>, w1))
           | ((restaurados, True), g') \<Rightarrow>
               (let (ok, w1) = transicionar ROLLED_BACK (w\<lparr>ew_env := g'\<rparr>)
                in ((if ok then resultado_de Disp_ROLLED_BACK False False else indeterminado)
                     \<lparr>re_nodes_restored := restaurados, re_nodes_skipped := dentro, re_physical_completed := True,
                      re_setsecurityinfo_calls := calls port w1\<rparr>, w1))))"

definition flujo_rollback ::
  "'g port \<Rightarrow> AuthorizedPlan \<Rightarrow> string set \<Rightarrow> 'g exec_world \<Rightarrow> resultado \<times> 'g exec_world" where
  "flujo_rollback port plan candidatos w =
     (let (ok1, w1) = (if pj_transaction_state (dj_journal (ew_journal w)) = APPLYING
                       then transicionar ROLLBACK_REQUIRED w else (True, w))
      in if \<not> ok1 then (indeterminado\<lparr>re_setsecurityinfo_calls := calls port w1\<rparr>, w1)
         else (let (ok2, w2) = (if pj_transaction_state (dj_journal (ew_journal w1)) = ROLLBACK_REQUIRED
                                then transicionar ROLLING_BACK w1 else (True, w1))
               in if \<not> ok2 then (indeterminado\<lparr>re_setsecurityinfo_calls := calls port w2\<rparr>, w2)
                  else rollback_fases port plan candidatos w2))"

subsection \<open>Dispatch on the state of the journal\<close>

definition nodo_wal_desalineado :: "ProtectionJournal \<Rightarrow> AuthorizedPlan \<Rightarrow> bool" where
  "nodo_wal_desalineado journal plan \<longleftrightarrow>
     (\<exists>r \<in> set (pj_node_records journal).
        case node_for plan (node_relative_path r) of
          None \<Rightarrow> True
        | Some n \<Rightarrow> node_volume_serial_number r \<noteq> volume_serial_number n \<or> node_file_id r \<noteq> file_id n
            \<or> node_pre_sd_sha256 r \<noteq> pre_sd_sha256 n)"

definition relpaths_en_estado :: "ProtectionJournal \<Rightarrow> NodeWalState \<Rightarrow> string set" where
  "relpaths_en_estado journal s = node_relative_path ` set (nodes_in_state journal s)"

text \<open>Without a port, on a platform that has none, the rollback raises before it begins.\<close>

definition rollback_con ::
  "'g port option \<Rightarrow> AuthorizedPlan \<Rightarrow> string set \<Rightarrow> 'g exec_world \<Rightarrow> (unit + resultado) \<times> 'g exec_world" where
  "rollback_con port plan candidatos w =
     (case port of None \<Rightarrow> (Inl (), w) | Some p \<Rightarrow> (case flujo_rollback p plan candidatos w of (r, w') \<Rightarrow> (Inr r, w')))"

definition dispatch_fsm ::
  "'g port option \<Rightarrow> AuthorizedPlan \<Rightarrow> 'g exec_world \<Rightarrow> (unit + resultado) \<times> 'g exec_world" where
  "dispatch_fsm port plan w =
     (let journal = dj_journal (ew_journal w); estado = pj_transaction_state journal;
          mutating = relpaths_en_estado journal MUTATING; mutated = relpaths_en_estado journal MUTATED
      in if nodo_wal_desalineado journal plan then (Inr indeterminado, append_indeterminate w)
         else if estado = APPLYING
         then (if mutating = {} \<and> mutated = {} then rollback_con port plan {} w
               else if mutating = {} \<and> mutated = relative_path ` set (ap_nodes plan)
               then (Inr (resultado_de POST_VERIFICATION_REQUIRED True False), w)
               else rollback_con port plan (mutating \<union> mutated) w)
         else if estado \<in> {ROLLBACK_REQUIRED, ROLLING_BACK} then rollback_con port plan (mutating \<union> mutated) w
         else if estado \<in> {VERIFYING_GP1, VERIFYING_RV2, VERIFYING_NODE_SET, ARCHIVING_BACKUP}
         then (Inr (resultado_de POST_VERIFICATION_REQUIRED True False), w)
         else if estado \<in> TERMINAL_TRANSACTION_STATES
         then (let inspeccion = estado \<in> {INDETERMINATE, ROLLBACK_FAILED}
               in (Inr (resultado_de Disp_TERMINAL inspeccion inspeccion), w))
         else (Inr indeterminado, append_indeterminate w))"

subsection \<open>Under the lock\<close>

record lock_binding =
  lb_operation_id :: string
  lb_volume_serial_number :: int
  lb_file_id :: int

text \<open>What a pass over the disk finds. The plan is read twice, to classify it and to load it, the journal up
  to three times: to classify it, to open it, and to compare once it is open.\<close>

record recovery_view =
  rv_plan_read :: file_read
  rv_plan_read_again :: file_read
  rv_binding_evidence :: OperationLockBindingEvidence
  rv_binding :: "unit + lock_binding"
  rv_journal_exists :: bool
  rv_journal_read :: "string option"
  rv_open_exists :: bool
  rv_open_read :: "string option"
  rv_open_ok :: bool
  rv_open_read_again :: "string option"

definition rv_plan :: "(string \<Rightarrow> string) \<Rightarrow> recovery_view \<Rightarrow> plan_codec_error + AuthorizedPlan" where
  "rv_plan sha v = load_authorized_plan sha (rv_plan_read_again v)"

text \<open>Results carry the store that was opened, when one was; the environment is that of the nodes.\<close>

definition dispatch_bajo_lock ::
  "(string \<Rightarrow> string) \<Rightarrow> string \<Rightarrow> AuthorizedPlan option \<Rightarrow> RecoveryIdentitySource \<Rightarrow> DurableWriteOutcome \<Rightarrow> ProtectionJournalClassification
    \<Rightarrow> 'g port option \<Rightarrow> recovery_view \<Rightarrow> journal_io list \<Rightarrow> 'g
    \<Rightarrow> (unit + resultado) \<times> 'g \<times> DurableProtectionJournal option" where
  "dispatch_bajo_lock sha operation_id durable_plan source plan_previo journal_previo port v ios g =
     (case classify_protection_journal (rv_journal_exists v) (rv_journal_read v) of
        Inl _ \<Rightarrow> (Inl (), g, None)
      | Inr (journal_ahora, _) \<Rightarrow>
          (case durable_plan of
             None \<Rightarrow>
               (Inr (if source = Source_OPERATION_LOCK_BINDING
                     then (if plan_previo \<noteq> NOT_DURABLE then indeterminado
                           else if rv_binding_evidence v \<noteq> Binding_DURABLE then indeterminado
                           else (case rv_binding v of
                               Inl _ \<Rightarrow> indeterminado
                             | Inr b \<Rightarrow>
                                 if lb_operation_id b \<noteq> operation_id then indeterminado
                                 else if journal_ahora \<noteq> Class_absent then indeterminado
                                 else resultado_de PRE_PLAN_LOCK_RECOVERED False False))
                     else indeterminado), g, None)
           | Some plan0 \<Rightarrow>
               (case rv_plan sha v of
                  Inl _ \<Rightarrow> (Inr indeterminado, g, None)
                | Inr plan \<Rightarrow>
                    if ap_plan_digest plan \<noteq> ap_plan_digest plan0
                      \<or> (ap_volume_serial_number plan, ap_root_file_id plan) \<noteq> (ap_volume_serial_number plan0, ap_root_file_id plan0)
                      \<or> ap_canonical_root plan \<noteq> ap_canonical_root plan0
                    then (Inr indeterminado, g, None)
                    else if journal_ahora = Class_absent
                    then (Inr (if journal_previo \<in> {Class_valid, Class_indeterminate} then indeterminado
                               else resultado_de NO_TRANSACTION False False), g, None)
                    else if journal_ahora = Class_indeterminate then (Inr indeterminado, g, None)
                    else (case open_protection_journal (rv_open_exists v) (rv_open_read v) (rv_open_ok v) (rv_open_read_again v) plan of
                        Inl _ \<Rightarrow> (Inr indeterminado, g, None)
                      | Inr j \<Rightarrow>
                          (case dispatch_fsm port plan \<lparr>ew_env = g, ew_journal = j, ew_io = ios\<rparr> of
                             (r, w) \<Rightarrow> (r, ew_env w, Some (close_journal (ew_journal w))))))))"

subsection \<open>The whole recovery\<close>

datatype recovery_exc = Plan_exc plan_codec_error | Journal_exc pj_error

datatype lock_acquisition = Lock_acquired bool | Lock_held | Lock_orphan_of_other | Lock_refused

record forensic_report =
  fr_operation_id :: string
  fr_plan_classification :: DurableWriteOutcome
  fr_journal_classification :: ProtectionJournalClassification
  fr_transaction_state :: "ProtectionTransactionState option"
  fr_node_wal_summary :: "(string \<times> NodeWalState) list"
  fr_source :: RecoveryIdentitySource
  fr_lock_outcome :: RecoveryLockOutcome
  fr_stale_takeover :: bool
  fr_resultado :: resultado

definition resumen_wal :: "ProtectionJournal \<Rightarrow> AuthorizedPlan \<Rightarrow> (string \<times> NodeWalState) list" where
  "resumen_wal journal plan =
     (let ultimos = fold (\<lambda>r d. dset (node_relative_path r) (node_wal_state r) d) (pj_node_records journal) [];
          orden = map relative_path (ap_nodes plan)
      in map (\<lambda>p. (p, the (dget ultimos p))) (filter (\<lambda>p. dget ultimos p \<noteq> None) orden)
         @ filter (\<lambda>(p, s). p \<notin> set orden) ultimos)"

text \<open>The classification before the lock: the plan as it may be used, the physical identity and where it
  comes from.\<close>

definition identidad_durable ::
  "(string \<Rightarrow> string) \<Rightarrow> recovery_view \<Rightarrow> DurableWriteOutcome \<Rightarrow> ProtectionJournal option
    \<Rightarrow> (DurableWriteOutcome \<times> AuthorizedPlan option) \<times> OperationLockBindingEvidence \<times> (int \<times> int) option \<times> RecoveryIdentitySource" where
  "identidad_durable sha v clase0 journal =
     (let (clase, plan) =
            (if clase0 = DURABLE
             then (case rv_plan sha v of Inr p \<Rightarrow> (DURABLE, Some p) | Inl _ \<Rightarrow> (Write_INDETERMINATE, None))
             else (clase0, None))
      in ((clase, plan),
          (case (plan, journal) of
             (Some p, _) \<Rightarrow> (rv_binding_evidence v, Some (ap_volume_serial_number p, ap_root_file_id p), Source_AUTHORIZED_PLAN)
           | (None, Some j) \<Rightarrow> (rv_binding_evidence v,
               Some (phys_volume_serial_number (pj_physical_root j), phys_root_file_id (pj_physical_root j)), Source_PROTECTION_JOURNAL)
           | (None, None) \<Rightarrow>
               if rv_binding_evidence v = Binding_DURABLE
               then (case rv_binding v of
                   Inl _ \<Rightarrow> (Binding_INDETERMINATE, None, Source_NONE)
                 | Inr b \<Rightarrow> (Binding_DURABLE, Some (lb_volume_serial_number b, lb_file_id b), Source_OPERATION_LOCK_BINDING))
               else (rv_binding_evidence v, None, Source_NONE))))"

text \<open>\<open>acq\<close> is how the acquisition of the lock ended (with whether an orphan was taken over), \<open>released\<close>
  whether giving it back was confirmed. The exceptions are those of the two classifications outside the lock,
  which the code does not guard.\<close>

definition recover_interrupted_protection ::
  "(string \<Rightarrow> string) \<Rightarrow> string \<Rightarrow> recovery_view \<Rightarrow> lock_acquisition \<Rightarrow> 'g port option \<Rightarrow> recovery_view \<Rightarrow> journal_io list \<Rightarrow> bool \<Rightarrow> 'g
    \<Rightarrow> (recovery_exc + forensic_report) \<times> 'g \<times> DurableProtectionJournal option" where
  "recover_interrupted_protection sha operation_id v acq port v2 ios released g =
     (case classify_durable_authorized_plan sha (rv_plan_read v) of Inl e \<Rightarrow> (Inl (Plan_exc e), g, None) | Inr clase0 \<Rightarrow>
      case classify_protection_journal (rv_journal_exists v) (rv_journal_read v) of
        Inl e \<Rightarrow> (Inl (Journal_exc e), g, None)
      | Inr (journal_previo, journal) \<Rightarrow>
          (let ((clase, plan), binding, identity, source) = identidad_durable sha v clase0 journal;
               informe = (\<lambda>lock stale r. \<lparr>fr_operation_id = operation_id, fr_plan_classification = clase,
                 fr_journal_classification = journal_previo, fr_transaction_state = map_option pj_transaction_state journal,
                 fr_node_wal_summary = (case (journal, plan) of
                     (None, _) \<Rightarrow> []
                   | (Some j, Some p) \<Rightarrow> resumen_wal j p
                   | (Some j, None) \<Rightarrow> map (\<lambda>r. (node_relative_path r, node_wal_state r)) (pj_node_records j)),
                 fr_source = source, fr_lock_outcome = lock, fr_stale_takeover = stale, fr_resultado = r\<rparr>)
           in if identity = None
              then (Inr (informe NOT_ATTEMPTED False
                (if clase = NOT_DURABLE \<and> journal_previo = Class_absent \<and> binding = Binding_ABSENT
                 then resultado_de NO_TRANSACTION False False
                 else resultado_de Disp_INDETERMINATE False True)), g, None)
              else (case acq of
                  Lock_held \<Rightarrow> (Inr (informe Lock_BUSY False (resultado_de LOCK_BUSY False False)), g, None)
                | Lock_orphan_of_other \<Rightarrow> (Inr (informe REFUSED False (resultado_de Disp_INDETERMINATE False True)), g, None)
                | Lock_refused \<Rightarrow> (Inr (informe REFUSED False (resultado_de Disp_INDETERMINATE False True)), g, None)
                | Lock_acquired stale \<Rightarrow>
                    (case dispatch_bajo_lock sha operation_id plan source clase journal_previo port v2 ios g of
                       (r, g', j) \<Rightarrow>
                         (let res = (case r of Inl _ \<Rightarrow> indeterminado | Inr x \<Rightarrow> x);
                              lock = (if re_retener_lock res \<or> \<not> released then ACQUIRED_RETAINED else ACQUIRED_RELEASED)
                          in (Inr (informe lock stale res), g', j))))))"

lemma rv_plan_distinct: "rv_plan sha v = Inr plan \<Longrightarrow> distinct (map relative_path (ap_nodes plan))"
  using plan_valid_nodes by (auto simp: rv_plan_def)

subsection \<open>What a call does to the descriptors\<close>

lemma port_restore:
  assumes "port_laws port sd sem obj plan" and "obj g h = Some p"
  shows "p_restore_pre_sd port h n g = (r, g') \<Longrightarrow> obj g' h = Some p \<and> (\<forall>q. q \<noteq> p \<longrightarrow> sd g' q = sd g q)"
    and "p_read_identity port h g = (r2, g') \<Longrightarrow> sd g' = sd g \<and> obj g' h = Some p"
    and "p_verify_restored_pre_sd port h n g = (r3, g') \<Longrightarrow> sd g' = sd g \<and> obj g' h = Some p \<and> (\<forall>u. r3 = Inr u \<longrightarrow> sd g p = sem (pre_sd_sha256 n))"
proof -
  have k: "st_keeps (\<lambda>g g'. obj g' = obj g \<and> (\<forall>p q. obj g h = Some p \<longrightarrow> q \<noteq> p \<longrightarrow> sd g' q = sd g q)) (p_restore_pre_sd port h n)"
    "st_keeps (\<lambda>g g'. sd g' = sd g \<and> obj g' = obj g) (p_read_identity port h)"
    "st_keeps (\<lambda>g g'. sd g' = sd g \<and> obj g' = obj g) (p_verify_restored_pre_sd port h n)"
    using assms(1) by (simp_all add: port_laws_def)
  show "obj g' h = Some p \<and> (\<forall>q. q \<noteq> p \<longrightarrow> sd g' q = sd g q)" if "p_restore_pre_sd port h n g = (r, g')"
    using keepsD [OF k(1) that] assms(2) by simp
  show "sd g' = sd g \<and> obj g' h = Some p" if "p_read_identity port h g = (r2, g')"
    using keepsD [OF k(2) that] assms(2) by simp
  show "sd g' = sd g \<and> obj g' h = Some p \<and> (\<forall>u. r3 = Inr u \<longrightarrow> sd g p = sem (pre_sd_sha256 n))"
    if "p_verify_restored_pre_sd port h n g = (r3, g')"
  proof -
    have "sd g p = sem (pre_sd_sha256 n)" if "r3 = Inr u" for u
      using assms(1) [unfolded port_laws_def] \<open>p_verify_restored_pre_sd port h n g = (r3, g')\<close> assms(2) unfolding that by blast
    with keepsD [OF k(3) that] assms(2) show ?thesis by simp
  qed
qed

lemma port_open:
  assumes "port_laws port sd sem obj plan" and "n \<in> set (ap_nodes plan)"
    and "p_open port (derive_node_path plan (relative_path n)) k g = (Inr h, g')"
  shows "obj g' h = Some (relative_path n)"
  using assms by (simp add: port_laws_def)

lemma evaluar_nodo_effect:
  assumes laws: "port_laws port sd sem obj plan" and n: "n \<in> set (ap_nodes plan)"
    and run: "evaluar_nodo port (derive_node_path plan (relative_path n)) n c g = (ev, g')"
  shows "sd g' = sd g \<and> (ev = En_pre \<longrightarrow> sd g (relative_path n) = sem (pre_sd_sha256 n)) \<and> (ev = Necesita_restore \<longrightarrow> c)"
proof -
  let ?path = "derive_node_path plan (relative_path n)"
  obtain r1 g1 where o: "p_open port ?path (node_kind n) g = (r1, g1)" by fastforce
  note sd1 = port_quiet(2) [OF laws o]
  show ?thesis
  proof (cases r1)
    case (Inl e)
    with run o sd1 show ?thesis by (auto simp: evaluar_nodo_def)
  next
    case r1: (Inr h)
    have h: "obj g1 h = Some (relative_path n)" using port_open [OF laws n o [unfolded r1]] .
    obtain r2 g2 where i: "p_read_identity port h g1 = (r2, g2)" by fastforce
    note g2 = port_restore(2) [OF laws h i]
    obtain r3 g3 where v: "p_verify_restored_pre_sd port h n g2 = (r3, g3)" by fastforce
    note g3 = port_restore(3) [OF laws g2 [THEN conjunct2] v]
    show ?thesis using run o r1 i v sd1 g2 g3 port_quiet(3) [OF laws]
      by (auto simp: evaluar_nodo_def split: sum.splits option.splits if_splits)
  qed
qed

lemma restaurar_nodo_effect:
  assumes laws: "port_laws port sd sem obj plan" and n: "n \<in> set (ap_nodes plan)"
    and run: "restaurar_nodo port (derive_node_path plan (relative_path n)) n g = (m, g')"
  shows "(\<forall>q. q \<noteq> relative_path n \<longrightarrow> sd g' q = sd g q) \<and> (m = None \<longrightarrow> sd g' (relative_path n) = sem (pre_sd_sha256 n))"
proof -
  let ?path = "derive_node_path plan (relative_path n)"
  obtain r1 g1 where o: "p_open port ?path (node_kind n) g = (r1, g1)" by fastforce
  note sd1 = port_quiet(2) [OF laws o]
  show ?thesis
  proof (cases r1)
    case (Inl e)
    with run o sd1 show ?thesis by (auto simp: restaurar_nodo_def)
  next
    case r1: (Inr h)
    have h: "obj g1 h = Some (relative_path n)" using port_open [OF laws n o [unfolded r1]] .
    obtain r2 g2 where i: "p_read_identity port h g1 = (r2, g2)" by fastforce
    note g2 = port_restore(2) [OF laws h i]
    obtain r3 g3 where s: "p_restore_pre_sd port h n g2 = (r3, g3)" by fastforce
    note g3 = port_restore(1) [OF laws g2 [THEN conjunct2] s]
    obtain r4 g4 where v: "p_verify_restored_pre_sd port h n g3 = (r4, g4)" by fastforce
    note g4 = port_restore(3) [OF laws g3 [THEN conjunct1] v]
    show ?thesis using run o r1 i s v sd1 g2 g3 g4 port_quiet(3) [OF laws]
      by (auto simp: restaurar_nodo_def split: sum.splits option.splits if_splits)
  qed
qed

lemma escanear_effect:
  assumes laws: "port_laws port sd sem obj plan" and ns: "set ns \<subseteq> set (ap_nodes plan)"
    and run: "escanear port plan cs ns d ne g = ((d', ne', stop), g')"
  shows "sd g' = sd g \<and> set ne \<subseteq> set ne' \<and> set ne' \<subseteq> set ne \<union> (cs \<inter> relative_path ` set ns)
    \<and> (stop = None \<longrightarrow> (\<forall>n \<in> set ns. sd g (relative_path n) = sem (pre_sd_sha256 n) \<or> relative_path n \<in> set ne'))"
  using ns run
proof (induction ns arbitrary: d ne g)
  case (Cons n ns)
  obtain ev g1 where e: "evaluar_nodo port (derive_node_path plan (relative_path n)) n (relative_path n \<in> cs) g = (ev, g1)"
    by fastforce
  note f = evaluar_nodo_effect [OF laws _ e]
  show ?case
  proof (cases ev)
    case En_pre
    with Cons.IH [of "d @ [relative_path n]" ne g1] Cons.prems e f show ?thesis by auto
  next
    case Necesita_restore
    with Cons.IH [of d "ne @ [relative_path n]" g1] Cons.prems e f show ?thesis by auto
  next
    case (Detener m)
    with Cons.prems e f show ?thesis by auto
  qed
qed auto

lemma restaurar_nodos_effect:
  assumes laws: "port_laws port sd sem obj plan" and ns: "set ns \<subseteq> set (ap_nodes plan)" "distinct (map relative_path ns)"
    and run: "restaurar_nodos port plan ns res g = ((res', ok), g')"
  shows "(\<forall>q. q \<notin> relative_path ` set ns \<longrightarrow> sd g' q = sd g q)
    \<and> (ok \<longrightarrow> (\<forall>n \<in> set ns. sd g' (relative_path n) = sem (pre_sd_sha256 n)))"
  using ns run
proof (induction ns arbitrary: res g)
  case (Cons n ns)
  obtain m g1 where r: "restaurar_nodo port (derive_node_path plan (relative_path n)) n g = (m, g1)" by fastforce
  note f = restaurar_nodo_effect [OF laws _ r]
  show ?case
  proof (cases m)
    case None
    with Cons.IH [of "res @ [relative_path n]" g1] Cons.prems r f show ?thesis by auto
  next
    case (Some x)
    with Cons.prems r f show ?thesis by auto
  qed
qed auto

subsection \<open>What the rollback does\<close>

lemma transicionar_env [simp]: "ew_env (snd (transicionar t w)) = ew_env w"
  by (auto simp: transicionar_def on_journal_def split: prod.splits sum.splits)

lemma transicionar_True:
  assumes "transicionar t w = (True, w')" and "readable (ew_journal w)"
  shows "readable (ew_journal w') \<and> pj_transaction_state (dj_journal (ew_journal w')) = t \<and> ew_env w' = ew_env w"
proof -
  from assms(1) obtain u where "on_journal (\<lambda>io j. transition_to io j t) w = (Inr u, w')"
    by (auto simp: transicionar_def split: sum.splits prod.splits)
  from on_journal_Inr [OF this] readable_transition [OF assms(2)] show ?thesis by fastforce
qed

lemma append_indeterminate_env [simp]: "ew_env (append_indeterminate w) = ew_env w"
  by (simp add: append_indeterminate_def)

text \<open>A rollback changes only candidates; when it says that it restored, every node of the plan has the
  descriptor that the plan was authorized on, and the file says so to any reader.\<close>

definition recovered :: "('g \<Rightarrow> string \<Rightarrow> 'd) \<Rightarrow> (string \<Rightarrow> 'd) \<Rightarrow> AuthorizedPlan \<Rightarrow> 'g exec_world \<Rightarrow> bool" where
  "recovered sd sem plan w \<longleftrightarrow> (\<forall>n \<in> set (ap_nodes plan). sd (ew_env w) (relative_path n) = sem (pre_sd_sha256 n))
     \<and> readable (ew_journal w) \<and> pj_transaction_state (dj_journal (ew_journal w)) = ROLLED_BACK"

lemma rollback_fases_effect:
  assumes laws: "port_laws port sd sem obj plan" and d: "distinct (map relative_path (ap_nodes plan))"
    and j: "readable (ew_journal w)" and run: "rollback_fases port plan cs w = (r, w')"
  shows "(\<forall>q. sd (ew_env w') q \<noteq> sd (ew_env w) q \<longrightarrow> q \<in> cs \<inter> relative_path ` set (ap_nodes plan))
    \<and> (re_disposition r = Disp_ROLLED_BACK \<or> \<not> re_retener_lock r \<longrightarrow>
        re_disposition r = Disp_ROLLED_BACK \<and> \<not> re_retener_lock r \<and> recovered sd sem plan w')
    \<and> re_disposition r \<in> {Disp_ROLLED_BACK, Disp_INDETERMINATE}"
proof -
  obtain dentro ne stop g where s: "escanear port plan cs (ap_nodes plan) [] [] (ew_env w) = ((dentro, ne, stop), g)"
    by (metis prod.collapse)
  note sc = escanear_effect [OF laws subset_refl s]
  show ?thesis
  proof (cases stop)
    case (Some p)
    with run s sc show ?thesis by (auto simp: rollback_fases_def Let_def indeterminado_def resultado_de_def)
  next
    case None
    let ?orden = "rollback_order plan ne"
    obtain res ok g' where t: "restaurar_nodos port plan ?orden [] g = ((res, ok), g')" by (metis prod.collapse)
    have sub: "set ?orden \<subseteq> set (ap_nodes plan)" by auto
    note re = restaurar_nodos_effect [OF laws sub distinct_orders(2) [OF d] t]
    have changed: "q \<in> cs \<inter> relative_path ` set (ap_nodes plan)" if "sd g' q \<noteq> sd (ew_env w) q" for q
    proof -
      from that sc re have "q \<in> relative_path ` set ?orden" by metis
      with sc show ?thesis by auto
    qed
    have pre: "sd g' (relative_path n) = sem (pre_sd_sha256 n)" if "ok" "n \<in> set (ap_nodes plan)" for n
    proof (cases "relative_path n \<in> set ne")
      case True
      with that re show ?thesis by simp
    next
      case False
      with that sc None have "sd g (relative_path n) = sem (pre_sd_sha256 n)" by auto
      moreover from False have "relative_path n \<notin> relative_path ` set ?orden" by auto
      ultimately show ?thesis using re by metis
    qed
    obtain fin w1 where tr: "transicionar ROLLED_BACK (w\<lparr>ew_env := g'\<rparr>) = (fin, w1)" by fastforce
    have "ew_env w1 = g'" using transicionar_env [of ROLLED_BACK "w\<lparr>ew_env := g'\<rparr>"] tr by simp
    with run s None t tr changed pre transicionar_True [of ROLLED_BACK "w\<lparr>ew_env := g'\<rparr>" w1] j show ?thesis
      by (cases ok; cases fin) (auto simp: rollback_fases_def Let_def indeterminado_def resultado_de_def recovered_def)
  qed
qed

lemma flujo_rollback_effect:
  assumes laws: "port_laws port sd sem obj plan" and d: "distinct (map relative_path (ap_nodes plan))"
    and j: "readable (ew_journal w)" and run: "flujo_rollback port plan cs w = (r, w')"
  shows "(\<forall>q. sd (ew_env w') q \<noteq> sd (ew_env w) q \<longrightarrow> q \<in> cs \<inter> relative_path ` set (ap_nodes plan))
    \<and> (re_disposition r = Disp_ROLLED_BACK \<or> \<not> re_retener_lock r \<longrightarrow>
        re_disposition r = Disp_ROLLED_BACK \<and> \<not> re_retener_lock r \<and> recovered sd sem plan w')
    \<and> re_disposition r \<in> {Disp_ROLLED_BACK, Disp_INDETERMINATE}"
proof -
  let ?step = "\<lambda>s t w. if pj_transaction_state (dj_journal (ew_journal w)) = s then transicionar t w else (True, w)"
  have step: "ew_env b = ew_env a \<and> (ok \<longrightarrow> readable (ew_journal a) \<longrightarrow> readable (ew_journal b))" if "?step s t a = (ok, b)" for s t a b ok
    using that transicionar_env [of t a] transicionar_True [of t a b] by (auto simp del: transicionar_env split: if_splits)
  obtain ok1 w1 where s1: "?step APPLYING ROLLBACK_REQUIRED w = (ok1, w1)" by fastforce
  obtain ok2 w2 where s2: "?step ROLLBACK_REQUIRED ROLLING_BACK w1 = (ok2, w2)" by fastforce
  note e1 = step [OF s1] and e2 = step [OF s2]
  show ?thesis
  proof (cases "ok1 \<and> ok2")
    case True
    with run s1 s2 have "rollback_fases port plan cs w2 = (r, w')" by (simp add: flujo_rollback_def)
    from rollback_fases_effect [OF laws d _ this] e1 e2 True j show ?thesis by simp
  next
    case False
    with run s1 s2 have "ew_env w' = ew_env w" "re_disposition r = Disp_INDETERMINATE" "re_retener_lock r"
      using e1 e2 by (auto simp: flujo_rollback_def indeterminado_def resultado_de_def split: if_splits)
    then show ?thesis by simp
  qed
qed

lemma relpaths_en_estado_iff [simp]: "p \<in> relpaths_en_estado j s \<longleftrightarrow> node_state j p = Some s"
proof
  assume "p \<in> relpaths_en_estado j s"
  then show "node_state j p = Some s" by (auto simp: relpaths_en_estado_def in_nodes_in_state node_state_def)
next
  assume "node_state j p = Some s"
  then obtain r where "node_record j p = Some r" "node_wal_state r = s" by (auto simp: node_state_def)
  moreover from this node_record_in have "node_relative_path r = p" by blast
  ultimately show "p \<in> relpaths_en_estado j s" unfolding relpaths_en_estado_def
    by (intro image_eqI [of _ _ r]) (simp_all add: in_nodes_in_state)
qed

text \<open>What the dispatch does with a port: changed descriptors are those of nodes that the log names, in the
  three states of an unfinished apply or rollback; the lock may go only when nothing is left to do.\<close>

definition settled :: "ProtectionTransactionState \<Rightarrow> bool" where
  "settled s \<longleftrightarrow> s \<in> TERMINAL_TRANSACTION_STATES - {INDETERMINATE, ROLLBACK_FAILED}"

definition rollback_pending :: "ProtectionTransactionState \<Rightarrow> bool" where
  "rollback_pending s \<longleftrightarrow> s \<in> {APPLYING, ROLLBACK_REQUIRED, ROLLING_BACK}"

lemma dispatch_fsm_effect:
  assumes laws: "port_laws port sd sem obj plan" and d: "distinct (map relative_path (ap_nodes plan))"
    and j: "readable (ew_journal w)" and run: "dispatch_fsm (Some port) plan w = (res, w')"
  obtains r where "res = Inr r"
    and "\<And>q. sd (ew_env w') q \<noteq> sd (ew_env w) q \<Longrightarrow> node_state (dj_journal (ew_journal w)) q \<noteq> None
      \<and> q \<in> relative_path ` set (ap_nodes plan) \<and> rollback_pending (pj_transaction_state (dj_journal (ew_journal w)))"
    and "re_disposition r = Disp_ROLLED_BACK \<Longrightarrow> recovered sd sem plan w' \<and> \<not> re_retener_lock r"
    and "\<not> re_retener_lock r \<Longrightarrow> recovered sd sem plan w' \<or> w' = w \<and> settled (pj_transaction_state (dj_journal (ew_journal w)))"
    and "re_disposition r \<noteq> NO_TRANSACTION \<and> re_disposition r \<noteq> PRE_PLAN_LOCK_RECOVERED"
proof -
  let ?j = "dj_journal (ew_journal w)"
  let ?P = "\<lambda>r. (\<forall>q. sd (ew_env w') q \<noteq> sd (ew_env w) q \<longrightarrow> node_state ?j q \<noteq> None
      \<and> q \<in> relative_path ` set (ap_nodes plan) \<and> rollback_pending (pj_transaction_state ?j))
    \<and> (re_disposition r = Disp_ROLLED_BACK \<longrightarrow> recovered sd sem plan w' \<and> \<not> re_retener_lock r)
    \<and> (\<not> re_retener_lock r \<longrightarrow> recovered sd sem plan w' \<or> w' = w \<and> settled (pj_transaction_state ?j))
    \<and> re_disposition r \<noteq> NO_TRANSACTION \<and> re_disposition r \<noteq> PRE_PLAN_LOCK_RECOVERED"
  have roll: "\<exists>r. res = Inr r \<and> ?P r"
    if "rollback_con (Some port) plan cs w = (res, w')" "\<And>q. q \<in> cs \<Longrightarrow> node_state ?j q \<noteq> None" "rollback_pending (pj_transaction_state ?j)" for cs
  proof -
    from that(1) obtain r where r: "flujo_rollback port plan cs w = (r, w')" "res = Inr r"
      by (auto simp: rollback_con_def split: prod.splits)
    from flujo_rollback_effect [OF laws d j r(1)] that(2,3) r(2) show ?thesis by auto
  qed
  let ?s = "pj_transaction_state ?j" and ?cs = "relpaths_en_estado ?j MUTATING \<union> relpaths_en_estado ?j MUTATED"
  have "(res, w') = (Inr indeterminado, append_indeterminate w) \<or> (res, w') = (Inr (resultado_de POST_VERIFICATION_REQUIRED True False), w)
    \<or> (\<exists>i. (res, w') = (Inr (resultado_de Disp_TERMINAL i i), w) \<and> (i \<or> settled ?s))
    \<or> rollback_pending ?s \<and> (rollback_con (Some port) plan {} w = (res, w') \<or> rollback_con (Some port) plan ?cs w = (res, w'))"
  proof (cases "nodo_wal_desalineado ?j plan")
    case True
    with run show ?thesis by (simp add: dispatch_fsm_def Let_def)
  next
    case False
    with run show ?thesis
      by (cases ?s) (auto simp: dispatch_fsm_def Let_def rollback_pending_def settled_def terminal_states
          simp del: relpaths_en_estado_iff split: if_split_asm)
  qed
  then consider "(res, w') = (Inr indeterminado, append_indeterminate w)"
    | "(res, w') = (Inr (resultado_de POST_VERIFICATION_REQUIRED True False), w)"
    | i where "(res, w') = (Inr (resultado_de Disp_TERMINAL i i), w)" "i \<or> settled ?s"
    | cs where "rollback_pending ?s" "rollback_con (Some port) plan cs w = (res, w')" "cs \<subseteq> ?cs" by blast
  then have "\<exists>r. res = Inr r \<and> ?P r"
  proof cases
    case 4
    from 4(3) have "\<And>q. q \<in> cs \<Longrightarrow> node_state ?j q \<noteq> None" by auto
    with roll [of cs] 4(1,2) show ?thesis by blast
  qed (auto simp: indeterminado_def resultado_de_def)
  with that show thesis by blast
qed

lemma dispatch_bajo_lock_effect:
  assumes laws: "port_laws port sd sem obj plan" and d: "distinct (map relative_path (ap_nodes plan))"
    and v: "rv_plan sha v = Inr plan" and run: "dispatch_bajo_lock sha op durable source pc jc (Some port) v ios g = (res, g', oj)"
  obtains (quiet) "g' = g" and "oj = None" and "\<And>r. res = Inr r \<Longrightarrow> re_disposition r \<noteq> Disp_ROLLED_BACK
      \<and> (\<not> re_retener_lock r \<longrightarrow> classify_protection_journal (rv_journal_exists v) (rv_journal_read v) = Inr (Class_absent, None))"
  | (journal) j w' where "open_protection_journal (rv_open_exists v) (rv_open_read v) (rv_open_ok v) (rv_open_read_again v) plan = Inr j"
      and "dispatch_fsm (Some port) plan \<lparr>ew_env = g, ew_journal = j, ew_io = ios\<rparr> = (res, w')"
      and "g' = ew_env w'" and "oj = Some (close_journal (ew_journal w'))"
proof -
  have absent: "a = Class_absent \<Longrightarrow> classify_protection_journal e x = Inr (a, y) \<Longrightarrow> y = None" for a e x y
    by (auto simp: classify_protection_journal_def res_bind_Inr split: if_splits option.splits)
  show thesis
  proof (cases "classify_protection_journal (rv_journal_exists v) (rv_journal_read v)")
    case (Inl e)
    with run show thesis by (intro quiet) (auto simp: dispatch_bajo_lock_def)
  next
    case (Inr c)
    obtain ja x where c: "classify_protection_journal (rv_journal_exists v) (rv_journal_read v) = Inr (ja, x)" using Inr by (cases c) simp
    show thesis
    proof (cases durable)
      case None
      with run c show thesis using absent [OF _ c]
        by (intro quiet) (auto simp: dispatch_bajo_lock_def indeterminado_def resultado_de_def split: if_splits sum.splits)
    next
      case (Some plan0)
      let ?same = "ap_plan_digest plan = ap_plan_digest plan0 \<and> (ap_volume_serial_number plan, ap_root_file_id plan) = (ap_volume_serial_number plan0, ap_root_file_id plan0)
        \<and> ap_canonical_root plan = ap_canonical_root plan0"
      show thesis
      proof (cases "?same \<and> ja = Class_valid")
        case True
        obtain o' where o': "open_protection_journal (rv_open_exists v) (rv_open_read v) (rv_open_ok v) (rv_open_read_again v) plan = o'" by blast
        obtain r w' where fsm: "dispatch_fsm (Some port) plan \<lparr>ew_env = g, ew_journal = projr o', ew_io = ios\<rparr> = (r, w')" by fastforce
        show thesis
        proof (cases o')
          case (Inl e)
          with run c Some v o' True show thesis
            by (intro quiet) (auto simp: dispatch_bajo_lock_def indeterminado_def resultado_de_def)
        next
          case (Inr j)
          with run c Some v o' True fsm have "(r, ew_env w', Some (close_journal (ew_journal w'))) = (res, g', oj)"
            by (simp add: dispatch_bajo_lock_def)
          with Inr o' fsm show thesis by (intro journal [of j w']) auto
        qed
      next
        case False
        then have "\<not> ?same \<or> ja = Class_absent \<or> ja = Class_indeterminate" by (cases ja) simp_all
        with run c Some v show thesis using absent [OF _ c]
          by (intro quiet) (auto simp: dispatch_bajo_lock_def indeterminado_def resultado_de_def split: if_splits)
      qed
    qed
  qed
qed

lemma recover_cases:
  assumes "recover_interrupted_protection sha op v acq port v2 ios released g = (Inr rep, g', oj)"
  obtains (unlocked) "g' = g" and "oj = None" and "fr_lock_outcome rep \<in> {NOT_ATTEMPTED, Lock_BUSY, REFUSED}"
      and "re_disposition (fr_resultado rep) \<noteq> Disp_ROLLED_BACK"
  | (locked) stale plan source pc jc res where "acq = Lock_acquired stale"
      and "dispatch_bajo_lock sha op plan source pc jc port v2 ios g = (res, g', oj)"
      and "fr_resultado rep = (case res of Inl _ \<Rightarrow> indeterminado | Inr x \<Rightarrow> x)"
      and "fr_lock_outcome rep = (if re_retener_lock (fr_resultado rep) \<or> \<not> released then ACQUIRED_RETAINED else ACQUIRED_RELEASED)"
proof -
  obtain c0 where c0: "classify_durable_authorized_plan sha (rv_plan_read v) = Inr c0"
    using assms by (auto simp: recover_interrupted_protection_def split: sum.splits)
  obtain jc j where c: "classify_protection_journal (rv_journal_exists v) (rv_journal_read v) = Inr (jc, j)"
    using assms c0 by (auto simp: recover_interrupted_protection_def split: sum.splits)
  obtain clase plan binding ident source where i: "identidad_durable sha v c0 j = ((clase, plan), binding, ident, source)"
    by (metis prod.collapse)
  obtain res g1 oj1 where d: "dispatch_bajo_lock sha op plan source clase jc port v2 ios g = (res, g1, oj1)"
    by (metis prod.collapse)
  show thesis
  proof (cases "\<exists>stale. acq = Lock_acquired stale \<and> ident \<noteq> None")
    case True
    then obtain stale where st: "acq = Lock_acquired stale" "ident \<noteq> None" by blast
    show thesis
    proof (rule locked [OF st(1)])
      show "dispatch_bajo_lock sha op plan source clase jc port v2 ios g = (res, g', oj)"
        using assms c0 c i d st by (simp add: recover_interrupted_protection_def Let_def)
    qed (use assms c0 c i d st in \<open>auto simp: recover_interrupted_protection_def Let_def\<close>)
  next
    case False
    show thesis
      by (rule unlocked) (use assms c0 c i False in
        \<open>auto simp: recover_interrupted_protection_def Let_def resultado_de_def split: if_splits lock_acquisition.splits\<close>)
  qed
qed

lemma recovered_file:
  "recovered sd sem plan w \<Longrightarrow> parse_journal_bytes (dj_file (ew_journal w)) =
      Inr \<lparr>disposition = VALID, loaded_journal = Some (dj_journal (ew_journal w))\<rparr>"
  by (simp add: recovered_def readable_def)

text \<open>A journal on disk that says that the transaction is over, other than for inspection.\<close>

definition settled_file :: "DurableProtectionJournal \<Rightarrow> bool" where
  "settled_file s \<longleftrightarrow> settled (pj_transaction_state (dj_journal s))
     \<and> parse_journal_bytes (dj_file s) = Inr \<lparr>disposition = VALID, loaded_journal = Some (dj_journal s)\<rparr>"

lemma settled_file_close: "settled_file (close_journal s) = settled_file s"
  by (simp add: settled_file_def close_journal_def)

lemma settled_rolled_back: "settled ROLLED_BACK"
  by (simp add: settled_def terminal_states)

lemma recovery_restored:
  assumes "port_laws port sd sem obj plan" and "rv_plan sha v2 = Inr plan"
    and "recover_interrupted_protection sha op v acq (Some port) v2 ios released g = (Inr rep, g', oj)"
    and "re_disposition (fr_resultado rep) = Disp_ROLLED_BACK"
  shows "list_all (\<lambda>n. sd g' (relative_path n) = sem (pre_sd_sha256 n)) (ap_nodes plan)
    \<and> fr_lock_outcome rep = (if released then ACQUIRED_RELEASED else ACQUIRED_RETAINED)
    \<and> (\<exists>s. oj = Some s \<and> pj_transaction_state (dj_journal s) = ROLLED_BACK
         \<and> parse_journal_bytes (dj_file s) = Inr \<lparr>disposition = VALID, loaded_journal = Some (dj_journal s)\<rparr>)"
proof -
  note dist = rv_plan_distinct [OF assms(2)]
  show ?thesis
    using assms(3)
  proof (cases rule: recover_cases)
  case unlocked
  with assms(4) show ?thesis by simp
next
  case (locked stale plan' source pc jc res)
  from assms(4) locked(3) obtain r where r: "res = Inr r" "fr_resultado rep = r"
    by (cases res) (auto simp: indeterminado_def resultado_de_def)
  show ?thesis
    using assms(1) dist assms(2) locked(2)
  proof (cases rule: dispatch_bajo_lock_effect)
    case quiet
    with r assms(4) show ?thesis by simp
  next
    case (journal j w')
    have "readable (ew_journal \<lparr>ew_env = g, ew_journal = j, ew_io = ios\<rparr>)" using open_readable(1) [OF journal(1)] by simp
    from dispatch_fsm_effect [OF assms(1) dist this journal(2)] r assms(4) have re: "recovered sd sem plan w'" "\<not> re_retener_lock r" by blast+
    with locked(4) r journal(3,4) recovered_file [OF re(1)] show ?thesis
      by (simp add: recovered_def list_all_iff close_journal_def)
  qed
qed
qed

text \<open>C13: a recovery that says ROLLED_BACK is right: every node of the plan has the descriptor that the plan
  was authorized on, the file of the journal says ROLLED_BACK to any reader, and the lock was given back
  unless its release failed.\<close>

theorem recovery_restores:
  assumes "port_laws port sd sem obj plan" and "rv_plan sha v2 = Inr plan"
    and "recover_interrupted_protection sha op v acq (Some port) v2 ios released g = (Inr rep, g', oj)"
    and "re_disposition (fr_resultado rep) = Disp_ROLLED_BACK"
  shows "list_all (\<lambda>n. sd g' (relative_path n) = sem (pre_sd_sha256 n)) (ap_nodes plan)
    \<and> fr_lock_outcome rep = (if released then ACQUIRED_RELEASED else ACQUIRED_RETAINED)
    \<and> (\<exists>s. oj = Some s \<and> pj_transaction_state (dj_journal s) = ROLLED_BACK
         \<and> parse_journal_bytes (dj_file s) = Inr \<lparr>disposition = VALID, loaded_journal = Some (dj_journal s)\<rparr>)"
  using assms by (rule recovery_restored)

text \<open>C14: a recovery changes only what it may: when it changed a descriptor it held the lock, the node belongs
  to the plan, and the journal that it opened names the node and stands in an unfinished apply or rollback.\<close>

theorem recovery_touches_only_logged:
  assumes "port_laws port sd sem obj plan" and "rv_plan sha v2 = Inr plan"
    and "recover_interrupted_protection sha op v acq (Some port) v2 ios released g = (Inr rep, g', oj)"
    and "sd g' q \<noteq> sd g q"
  shows "(\<exists>stale. acq = Lock_acquired stale) \<and> q \<in> relative_path ` set (ap_nodes plan)
    \<and> (\<exists>j. open_protection_journal (rv_open_exists v2) (rv_open_read v2) (rv_open_ok v2) (rv_open_read_again v2) plan = Inr j
         \<and> node_state (dj_journal j) q \<noteq> None \<and> rollback_pending (pj_transaction_state (dj_journal j)))"
proof -
  note dist = rv_plan_distinct [OF assms(2)]
  show ?thesis
    using assms(3)
  proof (cases rule: recover_cases)
  case unlocked
  with assms(4) show ?thesis by simp
next
  case (locked stale plan' source pc jc res)
  show ?thesis
    using assms(1) dist assms(2) locked(2)
  proof (cases rule: dispatch_bajo_lock_effect)
    case quiet
    with assms(4) show ?thesis by simp
  next
    case (journal j w')
    have "readable (ew_journal \<lparr>ew_env = g, ew_journal = j, ew_io = ios\<rparr>)" using open_readable(1) [OF journal(1)] by simp
    from dispatch_fsm_effect [OF assms(1) dist this journal(2)] assms(4) journal(3)
    have "node_state (dj_journal j) q \<noteq> None \<and> q \<in> relative_path ` set (ap_nodes plan) \<and> rollback_pending (pj_transaction_state (dj_journal j))"
      by (metis exec_world.select_convs(1,2))
    with locked(1) journal(1) show ?thesis by blast
  qed
qed
qed

text \<open>C15: the lock is given back only when nothing is left to do: either no journal exists and nothing was
  touched, or the file of the journal says a final state, other than the two that wait for an operator.\<close>

theorem recovery_releases_only_settled:
  assumes "port_laws port sd sem obj plan" and "rv_plan sha v2 = Inr plan"
    and "recover_interrupted_protection sha op v acq (Some port) v2 ios released g = (Inr rep, g', oj)"
    and "fr_lock_outcome rep = ACQUIRED_RELEASED"
  shows "released \<and> (if classify_protection_journal (rv_journal_exists v2) (rv_journal_read v2) = Inr (Class_absent, None) then g' = g
      else \<exists>s. oj = Some s \<and> settled_file s)"
proof -
  note dist = rv_plan_distinct [OF assms(2)]
  show ?thesis
    using assms(3)
  proof (cases rule: recover_cases)
  case unlocked
  with assms(4) show ?thesis by simp
next
  case (locked stale plan' source pc jc res)
  from assms(4) locked(4) have nr: "released" "\<not> re_retener_lock (fr_resultado rep)" by (auto split: if_splits)
  with locked(3) obtain r where r: "res = Inr r" "fr_resultado rep = r"
    by (cases res) (auto simp: indeterminado_def resultado_de_def)
  show ?thesis
    using assms(1) dist assms(2) locked(2)
  proof (cases rule: dispatch_bajo_lock_effect)
    case quiet
    with r nr show ?thesis by simp
  next
    case (journal j w')
    show ?thesis
    proof (cases "classify_protection_journal (rv_journal_exists v2) (rv_journal_read v2) = Inr (Class_absent, None)")
      case True
      then show ?thesis using locked(2) journal assms(2)
        by (auto simp: dispatch_bajo_lock_def indeterminado_def resultado_de_def split: option.splits if_splits)
    next
      case False
      have rd: "readable j" using open_readable(1) [OF journal(1)] .
      then have "readable (ew_journal \<lparr>ew_env = g, ew_journal = j, ew_io = ios\<rparr>)" by simp
      from dispatch_fsm_effect [OF assms(1) dist this journal(2)] r nr
      have "recovered sd sem plan w' \<or> w' = \<lparr>ew_env = g, ew_journal = j, ew_io = ios\<rparr> \<and> settled (pj_transaction_state (dj_journal j))"
        by fastforce
      then have "settled_file (ew_journal w')"
        using rd recovered_file [of sd sem plan w'] settled_rolled_back by (auto simp: settled_file_def readable_def recovered_def)
      with journal(4) nr(1) False show ?thesis by (simp add: settled_file_close)
    qed
  qed
qed
qed

subsection \<open>A recovery that meets no obstacle\<close>

text \<open>A port through which every node of the plan can be opened and restored.\<close>

definition port_recovers ::
  "'g port \<Rightarrow> ('g \<Rightarrow> string \<Rightarrow> 'd) \<Rightarrow> (string \<Rightarrow> 'd) \<Rightarrow> ('g \<Rightarrow> int \<Rightarrow> string option) \<Rightarrow> AuthorizedPlan \<Rightarrow> bool" where
  "port_recovers port sd sem obj plan \<longleftrightarrow>
     (\<forall>path k g. \<exists>h. fst (p_open port path k g) = Inr h)
     \<and> (\<forall>h n g. n \<in> set (ap_nodes plan) \<longrightarrow> obj g h = Some (relative_path n) \<longrightarrow> fst (p_read_identity port h g) =
          Inr \<lparr>ni_volume_serial_number = volume_serial_number n, ni_file_id = file_id n, ni_reparse_tag = 0, ni_number_of_links = 1\<rparr>)
     \<and> (\<forall>h n g. n \<in> set (ap_nodes plan) \<longrightarrow> obj g h = Some (relative_path n) \<longrightarrow> sd g (relative_path n) = sem (pre_sd_sha256 n) \<longrightarrow>
          fst (p_verify_restored_pre_sd port h n g) = Inr ())
     \<and> (\<forall>h n g. n \<in> set (ap_nodes plan) \<longrightarrow> obj g h = Some (relative_path n) \<longrightarrow>
          fst (p_restore_pre_sd port h n g) = Inr () \<and> sd (snd (p_restore_pre_sd port h n g)) (relative_path n) = sem (pre_sd_sha256 n))"

lemma port_recoversD:
  assumes "port_recovers port sd sem obj plan"
  shows "\<exists>h g'. p_open port path k g = (Inr h, g')"
    and "n \<in> set (ap_nodes plan) \<Longrightarrow> obj g h = Some (relative_path n) \<Longrightarrow> \<exists>g'. p_read_identity port h g =
      (Inr \<lparr>ni_volume_serial_number = volume_serial_number n, ni_file_id = file_id n, ni_reparse_tag = 0, ni_number_of_links = 1\<rparr>, g')"
    and "n \<in> set (ap_nodes plan) \<Longrightarrow> obj g h = Some (relative_path n) \<Longrightarrow> sd g (relative_path n) = sem (pre_sd_sha256 n) \<Longrightarrow>
      \<exists>g'. p_verify_restored_pre_sd port h n g = (Inr (), g')"
    and "n \<in> set (ap_nodes plan) \<Longrightarrow> obj g h = Some (relative_path n) \<Longrightarrow>
      \<exists>g'. p_restore_pre_sd port h n g = (Inr (), g') \<and> sd g' (relative_path n) = sem (pre_sd_sha256 n)"
proof -
  note d = assms [unfolded port_recovers_def]
  from d obtain r where "fst (p_open port path k g) = Inr r" by (metis (no_types))
  from fst_pair [OF this] show "\<exists>h g'. p_open port path k g = (Inr h, g')" by blast
  assume n: "n \<in> set (ap_nodes plan)" "obj g h = Some (relative_path n)"
  show "\<exists>g'. p_read_identity port h g =
      (Inr \<lparr>ni_volume_serial_number = volume_serial_number n, ni_file_id = file_id n, ni_reparse_tag = 0, ni_number_of_links = 1\<rparr>, g')"
    by (rule fst_pair) (use d n in simp)
  show "\<exists>g'. p_verify_restored_pre_sd port h n g = (Inr (), g')" if "sd g (relative_path n) = sem (pre_sd_sha256 n)"
    by (rule fst_pair) (use d n that in simp)
  have "fst (p_restore_pre_sd port h n g) = Inr () \<and> sd (snd (p_restore_pre_sd port h n g)) (relative_path n) = sem (pre_sd_sha256 n)"
    using d n by simp
  then show "\<exists>g'. p_restore_pre_sd port h n g = (Inr (), g') \<and> sd g' (relative_path n) = sem (pre_sd_sha256 n)"
    by (metis prod.collapse)
qed

lemma evaluar_nodo_succeeds:
  assumes laws: "port_laws port sd sem obj plan" and ok: "port_recovers port sd sem obj plan" and n: "n \<in> set (ap_nodes plan)"
    and c: "c \<or> sd g (relative_path n) = sem (pre_sd_sha256 n)"
  shows "\<exists>ev g'. evaluar_nodo port (derive_node_path plan (relative_path n)) n c g = (ev, g') \<and> (\<forall>m. ev \<noteq> Detener m)"
proof -
  let ?path = "derive_node_path plan (relative_path n)"
  obtain h g1 where o: "p_open port ?path (node_kind n) g = (Inr h, g1)" using port_recoversD(1) [OF ok] by blast
  note h = port_open [OF laws n o] and sd1 = port_quiet(2) [OF laws o]
  from port_recoversD(2) [OF ok n h] obtain g2 where i: "p_read_identity port h g1 =
      (Inr \<lparr>ni_volume_serial_number = volume_serial_number n, ni_file_id = file_id n, ni_reparse_tag = 0, ni_number_of_links = 1\<rparr>, g2)" ..
  note g2 = port_restore(2) [OF laws h i]
  obtain r g3 where v: "p_verify_restored_pre_sd port h n g2 = (r, g3)" by fastforce
  have "r = Inr ()" if "\<not> c"
    using port_recoversD(3) [OF ok n g2 [THEN conjunct2]] g2 sd1 c that v by auto
  with o i v show ?thesis by (cases r) (auto simp: evaluar_nodo_def motivo_identidad_def)
qed

lemma restaurar_nodo_succeeds:
  assumes laws: "port_laws port sd sem obj plan" and ok: "port_recovers port sd sem obj plan" and n: "n \<in> set (ap_nodes plan)"
  shows "\<exists>g'. restaurar_nodo port (derive_node_path plan (relative_path n)) n g = (None, g')"
proof -
  let ?path = "derive_node_path plan (relative_path n)"
  obtain h g1 where o: "p_open port ?path (node_kind n) g = (Inr h, g1)" using port_recoversD(1) [OF ok] by blast
  note h = port_open [OF laws n o]
  from port_recoversD(2) [OF ok n h] obtain g2 where i: "p_read_identity port h g1 =
      (Inr \<lparr>ni_volume_serial_number = volume_serial_number n, ni_file_id = file_id n, ni_reparse_tag = 0, ni_number_of_links = 1\<rparr>, g2)" ..
  note g2 = port_restore(2) [OF laws h i]
  from port_recoversD(4) [OF ok n g2 [THEN conjunct2]] obtain g3 where
    s: "p_restore_pre_sd port h n g2 = (Inr (), g3)" "sd g3 (relative_path n) = sem (pre_sd_sha256 n)" by blast
  note g3 = port_restore(1) [OF laws g2 [THEN conjunct2] s(1)]
  from port_recoversD(3) [OF ok n g3 [THEN conjunct1] s(2)] obtain g4 where "p_verify_restored_pre_sd port h n g3 = (Inr (), g4)" ..
  with o i s(1) show ?thesis by (simp add: restaurar_nodo_def motivo_identidad_def)
qed

lemma escanear_succeeds:
  assumes laws: "port_laws port sd sem obj plan" and ok: "port_recovers port sd sem obj plan"
  shows "set ns \<subseteq> set (ap_nodes plan) \<Longrightarrow> \<forall>n \<in> set ns. relative_path n \<in> cs \<or> sd g (relative_path n) = sem (pre_sd_sha256 n) \<Longrightarrow>
    \<exists>d' ne' g'. escanear port plan cs ns d ne g = ((d', ne', None), g')"
proof (induction ns arbitrary: d ne g)
  case (Cons n ns)
  then have n: "n \<in> set (ap_nodes plan)" "relative_path n \<in> cs \<or> sd g (relative_path n) = sem (pre_sd_sha256 n)" by auto
  from evaluar_nodo_succeeds [OF laws ok n] obtain ev g' where
    e: "evaluar_nodo port (derive_node_path plan (relative_path n)) n (relative_path n \<in> cs) g = (ev, g')" "\<forall>m. ev \<noteq> Detener m" by blast
  from evaluar_nodo_effect [OF laws n(1) e(1)] have "sd g' = sd g" by blast
  with Cons.IH [of g'] Cons.prems e show ?case by (cases ev) auto
qed simp

lemma restaurar_nodos_succeeds:
  assumes laws: "port_laws port sd sem obj plan" and ok: "port_recovers port sd sem obj plan"
  shows "set ns \<subseteq> set (ap_nodes plan) \<Longrightarrow> \<exists>res' g'. restaurar_nodos port plan ns res g = ((res', True), g')"
proof (induction ns arbitrary: res g)
  case (Cons n ns)
  then have n: "n \<in> set (ap_nodes plan)" by simp
  from restaurar_nodo_succeeds [OF laws ok n] obtain g' where
    "restaurar_nodo port (derive_node_path plan (relative_path n)) n g = (None, g')" by blast
  with Cons.IH [of "res @ [relative_path n]" g'] Cons.prems show ?case by simp
qed simp

text \<open>A world whose disk is healthy and whose log has room for some more records.\<close>

definition log_ready :: "nat \<Rightarrow> 'g exec_world \<Rightarrow> bool" where
  "log_ready k w \<longleftrightarrow> readable (ew_journal w) \<and> ew_io w = [] \<and> length (dj_records (ew_journal w)) + k < 10 ^ MAX_INT_DIGITS"

lemma log_ready_mono: "log_ready (Suc k) w \<Longrightarrow> log_ready k w"
  by (auto simp: log_ready_def)

lemma transicionar_succeeds:
  assumes "log_ready (Suc k) w" and "tx_allowed (pj_transaction_state (dj_journal (ew_journal w))) t"
    and "t \<in> S4A_PERMITTED_TRANSITION_TARGETS"
  shows "\<exists>w'. transicionar t w = (True, w') \<and> log_ready k w' \<and> pj_transaction_state (dj_journal (ew_journal w')) = t"
proof -
  from assms(1) have r: "readable (ew_journal w)" "ew_io w = []" "printable_log (ew_journal w)"
    by (simp_all add: log_ready_def printable_log_def)
  from readable_transition_succeeds [OF r(1) assms(2,3) r(3)] obtain s' where
    s': "transition_to healthy_io (ew_journal w) t = (Inr (), s')" ..
  with readable_transition [OF r(1) s'] r(2) assms(1) show ?thesis
    by (simp add: transicionar_def on_journal_def healthy_next log_ready_def)
qed

lemma rollback_fases_succeeds:
  assumes laws: "port_laws port sd sem obj plan" and ok: "port_recovers port sd sem obj plan" and log: "log_ready (Suc k) w"
    and st: "pj_transaction_state (dj_journal (ew_journal w)) = ROLLING_BACK"
    and c: "\<forall>n \<in> set (ap_nodes plan). relative_path n \<in> cs \<or> sd (ew_env w) (relative_path n) = sem (pre_sd_sha256 n)"
  shows "\<exists>r w'. rollback_fases port plan cs w = (r, w') \<and> re_disposition r = Disp_ROLLED_BACK"
proof -
  from escanear_succeeds [OF laws ok subset_refl c] obtain d ne g where
    s: "escanear port plan cs (ap_nodes plan) [] [] (ew_env w) = ((d, ne, None), g)" by blast
  have "set (rollback_order plan ne) \<subseteq> set (ap_nodes plan)" by auto
  from restaurar_nodos_succeeds [OF laws ok this] obtain res g' where
    r: "restaurar_nodos port plan (rollback_order plan ne) [] g = ((res, True), g')" by blast
  have "log_ready (Suc k) (w\<lparr>ew_env := g'\<rparr>)" using log by (simp add: log_ready_def)
  from transicionar_succeeds [OF this, of ROLLED_BACK] st obtain w1 where "transicionar ROLLED_BACK (w\<lparr>ew_env := g'\<rparr>) = (True, w1)"
    by (auto simp: S4A_PERMITTED_TRANSITION_TARGETS_def)
  with s r show ?thesis by (simp add: rollback_fases_def Let_def resultado_de_def)
qed

lemma flujo_rollback_succeeds:
  assumes laws: "port_laws port sd sem obj plan" and ok: "port_recovers port sd sem obj plan" and log: "log_ready 3 w"
    and st: "rollback_pending (pj_transaction_state (dj_journal (ew_journal w)))"
    and c: "\<forall>n \<in> set (ap_nodes plan). relative_path n \<in> cs \<or> sd (ew_env w) (relative_path n) = sem (pre_sd_sha256 n)"
  shows "\<exists>r w'. flujo_rollback port plan cs w = (r, w') \<and> re_disposition r = Disp_ROLLED_BACK"
proof -
  let ?step = "\<lambda>s t w. if pj_transaction_state (dj_journal (ew_journal w)) = s then transicionar t w else (True, w)"
  have step: "\<exists>b. ?step s t a = (True, b) \<and> log_ready k b \<and> ew_env b = ew_env a
      \<and> pj_transaction_state (dj_journal (ew_journal b)) = (if pj_transaction_state (dj_journal (ew_journal a)) = s then t
          else pj_transaction_state (dj_journal (ew_journal a)))"
    if "log_ready (Suc k) a" "tx_allowed s t" "t \<in> S4A_PERMITTED_TRANSITION_TARGETS" for s t k a
  proof (cases "pj_transaction_state (dj_journal (ew_journal a)) = s")
    case True
    with transicionar_succeeds [OF that(1) _ that(3)] that(2) obtain b where
      "transicionar t a = (True, b)" "log_ready k b" "pj_transaction_state (dj_journal (ew_journal b)) = t" by blast
    with True transicionar_env [of t a] show ?thesis by (simp del: transicionar_env)
  next
    case False
    with log_ready_mono [OF that(1)] show ?thesis by simp
  qed
  have log3: "log_ready (Suc 2) w" using log by simp
  have t: "ROLLBACK_REQUIRED \<in> S4A_PERMITTED_TRANSITION_TARGETS" "ROLLING_BACK \<in> S4A_PERMITTED_TRANSITION_TARGETS"
    by (simp_all add: S4A_PERMITTED_TRANSITION_TARGETS_def)
  have a: "tx_allowed APPLYING ROLLBACK_REQUIRED" "tx_allowed ROLLBACK_REQUIRED ROLLING_BACK" by simp_all
  from step [OF log3 a(1) t(1)] obtain w1 where s1: "?step APPLYING ROLLBACK_REQUIRED w = (True, w1)"
      "log_ready 2 w1" "ew_env w1 = ew_env w" "pj_transaction_state (dj_journal (ew_journal w1)) =
        (if pj_transaction_state (dj_journal (ew_journal w)) = APPLYING then ROLLBACK_REQUIRED
         else pj_transaction_state (dj_journal (ew_journal w)))" by blast
  then have w1: "pj_transaction_state (dj_journal (ew_journal w1)) \<in> {ROLLBACK_REQUIRED, ROLLING_BACK}"
    using st unfolding rollback_pending_def by (metis insert_iff)
  have "log_ready (Suc 1) w1" using s1(2) by (simp only: Suc_1)
  from step [OF this a(2) t(2)] obtain w2 where
    s2: "?step ROLLBACK_REQUIRED ROLLING_BACK w1 = (True, w2)" "log_ready 1 w2" "ew_env w2 = ew_env w1"
      "pj_transaction_state (dj_journal (ew_journal w2)) =
        (if pj_transaction_state (dj_journal (ew_journal w1)) = ROLLBACK_REQUIRED then ROLLING_BACK
         else pj_transaction_state (dj_journal (ew_journal w1)))" by blast
  then have w2: "pj_transaction_state (dj_journal (ew_journal w2)) = ROLLING_BACK" using w1 by (metis insert_iff singletonD)
  have c2: "\<forall>n \<in> set (ap_nodes plan). relative_path n \<in> cs \<or> sd (ew_env w2) (relative_path n) = sem (pre_sd_sha256 n)"
    using c s1(3) s2(3) by simp
  have log1: "log_ready (Suc 0) w2" using s2(2) by simp
  from rollback_fases_succeeds [OF laws ok log1 w2 c2] s1(1) s2(1) show ?thesis
    by (simp add: flujo_rollback_def)
qed

lemma dispatch_fsm_succeeds:
  assumes laws: "port_laws port sd sem obj plan" and ok: "port_recovers port sd sem obj plan" and log: "log_ready 3 w"
    and st: "rollback_pending (pj_transaction_state (dj_journal (ew_journal w)))"
    and wal: "\<not> nodo_wal_desalineado (dj_journal (ew_journal w)) plan"
    and c: "\<forall>n \<in> set (ap_nodes plan). node_state (dj_journal (ew_journal w)) (relative_path n) \<noteq> None
      \<or> sd (ew_env w) (relative_path n) = sem (pre_sd_sha256 n)"
  shows "\<exists>r w'. dispatch_fsm (Some port) plan w = (Inr r, w') \<and> (re_disposition r = Disp_ROLLED_BACK
    \<or> re_disposition r = POST_VERIFICATION_REQUIRED \<and> w' = w
      \<and> list_all (\<lambda>n. node_state (dj_journal (ew_journal w)) (relative_path n) = Some MUTATED) (ap_nodes plan))"
proof -
  let ?j = "dj_journal (ew_journal w)"
  let ?m = "relpaths_en_estado ?j MUTATING" and ?d = "relpaths_en_estado ?j MUTATED"
  have some: "node_state ?j p \<noteq> None \<longleftrightarrow> p \<in> ?m \<union> ?d" for p
    by (cases "node_state ?j p"; cases "the (node_state ?j p)") auto
  show ?thesis
  proof (cases "pj_transaction_state ?j = APPLYING \<and> (?m = {} \<and> ?d = {} \<or> ?m = {} \<and> ?d = relative_path ` set (ap_nodes plan))")
    case False
    with st wal have "dispatch_fsm (Some port) plan w = rollback_con (Some port) plan (?m \<union> ?d) w"
      unfolding dispatch_fsm_def Let_def
      by (cases "pj_transaction_state ?j") (simp_all add: rollback_pending_def del: relpaths_en_estado_iff, blast)
    moreover have "\<forall>n \<in> set (ap_nodes plan). relative_path n \<in> ?m \<union> ?d \<or> sd (ew_env w) (relative_path n) = sem (pre_sd_sha256 n)"
      using c some by blast
    from flujo_rollback_succeeds [OF laws ok log st this] obtain r w' where
      "flujo_rollback port plan (?m \<union> ?d) w = (r, w')" "re_disposition r = Disp_ROLLED_BACK" by blast
    ultimately show ?thesis by (simp add: rollback_con_def del: relpaths_en_estado_iff)
  next
    case True
    show ?thesis
    proof (cases "?m = {} \<and> ?d = {}")
      case e: True
      with True wal have "dispatch_fsm (Some port) plan w = rollback_con (Some port) plan {} w"
        by (simp add: dispatch_fsm_def Let_def del: relpaths_en_estado_iff)
      moreover have "\<forall>n \<in> set (ap_nodes plan). relative_path n \<in> {} \<or> sd (ew_env w) (relative_path n) = sem (pre_sd_sha256 n)"
        using c some e by blast
      from flujo_rollback_succeeds [OF laws ok log st this] obtain r w' where
        "flujo_rollback port plan {} w = (r, w')" "re_disposition r = Disp_ROLLED_BACK" by blast
      ultimately show ?thesis by (simp add: rollback_con_def del: relpaths_en_estado_iff)
    next
      case False
      with True wal have "dispatch_fsm (Some port) plan w = (Inr (resultado_de POST_VERIFICATION_REQUIRED True False), w)"
        by (auto simp: dispatch_fsm_def Let_def simp del: relpaths_en_estado_iff)
      moreover have "node_state ?j (relative_path n) = Some MUTATED" if "n \<in> set (ap_nodes plan)" for n
        using True False that relpaths_en_estado_iff by blast
      ultimately show ?thesis by (simp add: resultado_de_def list_all_iff)
    qed
  qed
qed

subsection \<open>A crash of the apply, and its recovery\<close>

text \<open>Every call may raise and stay without effect from some moment on, so the runs of the apply include
  those that a crash stopped: what they leave in the environment and in the file is what the crash left.\<close>

lemma aligned_file:
  assumes "store_inv s" and "dj_plan s = plan"
    and "parse_journal_bytes (dj_file s) = Inr \<lparr>disposition = VALID, loaded_journal = Some j\<rparr>"
  shows "\<not> nodo_wal_desalineado j plan" and "\<And>p. node_state j p \<noteq> None \<Longrightarrow> p \<in> relative_path ` set (ap_nodes plan)"
proof -
  have m: "node_matches plan r" if "r \<in> set (pj_node_records j)" for r
    using reader_matches [OF assms(1,3) that] assms(2) by simp
  then show "\<not> nodo_wal_desalineado j plan"
    by (fastforce simp: nodo_wal_desalineado_def node_matches_def node_identity_def plan_identity_def)
  fix p assume "node_state j p \<noteq> None"
  then obtain r where "node_record j p = Some r" by (auto simp: node_state_def)
  from node_record_in [OF this] m obtain n where "node_for plan p = Some n" by (auto simp: node_matches_def)
  from node_for_in [OF this] show "p \<in> relative_path ` set (ap_nodes plan)" by blast
qed

text \<open>C2: an interrupted apply is recovered. Whatever the apply did before it stopped, with calls that may fail
  from any moment on, if its file can be opened in a state that is not final then a recovery that meets no
  obstacle either gives every descriptor of the machine its value before the apply, or finds every node of
  the plan MUTATED, leaves them alone and hands them to the verification.\<close>

theorem crash_then_recover:
  assumes "port_laws port sd sem obj plan" and "exec_ready plan w" and "dj_plan (ew_journal w) = plan"
    and "\<forall>n \<in> set (ap_nodes plan). sd (ew_env w) (relative_path n) = sem (pre_sd_sha256 n)"
    and "apply_authorized_plan port plan session w = (res, w')" and "printable_log (ew_journal w')"
    and "open_protection_journal True (Some (dj_file (ew_journal w'))) True (Some (dj_file (ew_journal w'))) plan = Inr j"
    and "rollback_pending (pj_transaction_state (dj_journal j))" and "length (dj_records j) + 3 < 10 ^ MAX_INT_DIGITS"
    and "port_laws port2 sd sem obj2 plan" and "port_recovers port2 sd sem obj2 plan"
  shows "\<exists>r w2. dispatch_fsm (Some port2) plan \<lparr>ew_env = ew_env w', ew_journal = j, ew_io = []\<rparr> = (Inr r, w2)
    \<and> (re_disposition r = Disp_ROLLED_BACK \<and> sd (ew_env w2) = sd (ew_env w)
      \<or> re_disposition r = POST_VERIFICATION_REQUIRED \<and> sd (ew_env w2) = sd (ew_env w')
        \<and> list_all (\<lambda>n. node_state (dj_journal j) (relative_path n) = Some MUTATED) (ap_nodes plan))"
proof -
  let ?w = "\<lparr>ew_env = ew_env w', ew_journal = j, ew_io = []\<rparr>"
  from assms(2) have ready: "store_inv (ew_journal w)" "plan_wf (dj_plan (ew_journal w))" "distinct (map relative_path (ap_nodes plan))"
    by (simp_all add: exec_ready_def)
  from apply_steps [OF assms(1,2,5)] fold_inv [OF ready(1,2)] assms(3)
  have inv: "store_inv (ew_journal w')" "dj_plan (ew_journal w') = plan" by auto
  note op = open_readable [OF assms(7)]
  from op(1,3) have seen: "parse_journal_bytes (dj_file (ew_journal w')) = Inr \<lparr>disposition = VALID, loaded_journal = Some (dj_journal j)\<rparr>"
    by (simp add: readable_def)
  note al = aligned_file [OF inv seen]
  have named: "node_state (dj_journal j) q \<noteq> None" if "sd (ew_env w') q \<noteq> sd (ew_env w) q" for q
    using apply_logged [OF assms(1,2,5,6) that] reader_sees_logged [OF _ _ seen] by blast
  have "log_ready 3 ?w" using op(1) assms(9) by (simp add: log_ready_def)
  moreover have "\<forall>n \<in> set (ap_nodes plan). node_state (dj_journal (ew_journal ?w)) (relative_path n) \<noteq> None
      \<or> sd (ew_env ?w) (relative_path n) = sem (pre_sd_sha256 n)"
    using named assms(4) by fastforce
  ultimately obtain r w2 where run: "dispatch_fsm (Some port2) plan ?w = (Inr r, w2)"
    and r: "re_disposition r = Disp_ROLLED_BACK \<or> re_disposition r = POST_VERIFICATION_REQUIRED \<and> w2 = ?w
      \<and> list_all (\<lambda>n. node_state (dj_journal j) (relative_path n) = Some MUTATED) (ap_nodes plan)"
    using dispatch_fsm_succeeds [OF assms(10,11), of ?w] assms(8) al(1) by auto
  have rd: "readable (ew_journal ?w)" using op(1) by simp
  from dispatch_fsm_effect [OF assms(10) ready(3) rd run] have
    eff: "re_disposition r = Disp_ROLLED_BACK \<Longrightarrow> recovered sd sem plan w2"
      "\<And>q. sd (ew_env w2) q \<noteq> sd (ew_env w') q \<Longrightarrow> q \<in> relative_path ` set (ap_nodes plan)"
    by (metis Inr_inject, metis exec_world.select_convs(1))
  have "sd (ew_env w2) = sd (ew_env w)" if rb: "re_disposition r = Disp_ROLLED_BACK"
  proof
    fix q
    show "sd (ew_env w2) q = sd (ew_env w) q"
    proof (cases "q \<in> relative_path ` set (ap_nodes plan)")
      case True
      with eff(1) [OF rb] assms(4) show ?thesis by (auto simp: recovered_def)
    next
      case False
      with eff(2) named al(2) show ?thesis by metis
    qed
  qed
  with run r show ?thesis by auto
qed

end
