(* ===== verification/Protection_Protocol.thy ===== *)
theory Protection_Protocol
  imports Finalization Recovery
begin

text \<open>
  The protocol across its three drivers: the executor of \<open>Mutation_Executor\<close>, the finalization of
  \<open>Finalization\<close> and the recovery of \<open>Recovery\<close> meet only in the journal, and what one leaves there is
  what the next one asks for.
\<close>

lemma store_readable:
  assumes "store_inv s" and "\<not> dj_durability_failed s" and "dj_handle s"
  shows "readable s"
  using journal_roundtrip [OF store_inv_live [OF assms(1,2)]] parse_bytes_records [OF store_inv_live(1,2) [OF assms(1,2)]] assms(2,3)
  by (simp add: readable_def)

lemma matches_ids:
  "require_journal_matches_plan j plan = Inr u \<Longrightarrow> pj_operation_id j = ap_operation_id plan \<and> pj_authorized_plan_digest j = ap_plan_digest plan"
  by (auto simp: require_journal_matches_plan_def split: if_splits)

lemma matches_advanced: "advanced j j' \<Longrightarrow> require_journal_matches_plan j' plan = require_journal_matches_plan j plan"
  unfolding advanced_def by (elim exE) (simp add: require_journal_matches_plan_def)

text \<open>The journal after an apply without errors is one that a finalization admits.\<close>

lemma applied_journal:
  assumes "port_laws port sd sem obj plan" and "exec_ready plan w" and "ap_nodes plan \<noteq> []"
    and "require_journal_matches_plan (dj_journal (ew_journal w)) plan = Inr ()"
    and "apply_authorized_plan port plan session w = (Returned rep, w1)" and "ar_apply_error rep = None"
  shows "readable (ew_journal w1) \<and> pj_transaction_state (dj_journal (ew_journal w1)) = APPLYING
    \<and> require_journal_matches_plan (dj_journal (ew_journal w1)) plan = Inr ()
    \<and> (\<forall>n \<in> set (ap_nodes plan). node_state (dj_journal (ew_journal w1)) (relative_path n) = Some MUTATED)"
proof -
  from assms(5,6) obtain ocs where gate: "require_applying_state (ew_journal w) = Inr ()"
    and run: "apply_nodes port plan (apply_order plan) w = ((ocs, None), w1)"
    by (auto simp: apply_authorized_plan_def Let_def res_bind_Inr split: sum.splits prod.splits option.splits if_splits)
  note a = apply_nodes_ready [OF assms(1,2) gate run]
  have nf: "\<not> dj_durability_failed (ew_journal w1)" using a(1) applying_at_state(2) [OF assms(2) gate] by (simp add: nodes_effect_def)
  have "readable (ew_journal w1)" using store_readable [OF a(3) nf] a(2) by (simp add: at_state_def)
  moreover have "pj_transaction_state (dj_journal (ew_journal w1)) = APPLYING" using a(2) nf by (simp add: at_state_def)
  moreover from apply_steps [OF assms(1,2,5)] obtain ops where "ew_journal w1 = fold run_op ops (ew_journal w)" ..
  with fold_binding assms(2,4) have "require_journal_matches_plan (dj_journal (ew_journal w1)) plan = Inr ()"
    by (simp add: exec_ready_def)
  moreover have "list_all (\<lambda>n. node_state (dj_journal (ew_journal w1)) (relative_path n) = Some MUTATED) (ap_nodes plan)"
    using apply_success [OF assms(1-3,5,6)] by blast
  ultimately show ?thesis by (simp add: list_all_iff)
qed

text \<open>C3: the whole protocol: an apply that returned without errors and a finalization that meets no obstacle commit the
  plan and give the lock back, to be had by any other operation.\<close>

theorem protection_commits:
  assumes "port_laws port sd sem obj plan" and "exec_ready plan w" and "ap_nodes plan \<noteq> []"
    and "require_journal_matches_plan (dj_journal (ew_journal w)) plan = Inr ()"
    and "apply_authorized_plan port plan session w = (Returned rep, w1)" and "ar_apply_error rep = None"
    and "length (dj_records (ew_journal w1)) + 6 < 10 ^ MAX_INT_DIGITS"
    and "fi_journal_exists io" and "fi_journal_readable io" and "fi_enter io = (\<lambda>_. healthy_io)" and "fi_commit io = healthy_io"
    and "gates_pass sha io" and "archive_succeeds sha repr plan io b" and "\<And>x. length (sha x) = 64"
    and "lock_available plan io key l"
    and "finalize_protection_transaction sha repr (ap_operation_id plan) plan None io
           \<lparr>fw_journal = ew_journal w1, fw_lock = l, fw_escritos = []\<rparr> = (res, fw)"
    and "canonical_uuid op'" and "lock_io_ok key (ap_volume_serial_number plan) (ap_root_file_id plan) op' io'"
  shows "(\<exists>rep. res = Inr rep \<and> fr_disposition rep = Fin_COMMITTED \<and> fl_released (fr_lock rep))
    \<and> (\<exists>a w2. acquire_golden_mutation_lock (ap_volume_serial_number plan) (ap_root_file_id plan) op' io' (fw_lock fw) = (Inr a, w2))"
proof -
  note a = applied_journal [OF assms(1-6)]
  note ids = matches_ids [OF conjunct1 [OF conjunct2 [OF conjunct2 [OF a]]]]
  show ?thesis
    by (rule completes [OF _ _ _ _ _ _ _ assms(8-14) _ assms(16-18)]) (use a ids assms(7,15) in \<open>simp_all add: FASES_ADMISIBLES_def\<close>)
qed


end
