(* ===== verification/Protection_Examples.thy ===== *)
theory Protection_Examples
  imports Protection_Store Plan_Codec
begin

text \<open>
  One concrete operation, a root and a file below it, on which the properties of the protection
  journal and of its store are applied: every hypothesis they have can hold.
\<close>

subsection \<open>The operation\<close>

definition ex_digest :: string where
  "ex_digest = replicate 64 (CHR ''a'')"

definition ex_operation :: string where
  "ex_operation = ''00000000-0000-4000-8000-000000000000''"

definition ex_root :: string where
  "ex_root = ''C:'' @ [BACKSLASH] @ ''Golden''"

definition ex_node :: "string \<Rightarrow> GoldenProtectionNodeKind \<Rightarrow> int \<Rightarrow> NodeSecurityBackup" where
  "ex_node path kind fid = \<lparr>relative_path = path, node_kind = kind, volume_serial_number = 7, file_id = fid,
     pre_sd_bytes_b64 = ''AA=='', pre_sd_length = 1, pre_sd_sha256 = ex_digest, owner_sid = ''S-1-5-32-544'',
     group_sid = ''S-1-5-32-544'', dacl_control_flags = 4, pre_dacl_protected_flag = False, sddl_diagnostic = []\<rparr>"

definition ex_plan :: AuthorizedPlan where
  "ex_plan = \<lparr>ap_schema_version = ''1.0'', ap_operation_id = ex_operation, ap_canonical_root = ex_root, ap_volume_serial_number = 7,
     ap_root_file_id = 11, ap_tree_digest = \<lparr>td_digest = ex_digest, td_files = 1, td_bytes = 3\<rparr>, ap_node_count = 2,
     ap_policy_version = ''1'', ap_staging_digest = ex_digest,
     ap_operator_identity = \<lparr>op_operator_sid = ''S-1-5-21-1'', op_token_type = ''primary'', op_acquired_via = ''privileged_service_provider''\<rparr>,
     ap_nodes = [ex_node ''Data'' FILE 12, ex_node ''.'' DIR 11], ap_plan_digest = ex_digest\<rparr>"

definition ex_header :: JournalHeaderRecord where
  "ex_header = \<lparr>hdr_schema_version = ''1.0'', hdr_sequence = 1, hdr_operation_id = ex_operation,
     hdr_authorized_plan_digest = ex_digest, hdr_canonical_root = ex_root, hdr_volume_serial_number = 7,
     hdr_root_file_id = 11, hdr_created_at = ''2026''\<rparr>"

definition ex_create_io :: create_io where
  "ex_create_io = \<lparr>ci_parent_is_dir = True, ci_stage = True, ci_append_header = True, ci_append_state = True,
     ci_publish = Published, ci_discard = True, ci_read_all = True, ci_remove = True, ci_open_append = True\<rparr>"

lemma ex_digest_valid: "validate_sha256_hex (JStr ex_digest) = Inr ex_digest"
proof -
  have h: "\<And>c. c \<in> set ex_digest \<Longrightarrow> hex_lower c" by (auto simp: ex_digest_def hex_lower_def)
  have "casefold ex_digest = ex_digest"
    unfolding casefold_def using h by (intro map_idI hex_lower_no_upper)
  then show ?thesis
    using h by (simp add: validate_sha256_hex_def hex_space_free list_all_iff) (simp add: ex_digest_def)
qed

lemma ex_root_nonempty [simp]: "ex_root \<noteq> []"
  by (simp add: ex_root_def)

lemma ex_text: "py_strip ex_operation = ex_operation" "py_strip ex_root = ex_root" "py_strip ''2026'' = ''2026''"
    "py_strip ''1'' = ''1''"
  by (rule py_strip_graphic; force simp: ex_operation_def ex_root_def graphic_def)+

lemma ex_operation_uuid: "canonical_uuid ex_operation"
  by (simp add: canonical_uuid_def ex_operation_def hex_lower_def is_digit_def upt_conv_Cons)

lemma ex_header_built:
  "build_journal_header_record ex_operation ex_digest ex_root 7 11 ''2026'' = Inr ex_header"
  by (simp add: build_journal_header_record_def header_post_init_def PROTECTION_JOURNAL_SCHEMA_VERSION_def
      validate_sequence_def validate_operation_id_def ex_text ex_operation_uuid ex_digest_valid validate_nonempty_text_def
      validate_uint_def MAX_UINT64_def MAX_UINT128_def ex_header_def Let_def)

lemma ex_utf8 [simp]: "utf8_ok ex_digest" "utf8_ok ex_operation" "utf8_ok ex_root"
  by (rule utf8_ok_ascii; force simp: ex_digest_def ex_operation_def ex_root_def byte_of_def)+

lemma show_nat_length: "length (show_nat n) \<le> Suc n"
proof (induction n rule: show_nat.induct)
  case (1 n)
  show ?case
  proof (cases "n < 10")
    case False
    with 1 have "length (show_nat (n div 10)) \<le> Suc (n div 10)" by simp
    with False show ?thesis by (subst show_nat.simps) simp
  qed (subst show_nat.simps, simp)
qed

lemma small_number [simp]: "n < 4300 \<Longrightarrow> length (show_nat n) \<le> MAX_INT_DIGITS"
  using show_nat_length [of n] by (simp add: MAX_INT_DIGITS_def)

lemma ex_lines:
  "\<exists>l. serialize_journal_record (Header_record ex_header) = Inr l"
  "\<exists>l. serialize_journal_record (Transaction_record \<lparr>tx_sequence = 3, tx_state = ROLLBACK_REQUIRED\<rparr>) = Inr l"
  "\<exists>l. serialize_journal_record (Transaction_record initial_state_record) = Inr l"
  by (simp_all add: serialize_journal_record_def Let_def ex_header_def initial_state_record_def INITIAL_TRANSACTION_STATE_def
      byte_of_def del: json_text.simps canon.simps)

definition ex_records :: "JournalRecord list" where
  "ex_records = [Header_record ex_header, Transaction_record initial_state_record]"

definition ex_journal :: ProtectionJournal where
  "ex_journal = \<lparr>pj_operation_id = ex_operation, pj_authorized_plan_digest = ex_digest,
     pj_physical_root = \<lparr>phys_canonical_root = ex_root, phys_volume_serial_number = 7, phys_root_file_id = 11\<rparr>,
     pj_transaction_state = APPLYING, pj_node_records = [], pj_created_at = ''2026'', pj_sequence = 2,
     pj_schema_version = ''1.0''\<rparr>"

definition ex_store :: "string \<Rightarrow> DurableProtectionJournal" where
  "ex_store file = \<lparr>dj_journal = ex_journal, dj_plan = ex_plan, dj_handle = True, dj_records = ex_records,
     dj_durability_failed = False, dj_file = file\<rparr>"

lemma ex_replay: "replay_journal_records ex_records = Inr ex_journal"
  by (simp add: ex_records_def ex_journal_def replay_journal_records_def replay_step_def replay_transaction_def replay_init_def
      initial_state_record_def replay_result_def INITIAL_TRANSACTION_STATE_def ex_header_def Let_def)

lemma ex_bytes:
  "\<exists>file. journal_bytes ex_records = Inr file \<and> list_all record_valid ex_records
    \<and> create_protection_journal ex_create_io ex_plan ''2026'' None = (Inr (ex_store file), Some file)"
proof -
  obtain l1 l2 where l: "serialize_journal_record (Header_record ex_header) = Inr l1"
      "serialize_journal_record (Transaction_record initial_state_record) = Inr l2" using ex_lines by blast
  from creation_records [OF ex_header_built l]
  have c: "list_all record_valid ex_records" "journal_bytes ex_records = Inr (l1 @ l2)" by (simp_all add: ex_records_def)
  have parse: "parse_journal_bytes (l1 @ l2) = Inr \<lparr>disposition = VALID, loaded_journal = Some ex_journal\<rparr>"
    by (rule journal_roundtrip [OF c ex_replay])
  have "create_protection_journal ex_create_io ex_plan ''2026'' None = (Inr (ex_store (l1 @ l2)), Some (l1 @ l2))"
    using parse l ex_header_built
    by (simp add: create_protection_journal_def ex_create_io_def ex_plan_def finish_creation_def ex_store_def ex_records_def
        ex_journal_def)
  with c show ?thesis by blast
qed

lemma ex_plan_wf [simp]: "plan_wf ex_plan"
  by (simp add: plan_wf_def ex_plan_def ex_node_def ex_digest_valid MAX_UINT64_def MAX_UINT128_def validate_relative_path_def)

lemma ex_store_inv:
  assumes "journal_bytes ex_records = Inr file" and "list_all record_valid ex_records"
  shows "store_inv (ex_store file)"
  using assms ex_replay by (simp add: store_inv_def ex_store_def) (simp add: ex_records_def node_records_of_def)

lemma ex_store_sel [simp]:
  "dj_journal (ex_store f) = ex_journal" "dj_plan (ex_store f) = ex_plan" "dj_handle (ex_store f)"
  "dj_records (ex_store f) = ex_records" "\<not> dj_durability_failed (ex_store f)" "dj_file (ex_store f) = f"
  by (simp_all add: ex_store_def)

lemma ex_journal_sel [simp]:
  "pj_operation_id ex_journal = ex_operation" "pj_authorized_plan_digest ex_journal = ex_digest"
  "pj_transaction_state ex_journal = APPLYING" "pj_node_records ex_journal = []" "pj_sequence ex_journal = 2"
  by (simp_all add: ex_journal_def)

subsection \<open>The witnesses\<close>

definition ex_io :: journal_io where
  "ex_io = \<lparr>io_append = Append_ok, io_flush = Flush_true\<rparr>"

definition ex_binding :: NodeMutationBinding where
  "ex_binding = binding_from_node (ex_node ''Data'' FILE 12)"

definition ex_intent :: "NodeWalState \<Rightarrow> JournalNodeRecord" where
  "ex_intent t = \<lparr>node_sequence = 3, node_relative_path = ''Data'', node_volume_serial_number = 7, node_file_id = 12,
     node_pre_sd_sha256 = ex_digest, node_wal_state = t\<rparr>"

lemma ex_node_record: "node_wal_record (ex_store file) ex_binding MUTATING = Inr (ex_intent MUTATING)"
  by (simp add: node_wal_record_def ex_store_def require_live_handle_def require_binding_def node_binding_def ex_binding_def
      ex_plan_def ex_node_def node_for_def binding_from_node_def lift_pj_def assert_node_transition_def node_state_def
      node_record_def ex_journal_def node_post_init_def validate_sequence_def validate_relative_path_def validate_uint_def
      MAX_UINT64_def MAX_UINT128_def ex_digest_valid ex_intent_def)

lemma ex_intent_line: "\<exists>l. serialize_journal_record (Node_record (ex_intent MUTATING)) = Inr l"
  by (simp add: serialize_journal_record_def Let_def ex_intent_def byte_of_def del: json_text.simps canon.simps)

lemma ex_intent_done:
  assumes "journal_bytes ex_records = Inr file" and "list_all record_valid ex_records"
  shows "\<exists>s. record_node_mutation_intent ex_io (ex_store file) ex_binding = (Inr \<lparr>wp_record = ex_intent MUTATING,
      wp_operation_id = ex_operation, wp_authorized_plan_digest = ex_digest, wp_consumed = False\<rparr>, s)
    \<and> pj_node_records (dj_journal s) = [ex_intent MUTATING] \<and> dj_records s = ex_records @ [Node_record (ex_intent MUTATING)]
    \<and> replay_journal_records (dj_records s) = Inr (dj_journal s)"
proof -
  obtain l where l: "serialize_journal_record (Node_record (ex_intent MUTATING)) = Inr l" using ex_intent_line by blast
  have rep: "replay_journal_records (ex_records @ [Node_record (ex_intent MUTATING)]) =
      Inr (ex_journal\<lparr>pj_node_records := [ex_intent MUTATING], pj_sequence := 3\<rparr>)"
    using node_wal_record_Inr [OF ex_node_record ex_store_inv [OF assms]]
    by simp
  have live: "require_live_handle (ex_store file) = Inr ()" by (simp add: require_live_handle_def)
  show ?thesis
    using l rep live
    by (simp add: record_node_mutation_intent_def ex_node_record append_record_def Let_def ex_io_def landed_def)
qed

lemma ex_after_intent:
  assumes "journal_bytes ex_records = Inr file" and "list_all record_valid ex_records"
  shows "\<exists>s permit. record_node_mutation_intent ex_io (ex_store file) ex_binding = (Inr permit, s)
    \<and> wp_record permit = ex_intent MUTATING \<and> pj_node_records (dj_journal s) = [ex_intent MUTATING]"
  using ex_intent_done [OF assms] by force

theorem crash_consistent_witness:
  "\<exists>raw k. journal_bytes ex_records = Inr raw \<and> k \<le> 2 \<and> journal_bytes (take k ex_records) = Inr raw
    \<and> (\<exists>j. parse_journal_bytes raw = Inr \<lparr>disposition = VALID, loaded_journal = Some j\<rparr>)"
proof -
  obtain raw where raw: "journal_bytes ex_records = Inr raw" "list_all record_valid ex_records" using ex_bytes by blast
  have "length ex_records = 2" by (simp add: ex_records_def)
  with crash_consistent [OF raw(2,1) ex_replay, of raw] journal_roundtrip [OF raw(2,1) ex_replay] raw(1)
  show ?thesis by auto
qed

definition ex_tx :: "int \<Rightarrow> ProtectionTransactionState \<Rightarrow> JournalRecord" where
  "ex_tx q t = Transaction_record \<lparr>tx_sequence = q, tx_state = t\<rparr>"

definition ex_committed :: "JournalRecord list" where
  "ex_committed = ex_records @ [ex_tx 3 VERIFYING_GP1, ex_tx 4 VERIFYING_RV2, ex_tx 5 VERIFYING_NODE_SET,
     ex_tx 6 ARCHIVING_BACKUP, ex_tx 7 COMMITTED]"

lemma ex_committed_replay: "replay_journal_records ex_committed =
    Inr (ex_journal\<lparr>pj_transaction_state := COMMITTED, pj_sequence := 7\<rparr>)"
  by (simp add: ex_committed_def ex_tx_def ex_records_def ex_journal_def replay_journal_records_def replay_step_def
      replay_transaction_def replay_init_def initial_state_record_def replay_result_def INITIAL_TRANSACTION_STATE_def
      ex_header_def assert_transaction_transition_def Let_def)

theorem committed_all_gates_witness:
  "\<exists>opening. opening \<in> {[], [APPLYING]} \<and> tx_states_of ex_committed =
    opening @ [VERIFYING_GP1, VERIFYING_RV2, VERIFYING_NODE_SET, ARCHIVING_BACKUP, COMMITTED]"
  by (rule committed_all_gates [OF ex_committed_replay]) simp

lemma ex_open_replay:
  "replay_journal_records (ex_records @ [Node_record (ex_intent MUTATING)]) =
    Inr (ex_journal\<lparr>pj_node_records := [ex_intent MUTATING], pj_sequence := 3\<rparr>)"
  by (simp add: ex_records_def ex_journal_def replay_journal_records_def replay_step_def replay_node_def
      replay_transaction_def replay_init_def initial_state_record_def replay_result_def INITIAL_TRANSACTION_STATE_def
      ex_header_def ex_intent_def assert_node_transition_def Let_def)

theorem durable_intent_exact_witness:
  "ex_intent MUTATING \<in> set (nodes_with_durable_mutation_intent (ex_journal\<lparr>pj_node_records := [ex_intent MUTATING], pj_sequence := 3\<rparr>))"
proof -
  have "records_for (node_relative_path (ex_intent MUTATING)) (node_records_of (ex_records @ [Node_record (ex_intent MUTATING)]))
      = [ex_intent MUTATING]"
    by (simp add: records_for_def node_records_of_def ex_records_def)
  with durable_intent_exact [OF ex_open_replay, of "ex_intent MUTATING"] show ?thesis by blast
qed

theorem parsed_nodes_confined_witness:
  "\<exists>raw j. parse_journal_bytes raw = Inr \<lparr>disposition = VALID, loaded_journal = Some j\<rparr>
    \<and> ex_intent MUTATING \<in> set (pj_node_records j) \<and> CHR '':'' \<notin> set (node_relative_path (ex_intent MUTATING))"
proof -
  obtain raw where f: "journal_bytes ex_records = Inr raw" "list_all record_valid ex_records" using ex_bytes by blast
  from ex_after_intent [OF f] obtain s permit where
    s: "record_node_mutation_intent ex_io (ex_store raw) ex_binding = (Inr permit, s)"
       "pj_node_records (dj_journal s) = [ex_intent MUTATING]" by blast
  have p: "parse_journal_bytes (dj_file s) = Inr \<lparr>disposition = VALID, loaded_journal = Some (dj_journal s)\<rparr>"
    using permit_implies_durable_intent [OF ex_store_inv [OF f] _ s(1)] by simp
  from parsed_nodes_confined [OF p, of "ex_intent MUTATING"] s(2)
  have "CHR '':'' \<notin> set (node_relative_path (ex_intent MUTATING))" by simp
  with p s(2) show ?thesis by (intro exI [of _ "dj_file s"] exI [of _ "dj_journal s"]) simp
qed

theorem huge_integer_escapes_witness:
  "parse_journal_bytes (replicate 4301 (CHR ''1'') @ [LF]) = Inl Value_error"
  by (rule huge_integer_escapes) (unfold MAX_INT_DIGITS_def, simp)

theorem node_set_exact_witness: "validate_node_set (ap_nodes ex_plan) 7 11 = Inr ()"
  unfolding node_set_exact by (simp add: ex_plan_def ex_node_def)

theorem orders_respect_ancestry_witness:
  "ancestor ''.'' ''Data'' \<and> apply_order ex_plan = [ex_node ''Data'' FILE 12, ex_node ''.'' DIR 11]
    \<and> ex_node ''Data'' FILE 12 \<notin> set []"
proof -
  have a: "ancestor ''.'' ''Data''" by (simp add: ancestor_def)
  have o: "apply_order ex_plan = [ex_node ''Data'' FILE 12, ex_node ''.'' DIR 11]"
    by (simp add: apply_order_def ex_plan_def ex_node_def node_depth_def)
  have "ancestor (relative_path (ex_node ''.'' DIR 11)) (relative_path (ex_node ''Data'' FILE 12))"
    using a by (simp add: ex_node_def)
  from orders_respect_ancestry [OF this, of ex_plan "[ex_node ''Data'' FILE 12]" "[]"] a o show ?thesis by simp
qed

theorem manifest_determines_nodes_witness:
  "\<exists>a. build_golden_backup_archive ex_plan = Inr a \<and> node_for ex_plan ''Data'' = Some (ex_node ''Data'' FILE 12)"
proof -
  have b: "\<exists>a. build_golden_backup_archive ex_plan = Inr a"
    by (simp add: build_golden_backup_archive_def archive_post_init_def ex_plan_def ex_text in_range_def
        MAX_UINT64_def MAX_UINT128_def archive_node_loop_Inr orden_canonico_def)
       (simp add: ex_node_def ex_digest_def ex_operation_def)
  then obtain a where a: "build_golden_backup_archive ex_plan = Inr a" by blast
  have "node_for ex_plan ''Data'' = Some (ex_node ''Data'' FILE 12)"
    by (simp add: node_for_def ex_plan_def ex_node_def)
  moreover have "distinct (map relative_path (ap_nodes ex_plan))" by (simp add: ex_plan_def ex_node_def)
  ultimately show ?thesis
    using manifest_determines_nodes [OF build_binds [OF a] build_binds [OF a], of "''Data''"] a by auto
qed

theorem store_invariant_witness:
  "\<exists>file. store_inv (fold run_op [Op_intent ex_io ex_binding, Op_transition ex_io ROLLBACK_REQUIRED, Op_close] (ex_store file))"
proof -
  obtain raw where f: "journal_bytes ex_records = Inr raw" "list_all record_valid ex_records" using ex_bytes by blast
  from store_invariant [OF ex_store_inv [OF f], of "[Op_intent ex_io ex_binding, Op_transition ex_io ROLLBACK_REQUIRED, Op_close]"]
  show ?thesis by auto
qed

theorem poisoned_is_final_witness:
  "fst (transition_to ex_io (mark_durability_failure (ex_store [])) ROLLBACK_REQUIRED) = Inl Flush_error"
proof -
  have "dj_durability_failed (mark_durability_failure (ex_store []))" by (simp add: mark_durability_failure_def)
  from poisoned_is_final [OF this, of ex_io ex_binding ROLLBACK_REQUIRED] show ?thesis by simp
qed

theorem permit_implies_durable_intent_witness:
  "\<exists>file s permit. record_node_mutation_intent ex_io (ex_store file) ex_binding = (Inr permit, s)
    \<and> parse_journal_bytes (dj_file s) = Inr \<lparr>disposition = VALID, loaded_journal = Some (dj_journal s)\<rparr>
    \<and> permit_binding permit = ex_binding"
proof -
  obtain raw where f: "journal_bytes ex_records = Inr raw" "list_all record_valid ex_records" using ex_bytes by blast
  from ex_after_intent [OF f] obtain s permit where
    s: "record_node_mutation_intent ex_io (ex_store raw) ex_binding = (Inr permit, s)" by blast
  with permit_implies_durable_intent [OF ex_store_inv [OF f] _ s] show ?thesis by auto
qed

theorem failed_write_evidence_witness:
  "\<exists>raw s. fst (append_record (ex_io\<lparr>io_append := Append_raised 5\<rparr>) (ex_store raw) (ex_tx 3 ROLLBACK_REQUIRED)) = Inl Kernel_error
    \<and> snd (append_record (ex_io\<lparr>io_append := Append_raised 5\<rparr>) (ex_store raw) (ex_tx 3 ROLLBACK_REQUIRED)) = s
    \<and> parse_journal_bytes (dj_file s) \<in> {Inr \<lparr>disposition = TORN_TAIL, loaded_journal = None\<rparr>,
       Inr \<lparr>disposition = VALID, loaded_journal = Some ex_journal\<rparr>,
       Inr \<lparr>disposition = VALID, loaded_journal = Some (ex_journal\<lparr>pj_transaction_state := ROLLBACK_REQUIRED, pj_sequence := 3\<rparr>)\<rparr>}"
proof -
  let ?io = "ex_io\<lparr>io_append := Append_raised 5\<rparr>" and ?r = "ex_tx 3 ROLLBACK_REQUIRED"
  obtain raw where f: "journal_bytes ex_records = Inr raw" "list_all record_valid ex_records" using ex_bytes by blast
  obtain l where l: "serialize_journal_record ?r = Inr l" using ex_lines(2) by (auto simp: ex_tx_def)
  have v: "record_valid ?r" by (simp add: ex_tx_def transaction_post_init_def validate_sequence_def)
  have rep: "replay_journal_records (dj_records (ex_store raw) @ [?r]) =
      Inr (ex_journal\<lparr>pj_transaction_state := ROLLBACK_REQUIRED, pj_sequence := 3\<rparr>)"
    using replay_snoc_transaction [OF ex_replay, of "\<lparr>tx_sequence = 3, tx_state = ROLLBACK_REQUIRED\<rparr>"] by (simp add: ex_tx_def)
  have a: "append_record ?io (ex_store raw) ?r = (Inl Kernel_error, snd (append_record ?io (ex_store raw) ?r))"
    using l by (simp add: append_record_def require_live_handle_def Let_def)
  from failed_write_evidence [OF ex_store_inv [OF f] v rep _ a] have
    "parse_journal_bytes (dj_file (snd (append_record ?io (ex_store raw) ?r))) \<in> {Inr \<lparr>disposition = TORN_TAIL, loaded_journal = None\<rparr>,
       Inr \<lparr>disposition = VALID, loaded_journal = Some ex_journal\<rparr>,
       Inr \<lparr>disposition = VALID, loaded_journal = Some (ex_journal\<lparr>pj_transaction_state := ROLLBACK_REQUIRED, pj_sequence := 3\<rparr>)\<rparr>}"
    by simp
  then show ?thesis using a by (metis fst_conv)
qed

text \<open>A store that has passed the four phases, as a restart would open it.\<close>

definition ex_gates :: "store_op list" where
  "ex_gates = [Op_phase ex_io VERIFYING_GP1, Op_phase ex_io VERIFYING_RV2, Op_phase ex_io VERIFYING_NODE_SET,
     Op_phase ex_io ARCHIVING_BACKUP]"

definition ex_archive :: GoldenBackupArchive where
  "ex_archive = \<lparr>gba_operation_id = ex_operation, gba_canonical_root = ex_root, gba_volume_serial_number = 7,
     gba_root_file_id = 11, gba_tree_digest = \<lparr>td_digest = ex_digest, td_files = 1, td_bytes = 3\<rparr>,
     gba_policy_version = ''1'', gba_authorized_plan_digest = ex_digest, gba_nodes = orden_canonico (ap_nodes ex_plan)\<rparr>"

lemma ex_tx_line: "q < 4300 \<Longrightarrow> \<exists>l. serialize_journal_record (ex_tx (int q) t) = Inr l"
  by (cases t) (simp_all add: ex_tx_def serialize_journal_record_def Let_def byte_of_def del: json_text.simps canon.simps)

lemma ex_append_transaction:
  assumes "store_inv s" and "\<not> dj_durability_failed s" and "dj_handle s" and "length (dj_records s) < 4000"
    and "tx_allowed (pj_transaction_state (dj_journal s)) t" and "t \<noteq> APPLYING"
  shows "let s' = snd (append_transaction ex_io s t) in \<not> dj_durability_failed s' \<and> dj_handle s'
    \<and> pj_transaction_state (dj_journal s') = t \<and> length (dj_records s') = length (dj_records s) + 1
    \<and> pj_authorized_plan_digest (dj_journal s') = pj_authorized_plan_digest (dj_journal s)"
proof -
  have q: "pj_sequence (dj_journal s) = int (length (dj_records s))"
    using replay_nodes(2) [OF store_inv_live(3) [OF assms(1,2)]] .
  obtain l where "serialize_journal_record (ex_tx (int (length (dj_records s) + 1)) t) = Inr l"
    using ex_tx_line [of "length (dj_records s) + 1" t] assms(4) by auto
  then have "serialize_journal_record (Transaction_record \<lparr>tx_sequence = pj_sequence (dj_journal s) + 1, tx_state = t\<rparr>) = Inr l"
    by (simp add: ex_tx_def q add.commute)
  then show ?thesis
    using append_transaction_replay [OF assms(1,2,5,6)] assms(2,3)
    by (simp add: append_transaction_eq [OF assms(1,2)] append_record_def require_live_handle_def Let_def ex_io_def landed_def)
qed

lemma ex_run:
  assumes "store_inv s" and "dj_plan s = ex_plan" and "\<not> dj_durability_failed s" and "dj_handle s"
    and "length (dj_records s) < 4000" and "run_op op s = snd (append_transaction ex_io s t)"
    and "tx_allowed (pj_transaction_state (dj_journal s)) t" and "t \<noteq> APPLYING"
  shows "store_inv (run_op op s) \<and> dj_plan (run_op op s) = ex_plan \<and> \<not> dj_durability_failed (run_op op s)
    \<and> dj_handle (run_op op s) \<and> length (dj_records (run_op op s)) = length (dj_records s) + 1
    \<and> pj_transaction_state (dj_journal (run_op op s)) = t
    \<and> pj_authorized_plan_digest (dj_journal (run_op op s)) = pj_authorized_plan_digest (dj_journal s)"
proof -
  have "dj_plan (run_op op s) = ex_plan" using assms(2) by simp
  with ex_append_transaction [OF assms(1,3,4,5,7,8)] run_op_inv [OF assms(1), of op] assms(2) show ?thesis
    by (simp add: Let_def assms(6))
qed

lemma ex_phase:
  assumes "\<not> dj_durability_failed s" and "dj_handle s" and "t \<in> S4D_FINALIZATION_TARGETS"
    and "pj_transaction_state (dj_journal s) \<in> S4D_FINALIZATION_ENTRY_POINTS t"
    and "tx_allowed (pj_transaction_state (dj_journal s)) t"
  shows "run_op (Op_phase ex_io t) s = snd (append_transaction ex_io s t)"
  using assms by (simp add: enter_finalization_phase_def require_live_handle_def assert_transaction_transition_def tx_allowed_def)

lemma ex_archive_binds: "binds_to ex_archive ex_plan"
  by (simp add: binds_to_def ex_archive_def ex_plan_def)

lemma ex_commit:
  assumes "journal_bytes ex_records = Inr raw" and "list_all record_valid ex_records"
  shows "pj_transaction_state (dj_journal (fold run_op (ex_gates @ [Op_commit ex_io ex_archive ex_plan]) (ex_store raw))) = COMMITTED"
proof -
  let ?s0 = "ex_store raw" and ?p = "Op_phase ex_io"
  note t = S4D_FINALIZATION_TARGETS_def
  have 0: "store_inv ?s0" "length (dj_records ?s0) = 2" using ex_store_inv [OF assms] by (simp_all add: ex_records_def)
  define s1 where "s1 = run_op (?p VERIFYING_GP1) ?s0"
  have 1: "store_inv s1 \<and> dj_plan s1 = ex_plan \<and> \<not> dj_durability_failed s1 \<and> dj_handle s1 \<and> length (dj_records s1) = 3
      \<and> pj_transaction_state (dj_journal s1) = VERIFYING_GP1 \<and> pj_authorized_plan_digest (dj_journal s1) = ex_digest"
    using ex_run [OF 0(1), of "?p VERIFYING_GP1" VERIFYING_GP1] ex_phase [of ?s0 VERIFYING_GP1] 0(2) by (simp add: s1_def t)
  define s2 where "s2 = run_op (?p VERIFYING_RV2) s1"
  have 2: "store_inv s2 \<and> dj_plan s2 = ex_plan \<and> \<not> dj_durability_failed s2 \<and> dj_handle s2 \<and> length (dj_records s2) = 4
      \<and> pj_transaction_state (dj_journal s2) = VERIFYING_RV2 \<and> pj_authorized_plan_digest (dj_journal s2) = ex_digest"
    using ex_run [of s1 "?p VERIFYING_RV2" VERIFYING_RV2] ex_phase [of s1 VERIFYING_RV2] 1 by (simp add: s2_def t)
  define s3 where "s3 = run_op (?p VERIFYING_NODE_SET) s2"
  have 3: "store_inv s3 \<and> dj_plan s3 = ex_plan \<and> \<not> dj_durability_failed s3 \<and> dj_handle s3 \<and> length (dj_records s3) = 5
      \<and> pj_transaction_state (dj_journal s3) = VERIFYING_NODE_SET \<and> pj_authorized_plan_digest (dj_journal s3) = ex_digest"
    using ex_run [of s2 "?p VERIFYING_NODE_SET" VERIFYING_NODE_SET] ex_phase [of s2 VERIFYING_NODE_SET] 2 by (simp add: s3_def t)
  define s4 where "s4 = run_op (?p ARCHIVING_BACKUP) s3"
  have 4: "store_inv s4 \<and> dj_plan s4 = ex_plan \<and> \<not> dj_durability_failed s4 \<and> dj_handle s4 \<and> length (dj_records s4) = 6
      \<and> pj_transaction_state (dj_journal s4) = ARCHIVING_BACKUP \<and> pj_authorized_plan_digest (dj_journal s4) = ex_digest"
    using ex_run [of s3 "?p ARCHIVING_BACKUP" ARCHIVING_BACKUP] ex_phase [of s3 ARCHIVING_BACKUP] 3 by (simp add: s4_def t)
  have c: "run_op (Op_commit ex_io ex_archive ex_plan) s4 = snd (append_transaction ex_io s4 COMMITTED)"
    using 4 ex_archive_binds
    by (simp add: commit_finalized_def require_live_handle_def assert_transaction_transition_def) (simp add: ex_archive_def)
  have "pj_transaction_state (dj_journal (run_op (Op_commit ex_io ex_archive ex_plan) s4)) = COMMITTED"
    using ex_run [of s4 "Op_commit ex_io ex_archive ex_plan" COMMITTED] c 4 by simp
  then show ?thesis by (simp add: ex_gates_def s4_def s3_def s2_def s1_def)
qed

theorem commit_requires_bound_backup_witness:
  "\<exists>raw pre io a p post. ex_gates @ [Op_commit ex_io ex_archive ex_plan] = pre @ Op_commit io a p # post \<and> binds_to a p
    \<and> pj_transaction_state (dj_journal (fold run_op pre (ex_store raw))) = ARCHIVING_BACKUP"
proof -
  obtain raw where f: "journal_bytes ex_records = Inr raw" "list_all record_valid ex_records" using ex_bytes by blast
  have "plan_wf (dj_plan (ex_store raw))" "pj_transaction_state (dj_journal (ex_store raw)) \<noteq> COMMITTED" by simp_all
  from commit_requires_bound_backup [OF ex_store_inv [OF f] this ex_commit [OF f]] show ?thesis by blast
qed

theorem created_journal_durable_witness:
  "\<exists>raw. create_protection_journal ex_create_io ex_plan ''2026'' None = (Inr (ex_store raw), Some raw) \<and> store_inv (ex_store raw)"
proof -
  obtain raw where f: "create_protection_journal ex_create_io ex_plan ''2026'' None = (Inr (ex_store raw), Some raw)"
    using ex_bytes by blast
  from created_journal_durable [OF f] have "store_inv (ex_store raw)" by blast
  with f show ?thesis by blast
qed

theorem reopen_is_faithful_witness:
  "\<exists>raw. open_protection_journal True (Some raw) True (Some raw) ex_plan = Inr (ex_store raw)"
proof -
  obtain raw where f: "journal_bytes ex_records = Inr raw" "list_all record_valid ex_records" using ex_bytes by blast
  have m: "require_journal_matches_plan (dj_journal (ex_store raw)) (dj_plan (ex_store raw)) = Inr ()"
    by (simp add: require_journal_matches_plan_def) (simp add: ex_journal_def ex_plan_def)
  have "ex_store raw\<lparr>dj_handle := True\<rparr> = ex_store raw" by (simp add: ex_store_def)
  with reopen_is_faithful [OF ex_store_inv [OF f] _ m] show ?thesis by auto
qed

subsection \<open>The plan of the operation as a file\<close>

definition ex_sha :: "string \<Rightarrow> string" where
  "ex_sha = (\<lambda>_. ex_digest)"

lemma ex_node_ok: "validate_relative_path (JStr p) = Inr p \<Longrightarrow> 0 \<le> i \<Longrightarrow> i \<le> MAX_UINT128 \<Longrightarrow> node_ok ex_sha (ex_node p k i)"
proof -
  assume p: "validate_relative_path (JStr p) = Inr p" and i: "0 \<le> i" "i \<le> MAX_UINT128"
  have sid: "validate_sid (JStr ''S-1-5-32-544'') = Inr ''S-1-5-32-544''"
    by (simp add: validate_sid_def digits_plus_ascii is_digit_def)
  have sd: "decode_sd_bytes (JStr ''AA=='') = Inr [char_of (0 :: nat)]"
    by (simp add: decode_sd_bytes_def b64decode_def b64_value_def byte_of_def)
  show ?thesis
    unfolding node_ok_def node_backup_post_init_Inr
    using p i sid sd by (simp add: ex_node_def node_fields_def validate_uint_def MAX_UINT64_def ex_digest_valid ex_sha_def SE_DACL_PROTECTED_def)
qed

lemma ex_plan_valid: "plan_valid ex_sha ex_plan"
proof -
  have paths: "validate_relative_path (JStr ''.'') = Inr ''.''" "validate_relative_path (JStr ''Data'') = Inr ''Data''"
    by (simp_all add: validate_relative_path_def)
  have nodes: "list_all (node_ok ex_sha) (ap_nodes ex_plan)"
    using ex_node_ok [OF paths(1)] ex_node_ok [OF paths(2)] by (simp add: ex_plan_def MAX_UINT128_def)
  have op: "operator_ok (ap_operator_identity ex_plan)"
    by (simp add: operator_ok_def ex_plan_def ACQUIRED_VIA_ALLOWED_def)
  have "authorized_plan_post_init ex_sha (plan_fields ex_plan) = Inr ex_plan"
  proof -
    have op: "validate_operation_id (JStr ex_operation) = Inr ex_operation"
      by (simp add: validate_operation_id_def ex_text ex_operation_uuid)
    have root: "normalize_canonical_root (JStr ex_root) = Inr ex_root"
      using drive_root by (simp add: normalize_canonical_root_def ex_root_def)
    have set: "validate_node_set (ap_nodes ex_plan) 7 11 = Inr ()"
      by (simp add: validate_node_set_def) (simp add: ex_plan_def ex_node_def)
    have json: "json_ok (JObj (authorized_plan_content_dict ex_plan))"
      by (simp add: authorized_plan_content_dict_def tree_digest_dict_def operator_identity_dict_def
          node_security_backup_to_dict_def ex_plan_def ex_node_def byte_of_def)
    have len: "int (length (ap_nodes ex_plan)) = 2" "ap_nodes ex_plan \<noteq> []" by (simp_all add: ex_plan_def)
    have sorted: "sort_key authorized_node_sort_key (ap_nodes ex_plan) = ap_nodes ex_plan"
      by (simp add: authorized_node_sort_key_def ex_plan_def ex_node_def node_depth_def)
    have eq: "ex_plan = ex_plan\<lparr>ap_plan_digest := ex_digest\<rparr>" by (simp add: ex_plan_def)
    have tree: "validate_tree_digest (JStr ex_digest) (JInt 1) (JInt 3) = Inr (ap_tree_digest ex_plan)"
      by (simp add: validate_tree_digest_def ex_digest_valid nonneg_int_def ex_plan_def or_raise_def)
    have fields: "plan_fields ex_plan = \<lparr>pf_schema_version = JStr ''1.0'', pf_operation_id = JStr ex_operation,
        pf_canonical_root = JStr ex_root, pf_volume_serial_number = JInt 7, pf_root_file_id = JInt 11,
        pf_td_digest = JStr ex_digest, pf_td_files = JInt 1, pf_td_bytes = JInt 3, pf_node_count = 2,
        pf_policy_version = JStr ''1'', pf_staging_digest = JStr ex_digest,
        pf_operator_identity = ap_operator_identity ex_plan, pf_nodes = ap_nodes ex_plan\<rparr>"
      by (simp add: plan_fields_def) (simp add: ex_plan_def)
    have same: "compute_authorized_plan_digest ex_sha p = Inr ex_digest"
      if "authorized_plan_content_dict p = authorized_plan_content_dict ex_plan" for p
      using json by (simp add: compute_authorized_plan_digest_def canonical_json_def that ex_sha_def)
    have built: "\<lparr>ap_schema_version = ''1.0'', ap_operation_id = ex_operation, ap_canonical_root = ex_root,
        ap_volume_serial_number = 7, ap_root_file_id = 11, ap_tree_digest = ap_tree_digest ex_plan,
        ap_node_count = 2, ap_policy_version = ''1'', ap_staging_digest = ex_digest,
        ap_operator_identity = ap_operator_identity ex_plan, ap_nodes = ap_nodes ex_plan, ap_plan_digest = d\<rparr>
      = ex_plan\<lparr>ap_plan_digest := d\<rparr>" for d by (simp add: ex_plan_def)
    have "compute_authorized_plan_digest ex_sha (ex_plan\<lparr>ap_plan_digest := []\<rparr>) = Inr ex_digest"
      by (rule same) simp
    then show ?thesis
      unfolding authorized_plan_post_init_def fields
      using op root set len sorted tree eq
      by (simp add: AUTHORIZED_PLAN_SCHEMA_VERSION_def or_raise_def validate_uint_def MAX_UINT64_def MAX_UINT128_def
          validate_nonempty_text_def ex_text ex_digest_valid built Let_def)
  qed
  with nodes op show ?thesis by (simp add: plan_valid_def plan_stored_def) (simp add: ex_plan_def ex_digest_valid)
qed

text \<open>Concrete instance.\<close>

theorem corrupt_plan_file_raises_witness:
  "classify_durable_authorized_plan ex_sha (File_bytes (plan_bytes (with_corrupt_paths ex_plan))) = Inl Backup_integrity"
  by (rule corrupt_plan_file_raises [OF ex_plan_valid])

end
