(* ===== verification/Executor_Examples.thy ===== *)
theory Executor_Examples
  imports Mutation_Executor Protection_Examples
begin

text \<open>
  The operation of \<open>Protection_Examples\<close> applied through concrete ports: one whose calls succeed, one
  whose verification of the root fails, and one whose restoration of the file fails too.
\<close>

definition ex_obj :: "int \<Rightarrow> string" where
  "ex_obj h = (if h = 1 then ''.'' else ''Data'')"

definition ex_port :: "bool \<Rightarrow> bool \<Rightarrow> (string \<Rightarrow> string) port" where
  "ex_port bad_verify bad_restore = \<lparr>
     p_probe = (\<lambda>path k g. (Inr (), g)),
     p_open = (\<lambda>path k g. (Inr (if snd path = [] then 1 else 2), g)),
     p_close = (\<lambda>h g. g),
     p_read_identity = (\<lambda>h g. (Inr \<lparr>ni_volume_serial_number = 7, ni_file_id = (if h = 1 then 11 else 12), ni_reparse_tag = 0,
        ni_number_of_links = 1\<rparr>, g)),
     p_read_live_pre_sd_sha256 = (\<lambda>h g. (Inr (g (ex_obj h)), g)),
     p_apply_target_dacl = (\<lambda>h n g. (Inr (), g(ex_obj h := ''target''))),
     p_verify_target_dacl = (\<lambda>h n g. (if bad_verify \<and> relative_path n = ''.'' then Inl Other_exc else Inr (), g)),
     p_restore_pre_sd = (\<lambda>h n g. (Inr (), if bad_restore then g else g(ex_obj h := pre_sd_sha256 n))),
     p_verify_restored_pre_sd = (\<lambda>h n g. (if g (ex_obj h) = pre_sd_sha256 n then Inr () else Inl Other_exc, g)),
     p_setsecurityinfo_calls = (\<lambda>g. 0)\<rparr>"

definition ex_handle :: "(string \<Rightarrow> string) \<Rightarrow> int \<Rightarrow> string option" where
  "ex_handle = (\<lambda>_ h. if h = 1 \<or> h = 2 then Some (ex_obj h) else None)"

lemma ex_port_sel:
  "p_probe (ex_port a b) path k g = (Inr (), g)" "p_open (ex_port a b) path k g = (Inr (if snd path = [] then 1 else 2), g)"
  "p_close (ex_port a b) h g = g" "p_apply_target_dacl (ex_port a b) h n g = (Inr (), g(ex_obj h := ''target''))"
  "p_verify_target_dacl (ex_port a b) h n g = (if a \<and> relative_path n = ''.'' then Inl Other_exc else Inr (), g)"
  "p_read_identity (ex_port a b) h g = (Inr \<lparr>ni_volume_serial_number = 7, ni_file_id = (if h = 1 then 11 else 12),
     ni_reparse_tag = 0, ni_number_of_links = 1\<rparr>, g)"
  "p_restore_pre_sd (ex_port a b) h n g = (Inr (), if b then g else g(ex_obj h := pre_sd_sha256 n))"
  "p_verify_restored_pre_sd (ex_port a b) h n g = (if g (ex_obj h) = pre_sd_sha256 n then Inr () else Inl Other_exc, g)"
  by (simp_all add: ex_port_def)

lemma ex_plan_nodes: "ap_nodes ex_plan = [ex_node ''Data'' FILE 12, ex_node ''.'' DIR 11]"
  by (simp add: ex_plan_def)

lemma ex_node_sel [simp]:
  "relative_path (ex_node p k i) = p" "node_kind (ex_node p k i) = k" "pre_sd_sha256 (ex_node p k i) = ex_digest"
  "volume_serial_number (ex_node p k i) = 7" "file_id (ex_node p k i) = i"
  by (simp_all add: ex_node_def)

lemma ex_paths:
  "derive_node_path ex_plan ''.'' = (ex_root, [])" "derive_node_path ex_plan ''Data'' = (ex_root, [''Data''])"
  by (simp_all add: derive_node_path_def ex_plan_def)

lemma ex_port_laws: "port_laws (ex_port a b) id id ex_handle ex_plan"
  by (simp add: port_laws_def st_keeps_def ex_port_def ex_plan_nodes ex_paths ex_handle_def ex_obj_def)

lemma ex_port_succeeds: "(\<And>n. n \<in> good \<Longrightarrow> a \<Longrightarrow> relative_path n \<noteq> ''.'') \<Longrightarrow> port_succeeds (ex_port a b) id id ex_handle ex_plan good"
  by (auto simp: port_succeeds_def ex_port_def ex_plan_nodes ex_handle_def ex_obj_def split: if_splits)

definition ex_world :: "string \<Rightarrow> (string \<Rightarrow> string) exec_world" where
  "ex_world f = \<lparr>ew_env = (\<lambda>_. ex_digest), ew_journal = ex_store f, ew_io = []\<rparr>"

definition ex_session :: boundary_session where
  "ex_session = \<lparr>bs_closed = False, bs_lock_closed = False, bs_operation_id = ex_operation, bs_volume_serial_number = 7,
     bs_root_file_id = 11\<rparr>"

lemma ex_world_sel [simp]: "ew_env (ex_world f) = (\<lambda>_. ex_digest)" "ew_journal (ex_world f) = ex_store f" "ew_io (ex_world f) = []"
  by (simp_all add: ex_world_def)

lemma ex_file: "\<exists>f. store_inv (ex_store f)"
  using ex_bytes ex_store_inv by blast

lemma small_room: "k < 100 \<Longrightarrow> k < (10::nat) ^ MAX_INT_DIGITS"
proof -
  assume "k < 100"
  moreover have "(100::nat) = 10 ^ 2" by simp
  moreover have "(10::nat) ^ 2 \<le> 10 ^ MAX_INT_DIGITS" by (rule power_increasing) (simp_all add: MAX_INT_DIGITS_def)
  ultimately show ?thesis by linarith
qed

lemma ex_plan_sel [simp]: "ap_operation_id ex_plan = ex_operation" "ap_plan_digest ex_plan = ex_digest"
    "ap_volume_serial_number ex_plan = 7" "ap_root_file_id ex_plan = 11"
  by (simp_all add: ex_plan_def)

lemma ex_world_ready: "store_inv (ex_store f) \<Longrightarrow> k < 90 \<Longrightarrow> world_ready k ex_plan (ex_world f)"
  using small_room [of "Suc (Suc k)"] by (simp add: world_ready_def ex_records_def)

lemma ex_exec_ready: "store_inv (ex_store f) \<Longrightarrow> exec_ready ex_plan (ex_world f)"
  by (simp add: exec_ready_def ex_plan_nodes)

lemma ex_untouched: "untouched id id (ex_world f) (ex_node ''.'' DIR 11)" "untouched id id (ex_world f) (ex_node ''Data'' FILE 12)"
  by (simp_all add: untouched_def node_state_def node_record_def byte_of_def)

lemma ex_authority: "require_authority ex_plan (ex_store f) ex_session = Inr ()"
  by (simp add: require_authority_def ex_session_def)

lemma ex_nodes: "node_for ex_plan ''.'' = Some (ex_node ''.'' DIR 11)" "node_for ex_plan ''Data'' = Some (ex_node ''Data'' FILE 12)"
  by (simp_all add: node_for_def ex_plan_nodes)

lemma ex_orders:
  "apply_order ex_plan = [ex_node ''Data'' FILE 12, ex_node ''.'' DIR 11]"
  "rollback_order ex_plan [''Data'', ''.''] = [ex_node ''.'' DIR 11, ex_node ''Data'' FILE 12]"
  by (simp_all add: apply_order_def rollback_order_def ex_plan_nodes node_depth_def less_eq_prod_def)


text \<open>The rollback of that run, and the room its transitions need in the log.\<close>

lemma ex_target: "''target'' \<noteq> ex_digest"
proof -
  have "length ex_digest \<noteq> length ''target''" by (simp add: ex_digest_def)
  then show ?thesis by metis
qed




subsection \<open>The witnesses\<close>

lemma ex_store_start: "store_inv (ex_store f) \<Longrightarrow> exec_ready ex_plan (ex_world f) \<and> require_applying_state (ex_store f) = Inr ()"
  by (simp add: ex_exec_ready require_applying_state_def)

lemma ex_all_good: "port_succeeds (ex_port False False) id id ex_handle ex_plan (set (ap_nodes ex_plan))"
  by (rule ex_port_succeeds) simp

lemma ex_success:
  assumes "store_inv (ex_store f)"
  shows "\<exists>rep w'. apply_authorized_plan (ex_port False False) ex_plan ex_session (ex_world f) = (Returned rep, w') \<and> ar_apply_error rep = None"
  using unobstructed_apply [OF ex_port_laws ex_all_good ex_world_ready [OF assms], of ex_session]
  by (fastforce simp: ex_plan_nodes ex_authority ex_untouched)

lemma ex_success_world:
  assumes "store_inv (ex_store f)"
  shows "\<exists>rep w'. apply_authorized_plan (ex_port False False) ex_plan ex_session (ex_world f) = (Returned rep, w')
    \<and> world_ready 18 ex_plan w' \<and> pj_transaction_state (dj_journal (ew_journal w')) = APPLYING"
proof -
  have nodes: "\<And>n. n \<in> set (apply_order ex_plan) \<Longrightarrow> node_for ex_plan (relative_path n) = Some n \<and> untouched id id (ex_world f) n \<and> n \<in> set (ap_nodes ex_plan)"
    using ex_untouched ex_nodes by (auto simp: ex_plan_nodes)
  have o: "distinct (map relative_path (apply_order ex_plan))" by (simp add: ex_orders)
  have "world_ready (2 * length (apply_order ex_plan) + 18) ex_plan (ex_world f)"
    by (rule ex_world_ready [OF assms]) (simp add: ex_orders)
  from apply_nodes_succeeds [OF ex_port_laws ex_all_good this o nodes] obtain ocs w' where
    run: "apply_nodes (ex_port False False) ex_plan (apply_order ex_plan) (ex_world f) = ((ocs, None), w')" "world_ready 18 ex_plan w'" by blast
  have gate: "require_applying_state (ew_journal (ex_world f)) = Inr ()" by (simp add: require_applying_state_def)
  from apply_nodes_ready(2) [OF ex_port_laws ex_exec_ready [OF assms] gate run(1)] run(2)
  have "pj_transaction_state (dj_journal (ew_journal w')) = APPLYING" by (simp add: at_state_def world_ready_def)
  with run gate show ?thesis by (simp add: apply_authorized_plan_def ex_authority)
qed

theorem apply_completes_witness:
  "\<exists>f rep w'. apply_authorized_plan (ex_port False False) ex_plan ex_session (ex_world f) = (Returned rep, w') \<and> ar_apply_error rep = None"
proof -
  obtain f where f: "store_inv (ex_store f)" using ex_file by blast
  with apply_completes [OF ex_port_laws ex_all_good ex_world_ready [OF \<open>store_inv (ex_store f)\<close>], of ex_session] show ?thesis
    by (fastforce simp: ex_plan_nodes ex_authority ex_untouched)
qed

theorem apply_success_witness:
  "\<exists>f rep w'. apply_authorized_plan (ex_port False False) ex_plan ex_session (ex_world f) = (Returned rep, w')
    \<and> node_state (dj_journal (ew_journal w')) ''Data'' = Some MUTATED \<and> node_state (dj_journal (ew_journal w')) ''.'' = Some MUTATED"
proof -
  obtain f where f: "store_inv (ex_store f)" using ex_file by blast
  from ex_success [OF this] obtain rep w' where
    r: "apply_authorized_plan (ex_port False False) ex_plan ex_session (ex_world f) = (Returned rep, w')" "ar_apply_error rep = None" by blast
  from apply_success [OF ex_port_laws ex_exec_ready [OF f] _ r] r(1) show ?thesis by (auto simp: ex_plan_nodes)
qed



theorem write_ahead_witness:
  "\<exists>f w1. before_mutation (ex_port False False) ex_plan (ex_node ''Data'' FILE 12) 2 (ex_world f) = (Inr (), w1)
    \<and> node_state (dj_journal (ew_journal w1)) ''Data'' = Some MUTATING"
proof -
  obtain f where f: "store_inv (ex_store f)" using ex_file by blast
  have n: "node_for ex_plan (relative_path (ex_node ''Data'' FILE 12)) = Some (ex_node ''Data'' FILE 12)" by (simp add: ex_nodes)
  have h: "ex_handle (ew_env (ex_world f)) 2 = Some (relative_path (ex_node ''Data'' FILE 12))" by (simp add: ex_handle_def ex_obj_def)
  have w: "world_ready (Suc 5) ex_plan (ex_world f)" by (rule ex_world_ready [OF f]) simp
  have u: "untouched id id (ex_world f) (ex_node ''Data'' FILE 12)" by (rule ex_untouched)
  obtain w1 where r: "before_mutation (ex_port False False) ex_plan (ex_node ''Data'' FILE 12) 2 (ex_world f) = (Inr (), w1)"
    using before_mutation_succeeds [where obj = ex_handle, OF ex_port_laws ex_all_good w n u h] by blast
  from write_ahead [where obj = ex_handle, OF ex_port_laws h _ _ r] f r show ?thesis by auto
qed

theorem changes_are_logged_witness:
  "\<exists>f rep w' j. apply_authorized_plan (ex_port False False) ex_plan ex_session (ex_world f) = (Returned rep, w')
    \<and> ew_env w' ''.'' = ''target'' \<and> node_state j ''.'' \<noteq> None
    \<and> parse_journal_bytes (dj_file (ew_journal w')) = Inr \<lparr>disposition = VALID, loaded_journal = Some j\<rparr>"
proof -
  obtain f where f: "store_inv (ex_store f)" using ex_file by blast
  let ?port = "ex_port False False" and ?root = "ex_node ''.'' DIR 11" and ?data = "ex_node ''Data'' FILE 12"
  have n: "node_for ex_plan (relative_path ?data) = Some ?data" "node_for ex_plan (relative_path ?root) = Some ?root"
    "?data \<in> set (ap_nodes ex_plan)" "?root \<in> set (ap_nodes ex_plan)"
    by (simp_all add: ex_nodes ex_plan_nodes)
  from apply_node_succeeds [OF ex_port_laws ex_all_good ex_world_ready [OF f] n(1) ex_untouched(2) n(3), of 20] obtain oc1 w1 where
    a: "apply_node ?port ex_plan ?data (ex_world f) = ((oc1, None), w1)" "world_ready 20 ex_plan w1" "untouched id id w1 ?root"
    using ex_untouched(1) [of f] by auto
  have "world_ready (Suc (Suc 18)) ex_plan w1" using a(2) by simp
  from apply_node_succeeds [OF ex_port_laws ex_all_good this n(2) a(3) n(4)] obtain oc2 w2 h g where
    b: "apply_node ?port ex_plan ?root w1 = ((oc2, None), w2)" "world_ready 18 ex_plan w2" "ex_obj h = ''.''" "ew_env w2 = g(ex_obj h := ''target'')"
    by (auto simp: ex_port_sel ex_handle_def split: if_splits)
  have run: "apply_authorized_plan ?port ex_plan ex_session (ex_world f) =
      (Returned \<lparr>ar_operation_id = ex_operation, ar_outcomes = [oc1, oc2],
         ar_transaction_state = pj_transaction_state (dj_journal (ew_journal w2)), ar_setsecurityinfo_calls = 0,
         ar_apply_error = None, ar_rollback_error = None\<rparr>, w2)"
    using a(1) b(1) ex_authority
    by (simp add: apply_authorized_plan_def require_applying_state_def ex_orders) (simp add: ex_port_def)
  have w2: "store_inv (ew_journal w2)" "\<not> dj_durability_failed (ew_journal w2)" "printable_log (ew_journal w2)"
    using b(2) by (simp_all add: world_ready_def printable_log_def)
  note v = journal_roundtrip [OF store_inv_live [OF w2(1,2)]]
  have "id (ew_env w2) ''.'' \<noteq> id (ew_env (ex_world f)) ''.''" using b(3,4) ex_target by simp
  from changes_are_logged [OF ex_port_laws ex_exec_ready [OF f] run w2(3) this v] run v b(3,4) show ?thesis by (metis fun_upd_same)
qed

end
