(* ===== verification/Recovery_Examples.thy ===== *)
theory Recovery_Examples
  imports Recovery Executor_Examples
begin

text \<open>
  The operation of \<open>Protection_Examples\<close>, interrupted after the descriptor of the file was written and
  before its completion was logged, and what recovers it.
\<close>

definition ex_interrupted_records :: "JournalRecord list" where
  "ex_interrupted_records = ex_records @ [Node_record (ex_intent MUTATING)]"

lemma ex_interrupted:
  "\<exists>s. store_inv s \<and> \<not> dj_durability_failed s \<and> dj_handle s \<and> dj_plan s = ex_plan \<and> dj_records s = ex_interrupted_records
    \<and> dj_journal s = ex_journal\<lparr>pj_node_records := [ex_intent MUTATING], pj_sequence := 3\<rparr>"
proof -
  obtain f where f: "journal_bytes ex_records = Inr f" "list_all record_valid ex_records" using ex_bytes by blast
  obtain l where l: "serialize_journal_record (Node_record (ex_intent MUTATING)) = Inr l" using ex_intent_line by blast
  note n = node_wal_record_Inr [OF ex_node_record ex_store_inv [OF f]]
  have rep: "replay_journal_records (ex_records @ [Node_record (ex_intent MUTATING)]) =
      Inr (ex_journal\<lparr>pj_node_records := [ex_intent MUTATING], pj_sequence := 3\<rparr>)"
    using n by simp
  let ?s = "snd (append_record healthy_io (ex_store f) (Node_record (ex_intent MUTATING)))"
  have eq: "?s = ex_store f\<lparr>dj_file := f @ l, dj_records := ex_interrupted_records,
      dj_journal := ex_journal\<lparr>pj_node_records := [ex_intent MUTATING], pj_sequence := 3\<rparr>\<rparr>"
    using append_record_ok [of "ex_store f", OF _ _ l] rep by (simp add: ex_interrupted_records_def)
  have "store_inv ?s" using append_record_inv [OF ex_store_inv [OF f], of "Node_record (ex_intent MUTATING)"] n rep by fastforce
  then show ?thesis unfolding eq by (intro exI [of _ "ex_store f\<lparr>dj_file := f @ l, dj_records := ex_interrupted_records,
      dj_journal := ex_journal\<lparr>pj_node_records := [ex_intent MUTATING], pj_sequence := 3\<rparr>\<rparr>"]) simp
qed

definition ex_dirty :: "string \<Rightarrow> string" where
  "ex_dirty = (\<lambda>_. ex_digest)(''Data'' := ''target'')"

definition ex_view :: "DurableProtectionJournal \<Rightarrow> recovery_view" where
  "ex_view s = \<lparr>rv_plan_read = File_bytes (plan_bytes ex_plan), rv_plan_read_again = File_bytes (plan_bytes ex_plan), rv_binding_evidence = Binding_DURABLE,
     rv_binding = Inr \<lparr>lb_operation_id = ex_operation, lb_volume_serial_number = 7, lb_file_id = 11\<rparr>,
     rv_journal_exists = True, rv_journal_read = Some (dj_file s), rv_open_exists = True, rv_open_read = Some (dj_file s),
     rv_open_ok = True, rv_open_read_again = Some (dj_file s)\<rparr>"

lemma ex_view_plan: "rv_plan ex_sha (ex_view s) = Inr ex_plan"
  by (simp add: rv_plan_def ex_view_def ex_plan_valid)

lemma ex_view_durable: "classify_durable_authorized_plan ex_sha (rv_plan_read (ex_view s)) = Inr DURABLE"
  using ex_plan_valid by (auto simp: classify_durable ex_view_def)

lemma ex_matches: "require_journal_matches_plan ex_journal ex_plan = Inr ()"
  by (simp add: require_journal_matches_plan_def) (simp add: ex_journal_def ex_plan_def)

lemma ex_port_recovers: "port_recovers (ex_port False False) id id ex_handle ex_plan"
  by (auto simp: port_recovers_def ex_port_def ex_plan_nodes ex_handle_def ex_obj_def split: if_splits)

lemma ex_distinct: "distinct (map relative_path (ap_nodes ex_plan))"
  by (simp add: ex_plan_nodes)

text \<open>The recovery of the interrupted operation takes the lock, restores the file and gives the lock back.\<close>

lemma ex_recovery:
  "\<exists>s rep g oj. recover_interrupted_protection ex_sha ex_operation (ex_view s) (Lock_acquired True) (Some (ex_port False False)) (ex_view s) []
      True ex_dirty = (Inr rep, g, oj)
    \<and> re_disposition (fr_resultado rep) = Disp_ROLLED_BACK \<and> fr_lock_outcome rep = ACQUIRED_RELEASED"
proof -
  obtain s where s: "store_inv s" "\<not> dj_durability_failed s" "dj_handle s" "dj_plan s = ex_plan" "dj_records s = ex_interrupted_records"
    "dj_journal s = ex_journal\<lparr>pj_node_records := [ex_intent MUTATING], pj_sequence := 3\<rparr>" using ex_interrupted by blast
  let ?port = "ex_port False False" and ?w = "\<lparr>ew_env = ex_dirty, ew_journal = s, ew_io = []\<rparr>"
  have m: "require_journal_matches_plan (dj_journal s) (dj_plan s) = Inr ()"
    using ex_matches s(4,6) by (simp add: require_journal_matches_plan_def split: if_splits)
  have eq: "s\<lparr>dj_handle := True\<rparr> = s" using s(3) by simp
  from reopen_store [OF s(1,2) m] have op: "open_protection_journal True (Some (dj_file s)) True (Some (dj_file s)) ex_plan = Inr s"
    by (simp only: eq s(4))
  have rd: "readable s" using open_readable(1) [OF op] .
  have "length (dj_records s) + 3 < 100" by (simp add: s(5) ex_interrupted_records_def ex_records_def)
  from small_room [OF this] rd have "log_ready 3 ?w" by (simp add: log_ready_def)
  moreover have "rollback_pending (pj_transaction_state (dj_journal (ew_journal ?w)))" by (simp add: s(6) rollback_pending_def)
  moreover have "\<not> nodo_wal_desalineado (dj_journal (ew_journal ?w)) ex_plan"
    by (simp add: s(6) nodo_wal_desalineado_def ex_intent_def ex_nodes)
  moreover have "\<forall>n \<in> set (ap_nodes ex_plan). node_state (dj_journal (ew_journal ?w)) (relative_path n) \<noteq> None
      \<or> id (ew_env ?w) (relative_path n) = id (pre_sd_sha256 n)"
    by (simp add: ex_plan_nodes s(6) node_state_def node_record_def ex_intent_def ex_dirty_def)
  ultimately obtain r w' where run: "dispatch_fsm (Some ?port) ex_plan ?w = (Inr r, w')"
      "re_disposition r = Disp_ROLLED_BACK \<or> re_disposition r = POST_VERIFICATION_REQUIRED \<and> w' = ?w
        \<and> list_all (\<lambda>n. node_state (dj_journal (ew_journal ?w)) (relative_path n) = Some MUTATED) (ap_nodes ex_plan)"
    using dispatch_fsm_succeeds [OF ex_port_laws ex_port_recovers] by blast
  then have rb: "re_disposition r = Disp_ROLLED_BACK"
    by (auto simp: ex_plan_nodes s(6) node_state_def node_record_def ex_intent_def)
  have rd': "readable (ew_journal ?w)" using rd by simp
  from dispatch_fsm_effect [OF ex_port_laws ex_distinct rd' run(1)] rb have nr: "\<not> re_retener_lock r" by (metis Inr_inject)
  have c: "classify_protection_journal True (Some (dj_file s)) = Inr (Class_valid, Some (dj_journal s))"
    using rd by (simp add: readable_def classification_exact)
  have "dispatch_bajo_lock ex_sha ex_operation (Some ex_plan) Source_AUTHORIZED_PLAN DURABLE Class_valid (Some ?port) (ex_view s) [] ex_dirty
      = (Inr r, ew_env w', Some (close_journal (ew_journal w')))"
    unfolding dispatch_bajo_lock_def ex_view_plan using c op run(1) by (simp add: ex_view_def)
  with c rb nr show ?thesis
    unfolding recover_interrupted_protection_def identidad_durable_def ex_view_durable ex_view_plan
    by (intro exI [of _ s]) (simp add: ex_view_def)
qed

theorem recovery_restores_witness:
  "\<exists>s rep g oj. recover_interrupted_protection ex_sha ex_operation (ex_view s) (Lock_acquired True) (Some (ex_port False False)) (ex_view s) []
      True ex_dirty = (Inr rep, g, oj)
    \<and> ex_dirty ''Data'' \<noteq> ex_digest \<and> g ''Data'' = ex_digest"
proof -
  obtain s rep g oj where r: "recover_interrupted_protection ex_sha ex_operation (ex_view s) (Lock_acquired True) (Some (ex_port False False))
      (ex_view s) [] True ex_dirty = (Inr rep, g, oj)" "re_disposition (fr_resultado rep) = Disp_ROLLED_BACK"
    using ex_recovery by blast
  have v: "rv_plan ex_sha (ex_view s) = Inr ex_plan" by (rule ex_view_plan)
  from recovery_restores [OF ex_port_laws v r] have "g ''Data'' = ex_digest" by (simp add: ex_view_def ex_plan_nodes)
  with r(1) ex_target show ?thesis by (auto simp: ex_dirty_def)
qed

theorem recovery_touches_only_logged_witness:
  "\<exists>raw j. open_protection_journal True (Some raw) True (Some raw) ex_plan = Inr j
    \<and> node_state (dj_journal j) ''Data'' \<noteq> None \<and> rollback_pending (pj_transaction_state (dj_journal j))"
proof -
  obtain s rep g oj where r: "recover_interrupted_protection ex_sha ex_operation (ex_view s) (Lock_acquired True) (Some (ex_port False False))
      (ex_view s) [] True ex_dirty = (Inr rep, g, oj)" "re_disposition (fr_resultado rep) = Disp_ROLLED_BACK"
    using ex_recovery by blast
  have v: "rv_plan ex_sha (ex_view s) = Inr ex_plan" by (rule ex_view_plan)
  from recovery_restored [OF ex_port_laws v r] have "g ''Data'' = ex_digest" by (simp add: ex_plan_nodes)
  then have "id g ''Data'' \<noteq> id ex_dirty ''Data''" using ex_target by (simp add: ex_dirty_def)
  from recovery_touches_only_logged [where sd = id and sem = id and obj = ex_handle, OF ex_port_laws v r(1) this] show ?thesis
    by (simp add: ex_view_def) blast
qed

theorem recovery_releases_only_settled_witness:
  "\<exists>s rep g oj. recover_interrupted_protection ex_sha ex_operation (ex_view s) (Lock_acquired True) (Some (ex_port False False)) (ex_view s) []
      True ex_dirty = (Inr rep, g, Some oj) \<and> fr_lock_outcome rep = ACQUIRED_RELEASED \<and> settled_file oj"
proof -
  obtain s rep g oj where r: "recover_interrupted_protection ex_sha ex_operation (ex_view s) (Lock_acquired True) (Some (ex_port False False))
      (ex_view s) [] True ex_dirty = (Inr rep, g, oj)" "fr_lock_outcome rep = ACQUIRED_RELEASED"
    using ex_recovery by blast
  have v: "rv_plan ex_sha (ex_view s) = Inr ex_plan" by (rule ex_view_plan)
  have "classify_protection_journal (rv_journal_exists (ex_view s)) (rv_journal_read (ex_view s)) \<noteq> Inr (Class_absent, None)"
    by (auto simp: ex_view_def classify_protection_journal_def res_bind_Inr split: option.splits if_splits)
  with recovery_releases_only_settled [OF ex_port_laws v r] r show ?thesis by auto
qed

theorem crash_then_recover_witness:
  "\<exists>f rep w' j r w2. apply_authorized_plan (ex_port False False) ex_plan ex_session (ex_world f) = (Returned rep, w')
    \<and> open_protection_journal True (Some (dj_file (ew_journal w'))) True (Some (dj_file (ew_journal w'))) ex_plan = Inr j
    \<and> dispatch_fsm (Some (ex_port False False)) ex_plan \<lparr>ew_env = ew_env w', ew_journal = j, ew_io = []\<rparr> = (Inr r, w2)
    \<and> re_disposition r \<in> {Disp_ROLLED_BACK, POST_VERIFICATION_REQUIRED}"
proof -
  obtain f where f: "store_inv (ex_store f)" using ex_file by blast
  from ex_success_world [OF this] obtain rep w' where
    run: "apply_authorized_plan (ex_port False False) ex_plan ex_session (ex_world f) = (Returned rep, w')"
    and w': "world_ready 18 ex_plan w'" "pj_transaction_state (dj_journal (ew_journal w')) = APPLYING" by blast
  let ?s = "ew_journal w'"
  from w'(1) have s: "store_inv ?s" "\<not> dj_durability_failed ?s" "dj_handle ?s" "dj_plan ?s = ex_plan"
      "length (dj_records ?s) + 18 < 10 ^ MAX_INT_DIGITS" by (simp_all add: world_ready_def)
  from apply_steps [OF ex_port_laws ex_exec_ready [OF f] run] fold_binding [of "ex_store f"] f ex_matches
  have m: "require_journal_matches_plan (dj_journal ?s) (dj_plan ?s) = Inr ()" by (auto simp: s(4))
  have eq: "?s\<lparr>dj_handle := True\<rparr> = ?s" using s(3) by simp
  from reopen_store [OF s(1,2) m] have op: "open_protection_journal True (Some (dj_file ?s)) True (Some (dj_file ?s)) ex_plan = Inr ?s"
    by (simp only: eq s(4))
  have pl: "printable_log ?s" and room: "length (dj_records ?s) + 3 < 10 ^ MAX_INT_DIGITS"
    using s(5) unfolding printable_log_def by linarith+
  have start: "\<forall>n \<in> set (ap_nodes ex_plan). id (ew_env (ex_world f)) (relative_path n) = id (pre_sd_sha256 n)"
    by (simp add: ex_plan_nodes)
  have pend: "rollback_pending (pj_transaction_state (dj_journal ?s))" using w'(2) by (simp add: rollback_pending_def)
  have "dj_plan (ew_journal (ex_world f)) = ex_plan" by simp
  from crash_then_recover [OF ex_port_laws ex_exec_ready [OF f] this start run pl op pend room ex_port_laws ex_port_recovers] run op
  show ?thesis by blast
qed

end
