(* ===== verification/Vault_Examples.thy ===== *)
theory Vault_Examples
  imports Protection_Examples Golden_Lock
begin

text \<open>
  The operation of \<open>Protection_Examples\<close> with its backup manifest, on which the properties of the stores of
  the vault are applied.
\<close>

definition ex_archive :: GoldenBackupArchive where
  "ex_archive = \<lparr>gba_operation_id = ex_operation, gba_canonical_root = ex_root, gba_volume_serial_number = 7, gba_root_file_id = 11,
     gba_tree_digest = \<lparr>td_digest = ex_digest, td_files = 1, td_bytes = 3\<rparr>, gba_policy_version = ''1'',
     gba_authorized_plan_digest = ex_digest, gba_nodes = [ex_node ''.'' DIR 11, ex_node ''Data'' FILE 12]\<rparr>"

lemma ex_backup: "build_golden_backup_archive ex_plan = Inr ex_archive"
proof -
  have "orden_canonico (ap_nodes ex_plan) = gba_nodes ex_archive"
    by (simp add: orden_canonico_def ex_plan_def ex_archive_def ex_node_def list_less_def)
  moreover have "length ex_digest = 64" "ex_operation \<noteq> []" by (simp_all add: ex_digest_def ex_operation_def)
  ultimately show ?thesis
    by (simp add: build_golden_backup_archive_def archive_post_init_def ex_plan_def ex_archive_def ex_text in_range_def
        MAX_UINT64_def MAX_UINT128_def ex_node_def)
qed

definition ex_repr :: "json \<Rightarrow> string" where "ex_repr v = []"

theorem backup_file_exact_witness:
  "load_durable_golden_backup ex_sha ex_repr ex_plan (File_bytes (canonical_bytes ex_archive)) = Inr ex_archive"
  using backup_file_exact [OF ex_plan_valid ex_backup, of ex_repr "File_bytes (canonical_bytes ex_archive)" ex_archive]
    build_valid [OF ex_plan_valid ex_backup] by simp

theorem backup_published_witness:
  "archive_golden_backup ex_sha ex_repr ex_plan
      \<lparr>ai_found = File_missing, ai_write = None, ai_collision = File_missing, ai_load = File_bytes (canonical_bytes ex_archive)\<rparr>
    = (Inr \<lparr>wo_durable = ex_archive, wo_republished = True, wo_revalidated_existing = False\<rparr>, Some (canonical_bytes ex_archive))"
  using backup_published [OF ex_plan_valid ex_backup] by blast

theorem backup_create_once_witness:
  "binds_to ex_archive ex_plan \<and> ai_found (\<lparr>ai_found = File_missing, ai_write = None, ai_collision = File_missing,
      ai_load = File_bytes (canonical_bytes ex_archive)\<rparr>) = File_missing"
  using backup_create_once [OF ex_plan_valid, of ex_repr "\<lparr>ai_found = File_missing, ai_write = None, ai_collision = File_missing,
      ai_load = File_bytes (canonical_bytes ex_archive)\<rparr>"]
    archive_publishes [OF ex_plan_valid ex_backup, of ex_repr File_missing None] by auto

theorem backup_scope_injective_witness:
  "derive_golden_backup_dir 7 11 ''1'' = Inr [''golden_backups'', format_scope 7 11, ''1''] \<and> (7 :: int) = 7 \<and> (11 :: int) = 11"
proof -
  have d: "derive_golden_backup_dir 7 11 ''1'' = Inr [''golden_backups'', format_scope 7 11, ''1'']"
    by (simp add: derive_golden_backup_dir_def ex_text in_range_def MAX_UINT64_def MAX_UINT128_def)
  with backup_scope_injective [OF d d] show ?thesis by simp
qed

subsection \<open>The lock\<close>

definition ex_key :: string where "ex_key = ''skyclaw_golden_lock_7_b''"

lemma ex_key: "derive_golden_lock_key 7 11 = Inr ex_key"
proof -
  have "hex_text 7 = ''7''" "hex_text 11 = ''b''"
    by (subst hex_text.simps; simp add: hex_digit_def char_of_def bit_iff_odd)+
  then show ?thesis
    by (simp add: derive_golden_lock_key_def lock_uint_def in_range_def MAX_UINT64_def MAX_UINT128_def ex_key_def GOLDEN_LOCK_NAME_PREFIX_def)
qed

definition ex_lock_io :: lock_io where
  "ex_lock_io = \<lparr>lo_open = True, lo_reparse_tag = Inr 0, lo_read = True, lo_alive = (\<lambda>p c. Some False), lo_process = Inr (4, 5, 1),
     lo_now = 9, lo_write = Written, lo_flush = True, lo_cleanup_write = Written, lo_cleanup_flush = True\<rparr>"

definition ex_other :: string where "ex_other = ''11111111-0000-4000-8000-000000000000''"

lemma ex_other_uuid: "canonical_uuid ex_other"
  by (simp add: canonical_uuid_def ex_other_def hex_lower_def is_digit_def upt_conv_Cons)

definition ex_identity :: "string \<Rightarrow> GoldenLockIdentity" where
  "ex_identity op = \<lparr>li_metadata = \<lparr>lm_lock_key = ex_key, lm_owner_pid = 4, lm_owner_process_creation_time = 5, lm_session_id = 1,
     lm_operation_id = op, lm_phase = AUTHORIZATION_BOUNDARY, lm_created_at = 9\<rparr>, li_volume_serial_number = 7, li_root_file_id = 11\<rparr>"

lemma ex_identity_ok: "canonical_uuid op \<Longrightarrow> identity_post_init (ex_identity op) = Inr (ex_identity op)"
  by (simp add: identity_post_init_Inr ex_identity_def ex_key metadata_ok_def in_range_def MAX_UINT32_def MAX_UINT64_def MAX_INT64_def)
    (simp add: ex_key_def GOLDEN_LOCK_NAME_PREFIX_def)

lemma ex_fresh: "canonical_uuid op \<Longrightarrow> fresh_identity ex_key 7 11 op (ex_lock_io\<lparr>lo_write := wr\<rparr>) = Inr (ex_identity op)"
  using ex_identity_ok [of op] by (simp add: fresh_identity_def ex_lock_io_def ex_identity_def)

lemma ex_io_ok: "canonical_uuid op \<Longrightarrow> lock_io_ok ex_key 7 11 op ex_lock_io"
  using ex_fresh [of op Written] by (simp add: lock_io_ok_def ex_lock_io_def)

definition ex_lock_world :: lock_world where "ex_lock_world = \<lparr>lw_bytes = [], lw_open = False\<rparr>"

definition ex_taken :: "string \<Rightarrow> lock_world" where
  "ex_taken op = \<lparr>lw_bytes = serialize_golden_lock_metadata (li_metadata (ex_identity op)), lw_open = True\<rparr>"

lemma ex_acquire:
  "\<exists>a. acquire_with tk 7 11 ex_operation ex_lock_io ex_lock_world = (Inr a, ex_taken ex_operation) \<and> ra_identity a = ex_identity ex_operation"
  using acquire_free [OF ex_key ex_operation_uuid, of ex_lock_world tk ex_lock_io "ex_identity ex_operation"]
    ex_fresh [OF ex_operation_uuid, of Written]
  by (simp add: ex_lock_world_def may_take_def ex_taken_def ex_lock_io_def)

theorem lock_metadata_fits_witness:
  "length (serialize_golden_lock_metadata (li_metadata (ex_identity ex_operation))) \<le> MAX_METADATA_BYTES"
  using lock_metadata_fits [OF ex_identity_ok [OF ex_operation_uuid]] by blast

theorem lock_never_stolen_witness:
  "deserialize_golden_lock_metadata (lw_bytes (ex_taken ex_operation)) = Inr (li_metadata (ex_identity ex_operation))"
  using ex_acquire [of False] lock_never_stolen by metis

theorem retained_lock_holds_witness:
  "\<exists>w. attempts 7 11 [(True, ex_other, ex_lock_io), (False, ex_operation, ex_lock_io)] w = w \<and> lw_bytes w = lw_bytes (ex_taken ex_operation)"
proof -
  obtain a where a: "acquire_with False 7 11 ex_operation ex_lock_io ex_lock_world = (Inr a, ex_taken ex_operation)"
    using ex_acquire by blast
  have l: "list_all (\<lambda>(tk, op, io). op \<noteq> ex_operation \<or> \<not> tk) [(True, ex_other, ex_lock_io), (False, ex_operation, ex_lock_io)]"
    by (simp add: ex_other_def ex_operation_def)
  obtain h' w2 where "retain_for_inspection \<lparr>lh_identity = ra_identity a, lh_closed = False\<rparr> (ex_taken ex_operation) = (True, h', w2)"
    by (simp add: retain_for_inspection_def)
  from retained_lock_holds [OF a refl this l] show ?thesis by blast
qed

theorem released_lock_is_free_witness:
  "\<exists>a w w'. acquire_golden_mutation_lock 7 11 ex_other ex_lock_io w = (Inr a, w')"
proof -
  obtain a where a: "acquire_with False 7 11 ex_operation ex_lock_io ex_lock_world = (Inr a, ex_taken ex_operation)"
    using ex_acquire by blast
  obtain r h' w2 where "release Written True \<lparr>lh_identity = ra_identity a, lh_closed = False\<rparr> (ex_taken ex_operation) = (r, h', w2)"
    by (cases "release Written True \<lparr>lh_identity = ra_identity a, lh_closed = False\<rparr> (ex_taken ex_operation)")
  from released_lock_is_free [OF a refl this ex_key ex_other_uuid ex_io_ok [OF ex_other_uuid], of Written True "ex_taken ex_operation"]
  show ?thesis by blast
qed

theorem failed_takeover_unlocks_witness:
  "\<exists>w1 a w2. acquire_golden_mutation_lock_for_recovery 7 11 ex_operation (ex_lock_io\<lparr>lo_write := Write_failed []\<rparr>)
      ((ex_taken ex_operation)\<lparr>lw_open := False\<rparr>) = (Inl (Lock_cleanup_error True), w1)
    \<and> acquire_golden_mutation_lock 7 11 ex_other ex_lock_io w1 = (Inr a, w2)"
proof -
  let ?w = "(ex_taken ex_operation)\<lparr>lw_open := False\<rparr>" and ?io = "ex_lock_io\<lparr>lo_write := Write_failed []\<rparr>"
  have left: "left_by ex_key ex_operation ?w"
    using deserialize_metadata_serialize [OF identity_text [OF ex_identity_ok [OF ex_operation_uuid]]]
    by (simp add: left_by_def ex_taken_def) (simp add: ex_identity_def)
  obtain r w1 where r: "acquire_golden_mutation_lock_for_recovery 7 11 ex_operation ?io ?w = (r, w1)" by fastforce
  have "r = Inl (Lock_cleanup_error True) \<and> (\<exists>a w2. acquire_golden_mutation_lock 7 11 ex_other ex_lock_io w1 = (Inr a, w2))"
    by (rule failed_takeover_unlocks [OF left _ ex_key ex_operation_uuid _ _ _ _ ex_fresh [OF ex_operation_uuid] _ _ _ r ex_other_uuid ex_io_ok [OF ex_other_uuid]])
      (simp_all add: ex_lock_io_def)
  with r show ?thesis by blast
qed

end
