(* ===== verification/Protocol_Examples.thy ===== *)
theory Protocol_Examples
  imports Protection_Protocol Recovery_Examples Vault_Examples
begin

text \<open>
  The operation of \<open>Executor_Examples\<close> and \<open>Vault_Examples\<close> to its end: applied, and then committed, or rejected by a gate.
\<close>

text \<open>The answers of a healthy world, with gates that pass or not.\<close>

definition ex_fin_io :: "bool \<Rightarrow> fin_io" where
  "ex_fin_io pass = \<lparr>fi_journal_exists = True, fi_journal_readable = True, fi_observa = (\<lambda>n g. Obs_pair pass []),
     fi_enter = (\<lambda>_. healthy_io),
     fi_archive = (\<lambda>_. \<lparr>ai_found = File_missing, ai_write = None, ai_collision = File_missing,
        ai_load = File_bytes (canonical_bytes ex_archive)\<rparr>),
     fi_commit = healthy_io, fi_rollback = healthy_io, fi_notifier = None, fi_lock = ex_lock_io, fi_release_write = Written,
     fi_release_flush = True, fi_backup = File_bytes (canonical_bytes ex_archive)\<rparr>"

lemma ex_fin_sel [simp]:
  "fi_journal_exists (ex_fin_io p)" "fi_journal_readable (ex_fin_io p)" "fi_observa (ex_fin_io p) n g = Obs_pair p []"
  "fi_enter (ex_fin_io p) = (\<lambda>_. healthy_io)" "fi_commit (ex_fin_io p) = healthy_io" "fi_rollback (ex_fin_io p) = healthy_io"
  "fi_notifier (ex_fin_io p) = None" "fi_lock (ex_fin_io p) = ex_lock_io" "fi_release_write (ex_fin_io p) = Written"
  "fi_release_flush (ex_fin_io p)" "fi_backup (ex_fin_io p) = File_bytes (canonical_bytes ex_archive)"
  by (simp_all add: ex_fin_io_def)

lemma ex_sha_length: "length (ex_sha x) = 64"
  by (simp add: ex_sha_def ex_digest_def)

lemma ex_evaluar:
  assumes "g \<in> {''gp1'', ''rv2'', ''node_set'', ''quiescence''}"
  shows "\<exists>v. evaluar ex_sha g (fi_observa (ex_fin_io p) n g) = Inr v \<and> gv_passed v = p"
proof -
  have "py_strip g = g" using assms by (intro py_strip_graphic) (auto simp: graphic_def)
  then have "py_strip g \<noteq> []" using assms by auto
  then show ?thesis by (simp add: evaluar_def gate_verdict_post_init_def ex_sha_length)
qed

lemma ex_gates: "gates_pass ex_sha (ex_fin_io True)"
  using ex_evaluar [of _ True] by (auto simp: gates_pass_def simp del: ex_fin_sel)

lemma ex_archives: "archive_succeeds ex_sha ex_repr ex_plan (ex_fin_io True)
    \<lparr>wo_durable = ex_archive, wo_republished = True, wo_revalidated_existing = False\<rparr>"
  using archive_publishes [OF ex_plan_valid ex_backup, of ex_repr File_missing]
  by (auto simp: archive_succeeds_def ex_fin_io_def MAX_ARCHIVE_RETRIES_def intro!: bexI [of _ 1])

lemma ex_lock_available: "lock_available ex_plan (ex_fin_io p) ex_key ex_lock_world"
  using ex_io_ok [OF ex_operation_uuid] ex_key ex_operation_uuid by (simp add: lock_available_def may_take_def ex_lock_world_def)

lemma ex_applied:
  "\<exists>f rep w. apply_authorized_plan (ex_port False False) ex_plan ex_session (ex_world f) = (Returned rep, w) \<and> ar_apply_error rep = None
    \<and> store_inv (ex_store f) \<and> store_inv (ew_journal w) \<and> dj_plan (ew_journal w) = ex_plan
    \<and> length (dj_records (ew_journal w)) + 18 < 10 ^ MAX_INT_DIGITS"
proof -
  obtain f where f: "store_inv (ex_store f)" using ex_file by blast
  from ex_success [OF f] ex_success_world [OF f] f show ?thesis by (fastforce simp: world_ready_def)
qed

lemma ex_ready_journal:
  "\<exists>j. readable j \<and> store_inv j \<and> dj_plan j = ex_plan \<and> pj_transaction_state (dj_journal j) = APPLYING
    \<and> require_journal_matches_plan (dj_journal j) ex_plan = Inr ()
    \<and> (\<forall>n \<in> set (ap_nodes ex_plan). node_state (dj_journal j) (relative_path n) = Some MUTATED)
    \<and> length (dj_records j) + 18 < 10 ^ MAX_INT_DIGITS"
proof -
  from ex_applied obtain f rep w where
    r: "apply_authorized_plan (ex_port False False) ex_plan ex_session (ex_world f) = (Returned rep, w)" "ar_apply_error rep = None"
    and i: "store_inv (ex_store f)" "store_inv (ew_journal w)" "dj_plan (ew_journal w) = ex_plan"
      "length (dj_records (ew_journal w)) + 18 < 10 ^ MAX_INT_DIGITS" by blast
  have "ap_nodes ex_plan \<noteq> []" by (simp add: ex_plan_nodes)
  moreover have "require_journal_matches_plan (dj_journal (ew_journal (ex_world f))) ex_plan = Inr ()" using ex_matches by simp
  ultimately show ?thesis using applied_journal [OF ex_port_laws ex_exec_ready [OF i(1)] _ _ r] i(2-4) by blast
qed

definition ex_fin_world :: "DurableProtectionJournal \<Rightarrow> fin_world" where
  "ex_fin_world j = \<lparr>fw_journal = j, fw_lock = ex_lock_world, fw_escritos = []\<rparr>"

lemma ex_fin_world_sel [simp]: "fw_journal (ex_fin_world j) = j" "fw_lock (ex_fin_world j) = ex_lock_world" "fw_escritos (ex_fin_world j) = []"
  by (simp_all add: ex_fin_world_def)

text \<open>The run that commits.\<close>

lemma ex_commits:
  assumes "readable j" and "pj_transaction_state (dj_journal j) = APPLYING" and "require_journal_matches_plan (dj_journal j) ex_plan = Inr ()"
    and "\<forall>n \<in> set (ap_nodes ex_plan). node_state (dj_journal j) (relative_path n) = Some MUTATED"
    and "length (dj_records j) + 18 < 10 ^ MAX_INT_DIGITS"
    and "finalize_protection_transaction ex_sha ex_repr ex_operation ex_plan None (ex_fin_io True) (ex_fin_world j) = (res, w)"
  shows "\<exists>rep. res = Inr rep \<and> fr_disposition rep = Fin_COMMITTED"
proof -
  have k: "lock_available ex_plan (ex_fin_io True) ex_key (fw_lock (ex_fin_world j))" using ex_lock_available by simp
  have o: "lock_io_ok ex_key (ap_volume_serial_number ex_plan) (ap_root_file_id ex_plan) ex_other ex_lock_io"
    using ex_io_ok [OF ex_other_uuid] by simp
  show ?thesis
    using completes [OF _ _ _ _ _ _ _ _ _ _ _ ex_gates ex_archives ex_sha_length k assms(6) ex_other_uuid o]
      assms(1-5) matches_ids [OF assms(3)] by (auto simp: FASES_ADMISIBLES_def)
qed


subsection \<open>The properties on these runs\<close>

lemma ex_finalized:
  "\<exists>j rep w. readable j \<and> pj_transaction_state (dj_journal j) = APPLYING
    \<and> finalize_protection_transaction ex_sha ex_repr ex_operation ex_plan None (ex_fin_io True) (ex_fin_world j) = (Inr rep, w)
    \<and> fr_disposition rep = Fin_COMMITTED"
proof -
  obtain j where j: "readable j" "pj_transaction_state (dj_journal j) = APPLYING" "require_journal_matches_plan (dj_journal j) ex_plan = Inr ()"
    "\<forall>n \<in> set (ap_nodes ex_plan). node_state (dj_journal j) (relative_path n) = Some MUTATED"
    "length (dj_records j) + 18 < 10 ^ MAX_INT_DIGITS" using ex_ready_journal by blast
  obtain res w where "finalize_protection_transaction ex_sha ex_repr ex_operation ex_plan None (ex_fin_io True) (ex_fin_world j) = (res, w)"
    by fastforce
  with ex_commits [OF j this] j(1,2) show ?thesis by blast
qed

theorem committed_is_proved_witness:
  "\<exists>j rep w. finalize_protection_transaction ex_sha ex_repr ex_operation ex_plan None (ex_fin_io True) (ex_fin_world j) = (Inr rep, w)
    \<and> list_all gv_passed (fr_verdicts rep) \<and> pj_transaction_state (dj_journal (fw_journal w)) = COMMITTED"
proof -
  obtain j rep w where r: "readable j"
    "finalize_protection_transaction ex_sha ex_repr ex_operation ex_plan None (ex_fin_io True) (ex_fin_world j) = (Inr rep, w)"
    "fr_disposition rep = Fin_COMMITTED" using ex_finalized by blast
  have "readable (fw_journal (ex_fin_world j))" using r(1) by simp
  from committed_is_proved [OF ex_plan_valid this r(2,3)] r(2) show ?thesis by blast
qed

theorem committed_replay_witness:
  "\<exists>w rep w'. finalize_protection_transaction ex_sha ex_repr ex_operation ex_plan None (ex_fin_io True) w = (Inr rep, w')
    \<and> pj_transaction_state (dj_journal (fw_journal w)) = COMMITTED \<and> fw_journal w' = fw_journal w \<and> fr_verdicts rep = []"
proof -
  obtain j rep w where r: "readable j"
    "finalize_protection_transaction ex_sha ex_repr ex_operation ex_plan None (ex_fin_io True) (ex_fin_world j) = (Inr rep, w)"
    "fr_disposition rep = Fin_COMMITTED" using ex_finalized by blast
  have "readable (fw_journal (ex_fin_world j))" using r(1) by simp
  from committed_facts [OF ex_plan_valid this r(2,3)] have c: "readable (fw_journal w)" "pj_transaction_state (dj_journal (fw_journal w)) = COMMITTED"
    "pj_operation_id (dj_journal (fw_journal w)) = ex_operation" "pj_authorized_plan_digest (dj_journal (fw_journal w)) = ap_plan_digest ex_plan" by blast+
  let ?w = "w\<lparr>fw_lock := ex_lock_world\<rparr>"
  obtain res w' where run: "finalize_protection_transaction ex_sha ex_repr ex_operation ex_plan None (ex_fin_io True) ?w = (res, w')" by fastforce
  have n: "finalize_protection_transaction ex_sha ex_repr ex_operation ex_plan None (ex_fin_io True) ?w
      = normalizar_commit_ya_durable ex_sha ex_repr ex_operation ex_plan (ex_fin_io True) ?w"
    using c by (simp add: finalize_protection_transaction_def exigir_operacion_coincidente_def classify_protection_journal_def readable_def)
  have l: "load_durable_golden_backup ex_sha ex_repr ex_plan (fi_backup (ex_fin_io True)) = Inr ex_archive"
    using backup_exact [OF ex_plan_valid ex_backup, of ex_repr "File_bytes (canonical_bytes ex_archive)" ex_archive]
      build_valid [OF ex_plan_valid ex_backup] by simp
  from run n have "normalizar_commit_ya_durable ex_sha ex_repr ex_operation ex_plan (ex_fin_io True) ?w = (res, w')" by simp
  then obtain rep' where rep: "res = Inr rep'"
  proof (cases rule: normalizar_cases)
    case (unlocked e l')
    with lock_taken_and_released [OF ex_lock_available [of True]] show ?thesis by simp
  qed (use l in simp_all)
  have "readable (fw_journal ?w)" "pj_transaction_state (dj_journal (fw_journal ?w)) = COMMITTED" using c by simp_all
  from committed_replay [OF run this ex_plan_valid ex_backup] run rep c(2) show ?thesis by (intro exI [of _ ?w]) auto
qed




theorem finalization_completes_witness:
  "\<exists>j rep w a v. finalize_protection_transaction ex_sha ex_repr ex_operation ex_plan None (ex_fin_io True) (ex_fin_world j) = (Inr rep, w)
    \<and> fr_disposition rep = Fin_COMMITTED \<and> acquire_golden_mutation_lock 7 11 ex_other ex_lock_io (fw_lock w) = (Inr a, v)"
proof -
  obtain j where j: "readable j" "pj_transaction_state (dj_journal j) = APPLYING" "require_journal_matches_plan (dj_journal j) ex_plan = Inr ()"
    "\<forall>n \<in> set (ap_nodes ex_plan). node_state (dj_journal j) (relative_path n) = Some MUTATED"
    "length (dj_records j) + 18 < 10 ^ MAX_INT_DIGITS" using ex_ready_journal by blast
  have k: "lock_available ex_plan (ex_fin_io True) ex_key (fw_lock (ex_fin_world j))" using ex_lock_available by simp
  have o: "lock_io_ok ex_key (ap_volume_serial_number ex_plan) (ap_root_file_id ex_plan) ex_other ex_lock_io"
    using ex_io_ok [OF ex_other_uuid] by simp
  obtain res w where run: "finalize_protection_transaction ex_sha ex_repr ex_operation ex_plan None (ex_fin_io True) (ex_fin_world j) = (res, w)"
    by fastforce
  have "(\<exists>rep. res = Inr rep \<and> fr_disposition rep = Fin_COMMITTED \<and> fl_released (fr_lock rep))
    \<and> (\<exists>a w2. acquire_golden_mutation_lock (ap_volume_serial_number ex_plan) (ap_root_file_id ex_plan) ex_other ex_lock_io (fw_lock w) = (Inr a, w2))"
    by (rule finalization_completes [OF _ _ _ _ _ _ _ _ _ _ _ ex_gates ex_archives ex_sha_length k run ex_other_uuid o])
      (use j matches_ids [OF j(3)] in \<open>simp_all add: FASES_ADMISIBLES_def\<close>)
  with run show ?thesis by simp blast
qed

theorem protection_commits_witness:
  "\<exists>f rep w res fw. apply_authorized_plan (ex_port False False) ex_plan ex_session (ex_world f) = (Returned rep, w)
    \<and> finalize_protection_transaction ex_sha ex_repr ex_operation ex_plan None (ex_fin_io True) (ex_fin_world (ew_journal w)) = (Inr res, fw)
    \<and> fr_disposition res = Fin_COMMITTED"
proof -
  from ex_applied obtain f rep w where
    r: "apply_authorized_plan (ex_port False False) ex_plan ex_session (ex_world f) = (Returned rep, w)" "ar_apply_error rep = None"
    and i: "store_inv (ex_store f)" "length (dj_records (ew_journal w)) + 18 < 10 ^ MAX_INT_DIGITS" by blast
  have o: "lock_io_ok ex_key (ap_volume_serial_number ex_plan) (ap_root_file_id ex_plan) ex_other ex_lock_io"
    using ex_io_ok [OF ex_other_uuid] by simp
  obtain res fw where run: "finalize_protection_transaction ex_sha ex_repr (ap_operation_id ex_plan) ex_plan None (ex_fin_io True)
      \<lparr>fw_journal = ew_journal w, fw_lock = ex_lock_world, fw_escritos = []\<rparr> = (res, fw)" by fastforce
  have "\<exists>rep. res = Inr rep \<and> fr_disposition rep = Fin_COMMITTED \<and> fl_released (fr_lock rep)"
    by (rule conjunct1, rule protection_commits [OF ex_port_laws ex_exec_ready [OF i(1)] _ _ r _ _ _ _ _ ex_gates ex_archives ex_sha_length
        ex_lock_available run ex_other_uuid o]) (use ex_matches i(2) in \<open>simp_all add: ex_plan_nodes\<close>)
  with r(1) run show ?thesis unfolding ex_fin_world_def ex_plan_sel by blast
qed



end
