(* ===== verification/Hitl_Guard.thy ===== *)
theory Hitl_Guard
  imports Closed_Fsm
begin

text \<open>
  \<open>sky_claw/app/security/hitl.py\<close>: the guard that pauses an action until the operator
  authorises it (\<open>HITLGuard\<close>). Many coroutines share one guard, so its life is a step relation.

  A step runs from one suspension of a coroutine to the next. The suspensions are the awaits of
  \<open>notify_fn\<close>, of the event of the request and of the two observers; the blocks under the lock
  of the guard hold no await, so that lock is never found taken, its acquisition does not suspend
  and each block is part of the step that reaches it. A cancellation arrives at a suspension.

  The object \<open>HITLRequest\<close> of a call is shared between the call and the dictionary of pending
  requests: its address is the position of the call in \<open>hitl_calls\<close>, and the dictionary maps
  a request id to that address. What the observers are told is logged in \<open>told\<close>. A number of
  seconds counts ticks of the clock; only its sign and its being finite matter to the code.
\<close>

subsection \<open>Data\<close>

datatype decision = APPROVED | DENIED | TIMEOUT

datatype py_float = Finite int | Pos_Inf | Neg_Inf | Not_A_Number

fun float_isfinite :: "py_float \<Rightarrow> bool" where
  "float_isfinite (Finite n) = True"
| "float_isfinite Pos_Inf = False"
| "float_isfinite Neg_Inf = False"
| "float_isfinite Not_A_Number = False"

fun float_le_zero :: "py_float \<Rightarrow> bool" where
  "float_le_zero (Finite n) = (n \<le> 0)"
| "float_le_zero Pos_Inf = False"
| "float_le_zero Neg_Inf = True"
| "float_le_zero Not_A_Number = False"

record hitl_request =
  req_id :: string
  req_reason :: string
  req_url :: "string option"
  req_detail :: string
  req_category :: string
  req_event :: bool
  req_decision :: decision
  req_resolved :: bool

definition HITLRequest :: "string \<Rightarrow> string \<Rightarrow> string option \<Rightarrow> string \<Rightarrow> string \<Rightarrow> hitl_request" where
  "HITLRequest rid reason url detail category =
    \<lparr>req_id = rid, req_reason = reason, req_url = url, req_detail = detail, req_category = category,
     req_event = False, req_decision = TIMEOUT, req_resolved = False\<rparr>"

definition new_hitl_request_id :: "string \<Rightarrow> string \<Rightarrow> string" where
  "new_hitl_request_id pre uuid_hex = pre @ ''-'' @ take 12 uuid_hex"

text \<open>Where a call of \<open>request_approval\<close> stands, and how it ended.\<close>

datatype call_result = Answered decision | Call_Cancelled

datatype stage =
    Notifying
  | Waiting
  | Telling_Terminal
  | Telling_Cancel call_result
  | Ended call_result

record hitl_call =
  call_req :: hitl_request
  call_timeout :: py_float
  call_stage :: stage

datatype observer_call = Told_Terminal nat decision | Told_Cancel nat

record hitl_guard =
  has_notify :: bool
  guard_timeout :: py_float
  has_on_terminal :: bool
  has_on_cancel :: bool
  observer_timeout :: py_float
  has_notice :: bool
  hitl_pending :: "(string, nat) dict"
  hitl_calls :: "hitl_call list"
  told :: "observer_call list"

datatype hitl_error = HitlValueError string py_float

definition hitl_init ::
  "bool \<Rightarrow> py_float \<Rightarrow> bool \<Rightarrow> bool \<Rightarrow> py_float \<Rightarrow> bool \<Rightarrow> hitl_error + hitl_guard" where
  "hitl_init notify timeout on_terminal on_cancel obs_timeout notice =
    (if float_le_zero obs_timeout then Inl (HitlValueError ''observer_timeout must be positive'' obs_timeout)
     else Inr \<lparr>has_notify = notify, guard_timeout = timeout, has_on_terminal = on_terminal,
               has_on_cancel = on_cancel, observer_timeout = obs_timeout, has_notice = notice,
               hitl_pending = [], hitl_calls = [], told = []\<rparr>)"

subsection \<open>Operations\<close>

abbreviation req_at :: "hitl_guard \<Rightarrow> nat \<Rightarrow> hitl_request" where
  "req_at g i \<equiv> call_req (hitl_calls g ! i)"

abbreviation stage_at :: "hitl_guard \<Rightarrow> nat \<Rightarrow> stage" where
  "stage_at g i \<equiv> call_stage (hitl_calls g ! i)"

definition set_stage :: "nat \<Rightarrow> stage \<Rightarrow> hitl_guard \<Rightarrow> hitl_guard" where
  "set_stage i s g = g\<lparr>hitl_calls := (hitl_calls g)[i := (hitl_calls g ! i)\<lparr>call_stage := s\<rparr>]\<rparr>"

definition tell :: "observer_call \<Rightarrow> hitl_guard \<Rightarrow> hitl_guard" where
  "tell c g = g\<lparr>told := told g @ [c]\<rparr>"

text \<open>How an await ended: of the observer, of \<open>notify_fn\<close>, of the event.\<close>

datatype observer_outcome =
  Observer_Returns | Observer_TimeoutError | Observer_CancelledError nat | Observer_Exception

datatype notify_outcome = Notify_Returns | Notify_Exception | Notify_Cancelled

datatype wait_outcome = Wait_Woken | Wait_TimeoutError | Wait_Cancelled

text \<open>\<open>_run_observer_bounded\<close>: does it raise \<open>CancelledError\<close>? The number is
  \<open>current_task().cancelling()\<close>.\<close>

fun run_observer_bounded :: "observer_outcome \<Rightarrow> bool" where
  "run_observer_bounded Observer_Returns = False"
| "run_observer_bounded Observer_TimeoutError = False"
| "run_observer_bounded (Observer_CancelledError cancelling) = (cancelling \<noteq> 0)"
| "run_observer_bounded Observer_Exception = False"

definition resolve_request :: "decision \<Rightarrow> hitl_request \<Rightarrow> hitl_request" where
  "resolve_request d r = r\<lparr>req_decision := d, req_resolved := True, req_event := True\<rparr>"

text \<open>\<open>_commit\<close> up to the await of the observer; the flag is its result.\<close>

definition hitl_commit :: "string \<Rightarrow> decision \<Rightarrow> hitl_guard \<Rightarrow> hitl_guard \<times> bool" where
  "hitl_commit rid d g =
    (case dget (hitl_pending g) rid of
       None \<Rightarrow> (g, False)
     | Some i \<Rightarrow>
         if req_resolved (req_at g i) then (g, False)
         else let g1 = g\<lparr>hitl_calls := (hitl_calls g)[i := (hitl_calls g ! i)\<lparr>call_req := resolve_request d (req_at g i)\<rparr>]\<rparr>
              in (if has_on_terminal g then tell (Told_Terminal i d) g1 else g1, True))"

definition respond :: "string \<Rightarrow> bool \<Rightarrow> hitl_guard \<Rightarrow> hitl_guard \<times> bool" where
  "respond rid approved g = hitl_commit rid (if approved then APPROVED else DENIED) g"

text \<open>What the caller of \<open>respond\<close> sees: \<open>None\<close> is \<open>CancelledError\<close>, raised while the observer ran.\<close>

definition respond_ack :: "string \<Rightarrow> bool \<Rightarrow> observer_outcome \<Rightarrow> hitl_guard \<Rightarrow> bool option" where
  "respond_ack rid approved o1 g =
    (if snd (respond rid approved g) \<and> has_on_terminal g \<and> run_observer_bounded o1 then None
     else Some (snd (respond rid approved g)))"

definition terminal_decision :: "string \<Rightarrow> hitl_guard \<Rightarrow> decision option" where
  "terminal_decision rid g =
    (case dget (hitl_pending g) rid of
       None \<Rightarrow> None
     | Some i \<Rightarrow> if \<not> req_resolved (req_at g i) then None else Some (req_decision (req_at g i)))"

text \<open>\<open>notify_operator\<close>: whether it raises \<open>CancelledError\<close>; it never touches the guard.\<close>

definition notify_operator :: "notify_outcome \<Rightarrow> hitl_guard \<Rightarrow> bool" where
  "notify_operator o1 g = (has_notice g \<and> o1 = Notify_Cancelled)"

text \<open>The \<open>finally\<close> of \<open>request_approval\<close>, with the result on its way out.\<close>

definition hitl_finally :: "nat \<Rightarrow> bool \<Rightarrow> call_result \<Rightarrow> hitl_guard \<Rightarrow> hitl_guard" where
  "hitl_finally i notify_failed r g =
    (let g1 = g\<lparr>hitl_pending := ddel (req_id (req_at g i)) (hitl_pending g)\<rparr> in
     if \<not> notify_failed \<and> \<not> req_resolved (req_at g1 i) \<and> has_on_cancel g1
     then set_stage i (Telling_Cancel r) (tell (Told_Cancel i) g1)
     else set_stage i (Ended r) g1)"

text \<open>\<open>request_approval\<close> from its call to its first suspension or its early end. \<open>fresh\<close> is the
  value of \<open>str(uuid.uuid4())\<close>, read only when the caller gives no id.\<close>

definition effective_timeout :: "py_float option \<Rightarrow> hitl_guard \<Rightarrow> hitl_error + py_float" where
  "effective_timeout timeout g =
    (case timeout of
       Some t \<Rightarrow> if \<not> float_isfinite t \<or> float_le_zero t
                 then Inl (HitlValueError ''HITL timeout debe ser finito y > 0'' t) else Inr t
     | None \<Rightarrow> Inr (guard_timeout g))"

definition hitl_register :: "hitl_request \<Rightarrow> py_float \<Rightarrow> hitl_guard \<Rightarrow> hitl_guard" where
  "hitl_register req t g =
    (if req_id req \<in> dkeys (hitl_pending g)
     then g\<lparr>hitl_calls := hitl_calls g @ [\<lparr>call_req = req, call_timeout = t, call_stage = Ended (Answered DENIED)\<rparr>]\<rparr>
     else g\<lparr>hitl_pending := dset (req_id req) (length (hitl_calls g)) (hitl_pending g),
            hitl_calls := hitl_calls g @
              [\<lparr>call_req = req, call_timeout = t, call_stage = (if has_notify g then Notifying else Waiting)\<rparr>]\<rparr>)"

definition request_approval ::
  "string \<Rightarrow> string option \<Rightarrow> string \<Rightarrow> string option \<Rightarrow> string \<Rightarrow> string \<Rightarrow> py_float option
    \<Rightarrow> hitl_guard \<Rightarrow> hitl_error + hitl_guard" where
  "request_approval fresh request_id reason url detail category timeout g =
    (let rid = (case request_id of None \<Rightarrow> fresh | Some r \<Rightarrow> r) in
     case effective_timeout timeout g of
       Inl e \<Rightarrow> Inl e
     | Inr t \<Rightarrow> Inr (hitl_register (HITLRequest rid reason url detail category) t g))"

text \<open>The resumptions of a call.\<close>

fun notify_ends :: "nat \<Rightarrow> notify_outcome \<Rightarrow> hitl_guard \<Rightarrow> hitl_guard" where
  "notify_ends i Notify_Returns g = set_stage i Waiting g"
| "notify_ends i Notify_Exception g = hitl_finally i True (Answered TIMEOUT) g"
| "notify_ends i Notify_Cancelled g = hitl_finally i False Call_Cancelled g"

definition return_decision :: "nat \<Rightarrow> hitl_guard \<Rightarrow> hitl_guard" where
  "return_decision i g = hitl_finally i False (Answered (req_decision (req_at g i))) g"

definition wait_times_out :: "nat \<Rightarrow> hitl_guard \<Rightarrow> hitl_guard" where
  "wait_times_out i g =
    (case hitl_commit (req_id (req_at g i)) TIMEOUT g of (g1, won) \<Rightarrow>
       if won \<and> has_on_terminal g1 then set_stage i Telling_Terminal g1 else return_decision i g1)"

fun wait_ends :: "nat \<Rightarrow> wait_outcome \<Rightarrow> hitl_guard \<Rightarrow> hitl_guard" where
  "wait_ends i Wait_Woken g = return_decision i g"
| "wait_ends i Wait_TimeoutError g = wait_times_out i g"
| "wait_ends i Wait_Cancelled g = hitl_finally i False Call_Cancelled g"

definition terminal_told :: "nat \<Rightarrow> observer_outcome \<Rightarrow> hitl_guard \<Rightarrow> hitl_guard" where
  "terminal_told i o1 g =
    (if run_observer_bounded o1 then hitl_finally i False Call_Cancelled g else return_decision i g)"

definition cancel_told :: "nat \<Rightarrow> call_result \<Rightarrow> observer_outcome \<Rightarrow> hitl_guard \<Rightarrow> hitl_guard" where
  "cancel_told i r o1 g = set_stage i (Ended (if run_observer_bounded o1 then Call_Cancelled else r)) g"

subsection \<open>The step relation\<close>

datatype hitl_event =
    Requested string "string option" string "string option" string string "py_float option"
  | Notify_Ended nat notify_outcome
  | Wait_Ended nat wait_outcome
  | Terminal_Told nat observer_outcome
  | Cancel_Told nat observer_outcome
  | Responded string bool

inductive hitl_step :: "hitl_guard \<Rightarrow> hitl_event \<Rightarrow> hitl_guard \<Rightarrow> bool" where
  step_request:
    "request_approval fresh rid reason url detail category timeout g = Inr g' \<Longrightarrow>
     hitl_step g (Requested fresh rid reason url detail category timeout) g'"
| step_refused:
    "request_approval fresh rid reason url detail category timeout g = Inl e \<Longrightarrow>
     hitl_step g (Requested fresh rid reason url detail category timeout) g"
| step_notify:
    "i < length (hitl_calls g) \<Longrightarrow> stage_at g i = Notifying \<Longrightarrow>
     hitl_step g (Notify_Ended i n) (notify_ends i n g)"
| step_wait:
    "i < length (hitl_calls g) \<Longrightarrow> stage_at g i = Waiting \<Longrightarrow> w = Wait_Woken \<longrightarrow> req_event (req_at g i) \<Longrightarrow>
     hitl_step g (Wait_Ended i w) (wait_ends i w g)"
| step_terminal:
    "i < length (hitl_calls g) \<Longrightarrow> stage_at g i = Telling_Terminal \<Longrightarrow>
     hitl_step g (Terminal_Told i ob) (terminal_told i ob g)"
| step_cancel:
    "i < length (hitl_calls g) \<Longrightarrow> stage_at g i = Telling_Cancel r \<Longrightarrow>
     hitl_step g (Cancel_Told i ob) (cancel_told i r ob g)"
| step_respond:
    "hitl_step g (Responded rid approved) (fst (respond rid approved g))"

inductive_cases hitl_stepE: "hitl_step g e g'"

inductive hitl_run :: "hitl_guard \<Rightarrow> hitl_event list \<Rightarrow> hitl_guard \<Rightarrow> bool" where
  run_start: "hitl_run g [] g"
| run_more: "hitl_run g es g' \<Longrightarrow> hitl_step g' e g'' \<Longrightarrow> hitl_run g (es @ [e]) g''"

subsection \<open>The life of a call\<close>

fun stage_rank :: "stage \<Rightarrow> nat" where
  "stage_rank Notifying = 3"
| "stage_rank Waiting = 2"
| "stage_rank Telling_Terminal = 1"
| "stage_rank (Telling_Cancel r) = 1"
| "stage_rank (Ended r) = 0"

fun stage_edge :: "stage \<Rightarrow> stage \<Rightarrow> bool" where
  "stage_edge Notifying t = (t \<noteq> Notifying \<and> t \<noteq> Telling_Terminal)"
| "stage_edge Waiting t = (t \<noteq> Notifying \<and> t \<noteq> Waiting)"
| "stage_edge Telling_Terminal t = (\<exists>r. t = Ended r)"
| "stage_edge (Telling_Cancel r) t = (t = Ended r \<or> t = Ended Call_Cancelled)"
| "stage_edge (Ended r) t = False"

lemma stage_edge_rank: "stage_edge s t \<Longrightarrow> stage_rank t < stage_rank s"
  by (cases s; cases t) auto

interpretation call_life: closed_fsm stage_edge stage_rank
  by unfold_locales (rule stage_edge_rank)

fun live :: "stage \<Rightarrow> bool" where
  "live Notifying = True"
| "live Waiting = True"
| "live Telling_Terminal = True"
| "live (Telling_Cancel r) = False"
| "live (Ended r) = False"

subsection \<open>The invariant\<close>

fun result_ok :: "hitl_request \<Rightarrow> call_result \<Rightarrow> bool" where
  "result_ok q Call_Cancelled = True"
| "result_ok q (Answered d) = (d = TIMEOUT \<or> (if req_resolved q then d = req_decision q else d = DENIED))"

fun stage_ok :: "hitl_request \<Rightarrow> stage \<Rightarrow> bool" where
  "stage_ok q Notifying = True"
| "stage_ok q Waiting = True"
| "stage_ok q Telling_Terminal = req_resolved q"
| "stage_ok q (Telling_Cancel r) = (\<not> req_resolved q \<and> r = Call_Cancelled)"
| "stage_ok q (Ended r) = result_ok q r"

definition call_ok :: "hitl_call \<Rightarrow> bool" where
  "call_ok c \<longleftrightarrow> req_event (call_req c) = req_resolved (call_req c)
     \<and> (req_resolved (call_req c) \<or> req_decision (call_req c) = TIMEOUT)
     \<and> stage_ok (call_req c) (call_stage c)"

definition pending_of :: "hitl_guard \<Rightarrow> string \<Rightarrow> nat \<Rightarrow> bool" where
  "pending_of g r i \<longleftrightarrow> i < length (hitl_calls g) \<and> req_id (req_at g i) = r \<and> live (stage_at g i)"

fun tells :: "nat \<Rightarrow> observer_call \<Rightarrow> bool" where
  "tells i (Told_Terminal j d) = (i = j)"
| "tells i (Told_Cancel j) = (i = j)"

fun abandoned :: "stage \<Rightarrow> bool" where
  "abandoned Notifying = False"
| "abandoned Waiting = False"
| "abandoned Telling_Terminal = False"
| "abandoned (Telling_Cancel r) = True"
| "abandoned (Ended r) = (r = Call_Cancelled)"

text \<open>What the observers have heard of a call: its decision once it is resolved, and that it is void
  when it was cancelled unresolved; never both, never twice.\<close>

definition announced :: "hitl_guard \<Rightarrow> nat \<Rightarrow> observer_call list" where
  "announced g i =
    (if length (hitl_calls g) \<le> i then []
     else if req_resolved (req_at g i)
     then (if has_on_terminal g then [Told_Terminal i (req_decision (req_at g i))] else [])
     else if has_on_cancel g \<and> abandoned (stage_at g i) then [Told_Cancel i] else [])"

definition hitl_inv :: "hitl_guard \<Rightarrow> bool" where
  "hitl_inv g \<longleftrightarrow> dict_wf (hitl_pending g)
     \<and> (\<forall>r i. dget (hitl_pending g) r = Some i \<longleftrightarrow> pending_of g r i)
     \<and> (\<forall>c \<in> set (hitl_calls g). call_ok c)
     \<and> (\<forall>i. filter (tells i) (told g) = announced g i)"

lemma inv_pending: "hitl_inv g \<Longrightarrow> dget (hitl_pending g) r = Some i \<longleftrightarrow> pending_of g r i"
  by (simp add: hitl_inv_def)

lemma inv_call_ok: "hitl_inv g \<Longrightarrow> i < length (hitl_calls g) \<Longrightarrow> call_ok (hitl_calls g ! i)"
  by (simp add: hitl_inv_def)

lemma inv_told: "hitl_inv g \<Longrightarrow> filter (tells i) (told g) = announced g i"
  by (simp add: hitl_inv_def)

lemma inv_wf: "hitl_inv g \<Longrightarrow> dict_wf (hitl_pending g)"
  by (simp add: hitl_inv_def)

lemmas inv_facts = inv_pending inv_call_ok inv_told inv_wf

lemma live_is_pending:
  "hitl_inv g \<Longrightarrow> i < length (hitl_calls g) \<Longrightarrow> live (stage_at g i) \<Longrightarrow>
   dget (hitl_pending g) (req_id (req_at g i)) = Some i"
  by (simp add: inv_pending pending_of_def)

text \<open>Every change of one call preserves the invariant when the call it leaves is sound, the
  dictionary loses the call with its life, and the log says of it what it should.\<close>

lemma inv_change:
  assumes inv: "hitl_inv g" and i: "i < length (hitl_calls g)"
    and calls: "hitl_calls g' = (hitl_calls g)[i := c]"
    and id: "req_id (call_req c) = req_id (req_at g i)" and ok: "call_ok c"
    and pending: "hitl_pending g' = hitl_pending g \<and> live (call_stage c) = live (stage_at g i)
      \<or> hitl_pending g' = ddel (req_id (req_at g i)) (hitl_pending g) \<and> live (stage_at g i) \<and> \<not> live (call_stage c)"
    and flags: "has_on_terminal g' = has_on_terminal g" "has_on_cancel g' = has_on_cancel g"
    and others: "\<And>j. j \<noteq> i \<Longrightarrow> filter (tells j) (told g') = filter (tells j) (told g)"
    and own: "filter (tells i) (told g') = announced g' i"
  shows "hitl_inv g'"
proof -
  have "dict_wf (hitl_pending g')" using pending inv_wf [OF inv] by auto
  moreover have "dget (hitl_pending g') r = Some j \<longleftrightarrow> pending_of g' r j" for r j
  proof (cases "j = i")
    case True
    then show ?thesis using pending inv_pending [OF inv, of r i] i id
      by (auto simp: calls pending_of_def)
  next
    case False
    then have "pending_of g' r j \<longleftrightarrow> pending_of g r j" by (simp add: calls pending_of_def)
    moreover have "\<not> pending_of g (req_id (req_at g i)) j" if "live (stage_at g i)"
      using live_is_pending [OF inv i that] inv_pending [OF inv, of "req_id (req_at g i)" j] False by simp
    ultimately show ?thesis using pending inv_pending [OF inv, of r j] by (auto split: if_splits)
  qed
  moreover have "\<forall>c' \<in> set (hitl_calls g'). call_ok c'"
    using inv ok set_update_subset_insert [of "hitl_calls g" i c] by (auto simp: calls hitl_inv_def)
  moreover have "filter (tells j) (told g') = announced g' j" for j
  proof (cases "j = i")
    case False
    then have "announced g' j = announced g j" by (simp add: announced_def calls flags)
    then show ?thesis using others [OF False] inv_told [OF inv, of j] by simp
  qed (simp add: own)
  ultimately show ?thesis by (simp add: hitl_inv_def)
qed

lemma commit_inv:
  assumes inv: "hitl_inv g"
  shows "hitl_inv (fst (hitl_commit rid d g))"
proof (cases "dget (hitl_pending g) rid")
  case (Some i)
  then have i: "i < length (hitl_calls g)" "live (stage_at g i)"
    using inv by (simp_all add: inv_pending pending_of_def)
  show ?thesis
  proof (cases "req_resolved (req_at g i)")
    case False
    with inv_told [OF inv, of i] i have silent: "filter (tells i) (told g) = []"
      by (cases "stage_at g i") (auto simp: announced_def)
    from inv_call_ok [OF inv i(1)] i(2) False
    have ok: "call_ok ((hitl_calls g ! i)\<lparr>call_req := resolve_request d (req_at g i)\<rparr>)"
      by (cases "stage_at g i") (auto simp: call_ok_def resolve_request_def)
    show ?thesis
      by (rule inv_change [OF inv i(1) _ _ ok])
        (use False Some i silent in \<open>auto simp: hitl_commit_def tell_def resolve_request_def announced_def Let_def\<close>)
  qed (simp add: hitl_commit_def Some inv)
qed (simp add: hitl_commit_def inv)

lemma set_stage_inv:
  assumes inv: "hitl_inv g" and i: "i < length (hitl_calls g)"
    and "stage_ok (req_at g i) s" "live s = live (stage_at g i)" "abandoned s = abandoned (stage_at g i)"
  shows "hitl_inv (set_stage i s g)"
  by (rule inv_change [OF inv i, where c = "(hitl_calls g ! i)\<lparr>call_stage := s\<rparr>"])
    (use assms inv_call_ok [OF inv i] inv_told [OF inv, of i] in \<open>auto simp: set_stage_def call_ok_def announced_def\<close>)

lemma finally_inv:
  assumes inv: "hitl_inv g" and i: "i < length (hitl_calls g)" and "live (stage_at g i)"
    and r: "result_ok (req_at g i) r"
    and unresolved: "req_resolved (req_at g i) \<or> (if failed then r \<noteq> Call_Cancelled else r = Call_Cancelled)"
  shows "hitl_inv (hitl_finally i failed r g)"
proof -
  let ?s = "if \<not> failed \<and> \<not> req_resolved (req_at g i) \<and> has_on_cancel g then Telling_Cancel r else Ended r"
  have "call_ok ((hitl_calls g ! i)\<lparr>call_stage := ?s\<rparr>)"
    using inv_call_ok [OF inv i] r unresolved by (auto simp: call_ok_def)
  moreover have "filter (tells i) (told g) = (if req_resolved (req_at g i) \<and> has_on_terminal g
      then [Told_Terminal i (req_decision (req_at g i))] else [])"
    using inv_told [OF inv, of i] i \<open>live (stage_at g i)\<close> by (cases "stage_at g i") (auto simp: announced_def)
  ultimately show ?thesis
    by (intro inv_change [OF inv i, where c = "(hitl_calls g ! i)\<lparr>call_stage := ?s\<rparr>"])
      (use assms in \<open>auto simp: hitl_finally_def Let_def set_stage_def tell_def announced_def\<close>)
qed

text \<open>What each operation leaves of the requests and of the table of calls.\<close>

named_theorems hitl_frame "what the operations of the guard leave unchanged"

lemma call_req_stage_update [simp]:
  "call_req (cs[j := (cs ! j)\<lparr>call_stage := s\<rparr>] ! i) = call_req (cs ! i)"
  by (cases "j < length cs"; cases "i = j") (simp_all add: list_update_beyond not_less)

lemma call_stage_req_update [simp]:
  "call_stage (cs[j := (cs ! j)\<lparr>call_req := q\<rparr>] ! i) = call_stage (cs ! i)"
  by (cases "j < length cs"; cases "i = j") (simp_all add: list_update_beyond not_less)

lemma frame_set_stage [hitl_frame]:
  "length (hitl_calls (set_stage j s g)) = length (hitl_calls g)"
  "req_at (set_stage j s g) i = req_at g i"
  "hitl_pending (set_stage j s g) = hitl_pending g"
  "has_on_terminal (set_stage j s g) = has_on_terminal g"
  by (simp_all add: set_stage_def)

lemma stage_set_stage [hitl_frame]:
  "j < length (hitl_calls g) \<Longrightarrow> stage_at (set_stage j s g) i = (if i = j then s else stage_at g i)"
  by (cases "i = j") (simp_all add: set_stage_def)

lemma frame_finally [hitl_frame]:
  "length (hitl_calls (hitl_finally j b r g)) = length (hitl_calls g)"
  "req_at (hitl_finally j b r g) i = req_at g i"
  "has_on_terminal (hitl_finally j b r g) = has_on_terminal g"
  "j < length (hitl_calls g) \<Longrightarrow> i \<noteq> j \<Longrightarrow> stage_at (hitl_finally j b r g) i = stage_at g i"
  by (simp_all add: hitl_finally_def Let_def tell_def frame_set_stage stage_set_stage)

lemma finally_stage:
  "i < length (hitl_calls g) \<Longrightarrow>
   stage_at (hitl_finally i b r g) i =
     (if \<not> b \<and> \<not> req_resolved (req_at g i) \<and> has_on_cancel g then Telling_Cancel r else Ended r)"
  by (simp add: hitl_finally_def Let_def tell_def frame_set_stage stage_set_stage)

lemma frame_commit [hitl_frame]:
  "length (hitl_calls (fst (hitl_commit rid d g))) = length (hitl_calls g)"
  "hitl_pending (fst (hitl_commit rid d g)) = hitl_pending g"
  "has_on_terminal (fst (hitl_commit rid d g)) = has_on_terminal g"
  "stage_at (fst (hitl_commit rid d g)) i = stage_at g i"
  by (simp_all add: hitl_commit_def tell_def Let_def split: option.splits)

lemma commit_req [hitl_frame]:
  assumes "i < length (hitl_calls g)"
  shows "req_at (fst (hitl_commit rid d g)) i =
     (if dget (hitl_pending g) rid = Some i \<and> \<not> req_resolved (req_at g i)
      then resolve_request d (req_at g i) else req_at g i)"
proof (cases "dget (hitl_pending g) rid")
  case (Some j)
  with assms show ?thesis by (cases "j = i") (simp_all add: hitl_commit_def tell_def Let_def)
qed (simp add: hitl_commit_def)

lemma commit_won:
  "snd (hitl_commit rid d g) \<longleftrightarrow>
   (\<exists>i. dget (hitl_pending g) rid = Some i \<and> \<not> req_resolved (req_at g i))"
  by (simp add: hitl_commit_def Let_def split: option.splits)

lemma resolve_request_simps [simp]:
  "req_id (resolve_request d q) = req_id q" "req_decision (resolve_request d q) = d" "req_resolved (resolve_request d q)"
  by (simp_all add: resolve_request_def)

lemma HITLRequest_simps [simp]:
  "req_id (HITLRequest rid a u b c) = rid" "\<not> req_resolved (HITLRequest rid a u b c)"
  "req_decision (HITLRequest rid a u b c) = TIMEOUT" "\<not> req_event (HITLRequest rid a u b c)"
  by (simp_all add: HITLRequest_def)

lemma register_calls [hitl_frame]:
  "length (hitl_calls (hitl_register q t g)) = Suc (length (hitl_calls g))"
  "i < length (hitl_calls g) \<Longrightarrow> hitl_calls (hitl_register q t g) ! i = hitl_calls g ! i"
  "req_at (hitl_register q t g) (length (hitl_calls g)) = q"
  by (auto simp: hitl_register_def nth_append)

subsection \<open>The invariant holds in every run\<close>

lemma register_inv:
  assumes inv: "hitl_inv g" and q: "\<not> req_resolved q" "\<not> req_event q" "req_decision q = TIMEOUT"
  shows "hitl_inv (hitl_register q t g)"
proof -
  let ?n = "length (hitl_calls g)" and ?g = "hitl_register q t g"
  have new: "hitl_calls ?g ! ?n = \<lparr>call_req = q, call_timeout = t, call_stage =
      (if req_id q \<in> dkeys (hitl_pending g) then Ended (Answered DENIED)
       else if has_notify g then Notifying else Waiting)\<rparr>"
    by (auto simp: hitl_register_def)
  have "dget (hitl_pending ?g) r = Some i \<longleftrightarrow> pending_of ?g r i" for r i
  proof (cases "i = ?n")
    case True
    have "dget (hitl_pending g) r \<noteq> Some ?n" using inv_pending [OF inv, of r ?n] by (simp add: pending_of_def)
    then show ?thesis by (auto simp: True pending_of_def new register_calls hitl_register_def)
  next
    case False
    then have "pending_of ?g r i \<longleftrightarrow> pending_of g r i"
      by (auto simp: pending_of_def register_calls less_Suc_eq)
    moreover have "req_id q \<notin> dkeys (hitl_pending g) \<Longrightarrow> \<not> pending_of g (req_id q) i"
      using inv_pending [OF inv, of "req_id q" i] by (metis domI dom_map_of_conv_image_fst)
    ultimately show ?thesis using False inv_pending [OF inv, of r i]
      by (auto simp: hitl_register_def)
  qed
  moreover have "call_ok (hitl_calls ?g ! ?n)" using q by (simp add: new call_ok_def)
  then have "\<forall>c \<in> set (hitl_calls ?g). call_ok c"
    using inv by (auto simp: hitl_inv_def hitl_register_def split: if_splits)
  moreover have "filter (tells i) (told ?g) = announced ?g i" for i
  proof -
    have "announced ?g i = announced g i" using q
      by (auto simp: announced_def less_Suc_eq_le register_calls new not_le nth_append hitl_register_def)
    then show ?thesis using inv_told [OF inv, of i] by (simp add: hitl_register_def)
  qed
  moreover have "dict_wf (hitl_pending ?g)" using inv_wf [OF inv] by (simp add: hitl_register_def)
  ultimately show ?thesis by (simp add: hitl_inv_def)
qed

lemma return_decision_inv:
  assumes "hitl_inv g" "i < length (hitl_calls g)" "live (stage_at g i)" "req_resolved (req_at g i)"
  shows "hitl_inv (return_decision i g)"
  unfolding return_decision_def using assms by (intro finally_inv) auto

lemma cancelled_inv:
  assumes "hitl_inv g" "i < length (hitl_calls g)" "live (stage_at g i)"
  shows "hitl_inv (hitl_finally i False Call_Cancelled g)"
  using assms by (intro finally_inv) auto

lemma times_out_resolved:
  assumes "hitl_inv g" "i < length (hitl_calls g)" "live (stage_at g i)"
  shows "req_resolved (req_at (fst (hitl_commit (req_id (req_at g i)) TIMEOUT g)) i)"
  using assms by (simp add: commit_req live_is_pending)

lemma wait_times_out_inv:
  assumes inv: "hitl_inv g" and i: "i < length (hitl_calls g)" and w: "stage_at g i = Waiting"
  shows "hitl_inv (wait_times_out i g)"
proof -
  obtain g1 won where c: "hitl_commit (req_id (req_at g i)) TIMEOUT g = (g1, won)" by fastforce
  have "hitl_inv g1" "req_resolved (req_at g1 i)" "i < length (hitl_calls g1)" "stage_at g1 i = Waiting"
    using commit_inv [OF inv, of "req_id (req_at g i)" TIMEOUT] times_out_resolved [OF inv i] w i
      frame_commit [of "req_id (req_at g i)" TIMEOUT g] by (simp_all add: c)
  then show ?thesis by (simp add: wait_times_out_def c set_stage_inv return_decision_inv)
qed

lemma step_inv: "hitl_step g e g' \<Longrightarrow> hitl_inv g \<Longrightarrow> hitl_inv g'"
proof (induction rule: hitl_step.induct)
  case (step_request fresh rid reason url detail category timeout g g')
  then show ?case by (auto simp: request_approval_def Let_def register_inv split: sum.splits)
next
  case (step_notify i g n)
  then show ?case
    by (cases n) (simp_all add: set_stage_inv cancelled_inv finally_inv)
next
  case (step_wait i g w)
  moreover have "req_event (req_at g i) = req_resolved (req_at g i)"
    using inv_call_ok [OF step_wait.prems step_wait.hyps(1)] by (simp add: call_ok_def)
  ultimately show ?case
    by (cases w) (simp_all add: wait_times_out_inv cancelled_inv return_decision_inv)
next
  case (step_terminal i g ob)
  moreover have "req_resolved (req_at g i)"
    using inv_call_ok [OF step_terminal.prems step_terminal.hyps(1)] step_terminal.hyps(2) by (simp add: call_ok_def)
  ultimately show ?case by (simp add: terminal_told_def cancelled_inv return_decision_inv)
next
  case (step_cancel i g r ob)
  then have "r = Call_Cancelled"
    using inv_call_ok [OF step_cancel.prems step_cancel.hyps(1)] by (simp add: call_ok_def)
  with step_cancel show ?case by (simp add: cancel_told_def set_stage_inv)
next
  case (step_respond g rid approved)
  then show ?case by (simp add: respond_def commit_inv)
qed

lemma hitl_init_inv: "hitl_init a b c d e f = Inr g \<Longrightarrow> hitl_inv g"
  by (auto simp: hitl_init_def hitl_inv_def pending_of_def announced_def split: if_splits)

lemma run_inv: "hitl_run g es g' \<Longrightarrow> hitl_inv g \<Longrightarrow> hitl_inv g'"
  by (induction rule: hitl_run.induct) (auto dest: step_inv)

subsection \<open>What a step does to a request\<close>

lemma return_decision_frame [hitl_frame]:
  "length (hitl_calls (return_decision j g)) = length (hitl_calls g)"
  "req_at (return_decision j g) i = req_at g i"
  by (simp_all add: return_decision_def hitl_frame)

lemma wait_times_out_frame [hitl_frame]:
  "length (hitl_calls (wait_times_out j g)) = length (hitl_calls g)"
  "req_at (wait_times_out j g) i = req_at (fst (hitl_commit (req_id (req_at g j)) TIMEOUT g)) i"
  by (simp_all add: wait_times_out_def case_prod_beta hitl_frame)

lemma request_calls:
  assumes "request_approval fresh rid reason url detail category timeout g = Inr g'"
  shows "length (hitl_calls g') = Suc (length (hitl_calls g))"
    and "i < length (hitl_calls g) \<Longrightarrow> hitl_calls g' ! i = hitl_calls g ! i"
    and "\<not> req_resolved (req_at g' (length (hitl_calls g)))"
  using assms by (auto simp: request_approval_def Let_def register_calls split: sum.splits)

lemma step_grows: "hitl_step g e g' \<Longrightarrow> length (hitl_calls g) \<le> length (hitl_calls g')"
proof (induction rule: hitl_step.induct)
  case (step_request fresh rid reason url detail category timeout g g')
  then show ?case by (simp add: request_calls(1))
next
  case (step_notify i g n)
  then show ?case by (cases n) (simp_all add: hitl_frame)
next
  case (step_wait i g w)
  then show ?case by (cases w) (simp_all add: hitl_frame)
qed (simp_all add: terminal_told_def cancel_told_def respond_def hitl_frame)

text \<open>The request of a call changes in one step only: an answer of the operator that finds it pending
  and unresolved, or its own time-out.\<close>

lemma step_request_at:
  assumes "hitl_step g e g'" "hitl_inv g" "i < length (hitl_calls g)"
  shows "req_at g' i = req_at g i
    \<or> \<not> req_resolved (req_at g i) \<and> dget (hitl_pending g) (req_id (req_at g i)) = Some i
      \<and> ((\<exists>ok. e = Responded (req_id (req_at g i)) ok
             \<and> req_at g' i = resolve_request (if ok then APPROVED else DENIED) (req_at g i))
         \<or> e = Wait_Ended i Wait_TimeoutError \<and> req_at g' i = resolve_request TIMEOUT (req_at g i))"
  using assms
proof (induction rule: hitl_step.induct)
  case (step_request fresh rid reason url detail category timeout g g')
  then show ?case by (simp add: request_calls(2))
next
  case (step_notify j g n)
  then show ?case by (cases n) (simp_all add: hitl_frame)
next
  case (step_wait j g w)
  then have own: "dget (hitl_pending g) (req_id (req_at g j)) = Some j" by (simp add: live_is_pending)
  with step_wait.prems show ?case by (cases w) (auto simp: hitl_frame)
next
  case (step_respond g rid approved)
  then have "dget (hitl_pending g) rid = Some i \<Longrightarrow> req_id (req_at g i) = rid"
    by (simp add: inv_pending pending_of_def)
  with step_respond show ?case by (auto simp: respond_def commit_req)
qed (simp_all add: terminal_told_def cancel_told_def hitl_frame)

lemma step_new_call:
  assumes "hitl_step g e g'" "length (hitl_calls g) \<le> i" "i < length (hitl_calls g')"
  shows "\<not> req_resolved (req_at g' i)"
  using assms
proof (induction rule: hitl_step.induct)
  case (step_request fresh rid reason url detail category timeout g g')
  then have "i = length (hitl_calls g)" using request_calls(1) [OF step_request.hyps] by simp
  then show ?case using request_calls(3) [OF step_request.hyps] by simp
next
  case (step_notify j g n)
  then show ?case by (cases n) (simp_all add: hitl_frame)
next
  case (step_wait j g w)
  then show ?case by (cases w) (simp_all add: hitl_frame)
qed (auto simp: terminal_told_def cancel_told_def respond_def hitl_frame split: if_splits)

lemma run_resolved_fixed:
  assumes "hitl_run g es g'" "hitl_inv g" "i < length (hitl_calls g)" "req_resolved (req_at g i)"
  shows "i < length (hitl_calls g') \<and> req_at g' i = req_at g i"
  using assms
proof (induction rule: hitl_run.induct)
  case (run_more g es g' e g'')
  then show ?case using step_request_at [OF run_more.hyps(2) run_inv [OF run_more.hyps(1)], of i]
      step_grows [OF run_more.hyps(2)] by auto
qed simp

text \<open>An approval in the memory of the guard has its click in the history.\<close>

lemma approval_has_click:
  assumes "hitl_run g0 es g" "hitl_inv g0" "hitl_calls g0 = []"
    and "i < length (hitl_calls g)" "req_resolved (req_at g i)" "req_decision (req_at g i) = APPROVED"
  shows "\<exists>before after g1. es = before @ Responded (req_id (req_at g i)) True # after
    \<and> hitl_run g0 before g1 \<and> dget (hitl_pending g1) (req_id (req_at g i)) = Some i
    \<and> \<not> req_resolved (req_at g1 i)"
  using assms
proof (induction rule: hitl_run.induct)
  case (run_more g es g' e g'')
  have inv: "hitl_inv g'" using run_inv [OF run_more.hyps(1)] run_more.prems(1) .
  have i: "i < length (hitl_calls g')"
    using step_new_call [OF run_more.hyps(2), of i] run_more.prems(3,4) by (meson not_le)
  from step_request_at [OF run_more.hyps(2) inv i] show ?case
  proof (elim disjE conjE exE)
    assume same: "req_at g'' i = req_at g' i"
    with run_more.IH run_more.prems i obtain before after g1
      where "es = before @ Responded (req_id (req_at g' i)) True # after" "hitl_run g before g1"
        "dget (hitl_pending g1) (req_id (req_at g' i)) = Some i" "\<not> req_resolved (req_at g1 i)" by metis
    then show ?case by (intro exI [of _ before] exI [of _ "after @ [e]"]) (auto simp: same)
  next
    fix ok
    assume "e = Responded (req_id (req_at g' i)) ok" "\<not> req_resolved (req_at g' i)"
      "dget (hitl_pending g') (req_id (req_at g' i)) = Some i"
      "req_at g'' i = resolve_request (if ok then APPROVED else DENIED) (req_at g' i)"
    moreover from this have ok using run_more.prems(5) by (cases ok) simp_all
    ultimately show ?case using run_more.hyps(1) by (intro exI [of _ es] exI [of _ "[]"]) auto
  next
    assume "req_at g'' i = resolve_request TIMEOUT (req_at g' i)"
    then show ?case using run_more.prems(5) by simp
  qed
qed simp

subsection \<open>A call is resumed at most three times\<close>

fun resumes :: "nat \<Rightarrow> hitl_event \<Rightarrow> bool" where
  "resumes i (Notify_Ended j n) = (i = j)"
| "resumes i (Wait_Ended j w) = (i = j)"
| "resumes i (Terminal_Told j ob) = (i = j)"
| "resumes i (Cancel_Told j ob) = (i = j)"
| "resumes i (Requested fresh rid reason url detail category timeout) = False"
| "resumes i (Responded rid ok) = False"

lemma return_decision_stage:
  "j < length (hitl_calls g) \<Longrightarrow> i \<noteq> j \<Longrightarrow> stage_at (return_decision j g) i = stage_at g i"
  "j < length (hitl_calls g) \<Longrightarrow> req_resolved (req_at g j) \<Longrightarrow>
   stage_at (return_decision j g) j = Ended (Answered (req_decision (req_at g j)))"
  by (simp_all add: return_decision_def hitl_frame finally_stage)

lemma wait_times_out_stage:
  assumes inv: "hitl_inv g" and j: "j < length (hitl_calls g)" and w: "stage_at g j = Waiting"
  shows "i \<noteq> j \<Longrightarrow> stage_at (wait_times_out j g) i = stage_at g i"
    and "stage_edge Waiting (stage_at (wait_times_out j g) j)"
proof -
  let ?g = "fst (hitl_commit (req_id (req_at g j)) TIMEOUT g)"
  have r: "req_resolved (req_at ?g j)" by (rule times_out_resolved) (simp_all add: inv j w)
  have f: "j < length (hitl_calls ?g)" "stage_at ?g i = stage_at g i" for i by (simp_all add: hitl_frame j)
  show "stage_at (wait_times_out j g) i = stage_at g i" if "i \<noteq> j"
    using that f by (simp add: wait_times_out_def case_prod_beta stage_set_stage return_decision_stage(1))
  show "stage_edge Waiting (stage_at (wait_times_out j g) j)"
    using f r by (simp add: wait_times_out_def case_prod_beta stage_set_stage return_decision_stage(2))
qed

lemma step_stage:
  assumes "hitl_step g e g'" "hitl_inv g" "i < length (hitl_calls g)"
  shows "if resumes i e then stage_edge (stage_at g i) (stage_at g' i) else stage_at g' i = stage_at g i"
  using assms
proof (induction rule: hitl_step.induct)
  case (step_request fresh rid reason url detail category timeout g g')
  then show ?case by (simp add: request_calls(2))
next
  case (step_notify j g n)
  then show ?case by (cases n) (auto simp: hitl_frame finally_stage)
next
  case (step_wait j g w)
  then have "req_event (req_at g j) = req_resolved (req_at g j)"
    using inv_call_ok [OF step_wait.prems(1) step_wait.hyps(1)] by (simp add: call_ok_def)
  with step_wait wait_times_out_stage [OF step_wait.prems(1) step_wait.hyps(1,2)] show ?case
    by (cases w; cases "i = j") (auto simp: hitl_frame finally_stage return_decision_stage)
next
  case (step_terminal j g ob)
  then have "req_resolved (req_at g j)"
    using inv_call_ok [OF step_terminal.prems(1) step_terminal.hyps(1)] by (simp add: call_ok_def)
  with step_terminal show ?case
    by (auto simp: terminal_told_def hitl_frame finally_stage return_decision_stage)
qed (auto simp: cancel_told_def respond_def hitl_frame)

lemma run_resumes:
  assumes "hitl_run g es g'" "hitl_inv g" "i < length (hitl_calls g)"
  shows "length (filter (resumes i) es) + stage_rank (stage_at g' i) \<le> stage_rank (stage_at g i)
    \<and> i < length (hitl_calls g')"
  using assms
proof (induction rule: hitl_run.induct)
  case (run_more g es g' e g'')
  have i: "i < length (hitl_calls g')" using run_more by blast
  show ?case
    using step_stage [OF run_more.hyps(2) run_inv [OF run_more.hyps(1) run_more.prems(1)] i]
      run_more step_grows [OF run_more.hyps(2)] call_life.edge_rank [of "stage_at g' i" "stage_at g'' i"]
    by (auto split: if_splits)
qed simp

lemma ended_stays:
  assumes "hitl_run g es g'" "hitl_inv g" "i < length (hitl_calls g)" "stage_at g i = Ended r"
  shows "stage_at g' i = Ended r"
  using assms
proof (induction rule: hitl_run.induct)
  case (run_more g es g' e g'')
  have i: "i < length (hitl_calls g')" using run_resumes [OF run_more.hyps(1)] run_more.prems by simp
  then show ?case using step_stage [OF run_more.hyps(2) run_inv [OF run_more.hyps(1) run_more.prems(1)] i]
      run_more call_life.terminal_no_edge [of "stage_at g' i"] by (auto split: if_splits)
qed simp

subsection \<open>Replaying a history\<close>

fun hitl_next :: "hitl_event \<Rightarrow> hitl_guard \<Rightarrow> hitl_guard option" where
  "hitl_next (Requested fresh rid reason url detail category timeout) g =
     (case request_approval fresh rid reason url detail category timeout g of
        Inl e \<Rightarrow> Some g | Inr g' \<Rightarrow> Some g')"
| "hitl_next (Notify_Ended i n) g =
     (if i < length (hitl_calls g) \<and> stage_at g i = Notifying then Some (notify_ends i n g) else None)"
| "hitl_next (Wait_Ended i w) g =
     (if i < length (hitl_calls g) \<and> stage_at g i = Waiting \<and> (w \<noteq> Wait_Woken \<or> req_event (req_at g i))
      then Some (wait_ends i w g) else None)"
| "hitl_next (Terminal_Told i ob) g =
     (if i < length (hitl_calls g) \<and> stage_at g i = Telling_Terminal then Some (terminal_told i ob g) else None)"
| "hitl_next (Cancel_Told i ob) g =
     (if i < length (hitl_calls g)
      then (case stage_at g i of Telling_Cancel r \<Rightarrow> Some (cancel_told i r ob g) | _ \<Rightarrow> None) else None)"
| "hitl_next (Responded rid ok) g = Some (fst (respond rid ok g))"

lemma step_iff_next: "hitl_step g e g' \<longleftrightarrow> hitl_next e g = Some g'"
proof
  show "hitl_step g e g' \<Longrightarrow> hitl_next e g = Some g'"
    by (induction rule: hitl_step.induct) simp_all
  show "hitl_next e g = Some g' \<Longrightarrow> hitl_step g e g'"
    by (cases e) (auto intro: hitl_step.intros split: if_splits sum.splits stage.splits)
qed

fun hitl_replay :: "hitl_event list \<Rightarrow> hitl_guard \<Rightarrow> hitl_guard option" where
  "hitl_replay [] g = Some g"
| "hitl_replay (e # es) g = (case hitl_next e g of None \<Rightarrow> None | Some g' \<Rightarrow> hitl_replay es g')"

lemma run_Cons: "hitl_run g1 es g' \<Longrightarrow> hitl_step g e g1 \<Longrightarrow> hitl_run g (e # es) g'"
proof (induction rule: hitl_run.induct)
  case (run_start g1)
  then show ?case using run_more [OF hitl_run.run_start] by fastforce
next
  case (run_more g1 es g' e' g'')
  then show ?case using hitl_run.run_more [of g "e # es" g' e' g''] by simp
qed

lemma replay_run: "hitl_replay es g = Some g' \<Longrightarrow> hitl_run g es g'"
proof (induction es arbitrary: g)
  case (Cons e es)
  then show ?case by (auto simp: step_iff_next split: option.splits intro!: run_Cons [of _ es g' g e])
qed (simp add: run_start)

subsection \<open>Properties\<close>

text \<open>C10: in every history of a guard, however its coroutines interleave and whatever its callbacks do, a
  request for approval answers \<open>APPROVED\<close> only if the operator approved that very request: the history
  holds an approving answer to its id, given while this request was the pending one of that id and was
  still undecided. No time-out, failure, duplicate or cancellation ever counts as an approval.\<close>

theorem approval_needs_click:
  assumes "hitl_init notify timeout on_terminal on_cancel observer notice = Inr g0" "hitl_run g0 es g"
    and "i < length (hitl_calls g)" "stage_at g i = Ended (Answered APPROVED)"
  shows "\<exists>before after g1. es = before @ Responded (req_id (req_at g i)) True # after
    \<and> hitl_run g0 before g1 \<and> dget (hitl_pending g1) (req_id (req_at g i)) = Some i
    \<and> \<not> req_resolved (req_at g1 i)"
proof (rule approval_has_click)
  have inv: "hitl_inv g0" using assms(1) by (rule hitl_init_inv)
  with assms(2) have "hitl_inv g" by (rule run_inv)
  then have "call_ok (hitl_calls g ! i)" using assms(3) by (rule inv_call_ok)
  then show "req_resolved (req_at g i)" "req_decision (req_at g i) = APPROVED"
    using assms(4) by (auto simp: call_ok_def split: if_splits)
  show "hitl_calls g0 = []" using assms(1) by (auto simp: hitl_init_def split: if_splits)
qed (use assms hitl_init_inv in auto)

text \<open>C11: a decision is taken once: whatever happens after a request is resolved (late clicks, its
  time-out, failures, cancellations), its decision stays, the observer of decisions has heard of it exactly once and with
  that decision, the call that waits answers it or \<open>TIMEOUT\<close>, and it is resumed at most three times more.\<close>

theorem decision_once:
  assumes "hitl_init notify timeout on_terminal on_cancel observer notice = Inr g0" "hitl_run g0 es g"
    and "i < length (hitl_calls g)" "req_resolved (req_at g i)" "hitl_run g later g'"
  shows "req_at g' i = req_at g i
    \<and> filter (tells i) (told g') =
        (if has_on_terminal g' then [Told_Terminal i (req_decision (req_at g i))] else [])
    \<and> (\<forall>d. stage_at g' i = Ended (Answered d) \<longrightarrow> d = req_decision (req_at g i) \<or> d = TIMEOUT)
    \<and> length (filter (resumes i) later) \<le> 3"
proof -
  have inv: "hitl_inv g" using run_inv [OF assms(2) hitl_init_inv [OF assms(1)]] .
  have inv': "hitl_inv g'" using assms(5) inv by (rule run_inv)
  have fixed: "i < length (hitl_calls g')" "req_at g' i = req_at g i"
    using run_resolved_fixed [OF assms(5) inv assms(3,4)] by simp_all
  have "stage_rank (stage_at g i) \<le> 3" by (cases "stage_at g i") simp_all
  then have "length (filter (resumes i) later) \<le> 3"
    using run_resumes [OF assms(5) inv assms(3)] by simp
  moreover have "filter (tells i) (told g') =
      (if has_on_terminal g' then [Told_Terminal i (req_decision (req_at g i))] else [])"
    using inv_told [OF inv', of i] fixed assms(4) by (simp add: announced_def)
  ultimately show ?thesis
    using inv_call_ok [OF inv' fixed(1)] fixed(2) assms(4) by (auto simp: call_ok_def)
qed

text \<open>C12: the dictionary of pending requests holds an id exactly while one call with that id is
  waiting, on every path out of it, so an id never stays taken; and an answer of the operator is accepted
  exactly when a waiting, undecided call has that id, so a late click is never acknowledged.\<close>

theorem pending_exact:
  assumes "hitl_init notify timeout on_terminal on_cancel observer notice = Inr g0" "hitl_run g0 es g"
  shows "(dget (hitl_pending g) rid = Some i \<longleftrightarrow>
      i < length (hitl_calls g) \<and> req_id (req_at g i) = rid \<and> live (stage_at g i))
    \<and> (snd (respond rid ok g) \<longleftrightarrow> (\<exists>j < length (hitl_calls g).
      req_id (req_at g j) = rid \<and> live (stage_at g j) \<and> \<not> req_resolved (req_at g j)))"
proof -
  have "hitl_inv g" using run_inv [OF assms(2) hitl_init_inv [OF assms(1)]] .
  then show ?thesis by (auto simp: inv_pending pending_of_def respond_def commit_won)
qed

subsection \<open>Examples\<close>

definition ex_guard :: hitl_guard where
  "ex_guard = \<lparr>has_notify = True, guard_timeout = Finite 300, has_on_terminal = True, has_on_cancel = True,
     observer_timeout = Finite 2, has_notice = False, hitl_pending = [], hitl_calls = [], told = []\<rparr>"

definition ex_ask :: hitl_event where
  "ex_ask = Requested ''u'' (Some ''dl'') ''why'' None [] ''scope'' None"

definition ex_request :: "bool \<Rightarrow> decision \<Rightarrow> hitl_request" where
  "ex_request r d = \<lparr>req_id = ''dl'', req_reason = ''why'', req_url = None, req_detail = [],
     req_category = ''scope'', req_event = r, req_decision = d, req_resolved = r\<rparr>"

definition ex_after :: "(string, nat) dict \<Rightarrow> hitl_request \<Rightarrow> stage \<Rightarrow> observer_call list \<Rightarrow> hitl_guard" where
  "ex_after p q s t = ex_guard\<lparr>hitl_pending := p,
     hitl_calls := [\<lparr>call_req = q, call_timeout = Finite 300, call_stage = s\<rparr>], told := t\<rparr>"

lemmas ex_hitl_defs = ex_guard_def ex_ask_def ex_request_def ex_after_def request_approval_def
  effective_timeout_def hitl_register_def HITLRequest_def respond_def hitl_commit_def resolve_request_def tell_def
  set_stage_def return_decision_def hitl_finally_def wait_times_out_def Let_def

lemma ex_guard_init: "hitl_init True (Finite 300) True True (Finite 2) False = Inr ex_guard"
  by (simp add: hitl_init_def ex_guard_def)

text \<open>The operator clicks while the prompt is still being sent.\<close>

lemma ex_clicked: "hitl_run ex_guard [ex_ask, Responded ''dl'' True]
   (ex_after [(''dl'', 0)] (ex_request True APPROVED) Notifying [Told_Terminal 0 APPROVED])"
  by (rule replay_run) (simp add: ex_hitl_defs)

lemma ex_clicked_on: "hitl_run
   (ex_after [(''dl'', 0)] (ex_request True APPROVED) Notifying [Told_Terminal 0 APPROVED])
   [Notify_Ended 0 Notify_Returns, Wait_Ended 0 Wait_Woken]
   (ex_after [] (ex_request True APPROVED) (Ended (Answered APPROVED)) [Told_Terminal 0 APPROVED])"
  by (rule replay_run) (simp add: ex_hitl_defs)

lemma ex_approved: "hitl_run ex_guard
   [ex_ask, Responded ''dl'' True, Notify_Ended 0 Notify_Returns, Wait_Ended 0 Wait_Woken]
   (ex_after [] (ex_request True APPROVED) (Ended (Answered APPROVED)) [Told_Terminal 0 APPROVED])"
  by (rule replay_run) (simp add: ex_hitl_defs)

text \<open>When \<open>notify_fn\<close> fails after that click, the click was acknowledged and the observer was told of
  an approval, but the call answers \<open>TIMEOUT\<close>: the action does not go on, and the acknowledgement was false.\<close>

lemma acknowledged_click_lost: "hitl_run ex_guard
   [ex_ask, Responded ''dl'' True, Notify_Ended 0 Notify_Exception]
   (ex_after [] (ex_request True APPROVED) (Ended (Answered TIMEOUT)) [Told_Terminal 0 APPROVED])
   \<and> respond_ack ''dl'' True Observer_Returns
       (ex_after [(''dl'', 0)] (ex_request False TIMEOUT) Notifying []) = Some True"
  by (intro conjI replay_run) (simp_all add: ex_hitl_defs respond_ack_def)

theorem approval_needs_click_witness:
  "\<exists>before after g1. [ex_ask, Responded ''dl'' True, Notify_Ended 0 Notify_Returns, Wait_Ended 0 Wait_Woken]
      = before @ Responded ''dl'' True # after
    \<and> hitl_run ex_guard before g1 \<and> dget (hitl_pending g1) ''dl'' = Some 0 \<and> \<not> req_resolved (req_at g1 0)"
  using approval_needs_click [OF ex_guard_init ex_approved, of 0] by (simp add: ex_after_def ex_request_def)

theorem decision_once_witness:
  "length (filter (resumes 0) [Notify_Ended 0 Notify_Returns, Wait_Ended 0 Wait_Woken]) \<le> 3
   \<and> filter (tells 0) (told (ex_after [] (ex_request True APPROVED) (Ended (Answered APPROVED)) [Told_Terminal 0 APPROVED]))
       = [Told_Terminal 0 APPROVED]"
  using decision_once [OF ex_guard_init ex_clicked _ _ ex_clicked_on, of 0]
  by (simp add: ex_after_def ex_request_def ex_guard_def)

theorem pending_exact_witness:
  "snd (respond ''dl'' True (ex_after [] (ex_request True APPROVED) (Ended (Answered APPROVED)) [Told_Terminal 0 APPROVED]))
   = False"
  using pending_exact [OF ex_guard_init ex_approved, of "''dl''" 0 True] by (auto simp: ex_after_def)

end
