(* ===== verification/Spec2Isabelle.thy ===== *)
theory Spec2Isabelle
  imports Tool_State_Machine Agent_Guardrails Mo2_State Preflight Staging_Journal Undo Protocol_Examples Hitl_Guard
begin

text \<open>
  Sky-Claw is an agent that manages the mods of a game: it runs sorting and patching tools on the
  files of an installation, on behalf of a language model. What it must never do is leave the
  installation in a state nobody asked for. This development models the parts of
  \<^verbatim>\<open>src/sky_claw\<close> that carry that promise, and proves what they guarantee.

  \<^bold>\<open>How the parts interact.\<close> A request of the agent passes the guards (loop guardrail,
  token circuit breaker), becomes a task of the tool state machine and takes an idempotency key.
  Before a tool may change files the preflight runs the sensors over the load order. The tool then
  runs inside \<^verbatim>\<open>SnapshotTransactionLock\<close>: a lease with a fencing token, copies of the target
  files, and an exit that restores them when the tool fails, unless the exception vetoes it.
  What was done is logged in the operation journal, from which the rollback manager can undo
  it later; rituals in the sandbox log through a double of the journal that commits only on
  promotion. Mod installers resolve their options with the FOMOD resolver, which asks the plugin
  state provider what is installed; a run of LOOT is judged by its witness and its load order.

  What the agent may not decide alone waits for the operator in the human-in-the-loop guard
  (\<^verbatim>\<open>app/security/hitl.py\<close>), which many coroutines share.

  Apart from tools, a Golden copy of the game is protected by access lists (\<^verbatim>\<open>local/runtime_vault\<close>): an
  authorized plan names every node with the descriptor it had, an exclusive lock keeps other operations
  away, the mutation executor changes the nodes
  bottom-up, a durable journal records the intent before and the completion after each change, and a
  failure restores what was changed, top-down. The finalization verifies the result, archives the plan as a backup,
  commits and gives the lock back. A new process recovers what a crash interrupted, from the
  plan and the journal alone.

  \<^bold>\<open>The theories.\<close> Each opens with a note on what it holds; names of definitions are those of the
  code where the logic allows them.

  \<^item> \<open>Sky_Prelude\<close>: Python dicts as association lists without duplicates (\<open>dget\<close>, \<open>dset\<close>, \<open>ddel\<close>),
    decimal printing, case folding, stripping and splitting of text, with their lemmas.
  \<^item> \<open>Json_Text\<close>: JSON values and their canonical text (\<^verbatim>\<open>json.dumps(sort_keys=True)\<close>).
  \<^item> \<open>Closed_Fsm\<close>: the interface of a closed state machine, a table of edges with a rank that falls
    along them; interpreted for the tool tasks and for the transactions of the journal.
  \<^item> \<open>Tool_State_Machine\<close>: \<^verbatim>\<open>app/orchestrator/tool_state_machine.py\<close>. A step relation over all
    operations gives the life of a task; a task that ended is never changed. The idempotency guard
    grants a key to one task at a time.
  \<^item> \<open>Agent_Guardrails\<close>: \<^verbatim>\<open>app/security/loop_guardrail.py\<close> and
    \<^verbatim>\<open>app/agent/token_circuit_breaker.py\<close>. Detection of repetition and oscillation is exact and
    always happens; an open circuit rejects, a half-open one lets one probe through.
  \<^item> \<open>Fomod_Resolver\<close>: \<^verbatim>\<open>local/fomod/resolver.py\<close> and \<^verbatim>\<open>models.py\<close>. The choices of each kind of
    group, the effective types of plugins, the order of the installed files.
  \<^item> \<open>Mo2_State\<close>: \<^verbatim>\<open>local/fomod/plugin_state.py\<close>. The incremental index refines a direct reading
    of the installation, through the interface \<open>state_provider\<close>.
  \<^item> \<open>Plugin_Header\<close>: \<^verbatim>\<open>local/validators/plugin_header.py\<close>, over 8-bit words: the parser
    inverts an encoder of headers and never reads past the bound.
  \<^item> \<open>Plugin_Sensors\<close>: \<^verbatim>\<open>plugin_limits.py\<close>, \<^verbatim>\<open>missing_masters.py\<close>, \<^verbatim>\<open>master_order.py\<close>. Each
    sensor equals a declarative description of the condition it looks for.
  \<^item> \<open>Loot_Outcome\<close>: \<^verbatim>\<open>local/loot/outcome.py\<close>, \<^verbatim>\<open>execution_witness.py\<close>, \<^verbatim>\<open>version.py\<close>.
  \<^item> \<open>Preflight\<close>: \<^verbatim>\<open>local/validators/preflight.py\<close> and four small sensors. The run blocks mutations
    exactly when one of the listed reasons holds.
  \<^item> \<open>Lease_Store\<close>: the lease table of \<^verbatim>\<open>app/db/locks.py\<close>. The interface \<open>fenced_store\<close> states what
    a store with fencing tokens promises; the table interprets it.
  \<^item> \<open>Snapshot_Lock\<close>: the transaction lock of \<^verbatim>\<open>app/db/locks.py\<close>, the copies of
    \<^verbatim>\<open>snapshot_manager.py\<close> and the veto of \<^verbatim>\<open>rollback_veto.py\<close>.
  \<^item> \<open>Journal\<close>: \<^verbatim>\<open>app/db/journal.py\<close> and \<^verbatim>\<open>journal_contracts.py\<close>. The interface \<open>tx_journal\<close> is what
    the context manager \<^verbatim>\<open>transaction()\<close> relies on; its lemma says how a block ends.
  \<^item> \<open>Staging_Journal\<close>: the double of the journal for the sandbox, which interprets the same
    interface, and the resolution in \<^verbatim>\<open>execute_synthesis.py\<close>.
  \<^item> \<open>Undo\<close>: \<^verbatim>\<open>app/db/rollback_manager.py\<close>.
  \<^item> \<open>Utf8_Text\<close>, \<open>Json_Parse\<close>, \<open>Json_Ascii\<close>: \<^verbatim>\<open>str.strip\<close>, UTF-8, \<^verbatim>\<open>json.loads\<close>, and \<^verbatim>\<open>json.dumps\<close> with
    and without \<^verbatim>\<open>ensure_ascii\<close>; reading inverts both ways of printing.
  \<^item> \<open>Protection_Journal\<close>: \<^verbatim>\<open>protection_journal.py\<close>. A crash at any byte of a write leaves a journal that
    is torn or a prefix of the history; COMMITTED implies all four gates; nodes read are confined.
  \<^item> \<open>Vault_Plan\<close>: \<^verbatim>\<open>golden_protection_plan.py\<close>, \<^verbatim>\<open>authorized_plan.py\<close>, \<^verbatim>\<open>golden_backup_archive.py\<close>,
    as their users read them, and the two orders of \<^verbatim>\<open>mutation_executor.py\<close>.
  \<^item> \<open>Protection_Store\<close>: \<^verbatim>\<open>protection_journal_store.py\<close>. An invariant ties the file's bytes to the records;
    a write of unknown durability poisons the store for good; permits imply durable intents.
  \<^item> \<open>Protection_Runs\<close>: what sequences of operations of that store do, shared by its clients.
  \<^item> \<open>Mutation_Executor\<close>: \<^verbatim>\<open>mutation_executor.py\<close>. A failed apply restores every descriptor or says honestly
    that it did not; a change is never missing from the log; without obstacles the apply completes.
  \<^item> \<open>Recovery\<close>: \<^verbatim>\<open>recovery_orchestrator.py\<close>. A recovery changes only nodes that the log names, releases the
    lock only when nothing is left to do, and an apply stopped at any call ends as before or complete.
  \<^item> \<open>Plan_Codec\<close>: the plan as a file (\<^verbatim>\<open>authorized_plan.py\<close>, \<^verbatim>\<open>authorized_plan_store.py\<close>), through the interface
    \<open>canonical_codec\<close>: a file is accepted only if it is byte for byte what the plan it describes is written as.
  \<^item> \<open>Golden_Backup\<close>: the backup manifest of \<^verbatim>\<open>golden_backup_archive.py\<close> as a file, bound to its plan, and its
    publication, which creates it once and never replaces another.
  \<^item> \<open>Golden_Lock\<close>: \<^verbatim>\<open>golden_mutation_lock.py\<close>. Nobody takes the lock from a live or unreadable owner, and an
    orphan goes to its own operation only; a retained lock holds whatever others try, a released one is free.
  \<^item> \<open>Finalization\<close>: \<^verbatim>\<open>finalization_orchestrator.py\<close>. COMMITTED is reported only with all gates passed, a backup
    that proves the plan and a journal that says so; a gate that fails asks for the rollback; the lock is given back
    after a commit only; without obstacles, from any of its phases, it commits.
  \<^item> \<open>Protection_Protocol\<close>: executor, finalization and recovery in sequence: what is applied is committed, what is
    rejected is restored.
  \<^item> \<open>Hitl_Guard\<close>: \<^verbatim>\<open>app/security/hitl.py\<close> as a step relation. Only a click on the pending request approves it, a
    decision is taken and announced once, and an id is taken exactly while a call waits on it.
  \<^item> \<open>Protection_Examples\<close>, \<open>Executor_Examples\<close>, \<open>Recovery_Examples\<close>, \<open>Vault_Examples\<close>, \<open>Protocol_Examples\<close>: one concrete operation on which these properties are applied.

  \<^bold>\<open>Conventions.\<close> A method is a function from its state to its result and the new state; an
  exception is the left value of a sum. What the code reads from outside is an argument: clocks,
  identifiers, whether SQLite or a file operation failed, what a failed copy left behind, the
  digest function. Nothing is assumed of the digest unless a theorem names it. An asyncio method
  whose body runs under one lock or in one SQLite transaction is one step; concurrency between
  holders of leases is the interleaving of steps of several agents in \<open>run_locks\<close>.

  \<^bold>\<open>Bounds.\<close> Loops of the code are recursions on lists. The walk over the chain of exceptions takes
  32 steps, the bound of the code. No recursion uses fuel that the code does not have.

  \<^bold>\<open>Not modelled.\<close> The handoffs and the evidence of artifacts in the journal, the primitives that
  shield the acquisition of a lease from cancellation, the retention of snapshots, the
  parsers of XML, the processes of external tools and of the virtual file system, the graphical
  interface, the conversation with the language model, the calls to Windows of \<^verbatim>\<open>runtime_vault\<close> (they
  are the port of the executor and the outcomes of the store's kernel), the package \<^verbatim>\<open>frozen_runtime\<close>, and, of
  \<^verbatim>\<open>app/security/hitl.py\<close>, the test of a URL against the hosts out of scope, which no code of the
  package calls.
\<close>

end
